(* ===== verification/Prelude.thy ===== *)
theory Prelude
  imports Main "HOL-Library.Word" "HOL-Library.Signed_Division"
begin

text \<open>
  Shared vocabulary of the development: the machine integers of the C++ sources as
  integers with their wrap-around written out, the C string comparisons the server
  uses, the interfaces (locales) the components are proved against, and the generic
  lemmas on lists that several components need.
\<close>

named_theorems c_int_defs \<open>wrap-around functions of the C integer types\<close>
named_theorems c_int_simps \<open>wrap-around functions are the identity in range\<close>

section \<open>C integers\<close>

text \<open>
  An \<open>unsigned int\<close>, \<open>uint64_t\<close>, \<open>int\<close> or \<open>longlong\<close> of the
  sources is an \<open>int\<close> of the model; a conversion or an arithmetic operation that may leave
  the range of its C type is wrapped by the function named after that type. Division
  and remainder of signed C operands truncate towards zero: they are \<open>sdiv\<close> and
  \<open>smod\<close> of the signed division library.
\<close>

definition u8 :: "int \<Rightarrow> int" where
  [c_int_defs]: "u8 x = x mod 2 ^ 8"

definition u32 :: "int \<Rightarrow> int" where
  [c_int_defs]: "u32 x = x mod 2 ^ 32"

definition u64 :: "int \<Rightarrow> int" where
  [c_int_defs]: "u64 x = x mod 2 ^ 64"

definition s8 :: "int \<Rightarrow> int" where
  [c_int_defs]: "s8 x = (x + 2 ^ 7) mod 2 ^ 8 - 2 ^ 7"

definition s32 :: "int \<Rightarrow> int" where
  [c_int_defs]: "s32 x = (x + 2 ^ 31) mod 2 ^ 32 - 2 ^ 31"

definition s64 :: "int \<Rightarrow> int" where
  [c_int_defs]: "s64 x = (x + 2 ^ 63) mod 2 ^ 64 - 2 ^ 63"

lemma u8_id [c_int_simps]: "0 \<le> x \<Longrightarrow> x < 2 ^ 8 \<Longrightarrow> u8 x = x"
  by (simp add: u8_def)

lemma u32_id [c_int_simps]: "0 \<le> x \<Longrightarrow> x < 2 ^ 32 \<Longrightarrow> u32 x = x"
  by (simp add: u32_def)

lemma u64_id [c_int_simps]: "0 \<le> x \<Longrightarrow> x < 2 ^ 64 \<Longrightarrow> u64 x = x"
  by (simp add: u64_def)

lemma s8_id [c_int_simps]: "- (2 ^ 7) \<le> x \<Longrightarrow> x < 2 ^ 7 \<Longrightarrow> s8 x = x"
  by (simp add: s8_def)

lemma s32_id [c_int_simps]: "- (2 ^ 31) \<le> x \<Longrightarrow> x < 2 ^ 31 \<Longrightarrow> s32 x = x"
  by (simp add: s32_def)

lemma s64_id [c_int_simps]: "- (2 ^ 63) \<le> x \<Longrightarrow> x < 2 ^ 63 \<Longrightarrow> s64 x = x"
  by (simp add: s64_def)

lemma sdiv_nonneg: "0 \<le> (a::int) \<Longrightarrow> 0 \<le> b \<Longrightarrow> a sdiv b = a div b"
  by (auto simp: signed_divide_int_def sgn_if)

lemma smod_nonneg: "0 \<le> (a::int) \<Longrightarrow> 0 \<le> b \<Longrightarrow> a smod b = a mod b"
  by (rule smod_mod_positive)

text \<open>The test \<open>flags & f\<close>, and the single bits.\<close>

definition has_flag :: "int \<Rightarrow> int \<Rightarrow> bool" where
  "has_flag flags f \<longleftrightarrow> Bit_Operations.and flags f \<noteq> 0"

lemma has_flag_bit: "has_flag flags (2 ^ n) \<longleftrightarrow> bit flags n"
  by (simp add: has_flag_def and_exp_eq_0_iff_not_bit)

section \<open>C strings\<close>

text \<open>
  A NUL-terminated string is the list of its characters before the NUL.
  \<open>strncmp(a, b, n) == 0\<close> compares at most \<open>n\<close> characters and stops at
  the first NUL, so it says that the two lists agree on their first \<open>n\<close> characters;
  \<open>strncasecmp\<close> is the same up to ASCII case.
\<close>

definition strncmp_eq :: "string \<Rightarrow> string \<Rightarrow> nat \<Rightarrow> bool" where
  "strncmp_eq a b n \<longleftrightarrow> take n a = take n b"

definition to_lower :: "char \<Rightarrow> char" where
  "to_lower c =
     (let k = of_char c :: nat in if 65 \<le> k \<and> k \<le> 90 then char_of (k + 32) else c)"

definition native_strncasecmp_eq :: "string \<Rightarrow> string \<Rightarrow> nat \<Rightarrow> bool" where
  "native_strncasecmp_eq a b n \<longleftrightarrow> map to_lower (take n a) = map to_lower (take n b)"

section \<open>Interfaces\<close>

text \<open>
  A codec is an encoder with a decoder that gets back every value the encoder is used
  on. It is the contract of the on-disk, wire and text formats of the server.
\<close>

locale codec =
  fixes enc :: "'a \<Rightarrow> 'b" and dec :: "'b \<Rightarrow> 'a option" and ok :: "'a \<Rightarrow> bool"
  assumes dec_enc: "ok x \<Longrightarrow> dec (enc x) = Some x"
begin

lemma enc_inj: "ok x \<Longrightarrow> ok y \<Longrightarrow> enc x = enc y \<Longrightarrow> x = y"
  by (metis dec_enc option.inject)

lemma enc_inj_on: "inj_on enc {x. ok x}"
  by (rule inj_onI) (auto intro: enc_inj)

end

text \<open>
  A transition system with an inductive invariant: what a component whose operations
  run one after the other under a mutex promises of every state it can be in.
\<close>

inductive reach :: "('s \<Rightarrow> bool) \<Rightarrow> ('s \<Rightarrow> 's \<Rightarrow> bool) \<Rightarrow> 's \<Rightarrow> bool"
  for init :: "'s \<Rightarrow> bool" and step :: "'s \<Rightarrow> 's \<Rightarrow> bool" where
  reach_init: "init s \<Longrightarrow> reach init step s"
| reach_step: "reach init step s \<Longrightarrow> step s t \<Longrightarrow> reach init step t"

locale transition_system =
  fixes init :: "'s \<Rightarrow> bool" and step :: "'s \<Rightarrow> 's \<Rightarrow> bool" and inv :: "'s \<Rightarrow> bool"
  assumes inv_init: "init s \<Longrightarrow> inv s"
    and inv_step: "inv s \<Longrightarrow> step s t \<Longrightarrow> inv t"
begin

lemma reach_inv: "reach init step s \<Longrightarrow> inv s"
  by (induction rule: reach.induct) (auto intro: inv_init inv_step)

lemma reach_implies: "reach init step s \<Longrightarrow> (\<And>t. inv t \<Longrightarrow> P t) \<Longrightarrow> P s"
  using reach_inv by blast

end

end
