(* ===== verification/Trx_Boundary.thy ===== *)
theory Trx_Boundary
  imports Prelude
begin

text \<open>
  The transaction boundary parser of the binary log,
  \<open>libbinlogevents/src/trx_boundary_parser.cpp\<close>: it classifies every event of a stream
  and keeps track of whether the stream is inside a transaction, so that a relay log is
  only rotated between transactions.
\<close>

section \<open>Data\<close>

datatype log_event_type =
    UNKNOWN_EVENT | START_EVENT_V3 | QUERY_EVENT | STOP_EVENT | ROTATE_EVENT | INTVAR_EVENT
  | SLAVE_EVENT | APPEND_BLOCK_EVENT | DELETE_FILE_EVENT | RAND_EVENT | USER_VAR_EVENT
  | FORMAT_DESCRIPTION_EVENT | XID_EVENT | BEGIN_LOAD_QUERY_EVENT | EXECUTE_LOAD_QUERY_EVENT
  | TABLE_MAP_EVENT | WRITE_ROWS_EVENT_V1 | UPDATE_ROWS_EVENT_V1 | DELETE_ROWS_EVENT_V1
  | INCIDENT_EVENT | HEARTBEAT_LOG_EVENT | IGNORABLE_LOG_EVENT | ROWS_QUERY_LOG_EVENT
  | WRITE_ROWS_EVENT | UPDATE_ROWS_EVENT | DELETE_ROWS_EVENT | GTID_LOG_EVENT
  | ANONYMOUS_GTID_LOG_EVENT | PREVIOUS_GTIDS_LOG_EVENT | TRANSACTION_CONTEXT_EVENT
  | VIEW_CHANGE_EVENT | XA_PREPARE_LOG_EVENT | PARTIAL_UPDATE_ROWS_EVENT
  | TRANSACTION_PAYLOAD_EVENT | HEARTBEAT_LOG_EVENT_V2 | ENUM_END_EVENT

text \<open>
  The query of an event is the text of its buffer; a null pointer, which goes with
  \<open>query_length == 0\<close>, is the empty text. No branch tells the two apart.
\<close>

record log_event_basic_info =
  event_type :: log_event_type
  query :: string
  query_length :: nat
  ignorable_event :: bool

datatype enum_event_boundary_type =
    EVENT_BOUNDARY_TYPE_ERROR | EVENT_BOUNDARY_TYPE_GTID | EVENT_BOUNDARY_TYPE_BEGIN_TRX
  | EVENT_BOUNDARY_TYPE_END_TRX | EVENT_BOUNDARY_TYPE_END_XA_TRX
  | EVENT_BOUNDARY_TYPE_PRE_STATEMENT | EVENT_BOUNDARY_TYPE_STATEMENT
  | EVENT_BOUNDARY_TYPE_INCIDENT | EVENT_BOUNDARY_TYPE_IGNORE
  | EVENT_BOUNDARY_TYPE_TRANSACTION_PAYLOAD

datatype enum_event_parser_state =
    EVENT_PARSER_NONE | EVENT_PARSER_GTID | EVENT_PARSER_DDL | EVENT_PARSER_DML
  | EVENT_PARSER_ERROR

datatype enum_trx_boundary_parser_context =
    TRX_BOUNDARY_PARSER_RECEIVER | TRX_BOUNDARY_PARSER_APPLIER

datatype enum_event_parser_error =
    ER_TRX_BOUND_UNSUPPORTED_UNIGNORABLE_EVENT_IN_STREAM
  | ER_TRX_BOUND_GTID_LOG_EVENT_IN_STREAM
  | ER_TRX_BOUND_UNEXPECTED_BEGIN_IN_STREAM
  | ER_TRX_BOUND_UNEXPECTED_COMMIT_ROLLBACK_OR_XID_LOG_EVENT_IN_STREAM
  | ER_TRX_BOUND_UNEXPECTED_XA_ROLLBACK_IN_STREAM

text \<open>
  The parser object, with the warnings handed to the virtual \<open>log_server_warning\<close> kept
  as a list of error numbers and messages.
\<close>

record trx_boundary_parser =
  current_parser_state :: enum_event_parser_state
  last_parser_state :: enum_event_parser_state
  m_current_boundary_state :: enum_event_boundary_type
  m_trx_boundary_parser_context :: enum_trx_boundary_parser_context
  warnings_log :: "(enum_event_parser_error \<times> string) list"

definition new_parser :: "enum_trx_boundary_parser_context \<Rightarrow> trx_boundary_parser" where
  "new_parser context0 =
     \<lparr>current_parser_state = EVENT_PARSER_NONE, last_parser_state = EVENT_PARSER_NONE,
      m_current_boundary_state = EVENT_BOUNDARY_TYPE_ERROR,
      m_trx_boundary_parser_context = context0, warnings_log = []\<rparr>"

section \<open>Operations\<close>

definition reset :: "trx_boundary_parser \<Rightarrow> trx_boundary_parser" where
  "reset p = p\<lparr>current_parser_state := EVENT_PARSER_NONE,
               last_parser_state := EVENT_PARSER_NONE,
               m_current_boundary_state := EVENT_BOUNDARY_TYPE_ERROR\<rparr>"

definition is_inside_transaction :: "trx_boundary_parser \<Rightarrow> bool" where
  "is_inside_transaction p \<longleftrightarrow>
     current_parser_state p \<noteq> EVENT_PARSER_ERROR \<and> current_parser_state p \<noteq> EVENT_PARSER_NONE"

definition is_not_inside_transaction :: "trx_boundary_parser \<Rightarrow> bool" where
  "is_not_inside_transaction p \<longleftrightarrow> current_parser_state p = EVENT_PARSER_NONE"

definition is_error :: "trx_boundary_parser \<Rightarrow> bool" where
  "is_error p \<longleftrightarrow> current_parser_state p = EVENT_PARSER_ERROR"

definition rollback :: "trx_boundary_parser \<Rightarrow> trx_boundary_parser" where
  "rollback p = p\<lparr>current_parser_state := last_parser_state p\<rparr>"

definition log_server_warning ::
    "enum_event_parser_error \<Rightarrow> string \<Rightarrow> trx_boundary_parser \<Rightarrow> trx_boundary_parser" where
  "log_server_warning err msg p = p\<lparr>warnings_log := warnings_log p @ [(err, msg)]\<rparr>"

text \<open>The boundary type of a query event, from its text.\<close>

definition query_boundary_type :: "log_event_basic_info \<Rightarrow> enum_event_boundary_type" where
  "query_boundary_type e =
     (if query_length e = 0 then EVENT_BOUNDARY_TYPE_ERROR
      else if strncmp_eq (query e) ''BEGIN'' (query_length e)
            \<or> strncmp_eq (query e) ''XA START'' (length ''XA START'')
        then EVENT_BOUNDARY_TYPE_BEGIN_TRX
      else if strncmp_eq (query e) ''COMMIT'' (query_length e)
            \<or> native_strncasecmp_eq (query e) ''ROLLBACK'' (length ''ROLLBACK'')
              \<and> \<not> native_strncasecmp_eq (query e) ''ROLLBACK TO '' (length ''ROLLBACK TO '')
        then EVENT_BOUNDARY_TYPE_END_TRX
      else if native_strncasecmp_eq (query e) ''XA ROLLBACK'' (length ''XA ROLLBACK'')
        then EVENT_BOUNDARY_TYPE_END_XA_TRX
      else EVENT_BOUNDARY_TYPE_STATEMENT)"

definition get_event_boundary_type ::
    "trx_boundary_parser \<Rightarrow> log_event_basic_info \<Rightarrow> bool
      \<Rightarrow> enum_event_boundary_type \<times> trx_boundary_parser" where
  "get_event_boundary_type p e throw_warnings =
     (case event_type e of
        GTID_LOG_EVENT \<Rightarrow> (EVENT_BOUNDARY_TYPE_GTID, p)
      | ANONYMOUS_GTID_LOG_EVENT \<Rightarrow> (EVENT_BOUNDARY_TYPE_GTID, p)
      | QUERY_EVENT \<Rightarrow> (query_boundary_type e, p)
      | XID_EVENT \<Rightarrow> (EVENT_BOUNDARY_TYPE_END_TRX, p)
      | XA_PREPARE_LOG_EVENT \<Rightarrow> (EVENT_BOUNDARY_TYPE_END_TRX, p)
      | INTVAR_EVENT \<Rightarrow> (EVENT_BOUNDARY_TYPE_PRE_STATEMENT, p)
      | RAND_EVENT \<Rightarrow> (EVENT_BOUNDARY_TYPE_PRE_STATEMENT, p)
      | USER_VAR_EVENT \<Rightarrow> (EVENT_BOUNDARY_TYPE_PRE_STATEMENT, p)
      | EXECUTE_LOAD_QUERY_EVENT \<Rightarrow> (EVENT_BOUNDARY_TYPE_STATEMENT, p)
      | TABLE_MAP_EVENT \<Rightarrow> (EVENT_BOUNDARY_TYPE_STATEMENT, p)
      | APPEND_BLOCK_EVENT \<Rightarrow> (EVENT_BOUNDARY_TYPE_STATEMENT, p)
      | BEGIN_LOAD_QUERY_EVENT \<Rightarrow> (EVENT_BOUNDARY_TYPE_STATEMENT, p)
      | ROWS_QUERY_LOG_EVENT \<Rightarrow> (EVENT_BOUNDARY_TYPE_STATEMENT, p)
      | WRITE_ROWS_EVENT \<Rightarrow> (EVENT_BOUNDARY_TYPE_STATEMENT, p)
      | UPDATE_ROWS_EVENT \<Rightarrow> (EVENT_BOUNDARY_TYPE_STATEMENT, p)
      | DELETE_ROWS_EVENT \<Rightarrow> (EVENT_BOUNDARY_TYPE_STATEMENT, p)
      | WRITE_ROWS_EVENT_V1 \<Rightarrow> (EVENT_BOUNDARY_TYPE_STATEMENT, p)
      | UPDATE_ROWS_EVENT_V1 \<Rightarrow> (EVENT_BOUNDARY_TYPE_STATEMENT, p)
      | DELETE_ROWS_EVENT_V1 \<Rightarrow> (EVENT_BOUNDARY_TYPE_STATEMENT, p)
      | VIEW_CHANGE_EVENT \<Rightarrow> (EVENT_BOUNDARY_TYPE_STATEMENT, p)
      | PARTIAL_UPDATE_ROWS_EVENT \<Rightarrow> (EVENT_BOUNDARY_TYPE_STATEMENT, p)
      | INCIDENT_EVENT \<Rightarrow> (EVENT_BOUNDARY_TYPE_INCIDENT, p)
      | ROTATE_EVENT \<Rightarrow> (EVENT_BOUNDARY_TYPE_IGNORE, p)
      | FORMAT_DESCRIPTION_EVENT \<Rightarrow> (EVENT_BOUNDARY_TYPE_IGNORE, p)
      | HEARTBEAT_LOG_EVENT \<Rightarrow> (EVENT_BOUNDARY_TYPE_IGNORE, p)
      | HEARTBEAT_LOG_EVENT_V2 \<Rightarrow> (EVENT_BOUNDARY_TYPE_IGNORE, p)
      | PREVIOUS_GTIDS_LOG_EVENT \<Rightarrow> (EVENT_BOUNDARY_TYPE_IGNORE, p)
      | STOP_EVENT \<Rightarrow> (EVENT_BOUNDARY_TYPE_IGNORE, p)
      | SLAVE_EVENT \<Rightarrow> (EVENT_BOUNDARY_TYPE_IGNORE, p)
      | DELETE_FILE_EVENT \<Rightarrow> (EVENT_BOUNDARY_TYPE_IGNORE, p)
      | TRANSACTION_CONTEXT_EVENT \<Rightarrow> (EVENT_BOUNDARY_TYPE_IGNORE, p)
      | TRANSACTION_PAYLOAD_EVENT \<Rightarrow> (EVENT_BOUNDARY_TYPE_TRANSACTION_PAYLOAD, p)
      | _ \<Rightarrow>
          if ignorable_event e then (EVENT_BOUNDARY_TYPE_IGNORE, p)
          else (EVENT_BOUNDARY_TYPE_ERROR,
                if throw_warnings
                then log_server_warning ER_TRX_BOUND_UNSUPPORTED_UNIGNORABLE_EVENT_IN_STREAM '''' p
                else p))"

text \<open>
  \<open>update_state\<close>, one equation per case of its outer switch: the warnings to log, the error
  flag and \<open>new_parser_state\<close>, which keeps its initial value \<open>EVENT_PARSER_NONE\<close> where
  an inner case does not assign it.
\<close>

fun state_transition ::
    "enum_trx_boundary_parser_context \<Rightarrow> enum_event_boundary_type \<Rightarrow> enum_event_parser_state
      \<Rightarrow> (enum_event_parser_error \<times> string) list \<times> bool \<times> enum_event_parser_state" where
  "state_transition ctx EVENT_BOUNDARY_TYPE_GTID q =
     (case q of
        EVENT_PARSER_GTID \<Rightarrow>
          if ctx \<noteq> TRX_BOUNDARY_PARSER_APPLIER
          then ([(ER_TRX_BOUND_GTID_LOG_EVENT_IN_STREAM,
                  ''after a GTID_LOG_EVENT or an ANONYMOUS_GTID_LOG_EVENT'')],
                True, EVENT_PARSER_GTID)
          else ([], False, EVENT_PARSER_GTID)
      | EVENT_PARSER_DDL \<Rightarrow>
          if ctx \<noteq> TRX_BOUNDARY_PARSER_APPLIER
          then ([(ER_TRX_BOUND_GTID_LOG_EVENT_IN_STREAM, ''in the middle of a DDL'')],
                True, EVENT_PARSER_GTID)
          else ([], False, EVENT_PARSER_GTID)
      | EVENT_PARSER_DML \<Rightarrow>
          if ctx \<noteq> TRX_BOUNDARY_PARSER_APPLIER
          then ([(ER_TRX_BOUND_GTID_LOG_EVENT_IN_STREAM, ''in the middle of a DML'')],
                True, EVENT_PARSER_GTID)
          else ([], False, EVENT_PARSER_GTID)
      | EVENT_PARSER_ERROR \<Rightarrow> ([], True, EVENT_PARSER_GTID)
      | EVENT_PARSER_NONE \<Rightarrow> ([], False, EVENT_PARSER_GTID))"
| "state_transition ctx EVENT_BOUNDARY_TYPE_BEGIN_TRX q =
     (case q of
        EVENT_PARSER_DDL \<Rightarrow>
          ([(ER_TRX_BOUND_UNEXPECTED_BEGIN_IN_STREAM, ''DDL'')], True, EVENT_PARSER_DML)
      | EVENT_PARSER_DML \<Rightarrow>
          ([(ER_TRX_BOUND_UNEXPECTED_BEGIN_IN_STREAM, ''DML'')], True, EVENT_PARSER_DML)
      | EVENT_PARSER_ERROR \<Rightarrow> ([], True, EVENT_PARSER_DML)
      | EVENT_PARSER_NONE \<Rightarrow> ([], False, EVENT_PARSER_DML)
      | EVENT_PARSER_GTID \<Rightarrow> ([], False, EVENT_PARSER_DML))"
| "state_transition ctx EVENT_BOUNDARY_TYPE_END_TRX q =
     (case q of
        EVENT_PARSER_NONE \<Rightarrow>
          ([(ER_TRX_BOUND_UNEXPECTED_COMMIT_ROLLBACK_OR_XID_LOG_EVENT_IN_STREAM,
             ''outside a transaction'')], True, EVENT_PARSER_NONE)
      | EVENT_PARSER_GTID \<Rightarrow>
          ([(ER_TRX_BOUND_UNEXPECTED_COMMIT_ROLLBACK_OR_XID_LOG_EVENT_IN_STREAM,
             ''after a GTID_LOG_EVENT'')], True, EVENT_PARSER_NONE)
      | EVENT_PARSER_DDL \<Rightarrow>
          ([(ER_TRX_BOUND_UNEXPECTED_COMMIT_ROLLBACK_OR_XID_LOG_EVENT_IN_STREAM,
             ''in the middle of a DDL'')], True, EVENT_PARSER_NONE)
      | EVENT_PARSER_ERROR \<Rightarrow> ([], True, EVENT_PARSER_NONE)
      | EVENT_PARSER_DML \<Rightarrow> ([], False, EVENT_PARSER_NONE))"
| "state_transition ctx EVENT_BOUNDARY_TYPE_END_XA_TRX q =
     (case q of
        EVENT_PARSER_NONE \<Rightarrow>
          ([(ER_TRX_BOUND_UNEXPECTED_XA_ROLLBACK_IN_STREAM, ''outside a transaction'')],
           True, EVENT_PARSER_NONE)
      | EVENT_PARSER_DDL \<Rightarrow>
          ([(ER_TRX_BOUND_UNEXPECTED_XA_ROLLBACK_IN_STREAM, ''in the middle of a DDL'')],
           True, EVENT_PARSER_NONE)
      | EVENT_PARSER_ERROR \<Rightarrow> ([], True, EVENT_PARSER_NONE)
      | EVENT_PARSER_DML \<Rightarrow> ([], False, EVENT_PARSER_NONE)
      | EVENT_PARSER_GTID \<Rightarrow> ([], False, EVENT_PARSER_NONE))"
| "state_transition ctx EVENT_BOUNDARY_TYPE_STATEMENT q =
     (case q of
        EVENT_PARSER_NONE \<Rightarrow> ([], False, EVENT_PARSER_NONE)
      | EVENT_PARSER_GTID \<Rightarrow> ([], False, EVENT_PARSER_NONE)
      | EVENT_PARSER_DDL \<Rightarrow> ([], False, EVENT_PARSER_NONE)
      | EVENT_PARSER_DML \<Rightarrow> ([], False, q)
      | EVENT_PARSER_ERROR \<Rightarrow> ([], True, EVENT_PARSER_NONE))"
| "state_transition ctx EVENT_BOUNDARY_TYPE_TRANSACTION_PAYLOAD q =
     (case q of
        EVENT_PARSER_GTID \<Rightarrow> ([], False, EVENT_PARSER_NONE)
      | EVENT_PARSER_NONE \<Rightarrow> ([], True, EVENT_PARSER_NONE)
      | EVENT_PARSER_DML \<Rightarrow> ([], True, EVENT_PARSER_NONE)
      | EVENT_PARSER_DDL \<Rightarrow> ([], True, EVENT_PARSER_NONE)
      | EVENT_PARSER_ERROR \<Rightarrow> ([], True, EVENT_PARSER_NONE))"
| "state_transition ctx EVENT_BOUNDARY_TYPE_PRE_STATEMENT q =
     (case q of
        EVENT_PARSER_NONE \<Rightarrow> ([], False, EVENT_PARSER_DDL)
      | EVENT_PARSER_GTID \<Rightarrow> ([], False, EVENT_PARSER_DDL)
      | EVENT_PARSER_DDL \<Rightarrow> ([], False, q)
      | EVENT_PARSER_DML \<Rightarrow> ([], False, q)
      | EVENT_PARSER_ERROR \<Rightarrow> ([], True, EVENT_PARSER_NONE))"
| "state_transition ctx EVENT_BOUNDARY_TYPE_INCIDENT q = ([], False, EVENT_PARSER_NONE)"
| "state_transition ctx EVENT_BOUNDARY_TYPE_IGNORE q = ([], False, q)"
| "state_transition ctx EVENT_BOUNDARY_TYPE_ERROR q = ([], True, EVENT_PARSER_ERROR)"

definition update_state ::
    "trx_boundary_parser \<Rightarrow> enum_event_boundary_type \<Rightarrow> bool \<Rightarrow> bool \<times> trx_boundary_parser" where
  "update_state p b throw_warnings =
     (let (ws, err, new_parser_state) =
        state_transition (m_trx_boundary_parser_context p) b (current_parser_state p);
        p1 = (if throw_warnings then p\<lparr>warnings_log := warnings_log p @ ws\<rparr> else p)
      in (err, p1\<lparr>last_parser_state := current_parser_state p1,
                  current_parser_state := new_parser_state\<rparr>))"

definition feed_event ::
    "trx_boundary_parser \<Rightarrow> log_event_basic_info \<Rightarrow> bool \<Rightarrow> bool \<times> trx_boundary_parser" where
  "feed_event p e throw_warnings =
     (let (b, p1) = get_event_boundary_type p e throw_warnings;
        p2 = p1\<lparr>m_current_boundary_state := b\<rparr>
      in update_state p2 b throw_warnings)"

definition row_event_types :: "log_event_type set" where
  "row_event_types =
     {TABLE_MAP_EVENT, WRITE_ROWS_EVENT, UPDATE_ROWS_EVENT, DELETE_ROWS_EVENT,
      WRITE_ROWS_EVENT_V1, UPDATE_ROWS_EVENT_V1, DELETE_ROWS_EVENT_V1,
      PARTIAL_UPDATE_ROWS_EVENT, ROWS_QUERY_LOG_EVENT, VIEW_CHANGE_EVENT}"

definition load_event_types :: "log_event_type set" where
  "load_event_types =
     {BEGIN_LOAD_QUERY_EVENT, EXECUTE_LOAD_QUERY_EVENT, APPEND_BLOCK_EVENT, DELETE_FILE_EVENT}"

definition allowed_query :: "log_event_basic_info \<Rightarrow> bool" where
  "allowed_query e \<longleftrightarrow>
     native_strncasecmp_eq (query e) ''XA END'' (length ''XA END'')
     \<or> native_strncasecmp_eq (query e) ''XA PREPARE'' (length ''XA PREPARE'')
     \<or> native_strncasecmp_eq (query e) ''SAVEPOINT'' (length ''SAVEPOINT'')
     \<or> native_strncasecmp_eq (query e) ''CREATE TABLE'' (length ''CREATE TABLE'')"

definition check_row_logging_constraints ::
    "trx_boundary_parser \<Rightarrow> log_event_basic_info \<Rightarrow> bool" where
  "check_row_logging_constraints p e =
     (if m_current_boundary_state p = EVENT_BOUNDARY_TYPE_ERROR then True
      else if m_current_boundary_state p = EVENT_BOUNDARY_TYPE_PRE_STATEMENT
      then event_type e \<noteq> USER_VAR_EVENT \<or> current_parser_state p \<noteq> EVENT_PARSER_DDL
      else if (m_current_boundary_state p = EVENT_BOUNDARY_TYPE_STATEMENT
               \<or> current_parser_state p = EVENT_PARSER_NONE)
              \<and> query_length e > 16
              \<and> (native_strncasecmp_eq (query e) ''CREATE TEMPORARY'' (length ''CREATE TEMPORARY'')
                 \<or> native_strncasecmp_eq (query e) ''DROP TEMPORARY'' (length ''DROP TEMPORARY''))
      then True
      else if event_type e \<in> load_event_types then True
      else if m_current_boundary_state p = EVENT_BOUNDARY_TYPE_STATEMENT
              \<and> current_parser_state p = EVENT_PARSER_DML
              \<and> event_type e \<notin> row_event_types
      then \<not> (event_type e = QUERY_EVENT \<and> allowed_query e)
      else False)"

section \<open>The event grammar\<close>

text \<open>
  The stream format of \<open>trx_boundary_parser.h\<close> over boundary types: DDL, DML and
  compressed transactions with an optional GTID, and the two short forms the code adds
  (an XA ROLLBACK right after a GTID, an incident event that ends whatever is open).
\<close>

definition opt_gtid :: "enum_event_boundary_type list \<Rightarrow> bool" where
  "opt_gtid g \<longleftrightarrow> g = [] \<or> g = [EVENT_BOUNDARY_TYPE_GTID]"

inductive trx :: "enum_event_boundary_type list \<Rightarrow> bool" where
  trx_ddl: "opt_gtid g \<Longrightarrow> set ps \<subseteq> {EVENT_BOUNDARY_TYPE_PRE_STATEMENT}
     \<Longrightarrow> f \<in> {EVENT_BOUNDARY_TYPE_STATEMENT, EVENT_BOUNDARY_TYPE_INCIDENT}
     \<Longrightarrow> trx (g @ ps @ [f])"
| trx_dml: "opt_gtid g
     \<Longrightarrow> set body \<subseteq> {EVENT_BOUNDARY_TYPE_PRE_STATEMENT, EVENT_BOUNDARY_TYPE_STATEMENT}
     \<Longrightarrow> f \<in> {EVENT_BOUNDARY_TYPE_END_TRX, EVENT_BOUNDARY_TYPE_END_XA_TRX,
             EVENT_BOUNDARY_TYPE_INCIDENT}
     \<Longrightarrow> trx (g @ [EVENT_BOUNDARY_TYPE_BEGIN_TRX] @ body @ [f])"
| trx_payload: "trx [EVENT_BOUNDARY_TYPE_GTID, EVENT_BOUNDARY_TYPE_TRANSACTION_PAYLOAD]"
| trx_xa_rollback: "trx [EVENT_BOUNDARY_TYPE_GTID, EVENT_BOUNDARY_TYPE_END_XA_TRX]"

inductive trx_stream :: "enum_event_boundary_type list \<Rightarrow> bool" where
  trx_stream_Nil: "trx_stream []"
| trx_stream_app: "trx t \<Longrightarrow> trx_stream s \<Longrightarrow> trx_stream (t @ s)"

text \<open>The run of \<open>update_state\<close> over boundary types, stopping at the first error.\<close>

fun accepts ::
    "enum_trx_boundary_parser_context \<Rightarrow> enum_event_parser_state
      \<Rightarrow> enum_event_boundary_type list \<Rightarrow> bool" where
  "accepts ctx q [] \<longleftrightarrow> q = EVENT_PARSER_NONE"
| "accepts ctx q (b # bs) \<longleftrightarrow>
     (let (ws, err, q') = state_transition ctx b q in \<not> err \<and> accepts ctx q' bs)"

abbreviation recv :: "enum_event_parser_state \<Rightarrow> enum_event_boundary_type list \<Rightarrow> bool" where
  "recv \<equiv> accepts TRX_BOUNDARY_PARSER_RECEIVER"

lemma recv_pre_DDL:
  "set ps \<subseteq> {EVENT_BOUNDARY_TYPE_PRE_STATEMENT} \<Longrightarrow>
   recv EVENT_PARSER_DDL (ps @ bs) = recv EVENT_PARSER_DDL bs"
  by (induction ps) auto

lemma recv_body_DML:
  "set body \<subseteq> {EVENT_BOUNDARY_TYPE_PRE_STATEMENT, EVENT_BOUNDARY_TYPE_STATEMENT} \<Longrightarrow>
   recv EVENT_PARSER_DML (body @ bs) = recv EVENT_PARSER_DML bs"
  by (induction body) auto

lemma recv_pre_final:
  assumes "set ps \<subseteq> {EVENT_BOUNDARY_TYPE_PRE_STATEMENT}"
    and "f \<in> {EVENT_BOUNDARY_TYPE_STATEMENT, EVENT_BOUNDARY_TYPE_INCIDENT}"
    and "q \<in> {EVENT_PARSER_NONE, EVENT_PARSER_GTID, EVENT_PARSER_DDL}"
  shows "recv q (ps @ f # bs) = recv EVENT_PARSER_NONE bs"
  using assms by (cases ps) (auto simp: recv_pre_DDL)

lemma recv_begin_final:
  assumes "set body \<subseteq> {EVENT_BOUNDARY_TYPE_PRE_STATEMENT, EVENT_BOUNDARY_TYPE_STATEMENT}"
    and "f \<in> {EVENT_BOUNDARY_TYPE_END_TRX, EVENT_BOUNDARY_TYPE_END_XA_TRX,
             EVENT_BOUNDARY_TYPE_INCIDENT}"
    and "q \<in> {EVENT_PARSER_NONE, EVENT_PARSER_GTID}"
  shows "recv q (EVENT_BOUNDARY_TYPE_BEGIN_TRX # body @ f # bs) = recv EVENT_PARSER_NONE bs"
  using assms by (auto simp: recv_body_DML)

lemma recv_trx: "trx t \<Longrightarrow> recv EVENT_PARSER_NONE (t @ bs) = recv EVENT_PARSER_NONE bs"
proof (induction rule: trx.induct)
  case (trx_ddl g ps f)
  then show ?case by (auto simp: opt_gtid_def recv_pre_final)
next
  case (trx_dml g body f)
  from trx_dml(1) show ?case
    unfolding opt_gtid_def
    using recv_begin_final [OF trx_dml(2,3)] by (auto simp del: state_transition.simps(2))
qed simp_all

lemma trx_stream_recv: "trx_stream bs \<Longrightarrow> recv EVENT_PARSER_NONE bs"
  by (induction rule: trx_stream.induct) (simp_all add: recv_trx)

text \<open>
  The converse: what is accepted from a state completes the transaction the state stands
  for, and goes on with whole transactions.
\<close>

definition completes :: "enum_event_parser_state \<Rightarrow> enum_event_boundary_type list \<Rightarrow> bool" where
  "completes q bs =
     (case q of
        EVENT_PARSER_NONE \<Rightarrow> trx_stream bs
      | EVENT_PARSER_GTID \<Rightarrow> trx_stream (EVENT_BOUNDARY_TYPE_GTID # bs)
      | EVENT_PARSER_DDL \<Rightarrow>
          (\<forall>g ps. opt_gtid g \<longrightarrow> set ps \<subseteq> {EVENT_BOUNDARY_TYPE_PRE_STATEMENT} \<longrightarrow>
             trx_stream (g @ ps @ bs))
      | EVENT_PARSER_DML \<Rightarrow>
          (\<forall>g body. opt_gtid g \<longrightarrow>
             set body \<subseteq> {EVENT_BOUNDARY_TYPE_PRE_STATEMENT, EVENT_BOUNDARY_TYPE_STATEMENT} \<longrightarrow>
             trx_stream (g @ EVENT_BOUNDARY_TYPE_BEGIN_TRX # body @ bs))
      | EVENT_PARSER_ERROR \<Rightarrow> True)"

lemma stream_ddl:
  assumes "opt_gtid g" "set ps \<subseteq> {EVENT_BOUNDARY_TYPE_PRE_STATEMENT}"
    "f \<in> {EVENT_BOUNDARY_TYPE_STATEMENT, EVENT_BOUNDARY_TYPE_INCIDENT}" "trx_stream bs"
  shows "trx_stream (g @ ps @ f # bs)"
  using trx_stream_app [OF trx_ddl [OF assms(1-3)] assms(4)] by simp

lemma stream_dml:
  assumes "opt_gtid g"
    "set body \<subseteq> {EVENT_BOUNDARY_TYPE_PRE_STATEMENT, EVENT_BOUNDARY_TYPE_STATEMENT}"
    "f \<in> {EVENT_BOUNDARY_TYPE_END_TRX, EVENT_BOUNDARY_TYPE_END_XA_TRX,
         EVENT_BOUNDARY_TYPE_INCIDENT}" "trx_stream bs"
  shows "trx_stream (g @ EVENT_BOUNDARY_TYPE_BEGIN_TRX # body @ f # bs)"
  using trx_stream_app [OF trx_dml [OF assms(1-3)] assms(4)] by simp

lemma opt_gtid_simps [simp]: "opt_gtid []" "opt_gtid [EVENT_BOUNDARY_TYPE_GTID]"
  by (simp_all add: opt_gtid_def)

lemma completes_DDL_D:
  "completes EVENT_PARSER_DDL bs \<Longrightarrow> opt_gtid g \<Longrightarrow>
   set ps \<subseteq> {EVENT_BOUNDARY_TYPE_PRE_STATEMENT} \<Longrightarrow> trx_stream (g @ ps @ bs)"
  by (simp add: completes_def)

lemma completes_DML_D:
  "completes EVENT_PARSER_DML bs \<Longrightarrow> opt_gtid g \<Longrightarrow>
   set body \<subseteq> {EVENT_BOUNDARY_TYPE_PRE_STATEMENT, EVENT_BOUNDARY_TYPE_STATEMENT} \<Longrightarrow>
   trx_stream (g @ EVENT_BOUNDARY_TYPE_BEGIN_TRX # body @ bs)"
  by (simp add: completes_def)

lemma completes_DDL_Cons:
  assumes "completes EVENT_PARSER_DDL bs"
  shows "completes EVENT_PARSER_DDL (EVENT_BOUNDARY_TYPE_PRE_STATEMENT # bs)"
  unfolding completes_def
  using completes_DDL_D [OF assms, where ps = "ps @ [EVENT_BOUNDARY_TYPE_PRE_STATEMENT]" for ps]
  by simp

lemma completes_DML_Cons:
  assumes "completes EVENT_PARSER_DML bs"
    and "b \<in> {EVENT_BOUNDARY_TYPE_PRE_STATEMENT, EVENT_BOUNDARY_TYPE_STATEMENT}"
  shows "completes EVENT_PARSER_DML (b # bs)"
  unfolding completes_def
  using completes_DML_D [OF assms(1), where body = "body @ [b]" for body] assms(2)
  by simp

lemma completes_GTID_payload:
  "trx_stream bs \<Longrightarrow> trx_stream (EVENT_BOUNDARY_TYPE_GTID #
     EVENT_BOUNDARY_TYPE_TRANSACTION_PAYLOAD # bs)"
  "trx_stream bs \<Longrightarrow> trx_stream (EVENT_BOUNDARY_TYPE_GTID #
     EVENT_BOUNDARY_TYPE_END_XA_TRX # bs)"
  using trx_stream_app [OF trx_payload] trx_stream_app [OF trx_xa_rollback] by simp_all

lemma completes_step:
  assumes "state_transition TRX_BOUNDARY_PARSER_RECEIVER b q = (ws, False, q')"
    and "completes q' bs" and "q \<noteq> EVENT_PARSER_ERROR" and "b \<noteq> EVENT_BOUNDARY_TYPE_IGNORE"
  shows "completes q (b # bs)"
proof (cases b)
  case EVENT_BOUNDARY_TYPE_GTID
  with assms show ?thesis by (cases q) (auto simp: completes_def)
next
  case EVENT_BOUNDARY_TYPE_BEGIN_TRX
  with assms completes_DML_D [of bs "[]" "[]"]
    completes_DML_D [of bs "[EVENT_BOUNDARY_TYPE_GTID]" "[]"] show ?thesis
    by (cases q) (auto simp: completes_def)
next
  case EVENT_BOUNDARY_TYPE_END_TRX
  with assms show ?thesis by (cases q) (auto simp: completes_def intro!: stream_dml)
next
  case EVENT_BOUNDARY_TYPE_END_XA_TRX
  with assms show ?thesis
    by (cases q) (auto simp: completes_def intro!: stream_dml completes_GTID_payload)
next
  case EVENT_BOUNDARY_TYPE_PRE_STATEMENT
  with assms completes_DDL_D [of bs "[]" "[EVENT_BOUNDARY_TYPE_PRE_STATEMENT]"]
    completes_DDL_D [of bs "[EVENT_BOUNDARY_TYPE_GTID]" "[EVENT_BOUNDARY_TYPE_PRE_STATEMENT]"]
  show ?thesis
    by (cases q)
      (auto intro: completes_DDL_Cons completes_DML_Cons simp: completes_def [of EVENT_PARSER_NONE]
         completes_def [of EVENT_PARSER_GTID])
next
  case EVENT_BOUNDARY_TYPE_STATEMENT
  with assms stream_ddl [of "[]" "[]" b bs] stream_ddl [of "[EVENT_BOUNDARY_TYPE_GTID]" "[]" b bs]
  show ?thesis
    by (cases q)
      (auto intro: completes_DML_Cons simp: completes_def [of EVENT_PARSER_NONE]
         completes_def [of EVENT_PARSER_GTID] completes_def [of EVENT_PARSER_DDL] stream_ddl)
next
  case EVENT_BOUNDARY_TYPE_INCIDENT
  with assms stream_ddl [of "[]" "[]" b bs] stream_ddl [of "[EVENT_BOUNDARY_TYPE_GTID]" "[]" b bs]
  show ?thesis by (cases q) (auto simp: completes_def stream_ddl stream_dml)
next
  case EVENT_BOUNDARY_TYPE_TRANSACTION_PAYLOAD
  with assms show ?thesis by (cases q) (auto simp: completes_def intro: completes_GTID_payload)
qed (use assms in auto)

lemma no_error_not_ERROR:
  "state_transition ctx b q = (ws, False, q') \<Longrightarrow> q \<noteq> EVENT_PARSER_ERROR \<Longrightarrow>
   q' \<noteq> EVENT_PARSER_ERROR"
  by (cases b; cases q) (auto split: if_splits)

lemma recv_completes:
  "recv q bs \<Longrightarrow> q \<noteq> EVENT_PARSER_ERROR \<Longrightarrow> EVENT_BOUNDARY_TYPE_IGNORE \<notin> set bs \<Longrightarrow>
   completes q bs"
proof (induction bs arbitrary: q)
  case Nil
  then show ?case by (simp add: completes_def trx_stream_Nil)
next
  case (Cons b bs)
  obtain ws err q' where t: "state_transition TRX_BOUNDARY_PARSER_RECEIVER b q = (ws, err, q')"
    by (cases "state_transition TRX_BOUNDARY_PARSER_RECEIVER b q") auto
  with Cons.prems have e: "\<not> err" and r: "recv q' bs" by auto
  with t Cons.prems(2) have "q' \<noteq> EVENT_PARSER_ERROR" using no_error_not_ERROR by auto
  with r Cons have "completes q' bs" by simp
  then show ?case using completes_step [of b q ws q' bs] t e Cons.prems by auto
qed

text \<open>Ignored events change nothing, so an accepted stream is the grammar's up to them.\<close>

lemma accepts_filter:
  "accepts ctx q (filter (\<lambda>b. b \<noteq> EVENT_BOUNDARY_TYPE_IGNORE) bs) = accepts ctx q bs"
  by (induction bs arbitrary: q) (auto split: prod.splits)

lemma recv_iff_stream:
  "recv EVENT_PARSER_NONE bs \<longleftrightarrow> trx_stream (filter (\<lambda>b. b \<noteq> EVENT_BOUNDARY_TYPE_IGNORE) bs)"
proof
  assume "recv EVENT_PARSER_NONE bs"
  then have "recv EVENT_PARSER_NONE (filter (\<lambda>b. b \<noteq> EVENT_BOUNDARY_TYPE_IGNORE) bs)"
    by (simp add: accepts_filter)
  from recv_completes [OF this] show
    "trx_stream (filter (\<lambda>b. b \<noteq> EVENT_BOUNDARY_TYPE_IGNORE) bs)"
    by (simp add: completes_def)
next
  assume "trx_stream (filter (\<lambda>b. b \<noteq> EVENT_BOUNDARY_TYPE_IGNORE) bs)"
  then show "recv EVENT_PARSER_NONE bs" using trx_stream_recv accepts_filter by metis
qed

section \<open>The parser on event streams\<close>

definition boundary_of :: "log_event_basic_info \<Rightarrow> enum_event_boundary_type" where
  "boundary_of e = fst (get_event_boundary_type (new_parser TRX_BOUNDARY_PARSER_RECEIVER) e False)"

lemma fst_get_event_boundary_type [simp]:
  "fst (get_event_boundary_type p e w) = boundary_of e"
  by (cases "event_type e") (simp_all add: boundary_of_def get_event_boundary_type_def)

lemma get_event_boundary_type_parser [simp]:
  "current_parser_state (snd (get_event_boundary_type p e w)) = current_parser_state p"
  "m_trx_boundary_parser_context (snd (get_event_boundary_type p e w))
     = m_trx_boundary_parser_context p"
  by (cases "event_type e"; simp add: get_event_boundary_type_def log_server_warning_def)+

lemma feed_event_obs:
  assumes "state_transition (m_trx_boundary_parser_context p) (boundary_of e)
             (current_parser_state p) = (ws, err, q)"
  shows "fst (feed_event p e w) = err"
    and "current_parser_state (snd (feed_event p e w)) = q"
    and "last_parser_state (snd (feed_event p e w)) = current_parser_state p"
    and "m_current_boundary_state (snd (feed_event p e w)) = boundary_of e"
    and "m_trx_boundary_parser_context (snd (feed_event p e w)) = m_trx_boundary_parser_context p"
  using assms fst_get_event_boundary_type [of p e w] get_event_boundary_type_parser [of p e w]
  by (cases "get_event_boundary_type p e w"; simp add: feed_event_def update_state_def Let_def)+

text \<open>
  The receiver's loop: events are fed one after the other until one of them is refused.
\<close>

fun feed_events ::
    "trx_boundary_parser \<Rightarrow> log_event_basic_info list \<Rightarrow> bool \<Rightarrow> bool \<times> trx_boundary_parser" where
  "feed_events p [] w = (False, p)"
| "feed_events p (e # es) w =
     (let (err, p1) = feed_event p e w in if err then (True, p1) else feed_events p1 es w)"

lemma feed_events_accepts:
  "(\<not> fst (feed_events p es w) \<and> is_not_inside_transaction (snd (feed_events p es w)))
   \<longleftrightarrow> accepts (m_trx_boundary_parser_context p) (current_parser_state p) (map boundary_of es)"
proof (induction es arbitrary: p)
  case Nil
  then show ?case by (simp add: is_not_inside_transaction_def)
next
  case (Cons e es)
  obtain ws err q where t: "state_transition (m_trx_boundary_parser_context p) (boundary_of e)
      (current_parser_state p) = (ws, err, q)"
    by (cases "state_transition (m_trx_boundary_parser_context p) (boundary_of e)
      (current_parser_state p)") auto
  show ?case
    using Cons.IH [of "snd (feed_event p e w)"] feed_event_obs [OF t, of w]
    by (simp add: t case_prod_unfold Let_def)
qed

section \<open>Properties\<close>

text \<open>C1. A fresh receiver-side parser accepts a stream of events and ends outside every
  transaction exactly when the events, ignorable ones left out, are a sequence of complete
  transactions of the documented grammar: the relay log is only considered rotatable at
  true transaction boundaries, and every well-formed stream is accepted.\<close>

theorem receiver_accepts_iff_grammar:
  "(\<not> fst (feed_events (new_parser TRX_BOUNDARY_PARSER_RECEIVER) es w)
     \<and> is_not_inside_transaction (snd (feed_events (new_parser TRX_BOUNDARY_PARSER_RECEIVER) es w)))
   \<longleftrightarrow> trx_stream (filter (\<lambda>b. b \<noteq> EVENT_BOUNDARY_TYPE_IGNORE) (map boundary_of es))"
  unfolding feed_events_accepts recv_iff_stream [symmetric] by (simp add: new_parser_def)

text \<open>C2. Rolling back after a fed event gives back the parser state before it, whatever the
  event; and whether warnings are thrown changes neither the result nor the state reached.\<close>

theorem feed_event_rollback:
  "current_parser_state (rollback (snd (feed_event p e w))) = current_parser_state p
   \<and> fst (feed_event p e w) = fst (feed_event p e w')
   \<and> current_parser_state (snd (feed_event p e w))
       = current_parser_state (snd (feed_event p e w'))"
proof (cases "state_transition (m_trx_boundary_parser_context p) (boundary_of e)
    (current_parser_state p)")
  case (fields ws err q)
  then show ?thesis using feed_event_obs [OF fields] by (simp add: rollback_def)
qed

text \<open>C3. The parser is in its error state after an event exactly when the event has the error
  boundary type, or is ignored in that state. In particular an event that breaks the grammar
  is reported by the result of \<open>feed_event\<close> and does not put the parser in the error
  state.\<close>

theorem feed_event_error_state:
  "is_error (snd (feed_event p e w)) \<longleftrightarrow>
     boundary_of e = EVENT_BOUNDARY_TYPE_ERROR
     \<or> boundary_of e = EVENT_BOUNDARY_TYPE_IGNORE \<and> is_error p"
proof (cases "state_transition (m_trx_boundary_parser_context p) (boundary_of e)
    (current_parser_state p)")
  case (fields ws err q)
  have "q = EVENT_PARSER_ERROR \<longleftrightarrow> boundary_of e = EVENT_BOUNDARY_TYPE_ERROR
      \<or> boundary_of e = EVENT_BOUNDARY_TYPE_IGNORE \<and> is_error p"
    using fields
    by (cases "boundary_of e"; cases "current_parser_state p")
      (auto simp: is_error_def split: if_splits)
  then show ?thesis using feed_event_obs [OF fields] by (simp add: is_error_def)
qed



end
