(* ===== verification/Byteorder.thy ===== *)
theory Byteorder
  imports Prelude "HOL-Library.List_Lexorder"
begin

text \<open>
  Integers in byte buffers: the little-endian stores and loads of
  \<open>include/my_byteorder.h\<close> and \<open>include/big_endian.h\<close>, the high-byte-first ones
  of \<open>include/myisampack.h\<close>, and the length-encoded integers of \<open>mysys/pack.cc\<close>.
  A buffer is the list of its bytes, integers between 0 and 255; a store gives the bytes it
  writes.
\<close>

section \<open>Bytes\<close>

type_synonym bytes = "int list"

definition is_bytes :: "bytes \<Rightarrow> bool" where
  "is_bytes bs \<longleftrightarrow> (\<forall>b \<in> set bs. 0 \<le> b \<and> b < 256)"

lemma is_bytes_simps [simp]:
  "is_bytes []"
  "is_bytes (b # bs) \<longleftrightarrow> 0 \<le> b \<and> b < 256 \<and> is_bytes bs"
  "is_bytes (as @ bs) \<longleftrightarrow> is_bytes as \<and> is_bytes bs"
  "is_bytes (rev bs) = is_bytes bs"
  by (auto simp: is_bytes_def)

lemma is_bytes_take_drop: "is_bytes bs \<Longrightarrow> is_bytes (take n bs) \<and> is_bytes (drop n bs)"
  by (auto simp: is_bytes_def dest: in_set_takeD in_set_dropD)

text \<open>The bytes of a number, low byte first, and the number of a byte list.\<close>

fun le_bytes :: "nat \<Rightarrow> int \<Rightarrow> bytes" where
  "le_bytes 0 x = []"
| "le_bytes (Suc n) x = u8 x # le_bytes n (x div 2 ^ 8)"

fun le_val :: "bytes \<Rightarrow> int" where
  "le_val [] = 0"
| "le_val (b # bs) = b + 2 ^ 8 * le_val bs"

lemma length_le_bytes [simp]: "length (le_bytes n x) = n"
  by (induction n arbitrary: x) auto

lemma is_bytes_le_bytes [simp]: "is_bytes (le_bytes n x)"
  by (induction n arbitrary: x) (auto simp: u8_def)

lemma le_val_le_bytes: "le_val (le_bytes n x) = x mod (2 ^ 8) ^ n"
proof (induction n arbitrary: x)
  case 0
  then show ?case by simp
next
  case (Suc n)
  have "x mod (2 ^ 8 * (2 ^ 8) ^ n) = 2 ^ 8 * (x div 2 ^ 8 mod (2 ^ 8) ^ n) + x mod 2 ^ 8"
    by (rule zmod_zmult2_eq) simp
  then show ?case by (simp add: Suc u8_def)
qed

lemma le_val_bounds: "is_bytes bs \<Longrightarrow> 0 \<le> le_val bs \<and> le_val bs < (2 ^ 8) ^ length bs"
  by (induction bs) auto

lemma le_bytes_le_val: "is_bytes bs \<Longrightarrow> le_bytes (length bs) (le_val bs) = bs"
  by (induction bs) (auto simp: u8_def)

lemma le_bytes_mod: "n * 8 \<le> w \<Longrightarrow> le_bytes n (x mod 2 ^ w) = le_bytes n x"
proof (induction n arbitrary: x w)
  case (Suc n)
  then obtain v where v: "w = 8 + v" using le_Suc_ex [of 8 w] by auto
  have "x mod 2 ^ w div 2 ^ 8 = x div 2 ^ 8 mod 2 ^ v"
    unfolding v power_add by (simp add: zmod_zmult2_eq)
  moreover have "x mod 2 ^ w mod 2 ^ 8 = x mod 2 ^ 8"
    unfolding v by (rule mod_mod_cancel) (simp add: power_add)
  ultimately show ?case using Suc v by (simp add: u8_def)
qed simp

text \<open>Comparing high-byte-first representations byte by byte compares the numbers.\<close>

fun memcmp :: "bytes \<Rightarrow> bytes \<Rightarrow> int" where
  "memcmp (a # as) (b # bs) = (if a = b then memcmp as bs else a - b)"
| "memcmp _ _ = 0"

lemma memcmp_less_iff: "length as = length bs \<Longrightarrow> memcmp as bs < 0 \<longleftrightarrow> as < bs"
  by (induction as bs rule: list_induct2) (auto simp: list_less_def)

lemma memcmp_eq_iff: "length as = length bs \<Longrightarrow> memcmp as bs = 0 \<longleftrightarrow> as = bs"
  by (induction as bs rule: list_induct2) auto

lemma memcmp_ge_iff: "length as = length bs \<Longrightarrow> memcmp as bs \<ge> 0 \<longleftrightarrow> bs \<le> as"
  using memcmp_less_iff [of as bs] by (simp add: not_less [symmetric])

definition be_val :: "bytes \<Rightarrow> int" where
  "be_val bs = le_val (rev bs)"

lemma le_val_append: "le_val (as @ bs) = le_val as + (2 ^ 8) ^ length as * le_val bs"
  by (induction as) (auto simp: algebra_simps)

lemma be_val_simps [simp]:
  "be_val [] = 0"
  "be_val (b # bs) = b * (2 ^ 8) ^ length bs + be_val bs"
  by (simp_all add: be_val_def le_val_append)

lemma be_val_bounds: "is_bytes bs \<Longrightarrow> 0 \<le> be_val bs \<and> be_val bs < (2 ^ 8) ^ length bs"
  using le_val_bounds [of "rev bs"] by (simp add: be_val_def)

lemma digit_compare:
  fixes a b m n :: int
  assumes "a < b" "0 \<le> n" "m < k" "0 < k"
  shows "a * k + m < b * k + n"
proof -
  have "(a + 1) * k \<le> b * k" using assms by (intro mult_right_mono) auto
  then show ?thesis using assms by (simp add: algebra_simps)
qed

lemma memcmp_be_val:
  "length as = length bs \<Longrightarrow> is_bytes as \<Longrightarrow> is_bytes bs \<Longrightarrow>
   memcmp as bs < 0 \<longleftrightarrow> be_val as < be_val bs"
proof (induction as bs rule: list_induct2)
  case (Cons a as b bs)
  have "a < b \<Longrightarrow> be_val (a # as) < be_val (b # bs)"
    and "b < a \<Longrightarrow> be_val (b # bs) < be_val (a # as)"
    using Cons be_val_bounds [of as] be_val_bounds [of bs]
    by (auto intro!: digit_compare)
  with Cons show ?case by (cases a b rule: linorder_cases) (auto simp: not_less)
qed simp

section \<open>Stores and loads\<close>

text \<open>
  The argument of a store is converted to its parameter type by the caller; a conversion
  to \<open>uchar\<close> keeps the low eight bits, and \<open>A >> n\<close> is division by \<open>2 ^ n\<close>.
\<close>

definition int2store :: "int \<Rightarrow> bytes" where
  "int2store A = [u8 A, u8 (A div 2 ^ 8)]"

definition int3store :: "int \<Rightarrow> bytes" where
  "int3store A = [u8 A, u8 (A div 2 ^ 8), u8 (A div 2 ^ 16)]"

definition int4store :: "int \<Rightarrow> bytes" where
  "int4store A = [u8 A, u8 (A div 2 ^ 8), u8 (A div 2 ^ 16), u8 (A div 2 ^ 24)]"

definition int5store :: "int \<Rightarrow> bytes" where
  "int5store A =
     [u8 A, u8 (A div 2 ^ 8), u8 (A div 2 ^ 16), u8 (A div 2 ^ 24), u8 (A div 2 ^ 32)]"

definition int6store :: "int \<Rightarrow> bytes" where
  "int6store A =
     [u8 A, u8 (A div 2 ^ 8), u8 (A div 2 ^ 16), u8 (A div 2 ^ 24), u8 (A div 2 ^ 32),
      u8 (A div 2 ^ 40)]"

definition int7store :: "int \<Rightarrow> bytes" where
  "int7store A =
     [u8 A, u8 (A div 2 ^ 8), u8 (A div 2 ^ 16), u8 (A div 2 ^ 24), u8 (A div 2 ^ 32),
      u8 (A div 2 ^ 40), u8 (A div 2 ^ 48)]"

definition int8store :: "int \<Rightarrow> bytes" where
  "int8store A = (let def_temp = u32 A; def_temp2 = u32 (A div 2 ^ 32)
     in int4store def_temp @ int4store def_temp2)"

definition uint2korr :: "bytes \<Rightarrow> int" where
  "uint2korr A = A ! 0 + A ! 1 * 2 ^ 8"

definition uint3korr :: "bytes \<Rightarrow> int" where
  "uint3korr A = A ! 0 + A ! 1 * 2 ^ 8 + A ! 2 * 2 ^ 16"

definition uint4korr :: "bytes \<Rightarrow> int" where
  "uint4korr A = u32 (A ! 0 + A ! 1 * 2 ^ 8 + A ! 2 * 2 ^ 16 + A ! 3 * 2 ^ 24)"

definition uint5korr :: "bytes \<Rightarrow> int" where
  "uint5korr A = uint4korr A + A ! 4 * 2 ^ 32"

definition uint6korr :: "bytes \<Rightarrow> int" where
  "uint6korr A = uint4korr A + A ! 4 * 2 ^ 32 + A ! 5 * 2 ^ 40"

definition uint8korr :: "bytes \<Rightarrow> int" where
  "uint8korr A = uint4korr A + uint4korr (drop 4 A) * 2 ^ 32"

definition sint2korr :: "bytes \<Rightarrow> int" where
  "sint2korr A = (let v = uint2korr A in if v < 2 ^ 15 then v else v - 2 ^ 16)"

definition sint3korr :: "bytes \<Rightarrow> int" where
  "sint3korr A =
     s32 (if A ! 2 \<ge> 128 then 255 * 2 ^ 24 + A ! 2 * 2 ^ 16 + A ! 1 * 2 ^ 8 + A ! 0
          else A ! 2 * 2 ^ 16 + A ! 1 * 2 ^ 8 + A ! 0)"

definition sint4korr :: "bytes \<Rightarrow> int" where
  "sint4korr A = s32 (A ! 0 + A ! 1 * 2 ^ 8 + A ! 2 * 2 ^ 16 + A ! 3 * 2 ^ 24)"

definition sint8korr :: "bytes \<Rightarrow> int" where
  "sint8korr A = s64 (uint8korr A)"

text \<open>High byte first.\<close>

definition mi_int1store :: "int \<Rightarrow> bytes" where
  "mi_int1store A = [u8 A]"

definition mi_int2store :: "int \<Rightarrow> bytes" where
  "mi_int2store A = (let def_temp = u32 A in [u8 (def_temp div 2 ^ 8), u8 def_temp])"

definition mi_int3store :: "int \<Rightarrow> bytes" where
  "mi_int3store A = (let def_temp = u64 A
     in [u8 (def_temp div 2 ^ 16), u8 (def_temp div 2 ^ 8), u8 def_temp])"

definition mi_int4store :: "int \<Rightarrow> bytes" where
  "mi_int4store A = (let def_temp = u64 A
     in [u8 (def_temp div 2 ^ 24), u8 (def_temp div 2 ^ 16), u8 (def_temp div 2 ^ 8),
         u8 def_temp])"

definition mi_int5store :: "int \<Rightarrow> bytes" where
  "mi_int5store A = (let def_temp = u64 A; def_temp2 = u64 (A div 2 ^ 32)
     in [u8 def_temp2, u8 (def_temp div 2 ^ 24), u8 (def_temp div 2 ^ 16),
         u8 (def_temp div 2 ^ 8), u8 def_temp])"

definition mi_int6store :: "int \<Rightarrow> bytes" where
  "mi_int6store A = (let def_temp = u64 A; def_temp2 = u64 (A div 2 ^ 32)
     in [u8 (def_temp2 div 2 ^ 8), u8 def_temp2, u8 (def_temp div 2 ^ 24),
         u8 (def_temp div 2 ^ 16), u8 (def_temp div 2 ^ 8), u8 def_temp])"

definition mi_int7store :: "int \<Rightarrow> bytes" where
  "mi_int7store A = (let def_temp = u64 A; def_temp2 = u64 (A div 2 ^ 32)
     in [u8 (def_temp2 div 2 ^ 16), u8 (def_temp2 div 2 ^ 8), u8 def_temp2,
         u8 (def_temp div 2 ^ 24), u8 (def_temp div 2 ^ 16), u8 (def_temp div 2 ^ 8),
         u8 def_temp])"

definition mi_int8store :: "int \<Rightarrow> bytes" where
  "mi_int8store A = (let def_temp3 = u64 A; def_temp4 = u64 (A div 2 ^ 32)
     in mi_int4store def_temp4 @ mi_int4store def_temp3)"

definition mi_uint1korr :: "bytes \<Rightarrow> int" where
  "mi_uint1korr A = A ! 0"

definition mi_sint1korr :: "bytes \<Rightarrow> int" where
  "mi_sint1korr A = s8 (A ! 0)"

definition mi_uint2korr :: "bytes \<Rightarrow> int" where
  "mi_uint2korr A = A ! 1 + A ! 0 * 2 ^ 8"

definition mi_uint3korr :: "bytes \<Rightarrow> int" where
  "mi_uint3korr A = A ! 2 + A ! 1 * 2 ^ 8 + A ! 0 * 2 ^ 16"

definition mi_uint4korr :: "bytes \<Rightarrow> int" where
  "mi_uint4korr A = u32 (A ! 3 + A ! 2 * 2 ^ 8 + A ! 1 * 2 ^ 16 + A ! 0 * 2 ^ 24)"

definition mi_uint5korr :: "bytes \<Rightarrow> int" where
  "mi_uint5korr A = mi_uint4korr (drop 1 A) + A ! 0 * 2 ^ 32"

definition mi_uint6korr :: "bytes \<Rightarrow> int" where
  "mi_uint6korr A = mi_uint4korr (drop 2 A) + (A ! 1 + A ! 0 * 2 ^ 8) * 2 ^ 32"

definition mi_uint7korr :: "bytes \<Rightarrow> int" where
  "mi_uint7korr A = mi_uint4korr (drop 3 A) + (A ! 2 + A ! 1 * 2 ^ 8 + A ! 0 * 2 ^ 16) * 2 ^ 32"

definition mi_uint8korr :: "bytes \<Rightarrow> int" where
  "mi_uint8korr A = mi_uint4korr (drop 4 A) + mi_uint4korr A * 2 ^ 32"

definition mi_sint2korr :: "bytes \<Rightarrow> int" where
  "mi_sint2korr A = (let v = A ! 1 + A ! 0 * 2 ^ 8 in if v < 2 ^ 15 then v else v - 2 ^ 16)"

definition mi_sint3korr :: "bytes \<Rightarrow> int" where
  "mi_sint3korr A =
     s32 (if A ! 0 \<ge> 128 then 255 * 2 ^ 24 + A ! 0 * 2 ^ 16 + A ! 1 * 2 ^ 8 + A ! 2
          else A ! 0 * 2 ^ 16 + A ! 1 * 2 ^ 8 + A ! 2)"

definition mi_sint4korr :: "bytes \<Rightarrow> int" where
  "mi_sint4korr A = s32 (A ! 3 + A ! 2 * 2 ^ 8 + A ! 1 * 2 ^ 16 + A ! 0 * 2 ^ 24)"

definition mi_sint8korr :: "bytes \<Rightarrow> int" where
  "mi_sint8korr A = s64 (mi_uint8korr A)"

section \<open>Stores and loads are the generic ones\<close>

lemma le_bytes_numeral:
  "le_bytes (numeral k) x = u8 x # le_bytes (pred_numeral k) (x div 2 ^ 8)"
  by (simp add: numeral_eq_Suc)

lemma le_bytes_add: "le_bytes (m + n) x = le_bytes m x @ le_bytes n (x div (2 ^ 8) ^ m)"
  by (induction m arbitrary: x) (auto simp: zdiv_zmult2_eq)

lemma div_div_256: "(x::int) div 256 div 256 = x div 65536"
  "x div 65536 div 256 = x div 16777216"
  "x div 16777216 div 256 = x div 4294967296"
  "x div 4294967296 div 256 = x div 1099511627776"
  "x div 1099511627776 div 256 = x div 281474976710656"
  by (simp_all flip: zdiv_zmult2_eq)

lemma store_le_bytes:
  "int2store A = le_bytes 2 A"
  "int3store A = le_bytes 3 A"
  "int4store A = le_bytes 4 A"
  "int5store A = le_bytes 5 A"
  "int6store A = le_bytes 6 A"
  "int7store A = le_bytes 7 A"
  by (simp_all add: int2store_def int3store_def int4store_def int5store_def int6store_def
      int7store_def le_bytes_numeral div_div_256)

lemma int8store_le_bytes: "int8store A = le_bytes 8 A"
  using le_bytes_add [of 4 4 A] le_bytes_mod [of 4 32]
  by (simp add: int8store_def store_le_bytes u32_def Let_def)

lemma mi_store_be_bytes:
  "mi_int1store A = rev (le_bytes 1 A)"
  "mi_int2store A = rev (le_bytes 2 A)"
  "mi_int3store A = rev (le_bytes 3 A)"
  "mi_int4store A = rev (le_bytes 4 A)"
  using le_bytes_mod [of 2 32 A] le_bytes_mod [of 3 64 A] le_bytes_mod [of 4 64 A]
  by (simp_all add: mi_int1store_def mi_int2store_def mi_int3store_def mi_int4store_def
      le_bytes_numeral div_div_256 Let_def u32_def u64_def)

lemma mi_store_split:
  "mi_int5store A = rev (le_bytes 1 (u64 (A div 2 ^ 32))) @ mi_int4store A"
  "mi_int6store A = rev (le_bytes 2 (u64 (A div 2 ^ 32))) @ mi_int4store A"
  "mi_int7store A = rev (le_bytes 3 (u64 (A div 2 ^ 32))) @ mi_int4store A"
  by (simp_all add: mi_int5store_def mi_int6store_def mi_int7store_def mi_int4store_def Let_def
      le_bytes_numeral div_div_256)

lemma le_bytes_u64: "n \<le> 8 \<Longrightarrow> le_bytes n (u64 x) = le_bytes n x"
  by (simp add: u64_def le_bytes_mod del: power_numeral)

lemma mi_store_be_bytes_long:
  "mi_int5store A = rev (le_bytes (4 + 1) A)"
  "mi_int6store A = rev (le_bytes (4 + 2) A)"
  "mi_int7store A = rev (le_bytes (4 + 3) A)"
  "mi_int8store A = rev (le_bytes (4 + 4) A)"
  unfolding mi_store_split mi_store_be_bytes le_bytes_add rev_append mi_int8store_def Let_def
  by (simp_all add: le_bytes_u64 del: One_nat_def)

lemma is_bytes_nth: "is_bytes bs \<Longrightarrow> i < length bs \<Longrightarrow> 0 \<le> bs ! i \<and> bs ! i < 256"
  by (simp add: is_bytes_def)

lemma take_unroll:
  "2 \<le> length bs \<Longrightarrow> take 2 bs = [bs ! 0, bs ! 1]"
  "3 \<le> length bs \<Longrightarrow> take 3 bs = [bs ! 0, bs ! 1, bs ! 2]"
  "4 \<le> length bs \<Longrightarrow> take 4 bs = [bs ! 0, bs ! 1, bs ! 2, bs ! 3]"
  by (auto simp: list_eq_iff_nth_eq less_Suc_eq numeral_eq_Suc)

lemma uint4korr_val:
  assumes "4 \<le> length bs" "is_bytes bs"
  shows "uint4korr bs = le_val (take 4 bs)" and "mi_uint4korr bs = be_val (take 4 bs)"
proof -
  have "0 \<le> bs ! i \<and> bs ! i < 256" if "i < 4" for i
    using assms that by (intro is_bytes_nth) auto
  from this [of 0] this [of 1] this [of 2] this [of 3] show "uint4korr bs = le_val (take 4 bs)" and "mi_uint4korr bs = be_val (take 4 bs)"
    using assms by (simp_all add: uint4korr_def mi_uint4korr_def take_unroll u32_def)
qed

lemma korr_val:
  "2 \<le> length bs \<Longrightarrow> uint2korr bs = le_val (take 2 bs)"
  "3 \<le> length bs \<Longrightarrow> uint3korr bs = le_val (take 3 bs)"
  "2 \<le> length bs \<Longrightarrow> mi_uint2korr bs = be_val (take 2 bs)"
  "3 \<le> length bs \<Longrightarrow> mi_uint3korr bs = be_val (take 3 bs)"
  by (simp_all add: uint2korr_def uint3korr_def mi_uint2korr_def mi_uint3korr_def take_unroll)

lemma be_val_append: "be_val (as @ bs) = be_val as * (2 ^ 8) ^ length bs + be_val bs"
  by (simp add: be_val_def le_val_append)

lemma take_hd: "Suc n \<le> length bs \<Longrightarrow> take (Suc n) bs = bs ! 0 # take n (drop 1 bs)"
  by (cases bs) auto

lemma korr_val_long:
  assumes "is_bytes bs"
  shows "5 \<le> length bs \<Longrightarrow> uint5korr bs = le_val (take 5 bs)"
    and "6 \<le> length bs \<Longrightarrow> uint6korr bs = le_val (take 6 bs)"
    and "8 \<le> length bs \<Longrightarrow> uint8korr bs = le_val (take 8 bs)"
    and "5 \<le> length bs \<Longrightarrow> mi_uint5korr bs = be_val (take 5 bs)"
    and "6 \<le> length bs \<Longrightarrow> mi_uint6korr bs = be_val (take 6 bs)"
    and "7 \<le> length bs \<Longrightarrow> mi_uint7korr bs = be_val (take 7 bs)"
    and "8 \<le> length bs \<Longrightarrow> mi_uint8korr bs = be_val (take 8 bs)"
  using assms is_bytes_take_drop [OF assms]
    take_add [of 4 1 bs] take_add [of 4 2 bs] take_add [of 4 4 bs]
    take_add [of 1 4 bs] take_add [of 2 4 bs] take_add [of 3 4 bs]
  by (simp_all add: uint5korr_def uint6korr_def uint8korr_def mi_uint5korr_def mi_uint6korr_def
      mi_uint7korr_def mi_uint8korr_def uint4korr_val le_val_append be_val_append take_unroll
      take_hd)

section \<open>Round trips\<close>

text \<open>
  Each store with its load is a codec on the values of its width; a buffer of another length
  is not read.
\<close>

definition load :: "nat \<Rightarrow> (bytes \<Rightarrow> int) \<Rightarrow> bytes \<Rightarrow> int option" where
  "load n korr bs = (if length bs = n then Some (korr bs) else None)"

definition fits :: "nat \<Rightarrow> int \<Rightarrow> bool" where
  "fits w x \<longleftrightarrow> 0 \<le> x \<and> x < 2 ^ w"

lemma le_val_fits: "fits (8 * n) x \<Longrightarrow> le_val (le_bytes n x) = x"
  by (simp add: fits_def le_val_le_bytes power_mult [symmetric] del: power_numeral)

lemma be_val_fits: "fits (8 * n) x \<Longrightarrow> be_val (rev (le_bytes n x)) = x"
  by (simp add: be_val_def le_val_fits)

lemmas load_simps = load_def store_le_bytes int8store_le_bytes mi_store_be_bytes(2-4)
  mi_store_be_bytes_long korr_val uint4korr_val korr_val_long le_val_fits be_val_fits

interpretation int2: codec int2store "load 2 uint2korr" "fits (8 * 2)"
  by unfold_locales (simp add: load_simps del: mult_numeral_left_semiring_numeral)

interpretation int3: codec int3store "load 3 uint3korr" "fits (8 * 3)"
  by unfold_locales (simp add: load_simps del: mult_numeral_left_semiring_numeral)

interpretation int4: codec int4store "load 4 uint4korr" "fits (8 * 4)"
  by unfold_locales (simp add: load_simps del: mult_numeral_left_semiring_numeral)

interpretation int8: codec int8store "load 8 uint8korr" "fits (8 * 8)"
  by unfold_locales (simp add: load_simps del: mult_numeral_left_semiring_numeral)

lemma store_shape:
  "length (int8store A) = 8" "is_bytes (int8store A)"
  "length (mi_int8store A) = 8" "is_bytes (mi_int8store A)"
  by (simp_all add: load_simps)

lemma korr_store:
  "uint8korr (int8store A) = A mod 2 ^ 64" "mi_uint8korr (mi_int8store A) = A mod 2 ^ 64"
  "uint4korr (int4store A) = A mod 2 ^ 32" "mi_uint4korr (mi_int4store A) = A mod 2 ^ 32"
  using le_val_le_bytes [of 8 A] le_val_le_bytes [of 4 A]
  by (simp_all add: load_simps be_val_def)

lemma s_mod: "s64 (A mod 2 ^ 64) = s64 A" "s32 (A mod 2 ^ 32) = s32 A"
  "s8 (A mod 2 ^ 8) = s8 A"
  by (simp_all add: s64_def s32_def s8_def mod_simps)

lemmas s_mod_numeral [simp] = s_mod [simplified]

lemma sint4korr_u: "sint4korr bs = s32 (uint4korr bs)" "mi_sint4korr bs = s32 (mi_uint4korr bs)"
  by (simp_all add: sint4korr_def uint4korr_def mi_sint4korr_def mi_uint4korr_def u32_def)

lemma korr_store_low:
  "uint2korr (int2store A) = A mod 2 ^ 16" "mi_uint2korr (mi_int2store A) = A mod 2 ^ 16"
  "uint3korr (int3store A) = A mod 2 ^ 24" "mi_uint3korr (mi_int3store A) = A mod 2 ^ 24"
  "mi_uint1korr (mi_int1store A) = A mod 2 ^ 8"
  using le_val_le_bytes [of 2 A] le_val_le_bytes [of 3 A]
  by (simp_all add: load_simps be_val_def mi_uint1korr_def mi_int1store_def u8_def)

lemma korr_store_high:
  "uint5korr (int5store A) = A mod 2 ^ 40" "mi_uint5korr (mi_int5store A) = A mod 2 ^ 40"
  "uint6korr (int6store A) = A mod 2 ^ 48" "mi_uint6korr (mi_int6store A) = A mod 2 ^ 48"
  "mi_uint7korr (mi_int7store A) = A mod 2 ^ 56"
  using le_val_le_bytes [of 5 A] le_val_le_bytes [of 6 A] le_val_le_bytes [of 7 A]
  by (simp_all add: load_simps be_val_def)

text \<open>There is no load of seven bytes, low byte first: they are read as four and three.\<close>

lemma korr_int7store:
  "uint4korr (int7store A) = A mod 2 ^ 32" "uint3korr (drop 4 (int7store A)) = A div 2 ^ 32 mod 2 ^ 24"
  using le_bytes_add [of 4 3 A] le_val_le_bytes [of 4 A] le_val_le_bytes [of 3 "A div 2 ^ 32"]
  by (simp_all add: load_simps)

text \<open>The two's complement value of the low \<open>w\<close> bits.\<close>

definition signed_val :: "nat \<Rightarrow> int \<Rightarrow> int" where
  "signed_val w x = (x + 2 ^ (w - 1)) mod 2 ^ w - 2 ^ (w - 1)"

lemma signed_val_C: "signed_val 8 = s8" "signed_val 32 = s32" "signed_val 64 = s64"
  by (simp_all add: fun_eq_iff signed_val_def s8_def s32_def s64_def)

lemma signed_val_mod:
  assumes "0 < w"
  shows "signed_val w x = (if x mod 2 ^ w < 2 ^ (w - 1) then x mod 2 ^ w else x mod 2 ^ w - 2 ^ w)"
proof -
  let ?h = "(2 :: int) ^ (w - 1)" and ?v = "x mod 2 ^ w"
  have w: "(2 :: int) ^ w = 2 * ?h"
    using assms by (cases w) auto
  have v: "0 \<le> ?v" "?v < 2 * ?h"
    using pos_mod_bound [of "2 ^ w" x] by (simp_all add: w)
  have "(x + ?h) mod 2 ^ w = (?v + ?h) mod (2 * ?h)"
    by (simp add: w mod_simps)
  also have "\<dots> = (if ?v < ?h then ?v + ?h else ?v - ?h)"
  proof (cases "?v < ?h")
    case False
    have "(?v + ?h) mod (2 * ?h) = (?v - ?h + 1 * (2 * ?h)) mod (2 * ?h)"
      by (simp add: add.commute)
    also have "\<dots> = (?v - ?h) mod (2 * ?h)"
      by (rule mod_mult_self1)
    finally show ?thesis
      using False v by (simp del: power_Suc)
  qed (use v in simp)
  finally show ?thesis
    by (simp add: signed_val_def w)
qed

lemma sint2korr_val:
  "sint2korr (int2store A) = signed_val 16 A" "mi_sint2korr (mi_int2store A) = signed_val 16 A"
  using korr_store_low(1,2) [of A]
  by (simp_all add: sint2korr_def mi_sint2korr_def mi_uint2korr_def Let_def signed_val_mod)

text \<open>The sign of a three-byte value is the top bit of its last byte; the value itself has no more
  than 24 bits.\<close>

lemma sign_extend_24:
  fixes a b c :: int
  assumes "0 \<le> a" "a < 256" "0 \<le> b" "b < 256" "0 \<le> c" "c < 256" "c * 2 ^ 16 + b * 2 ^ 8 + a = v mod 2 ^ 24"
  shows "s32 (if c \<ge> 128 then 255 * 2 ^ 24 + c * 2 ^ 16 + b * 2 ^ 8 + a else c * 2 ^ 16 + b * 2 ^ 8 + a) = signed_val 24 v"
proof -
  let ?n = "v mod 2 ^ 24"
  have n: "c \<ge> 128 \<longleftrightarrow> ?n \<ge> 2 ^ 23" "0 \<le> ?n" "?n < 2 ^ 24"
    using assms by auto
  have "s32 (255 * 2 ^ 24 + ?n) = ?n - 2 ^ 24" if "?n \<ge> 2 ^ 23"
    using that n by (simp add: signed_val_C [symmetric] signed_val_mod)
  moreover have "s32 ?n = ?n"
    using n by (intro s32_id) simp_all
  ultimately show ?thesis
    unfolding n(1) using assms(7) n by (simp add: signed_val_mod add.assoc)
qed

lemma sint3korr_val:
  "sint3korr (int3store A) = signed_val 24 A" "mi_sint3korr (mi_int3store A) = signed_val 24 A"
proof -
  have b: "0 \<le> u8 x" "u8 x < 256" for x
    by (simp_all add: u8_def)
  have "int3store A ! 0 = u8 A" "int3store A ! 1 = u8 (A div 2 ^ 8)" "int3store A ! 2 = u8 (A div 2 ^ 16)"
    "mi_int3store A ! 0 = u8 (u64 A div 2 ^ 16)" "mi_int3store A ! 1 = u8 (u64 A div 2 ^ 8)" "mi_int3store A ! 2 = u8 (u64 A)"
    by (simp_all add: int3store_def mi_int3store_def Let_def)
  note bytes = this
  show "sint3korr (int3store A) = signed_val 24 A"
    unfolding sint3korr_def bytes
    by (intro sign_extend_24 b) (use korr_store_low(3) [of A] in \<open>simp add: uint3korr_def bytes [simplified]\<close>)
  show "mi_sint3korr (mi_int3store A) = signed_val 24 A"
    unfolding mi_sint3korr_def bytes
    by (intro sign_extend_24 b) (use korr_store_low(4) [of A] in \<open>simp add: mi_uint3korr_def bytes [simplified]\<close>)
qed

text \<open>C5. Every load gives back the value stored, reduced to the width of the store, in both
  byte orders and at every width there is a load for: two to six and eight bytes low byte first, one to
  eight bytes high byte first. The bytes of the seven-byte store, low byte first, are the low
  and the high part of the value. Every signed load, of one, two, three, four and eight bytes, gives the
  two's complement value of the low bits.\<close>

theorem store_korr_roundtrip:
  "uint2korr (int2store A) = A mod 2 ^ 16 \<and> uint3korr (int3store A) = A mod 2 ^ 24
   \<and> uint4korr (int4store A) = A mod 2 ^ 32 \<and> uint5korr (int5store A) = A mod 2 ^ 40
   \<and> uint6korr (int6store A) = A mod 2 ^ 48 \<and> uint8korr (int8store A) = A mod 2 ^ 64
   \<and> uint4korr (int7store A) = A mod 2 ^ 32 \<and> uint3korr (drop 4 (int7store A)) = A div 2 ^ 32 mod 2 ^ 24
   \<and> length (int7store A) = 7
   \<and> mi_uint1korr (mi_int1store A) = A mod 2 ^ 8 \<and> mi_uint2korr (mi_int2store A) = A mod 2 ^ 16
   \<and> mi_uint3korr (mi_int3store A) = A mod 2 ^ 24 \<and> mi_uint4korr (mi_int4store A) = A mod 2 ^ 32
   \<and> mi_uint5korr (mi_int5store A) = A mod 2 ^ 40 \<and> mi_uint6korr (mi_int6store A) = A mod 2 ^ 48
   \<and> mi_uint7korr (mi_int7store A) = A mod 2 ^ 56 \<and> mi_uint8korr (mi_int8store A) = A mod 2 ^ 64
   \<and> sint2korr (int2store A) = signed_val 16 A \<and> sint3korr (int3store A) = signed_val 24 A
   \<and> sint4korr (int4store A) = signed_val 32 A \<and> sint8korr (int8store A) = signed_val 64 A
   \<and> mi_sint1korr (mi_int1store A) = signed_val 8 A \<and> mi_sint2korr (mi_int2store A) = signed_val 16 A
   \<and> mi_sint3korr (mi_int3store A) = signed_val 24 A \<and> mi_sint4korr (mi_int4store A) = signed_val 32 A
   \<and> mi_sint8korr (mi_int8store A) = signed_val 64 A"
proof -
  have "mi_sint1korr (mi_int1store A) = s8 A"
    by (simp add: mi_sint1korr_def mi_int1store_def u8_def)
  moreover have "sint4korr (int4store A) = s32 A" "mi_sint4korr (mi_int4store A) = s32 A"
    "sint8korr (int8store A) = s64 A" "mi_sint8korr (mi_int8store A) = s64 A"
    by (simp_all add: korr_store sint4korr_u sint8korr_def mi_sint8korr_def)
  moreover have "length (int7store A) = 7"
    by (simp add: int7store_def)
  ultimately show ?thesis
    by (simp only: korr_store korr_store_low korr_store_high korr_int7store sint2korr_val sint3korr_val signed_val_C simp_thms)
qed

lemma be_compare:
  "memcmp (rev (le_bytes n a)) (rev (le_bytes n b)) < 0 \<longleftrightarrow>
   a mod (2 ^ 8) ^ n < b mod (2 ^ 8) ^ n"
  by (simp add: memcmp_be_val be_val_def le_val_le_bytes)

text \<open>C6. Values stored with the high byte first compare with \<open>memcmp\<close> as they do as
  numbers: the property that lets storage engines compare keys byte by byte.\<close>

theorem mi_store_memcmp_order:
  "(memcmp (mi_int3store a) (mi_int3store b) < 0 \<longleftrightarrow> a mod 2 ^ 24 < b mod 2 ^ 24)
   \<and> (memcmp (mi_int4store a) (mi_int4store b) < 0 \<longleftrightarrow> a mod 2 ^ 32 < b mod 2 ^ 32)
   \<and> (memcmp (mi_int5store a) (mi_int5store b) < 0 \<longleftrightarrow> a mod 2 ^ 40 < b mod 2 ^ 40)
   \<and> (memcmp (mi_int8store a) (mi_int8store b) < 0 \<longleftrightarrow> a mod 2 ^ 64 < b mod 2 ^ 64)"
  unfolding mi_store_be_bytes(3,4) mi_store_be_bytes_long be_compare
  by (simp add: power_mult [symmetric])

section \<open>Length-encoded integers\<close>

definition NULL_LENGTH :: int where
  "NULL_LENGTH = 2 ^ 64 - 1"

definition net_store_length :: "int \<Rightarrow> bytes" where
  "net_store_length len =
     (if len < 251 then [u8 len]
      else if len < 65536 then 252 # int2store (u32 len)
      else if len < 16777216 then 253 # int3store len
      else 254 # int8store len)"

text \<open>A load gives the value and the number of bytes the packet pointer advances.\<close>

definition net_field_length :: "bytes \<Rightarrow> int \<times> nat" where
  "net_field_length pos =
     (if pos ! 0 < 251 then (pos ! 0, 1)
      else if pos ! 0 = 251 then (NULL_LENGTH, 1)
      else if pos ! 0 = 252 then (uint2korr (drop 1 pos), 3)
      else if pos ! 0 = 253 then (uint3korr (drop 1 pos), 4)
      else (uint4korr (drop 1 pos), 9))"

definition net_field_length_checked :: "bytes \<Rightarrow> int \<Rightarrow> int \<times> nat" where
  "net_field_length_checked pos max_length =
     (if pos ! 0 < 251 then (if pos ! 0 > max_length then max_length else pos ! 0, 1)
      else if pos ! 0 = 251 then (NULL_LENGTH, 1)
      else if pos ! 0 = 252
        then (let len = uint2korr (drop 1 pos) in if len > max_length then max_length else len, 3)
      else if pos ! 0 = 253
        then (let len = uint3korr (drop 1 pos) in if len > max_length then max_length else len, 4)
      else (let len = uint4korr (drop 1 pos) in if len > max_length then max_length else len, 9))"

definition net_field_length_ll :: "bytes \<Rightarrow> int \<times> nat" where
  "net_field_length_ll pos =
     (if pos ! 0 < 251 then (pos ! 0, 1)
      else if pos ! 0 = 251 then (NULL_LENGTH, 1)
      else if pos ! 0 = 252 then (uint2korr (drop 1 pos), 3)
      else if pos ! 0 = 253 then (uint3korr (drop 1 pos), 4)
      else (uint8korr (drop 1 pos), 9))"

definition net_length_size :: "int \<Rightarrow> nat" where
  "net_length_size num =
     (if num < 251 then 1 else if num < 65536 then 3 else if num < 16777216 then 4 else 9)"

definition net_field_length_size :: "bytes \<Rightarrow> nat" where
  "net_field_length_size pos =
     (if pos ! 0 \<le> 251 then 1 else if pos ! 0 = 252 then 3 else if pos ! 0 = 253 then 4 else 9)"

lemma korr_append:
  "uint2korr (int2store A @ rest) = A mod 2 ^ 16"
  "uint3korr (int3store A @ rest) = A mod 2 ^ 24"
  "uint4korr (int8store A @ rest) = A mod 2 ^ 32"
  "uint8korr (int8store A @ rest) = A mod 2 ^ 64"
proof -
  show "uint2korr (int2store A @ rest) = A mod 2 ^ 16"
    using le_val_le_bytes [of 2 A] by (simp add: korr_val store_le_bytes)
  show "uint3korr (int3store A @ rest) = A mod 2 ^ 24"
    using le_val_le_bytes [of 3 A] by (simp add: korr_val store_le_bytes)
  have "uint4korr (xs @ rest) = uint4korr xs" if "4 \<le> length xs" for xs
    using that by (auto simp: uint4korr_def nth_append)
  moreover have "uint4korr (int8store A) = A mod 2 ^ 32"
    using le_bytes_add [of 4 4 A] le_val_le_bytes [of 4 A]
    by (simp add: uint4korr_val int8store_le_bytes)
  ultimately show "uint4korr (int8store A @ rest) = A mod 2 ^ 32"
    and "uint8korr (int8store A @ rest) = A mod 2 ^ 64"
    using korr_store(1) [of A] by (simp_all add: uint8korr_def store_shape)
qed

text \<open>C7. A length written by \<open>net_store_length\<close> takes \<open>net_length_size\<close> bytes,
  is read back whole by \<open>net_field_length_ll\<close>, and by \<open>net_field_length\<close> up to
  32 bits; all readers advance over exactly the bytes written.\<close>

theorem net_length_roundtrip:
  assumes "0 \<le> len" "len < 2 ^ 64"
  shows "net_field_length_ll (net_store_length len @ rest) = (len, net_length_size len)
    \<and> net_field_length (net_store_length len @ rest)
        = (if len < 16777216 then len else len mod 2 ^ 32, net_length_size len)
    \<and> length (net_store_length len) = net_length_size len
    \<and> net_field_length_size (net_store_length len @ rest) = net_length_size len"
proof -
  have l: "length (int2store x) = 2" "length (int3store x) = 3" for x
    by (simp_all add: store_le_bytes)
  consider "len < 251" | "251 \<le> len" "len < 65536" | "65536 \<le> len" "len < 16777216"
    | "16777216 \<le> len" by linarith
  then show ?thesis
    using assms korr_append(1) [of len rest] korr_append(2) [of len rest]
      korr_append(3) [of len rest] korr_append(4) [of len rest]
    by cases (simp_all add: net_store_length_def net_field_length_ll_def net_field_length_def
        net_length_size_def net_field_length_size_def u8_def u32_def l store_shape)
qed

theorem net_length_roundtrip_witness:
  "net_field_length_ll (net_store_length 70000 @ [1, 2]) = (70000, 4)"
  using net_length_roundtrip [of 70000 "[1, 2]"] by (simp add: net_length_size_def)

end
