(* ===== verification/Uuid.thy ===== *)
theory Uuid
  imports Byteorder
begin

text \<open>
  Server identifiers: \<open>libbinlogevents/src/uuid.cpp\<close> and \<open>include/uuid.h\<close>. A
  UUID is its sixteen bytes. Reading a text past its end reads the terminating NUL.
\<close>

type_synonym uuid = bytes

definition BYTE_LENGTH :: nat where
  "BYTE_LENGTH = 16"

definition TEXT_LENGTH :: nat where
  "TEXT_LENGTH = 36"

definition bytes_per_section :: "nat list" where
  "bytes_per_section = [4, 2, 2, 2, 6]"

definition is_uuid :: "uuid \<Rightarrow> bool" where
  "is_uuid u \<longleftrightarrow> length u = BYTE_LENGTH \<and> is_bytes u"

definition deref :: "string \<Rightarrow> char" where
  "deref s = (case s of [] \<Rightarrow> CHR 0x00 | c # _ \<Rightarrow> c)"

lemma deref_simps [simp]: "deref [] = CHR 0x00" "deref (c # s) = c"
  by (simp_all add: deref_def)

definition hex_to_byte :: "char \<Rightarrow> int" where
  "hex_to_byte c =
     (let k = of_char c :: int in
        if 48 \<le> k \<and> k \<le> 57 then k - 48
        else if 65 \<le> k \<and> k \<le> 70 then k - 55
        else if 97 \<le> k \<and> k \<le> 102 then k - 87
        else -1)"

definition byte_to_hex :: string where
  "byte_to_hex = ''0123456789abcdef''"

section \<open>Operations\<close>

definition uuid_clear :: uuid where
  "uuid_clear = replicate BYTE_LENGTH 0"

definition copy_from :: "bytes \<Rightarrow> uuid" where
  "copy_from data = take BYTE_LENGTH data"

definition copy_to :: "uuid \<Rightarrow> bytes" where
  "copy_to u = take BYTE_LENGTH u"

definition uuid_equals :: "uuid \<Rightarrow> uuid \<Rightarrow> bool" where
  "uuid_equals u v \<longleftrightarrow> memcmp (take BYTE_LENGTH u) (take BYTE_LENGTH v) = 0"

text \<open>
  \<open>read_section\<close> gives the bytes it appends to the output and the rest of the text, or
  \<open>None\<close> where it returns true. Bytes written before a failure are not kept: every
  caller drops the output then.
\<close>

fun read_section :: "nat \<Rightarrow> string \<Rightarrow> (bytes \<times> string) option" where
  "read_section 0 s = Some ([], s)"
| "read_section (Suc n) s =
     (let hi = hex_to_byte (deref s) in
      if hi = -1 then None
      else let lo = hex_to_byte (deref (tl s)) in
      if lo = -1 then None
      else case read_section n (tl (tl s)) of
             None \<Rightarrow> None
           | Some (bs, r) \<Rightarrow> Some (u8 (hi * 2 ^ 4 + lo) # bs, r))"

text \<open>The loop over all sections but the last, each followed by a dash, then the last one.\<close>

fun read_sections :: "nat list \<Rightarrow> string \<Rightarrow> bytes option" where
  "read_sections [] s = Some []"
| "read_sections [n] s = map_option fst (read_section n s)"
| "read_sections (n # m # ns) s =
     (case read_section n s of
        None \<Rightarrow> None
      | Some (bs, r) \<Rightarrow>
          if deref r = CHR ''-'' then map_option (\<lambda>cs. bs @ cs) (read_sections (m # ns) (tl r))
          else None)"

definition uuid_parse :: "string \<Rightarrow> nat \<Rightarrow> uuid option" where
  "uuid_parse s len =
     (if len = TEXT_LENGTH - 4 then map_option fst (read_section ((TEXT_LENGTH - 4) div 2) s)
      else if len = TEXT_LENGTH + 2 then
        if deref s \<noteq> CHR ''{'' \<or> deref (drop (TEXT_LENGTH + 1) s) \<noteq> CHR ''}'' then None
        else read_sections bytes_per_section (tl s)
      else if len = TEXT_LENGTH then read_sections bytes_per_section s
      else None)"

definition uuid_is_valid :: "string \<Rightarrow> nat \<Rightarrow> bool" where
  "uuid_is_valid s len \<longleftrightarrow> uuid_parse s len \<noteq> None"

fun section_to_string :: "bytes \<Rightarrow> string" where
  "section_to_string [] = []"
| "section_to_string (b # bs) =
     byte_to_hex ! nat (b div 2 ^ 4) # byte_to_hex ! nat (b mod 2 ^ 4) # section_to_string bs"

fun sections_to_string :: "nat list \<Rightarrow> bytes \<Rightarrow> string" where
  "sections_to_string [] u = []"
| "sections_to_string [n] u = section_to_string (take n u)"
| "sections_to_string (n # m # ns) u =
     section_to_string (take n u) @ CHR ''-'' # sections_to_string (m # ns) (drop n u)"

definition uuid_to_string :: "uuid \<Rightarrow> string" where
  "uuid_to_string u = sections_to_string bytes_per_section u"

section \<open>Text round trip\<close>

lemma hex_digit_cases:
  fixes d :: int
  assumes "0 \<le> d" "d < 16"
  shows "d = 0 \<or> d = 1 \<or> d = 2 \<or> d = 3 \<or> d = 4 \<or> d = 5 \<or> d = 6 \<or> d = 7 \<or> d = 8 \<or> d = 9
    \<or> d = 10 \<or> d = 11 \<or> d = 12 \<or> d = 13 \<or> d = 14 \<or> d = 15"
  using assms by presburger

lemma hex_to_byte_to_hex [simp]:
  assumes "0 \<le> d" "d < 16"
  shows "hex_to_byte (byte_to_hex ! nat d) = d"
  using hex_digit_cases [OF assms]
  by (elim disjE; simp add: hex_to_byte_def byte_to_hex_def nat_numeral)

lemma read_section_to_string:
  "is_bytes bs \<Longrightarrow> read_section (length bs) (section_to_string bs @ r) = Some (bs, r)"
  by (induction bs) (auto simp: u8_def Let_def)

lemma read_sections_to_string:
  assumes "is_bytes u" "length u = sum_list ns" "ns \<noteq> []"
  shows "read_sections ns (sections_to_string ns u @ r) = Some u"
  using assms
proof (induction ns u rule: sections_to_string.induct)
  case (2 n u)
  then show ?case using read_section_to_string [of u r] by simp
next
  case (3 n m ns u)
  then have b: "is_bytes (take n u)" "is_bytes (drop n u)" "length (take n u) = n"
    using is_bytes_take_drop [of u n] by auto
  then show ?case
    using 3 read_section_to_string [of "take n u"
      "CHR ''-'' # sections_to_string (m # ns) (drop n u) @ r"]
    by simp
qed simp

lemma length_section_to_string [simp]: "length (section_to_string bs) = 2 * length bs"
  by (induction bs) auto

lemma length_uuid_to_string: "is_uuid u \<Longrightarrow> length (uuid_to_string u) = TEXT_LENGTH"
  by (simp add: uuid_to_string_def bytes_per_section_def is_uuid_def BYTE_LENGTH_def
      TEXT_LENGTH_def min_def)

lemma uuid_parse_to_string:
  "is_uuid u \<Longrightarrow> uuid_parse (uuid_to_string u @ r) TEXT_LENGTH = Some u"
  using read_sections_to_string [of u bytes_per_section r]
  by (simp add: uuid_parse_def TEXT_LENGTH_def is_uuid_def BYTE_LENGTH_def uuid_to_string_def
      bytes_per_section_def)

lemma hex_to_byte_valid:
  assumes "hex_to_byte c \<noteq> -1"
  shows "c \<in> set ''0123456789abcdefABCDEF''"
proof -
  let ?k = "of_char c :: int"
  have c: "c = char_of ?k" by simp
  have "?k \<in> {48..57} \<or> ?k \<in> {65..70} \<or> ?k \<in> {97..102}"
    using assms by (auto simp: hex_to_byte_def Let_def split: if_splits)
  then have "?k = 48 \<or> ?k = 49 \<or> ?k = 50 \<or> ?k = 51 \<or> ?k = 52 \<or> ?k = 53 \<or> ?k = 54 \<or> ?k = 55
      \<or> ?k = 56 \<or> ?k = 57 \<or> ?k = 65 \<or> ?k = 66 \<or> ?k = 67 \<or> ?k = 68 \<or> ?k = 69 \<or> ?k = 70
      \<or> ?k = 97 \<or> ?k = 98 \<or> ?k = 99 \<or> ?k = 100 \<or> ?k = 101 \<or> ?k = 102"
    unfolding atLeastAtMost_iff by presburger
  then show ?thesis
    by (subst c, elim disjE) (simp_all only:, simp_all add: char_of_def)
qed

lemma hex_to_byte_lower:
  assumes "hex_to_byte c \<noteq> -1"
  shows "0 \<le> hex_to_byte c" and "hex_to_byte c < 16"
    and "byte_to_hex ! nat (hex_to_byte c) = to_lower c"
  using hex_to_byte_valid [OF assms]
  by (auto simp: hex_to_byte_def byte_to_hex_def to_lower_def char_of_def nat_numeral bit_0)

lemma read_section_lower:
  "read_section n s = Some (bs, r) \<Longrightarrow>
   length bs = n \<and> is_bytes bs \<and> 2 * n \<le> length s \<and> r = drop (2 * n) s
   \<and> section_to_string bs = map to_lower (take (2 * n) s)"
proof (induction n arbitrary: s bs r)
  case 0
  then show ?case by simp
next
  case (Suc n)
  let ?hi = "hex_to_byte (deref s)" and ?lo = "hex_to_byte (deref (tl s))"
  from Suc.prems obtain bs' where rs: "read_section n (tl (tl s)) = Some (bs', r)"
    and hl: "?hi \<noteq> -1" "?lo \<noteq> -1" and bs: "bs = u8 (?hi * 2 ^ 4 + ?lo) # bs'"
    by (auto simp: Let_def split: if_splits option.splits)
  from hl obtain a b t where s: "s = a # b # t"
    by (cases s; cases "tl s") (auto simp: hex_to_byte_def)
  have "u8 (?hi * 2 ^ 4 + ?lo) = ?hi * 16 + ?lo"
    using hex_to_byte_lower [OF hl(1)] hex_to_byte_lower [OF hl(2)] by (simp add: u8_def)
  then show ?case
    using Suc.IH [OF rs] bs s hex_to_byte_lower [OF hl(1)] hex_to_byte_lower [OF hl(2)]
    by (simp add: u8_def)
qed

lemma read_sections_lower:
  "read_sections ns s = Some u \<Longrightarrow> ns \<noteq> [] \<Longrightarrow>
   length u = sum_list ns \<and> is_bytes u \<and> 2 * sum_list ns + length ns - 1 \<le> length s
   \<and> sections_to_string ns u = map to_lower (take (2 * sum_list ns + length ns - 1) s)"
proof (induction ns s arbitrary: u rule: read_sections.induct)
  case (2 n s)
  then show ?case using read_section_lower [of n s] by auto
next
  case (3 n m ns s)
  then obtain bs r cs where rs: "read_section n s = Some (bs, r)" and d: "deref r = CHR ''-''"
    and rss: "read_sections (m # ns) (tl r) = Some cs" and u: "u = bs @ cs"
    by (auto split: option.splits if_splits)
  note S = read_section_lower [OF rs]
  obtain t where r: "r = CHR ''-'' # t" using d by (cases r) auto
  have I: "length cs = sum_list (m # ns) \<and> is_bytes cs
      \<and> 2 * sum_list (m # ns) + length (m # ns) - 1 \<le> length t
      \<and> sections_to_string (m # ns) cs
         = map to_lower (take (2 * sum_list (m # ns) + length (m # ns) - 1) t)"
    using "3.IH" [OF rs _ _ rss] r d by simp
  have s: "s = take (2 * n) s @ CHR ''-'' # t" using S r append_take_drop_id [of "2 * n" s] by simp
  have "map to_lower (take (2 * n + Suc k) s)
      = section_to_string bs @ CHR ''-'' # map to_lower (take k t)" for k
    using S by (subst s) (simp add: to_lower_def)
  from this [of "2 * sum_list (m # ns) + length (m # ns) - 1"]
  have "map to_lower (take (2 * sum_list (n # m # ns) + length (n # m # ns) - 1) s)
      = sections_to_string (n # m # ns) u"
    using S I u by (simp add: algebra_simps)
  moreover have "length s = 2 * n + Suc (length t)"
    using S s by (metis length_append length_Cons length_take min_absorb2)
  ultimately show ?case
    using S I u by (simp add: algebra_simps)
qed simp

lemma uuid_parse_sound:
  assumes "uuid_parse s TEXT_LENGTH = Some u"
  shows "is_uuid u" and "uuid_to_string u = map to_lower (take TEXT_LENGTH s)"
    and "TEXT_LENGTH \<le> length s"
proof -
  have "read_sections bytes_per_section s = Some u"
    using assms by (simp add: uuid_parse_def TEXT_LENGTH_def)
  from read_sections_lower [OF this]
  show "is_uuid u" and "uuid_to_string u = map to_lower (take TEXT_LENGTH s)"
    and "TEXT_LENGTH \<le> length s"
    unfolding uuid_to_string_def is_uuid_def
    by (auto simp: bytes_per_section_def BYTE_LENGTH_def TEXT_LENGTH_def
        simp del: sections_to_string.simps)
qed

interpretation uuid_text: codec uuid_to_string "\<lambda>s. uuid_parse s TEXT_LENGTH" is_uuid
  using uuid_parse_to_string [of _ "[]"] by unfold_locales simp

text \<open>The case of a letter does not matter to the parser.\<close>

lemma to_lower_code: "(of_char (to_lower c) :: int) = (let k = of_char c in if 65 \<le> k \<and> k \<le> 90 then k + 32 else k)"
proof -
  have "(of_char c :: int) = int (of_char c)" "(of_char (to_lower c) :: int) = int (of_char (to_lower c))"
    by (simp_all only: of_nat_of_char)
  moreover have "(of_char (to_lower c) :: nat) = (if 65 \<le> (of_char c :: nat) \<and> of_char c \<le> (90 :: nat) then of_char c + 32 else of_char c)"
    by (simp add: to_lower_def Let_def)
  ultimately show ?thesis
    by (simp add: Let_def)
qed

lemma hex_to_byte_to_lower [simp]: "hex_to_byte (to_lower c) = hex_to_byte c"
  unfolding hex_to_byte_def to_lower_code by (simp add: Let_def)

lemma to_lower_punct [simp]: "to_lower c = CHR ''-'' \<longleftrightarrow> c = CHR ''-''"
  "to_lower c = CHR ''{'' \<longleftrightarrow> c = CHR ''{''" "to_lower c = CHR ''}'' \<longleftrightarrow> c = CHR ''}''"
proof -
  have eq: "a = b \<longleftrightarrow> (of_char a :: int) = of_char b" for a b :: char
    by simp
  show "to_lower c = CHR ''-'' \<longleftrightarrow> c = CHR ''-''" "to_lower c = CHR ''{'' \<longleftrightarrow> c = CHR ''{''" "to_lower c = CHR ''}'' \<longleftrightarrow> c = CHR ''}''"
    unfolding eq [of "to_lower c"] eq [of c] to_lower_code by (simp_all add: Let_def)
qed

lemma deref_to_lower [simp]:
  "hex_to_byte (deref (map to_lower s)) = hex_to_byte (deref s)"
  "deref (map to_lower s) = CHR ''-'' \<longleftrightarrow> deref s = CHR ''-''"
  by (cases s; simp)+

lemma read_section_case:
  "read_section n (map to_lower s) = map_option (apsnd (map to_lower)) (read_section n s)"
  by (induction n arbitrary: s) (auto simp: Let_def map_tl [symmetric] split: option.split)

lemma read_sections_case: "read_sections ns (map to_lower s) = read_sections ns s"
proof (induction ns s rule: read_sections.induct)
  case (3 n m ns s)
  show ?case
  proof (cases "read_section n s")
    case (Some p)
    then show ?thesis
      using "3.IH" [OF Some, of "fst p" "snd p"] by (cases p) (simp add: read_section_case map_tl [symmetric])
  qed (simp add: read_section_case)
qed (auto simp: read_section_case option.map_comp o_def)

text \<open>The text without the dashes.\<close>

lemma byte_to_hex_no_dash: "0 \<le> d \<Longrightarrow> d < 16 \<Longrightarrow> byte_to_hex ! nat d \<noteq> CHR ''-''"
  using hex_to_byte_to_hex [of d] by (auto simp: hex_to_byte_def)

lemma section_no_dash: "is_bytes bs \<Longrightarrow> filter (\<lambda>c. c \<noteq> CHR ''-'') (section_to_string bs) = section_to_string bs"
  by (induction bs) (auto simp: byte_to_hex_no_dash)

lemma section_to_string_append: "section_to_string (as @ bs) = section_to_string as @ section_to_string bs"
  by (induction as) auto

lemma sections_no_dash:
  assumes "is_bytes u" "length u = sum_list ns"
  shows "filter (\<lambda>c. c \<noteq> CHR ''-'') (sections_to_string ns u) = section_to_string u"
  using assms
proof (induction ns u rule: sections_to_string.induct)
  case (3 n m ns u)
  have "section_to_string u = section_to_string (take n u) @ section_to_string (drop n u)"
    by (simp add: section_to_string_append [symmetric])
  then show ?case
    using 3 is_bytes_take_drop [of u n] section_no_dash [of "take n u"] by simp
qed (auto simp: section_no_dash)

section \<open>Properties\<close>

text \<open>
  The texts that stand for a UUID: the printed form, the printed form in braces, and the printed form
  without its dashes, each up to the case of the hexadecimal digits.
\<close>

definition uuid_spelling :: "uuid \<Rightarrow> nat \<Rightarrow> string \<Rightarrow> bool" where
  "uuid_spelling u len text \<longleftrightarrow>
     len = TEXT_LENGTH \<and> text = uuid_to_string u
     \<or> len = TEXT_LENGTH + 2 \<and> text = CHR ''{'' # uuid_to_string u @ ''}''
     \<or> len = TEXT_LENGTH - 4 \<and> text = filter (\<lambda>c. c \<noteq> CHR ''-'') (uuid_to_string u)"

lemma lower_prefix: "map to_lower (take n s) = t \<Longrightarrow> map to_lower s = t @ map to_lower (drop n s)"
  by (metis append_take_drop_id map_append)

lemma uuid_parse_spelled:
  assumes u: "is_uuid u" and sp: "uuid_spelling u len (map to_lower (take len s))"
  shows "uuid_parse s len = Some u"
proof -
  note l = lower_prefix [of len s]
  have u': "is_bytes u" "length u = 16" "length u = sum_list bytes_per_section"
    using u by (auto simp: is_uuid_def BYTE_LENGTH_def bytes_per_section_def)
  consider "len = TEXT_LENGTH" "map to_lower (take len s) = uuid_to_string u"
    | "len = TEXT_LENGTH + 2" "map to_lower (take len s) = CHR ''{'' # uuid_to_string u @ ''}''"
    | "len = TEXT_LENGTH - 4" "map to_lower (take len s) = section_to_string u"
    using sp sections_no_dash [OF u'(1,3)] unfolding uuid_spelling_def uuid_to_string_def by auto
  then show ?thesis
  proof cases
    case 1
    have "read_sections bytes_per_section (map to_lower s) = Some u"
      using read_sections_to_string [OF u'(1,3)] l [OF 1(2)] by (simp add: uuid_to_string_def bytes_per_section_def)
    then show ?thesis
      using 1 by (simp add: uuid_parse_def read_sections_case TEXT_LENGTH_def)
  next
    case 2
    then obtain a t where s: "s = a # t" "map to_lower t = uuid_to_string u @ CHR ''}'' # map to_lower (drop 38 s)" "a = CHR ''{''"
      using l [OF 2(2)] by (cases s) (auto simp: TEXT_LENGTH_def)
    have "drop 36 (map to_lower t) = CHR ''}'' # map to_lower (drop 38 s)"
      using length_uuid_to_string [OF u] by (simp add: s(2) TEXT_LENGTH_def)
    then have "deref (drop 36 t) = CHR ''}''"
      by (cases "drop 36 t") (auto simp: drop_map)
    moreover have "read_sections bytes_per_section (map to_lower t) = Some u"
      using read_sections_to_string [OF u'(1,3)] s(2) by (simp add: uuid_to_string_def bytes_per_section_def)
    ultimately show ?thesis
      using 2(1) s(1,3) unfolding read_sections_case by (simp add: uuid_parse_def TEXT_LENGTH_def)
  next
    case 3
    have "read_section 16 (map to_lower s) = Some (u, map to_lower (drop len s))"
      using read_section_to_string [OF u'(1)] l [OF 3(2)] u'(2) by simp
    then show ?thesis
      using 3 by (auto simp: uuid_parse_def read_section_case TEXT_LENGTH_def)
  qed
qed

lemma uuid_parse_spelling:
  assumes "uuid_parse s len = Some u"
  shows "is_uuid u" "uuid_spelling u len (map to_lower (take len s))"
proof -
  have r: "is_uuid u \<and> uuid_to_string u = map to_lower (take 36 t) \<and> 36 \<le> length t" if "read_sections bytes_per_section t = Some u" for t
    using uuid_parse_sound [of t u] that by (simp add: uuid_parse_def TEXT_LENGTH_def)
  consider "len = TEXT_LENGTH" "read_sections bytes_per_section s = Some u"
    | t where "len = TEXT_LENGTH + 2" "s = CHR ''{'' # t" "deref (drop 36 t) = CHR ''}''" "read_sections bytes_per_section t = Some u"
    | x where "len = TEXT_LENGTH - 4" "read_section 16 s = Some (u, x)"
    using assms by (cases s) (auto simp: uuid_parse_def TEXT_LENGTH_def split: if_splits)
  then have "is_uuid u \<and> uuid_spelling u len (map to_lower (take len s))"
  proof cases
    case 1
    then show ?thesis
      using r [OF 1(2)] by (simp add: uuid_spelling_def TEXT_LENGTH_def)
  next
    case 2
    obtain y where "drop 36 t = CHR ''}'' # y"
      using 2(3) by (cases "drop 36 t") auto
    then have "take 37 t = take 36 t @ ''}''"
      using r [OF 2(4)] take_add [of 36 1 t] by simp
    then show ?thesis
      using r [OF 2(4)] 2 by (simp add: uuid_spelling_def TEXT_LENGTH_def)
  next
    case 3
    note q = read_section_lower [OF 3(2)]
    then show ?thesis
      using 3(1) sections_no_dash [of u bytes_per_section]
      by (simp add: uuid_spelling_def TEXT_LENGTH_def is_uuid_def BYTE_LENGTH_def uuid_to_string_def bytes_per_section_def
          del: sections_to_string.simps)
  qed
  then show "is_uuid u" "uuid_spelling u len (map to_lower (take len s))"
    by auto
qed

text \<open>C8. Parsing the 36-character text of a UUID gives the UUID back, whatever follows the
  text. In general a text is parsed as a UUID exactly when the UUID is well formed and the characters of
  the given length are, up to the case of the hexadecimal digits, its printed form, its printed form
  in braces or its printed form without the dashes; every other length is refused.\<close>

theorem uuid_text_roundtrip:
  "(is_uuid u \<longrightarrow> uuid_parse (uuid_to_string u @ r) TEXT_LENGTH = Some u)
   \<and> (uuid_parse s len = Some u \<longleftrightarrow> is_uuid u \<and> uuid_spelling u len (map to_lower (take len s)))"
  using uuid_parse_to_string [of u r] uuid_parse_spelled [of u len s] uuid_parse_spelling [of s len u] by blast

theorem uuid_text_roundtrip_witness:
  "uuid_parse (uuid_to_string [62,17,250,71,113,202,17,225,158,51,200,10,169,66,149,98] @ '':1'')
     TEXT_LENGTH = Some [62,17,250,71,113,202,17,225,158,51,200,10,169,66,149,98]"
  using uuid_text_roundtrip
  by (simp add: is_uuid_def BYTE_LENGTH_def)

end
