(* ===== verification/Sid_Map.thy ===== *)
theory Sid_Map
  imports Uuid
begin

text \<open>
  The map between server UUIDs (SID) and small integers (SIDNO),
  \<open>sql/rpl_gtid_sid_map.cc\<close> with the class in \<open>sql/rpl_gtid.h\<close>. SIDNOs count from
  1; 0 stands for a SID that is not in the map. The read-write lock is not modelled: each
  operation runs under it. Two conditions of the environment are arguments: whether
  memory is available, and whether the arrays of the global GTID state could be resized.
\<close>

datatype enum_return_status = RETURN_STATUS_OK | RETURN_STATUS_REPORTED_ERROR

text \<open>
  What the allocator answers: whether the calls of an operation succeed, whether the arrays of the GTID state
  can be resized, and how many entries a growing array takes before a failing \<open>push_back\<close>.
\<close>

record mem_env =
  alloc_ok :: bool
  resize_ok :: bool
  pushes_done :: nat

record sid_map =
  sid_arr :: "uuid list"
  sid_hash :: "uuid \<rightharpoonup> nat"
  sorted_arr :: "nat list"

section \<open>Operations\<close>

definition new_sid_map :: sid_map where
  "new_sid_map = \<lparr>sid_arr = [], sid_hash = Map.empty, sorted_arr = []\<rparr>"

definition sid_map_clear :: "sid_map \<Rightarrow> sid_map" where
  "sid_map_clear m = m\<lparr>sid_hash := Map.empty, sid_arr := [], sorted_arr := []\<rparr>"

definition map_max_sidno :: "sid_map \<Rightarrow> nat" where
  "map_max_sidno m = length (sid_arr m)"

definition sid_to_sidno :: "sid_map \<Rightarrow> uuid \<Rightarrow> nat" where
  "sid_to_sidno m sid = (case sid_hash m sid of None \<Rightarrow> 0 | Some n \<Rightarrow> n)"

definition sidno_to_sid :: "sid_map \<Rightarrow> nat \<Rightarrow> uuid" where
  "sidno_to_sid m sidno = sid_arr m ! (sidno - 1)"

definition get_sorted_sidno :: "sid_map \<Rightarrow> nat \<Rightarrow> nat" where
  "get_sorted_sidno m n = sorted_arr m ! n"

text \<open>
  The loop of \<open>add_node\<close> that moves the new SIDNO, stored last, down to its place: the
  hole is at index \<open>i\<close>, and an entry with a greater SID moves up into it.
\<close>

fun bubble_down :: "uuid list \<Rightarrow> uuid \<Rightarrow> nat \<Rightarrow> nat \<Rightarrow> nat list \<Rightarrow> nat list" where
  "bubble_down arr sid sidno 0 srt = srt[0 := sidno]"
| "bubble_down arr sid sidno (Suc i) srt =
     (let other = srt ! i in
      if memcmp sid (arr ! (other - 1)) \<ge> 0 then srt[Suc i := sidno]
      else bubble_down arr sid sidno i (srt[Suc i := other]))"

text \<open>
  \<open>add_node\<close>. When the arrays of the GTID state cannot be resized, the two arrays are
  restored, but the entry of the hash stays.
\<close>

definition add_node ::
    "mem_env \<Rightarrow> nat \<Rightarrow> uuid \<Rightarrow> sid_map \<Rightarrow> enum_return_status \<times> sid_map" where
  "add_node e sidno sid m =
     (if \<not> alloc_ok e then (RETURN_STATUS_REPORTED_ERROR, m)
      else if sid_hash m sid \<noteq> None then (RETURN_STATUS_REPORTED_ERROR, m)
      else let arr = sid_arr m @ [sid];
               srt = sorted_arr m @ [sidno];
               h = (sid_hash m)(sid \<mapsto> sidno) in
      if \<not> resize_ok e then (RETURN_STATUS_REPORTED_ERROR, m\<lparr>sid_hash := h\<rparr>)
      else (RETURN_STATUS_OK,
            m\<lparr>sid_arr := arr, sid_hash := h,
              sorted_arr := bubble_down arr sid sidno (sidno - 1) srt\<rparr>))"

text \<open>\<open>add_sid\<close>, with \<open>None\<close> for the negative return value.\<close>

definition add_sid :: "mem_env \<Rightarrow> uuid \<Rightarrow> sid_map \<Rightarrow> nat option \<times> sid_map" where
  "add_sid e sid m =
     (case sid_hash m sid of
        Some n \<Rightarrow> (Some n, m)
      | None \<Rightarrow>
          let sidno = map_max_sidno m + 1;
              (st, m1) = add_node e sidno sid m
          in (if st = RETURN_STATUS_OK then Some sidno else None, m1))"

fun copy_loop ::
    "mem_env \<Rightarrow> nat \<Rightarrow> uuid list \<Rightarrow> sid_map \<Rightarrow> enum_return_status \<times> sid_map" where
  "copy_loop e sidno [] dest = (RETURN_STATUS_OK, dest)"
| "copy_loop e sidno (sid # sids) dest =
     (let (st, d) = add_node e sidno sid dest
      in if st = RETURN_STATUS_OK then copy_loop e (Suc sidno) sids d else (st, d))"

definition sid_map_copy ::
    "mem_env \<Rightarrow> sid_map \<Rightarrow> sid_map \<Rightarrow> enum_return_status \<times> sid_map" where
  "sid_map_copy e m dest = copy_loop e 1 (sid_arr m) dest"

section \<open>Invariant\<close>

text \<open>
  Array and hash are inverse to each other, and the sorted array lists every SIDNO once in
  increasing order of the SIDs.
\<close>

definition sid_map_inv :: "sid_map \<Rightarrow> bool" where
  "sid_map_inv m \<longleftrightarrow>
     distinct (sid_arr m) \<and> (\<forall>u \<in> set (sid_arr m). is_uuid u)
     \<and> (\<forall>u. sid_hash m u \<noteq> None \<longrightarrow> u \<in> set (sid_arr m))
     \<and> (\<forall>i < length (sid_arr m). sid_hash m (sid_arr m ! i) = Some (Suc i))
     \<and> set (sorted_arr m) = {1..length (sid_arr m)}
     \<and> length (sorted_arr m) = length (sid_arr m)
     \<and> sorted_wrt (\<lambda>a b. sid_arr m ! (a - 1) < sid_arr m ! (b - 1)) (sorted_arr m)"

lemma sid_map_inv_new: "sid_map_inv new_sid_map"
  by (simp add: sid_map_inv_def new_sid_map_def)

lemma sid_map_inv_clear: "sid_map_inv (sid_map_clear m)"
  by (simp add: sid_map_inv_def sid_map_clear_def)

lemma bubble_down_split:
  "\<exists>as bs. xs = as @ bs \<and> bubble_down arr sid n (length xs) (xs @ y # ys) = as @ n # bs @ ys
     \<and> (\<forall>b \<in> set bs. memcmp sid (arr ! (b - 1)) < 0)
     \<and> (as \<noteq> [] \<longrightarrow> memcmp sid (arr ! (last as - 1)) \<ge> 0)"
proof (induction xs arbitrary: y ys rule: rev_induct)
  case Nil
  then show ?case by simp
next
  case (snoc x xs)
  show ?case
  proof (cases "memcmp sid (arr ! (x - 1)) \<ge> 0")
    case True
    then show ?thesis
      by (intro exI [of _ "xs @ [x]"] exI [of _ "[]"]) (simp add: nth_append list_update_append)
  next
    case False
    from snoc.IH [of x "x # ys"] obtain as bs where
      h: "xs = as @ bs" "bubble_down arr sid n (length xs) (xs @ x # x # ys) = as @ n # bs @ x # ys"
      "\<forall>b \<in> set bs. memcmp sid (arr ! (b - 1)) < 0"
      "as \<noteq> [] \<longrightarrow> memcmp sid (arr ! (last as - 1)) \<ge> 0" by blast
    with False show ?thesis
      by (intro exI [of _ as] exI [of _ "bs @ [x]"])
        (simp add: nth_append list_update_append not_le)
  qed
qed

lemma sid_map_inv_uuid: "sid_map_inv m \<Longrightarrow> i < length (sid_arr m) \<Longrightarrow> is_uuid (sid_arr m ! i)"
  by (simp add: sid_map_inv_def)

lemma sid_map_inv_hash:
  "sid_map_inv m \<Longrightarrow> sid_hash m u = Some n \<longleftrightarrow>
     1 \<le> n \<and> n \<le> length (sid_arr m) \<and> sid_arr m ! (n - 1) = u"
proof
  assume m: "sid_map_inv m" and h: "sid_hash m u = Some n"
  then obtain i where "i < length (sid_arr m)" "sid_arr m ! i = u"
    by (auto simp: sid_map_inv_def in_set_conv_nth)
  with m h show "1 \<le> n \<and> n \<le> length (sid_arr m) \<and> sid_arr m ! (n - 1) = u"
    by (auto simp: sid_map_inv_def)
next
  assume "sid_map_inv m" "1 \<le> n \<and> n \<le> length (sid_arr m) \<and> sid_arr m ! (n - 1) = u"
  then show "sid_hash m u = Some n"
    unfolding sid_map_inv_def by (cases n) auto
qed

lemma insert_sorted_wrt:
  assumes "sorted_wrt P (as @ bs)" and "transp P"
    and "as \<noteq> [] \<longrightarrow> P (last as) x" and "\<forall>b \<in> set bs. P x b"
  shows "sorted_wrt P (as @ x # bs)"
proof (cases as rule: rev_cases)
  case Nil
  then show ?thesis using assms by simp
next
  case (snoc cs z)
  then show ?thesis using assms by (auto simp: sorted_wrt_append dest: transpD)
qed

lemma bubble_sorted:
  assumes m: "sid_map_inv m" and u: "is_uuid sid" and new: "sid \<notin> set (sid_arr m)"
  defines "arr \<equiv> sid_arr m @ [sid]" and "n \<equiv> Suc (length (sid_arr m))"
  defines "s \<equiv> bubble_down arr sid n (n - 1) (sorted_arr m @ [n])"
  shows "sorted_wrt (\<lambda>a b. arr ! (a - 1) < arr ! (b - 1)) s"
    and "set s = {1..n}" and "length s = n"
proof -
  let ?P = "\<lambda>a b. arr ! (a - 1) < arr ! (b - 1)"
  have len: "length (sorted_arr m) = n - 1" and st: "set (sorted_arr m) = {1..n - 1}"
    using m by (simp_all add: sid_map_inv_def n_def)
  have rng: "k - 1 < length (sid_arr m)" if "k \<in> set (sorted_arr m)" for k
  proof -
    have "1 \<le> k" "k \<le> length (sid_arr m)" using that by (simp_all add: st n_def)
    then show ?thesis by simp
  qed
  have old: "arr ! (k - 1) = sid_arr m ! (k - 1)" if "k \<in> set (sorted_arr m)" for k
    using rng [OF that] by (simp add: arr_def nth_append)
  have sz: "length (arr ! (k - 1)) = length sid" if "k \<in> set (sorted_arr m)" for k
    using sid_map_inv_uuid [OF m rng [OF that]] u old [OF that] by (simp add: is_uuid_def)
  have ne: "arr ! (k - 1) \<noteq> sid" if "k \<in> set (sorted_arr m)" for k
    using nth_mem [OF rng [OF that]] new old [OF that] by metis
  obtain as bs where ab: "sorted_arr m = as @ bs" "s = as @ n # bs"
    "\<forall>b \<in> set bs. memcmp sid (arr ! (b - 1)) < 0"
    "as \<noteq> [] \<longrightarrow> memcmp sid (arr ! (last as - 1)) \<ge> 0"
    using bubble_down_split [of "sorted_arr m" arr sid n n "[]"]
    unfolding s_def len append_Nil2 by blast
  have sidn: "arr ! (n - 1) = sid" by (simp add: arr_def n_def)
  have "sorted_wrt ?P (as @ bs)"
    unfolding ab(1) [symmetric]
  proof (rule sorted_wrt_mono_rel)
    show "sorted_wrt (\<lambda>a b. sid_arr m ! (a - 1) < sid_arr m ! (b - 1)) (sorted_arr m)"
      using m by (simp add: sid_map_inv_def)
  qed (simp only: old)
  moreover have "transp ?P" by (rule transpI) (rule less_trans)
  moreover have "as \<noteq> [] \<longrightarrow> ?P (last as) n"
  proof
    assume "as \<noteq> []"
    then have k: "last as \<in> set (sorted_arr m)" using ab(1) by simp
    have "arr ! (last as - 1) \<le> sid"
      using ab(4) \<open>as \<noteq> []\<close> memcmp_ge_iff [of sid "arr ! (last as - 1)"] sz [OF k] by simp
    with ne [OF k] sidn show "?P (last as) n" by simp
  qed
  moreover have "\<forall>b \<in> set bs. ?P n b"
  proof
    fix b assume b: "b \<in> set bs"
    then have "memcmp sid (arr ! (b - 1)) < 0" "b \<in> set (sorted_arr m)" using ab(1,3) by simp_all
    then show "?P n b" using sz [of b] sidn memcmp_less_iff [of sid "arr ! (b - 1)"] by simp
  qed
  ultimately show "sorted_wrt ?P s" unfolding ab(2) by (rule insert_sorted_wrt [where P = ?P])
  have "set s = insert n (set (sorted_arr m))" "length s = Suc (length (sorted_arr m))"
    by (simp_all add: ab(1,2))
  then show "set s = {1..n}" "length s = n"
    by (simp_all add: st len n_def atLeastAtMostSuc_conv)
qed

lemma add_node_ok:
  assumes "sid_map_inv m" "is_uuid sid" "sid \<notin> set (sid_arr m)" "alloc_ok e" "resize_ok e"
  shows "fst (add_node e (Suc (length (sid_arr m))) sid m) = RETURN_STATUS_OK"
    and "sid_arr (snd (add_node e (Suc (length (sid_arr m))) sid m)) = sid_arr m @ [sid]"
    and "sid_map_inv (snd (add_node e (Suc (length (sid_arr m))) sid m))"
proof -
  have h: "sid_hash m sid = None" using assms by (auto simp: sid_map_inv_def)
  then show "fst (add_node e (Suc (length (sid_arr m))) sid m) = RETURN_STATUS_OK"
    and "sid_arr (snd (add_node e (Suc (length (sid_arr m))) sid m)) = sid_arr m @ [sid]"
    using assms by (simp_all add: add_node_def Let_def)
  note b = bubble_sorted [OF assms(1-3), simplified]
  have "i < Suc (length (sid_arr m)) \<Longrightarrow> i \<noteq> length (sid_arr m) \<Longrightarrow>
      sid_arr m ! i \<noteq> sid" for i
    using assms(3) nth_mem [of i "sid_arr m"] by (auto simp: less_Suc_eq)
  then show "sid_map_inv (snd (add_node e (Suc (length (sid_arr m))) sid m))"
    using assms h b
    by (simp add: add_node_def Let_def sid_map_inv_def nth_append) (auto simp: less_Suc_eq)
qed

lemma add_sid_ok:
  assumes m: "sid_map_inv m" and u: "is_uuid sid" and e: "alloc_ok e" "resize_ok e"
  shows "sid_map_inv (snd (add_sid e sid m))"
    and "\<exists>n. fst (add_sid e sid m) = Some n \<and> sid_hash (snd (add_sid e sid m)) sid = Some n"
    and "\<exists>us. sid_arr (snd (add_sid e sid m)) = sid_arr m @ us"
proof -
  have "sid_map_inv (snd (add_sid e sid m))
    \<and> (\<exists>n. fst (add_sid e sid m) = Some n \<and> sid_hash (snd (add_sid e sid m)) sid = Some n)
    \<and> (\<exists>us. sid_arr (snd (add_sid e sid m)) = sid_arr m @ us)"
  proof (cases "sid_hash m sid")
    case (Some n)
    then show ?thesis using m by (simp add: add_sid_def)
  next
    case None
    then have new: "sid \<notin> set (sid_arr m)"
      using m by (auto simp: sid_map_inv_def in_set_conv_nth)
    note a = add_node_ok [OF m u new e]
    have "sid_hash (snd (add_node e (Suc (length (sid_arr m))) sid m)) sid
        = Some (Suc (length (sid_arr m)))"
      using None e by (simp add: add_node_def Let_def)
    with None a show ?thesis
      by (simp add: add_sid_def Let_def case_prod_unfold map_max_sidno_def)
  qed
  then show "sid_map_inv (snd (add_sid e sid m))"
    and "\<exists>n. fst (add_sid e sid m) = Some n \<and> sid_hash (snd (add_sid e sid m)) sid = Some n"
    and "\<exists>us. sid_arr (snd (add_sid e sid m)) = sid_arr m @ us"
    by blast+
qed

text \<open>A map is determined by its array of SIDs.\<close>

lemma nth_pred_image: "(\<lambda>k. xs ! (k - 1)) ` {1..length xs} = set xs"
proof -
  have "{1..length xs} = Suc ` {..<length xs}" by (simp add: image_Suc_lessThan)
  then show ?thesis by (simp only: image_image diff_Suc_1) (auto simp: set_conv_nth)
qed

lemma sorted_arr_unique:
  assumes "sid_map_inv m" "sid_map_inv m'" "sid_arr m = sid_arr m'"
  shows "sorted_arr m = sorted_arr m'"
proof -
  let ?s = "\<lambda>m. map (\<lambda>k. sid_arr m ! (k - 1)) (sorted_arr m)"
  have s: "sorted_wrt (<) (?s m)" if "sid_map_inv m" for m
    using that by (simp add: sid_map_inv_def sorted_wrt_map)
  have im: "set (?s m) = set (sid_arr m)" if "sid_map_inv m" for m
    using that nth_pred_image [of "sid_arr m"] by (simp add: sid_map_inv_def)
  have eq: "?s m = ?s m'"
    using s [OF assms(1)] s [OF assms(2)] im [OF assms(1)] im [OF assms(2)] assms(3)
    by (metis strict_sorted_equal)
  have inj: "inj_on (\<lambda>k. sid_arr m ! (k - 1)) {1..length (sid_arr m)}"
    using assms(1) by (auto simp: inj_on_def sid_map_inv_def nth_eq_iff_index_eq)
  show ?thesis
    by (rule inj_on_map_eq_map [THEN iffD1, of "\<lambda>k. sid_arr m ! (k - 1)"])
      (use assms eq inj in \<open>auto simp: sid_map_inv_def\<close>)
qed

lemma sid_map_unique:
  assumes "sid_map_inv m" "sid_map_inv m'" "sid_arr m = sid_arr m'"
  shows "(m :: sid_map) = m'"
proof -
  have "sid_hash m u = sid_hash m' u" for u
    using sid_map_inv_hash [OF assms(1), of u] sid_map_inv_hash [OF assms(2), of u] assms(3)
    by (metis not_Some_eq)
  then have "sid_hash m = sid_hash m'" by blast
  with sorted_arr_unique [OF assms] assms(3) show ?thesis by simp
qed

lemma copy_loop_ok:
  assumes "alloc_ok e" "resize_ok e" "sid_map_inv d" "distinct (sid_arr d @ us)"
    "\<forall>u \<in> set us. is_uuid u"
  shows "fst (copy_loop e (Suc (length (sid_arr d))) us d) = RETURN_STATUS_OK
    \<and> sid_map_inv (snd (copy_loop e (Suc (length (sid_arr d))) us d))
    \<and> sid_arr (snd (copy_loop e (Suc (length (sid_arr d))) us d)) = sid_arr d @ us"
  using assms
proof (induction us arbitrary: d)
  case Nil
  then show ?case by simp
next
  case (Cons u us)
  have u: "is_uuid u" "u \<notin> set (sid_arr d)" using Cons.prems by auto
  note a = add_node_ok [OF Cons.prems(3) u Cons.prems(1,2)]
  show ?case
    using Cons.IH [of "snd (add_node e (Suc (length (sid_arr d))) u d)"] a Cons.prems
    by (simp add: case_prod_unfold Let_def)
qed

section \<open>Properties\<close>

text \<open>C9. Adding a SID, new or known, keeps the map's invariant, leaves the numbers of the
  SIDs present unchanged, and afterwards the map translates between the SID and the number
  returned in both directions.\<close>

theorem add_sid_correct:
  assumes "sid_map_inv m" "is_uuid sid" "alloc_ok e" "resize_ok e"
  shows "\<exists>n m'. add_sid e sid m = (Some n, m') \<and> sid_map_inv m'
    \<and> sid_to_sidno m' sid = n \<and> 1 \<le> n \<and> n \<le> map_max_sidno m' \<and> sidno_to_sid m' n = sid
    \<and> (\<forall>k. 1 \<le> k \<and> k \<le> map_max_sidno m \<longrightarrow> sidno_to_sid m' k = sidno_to_sid m k)"
proof -
  note a = add_sid_ok [OF assms]
  obtain n m' where am: "add_sid e sid m = (Some n, m')" and h: "sid_hash m' sid = Some n"
    using a(2) by (cases "add_sid e sid m") auto
  have i: "sid_map_inv m'" using a(1) am by simp
  obtain us where us: "sid_arr m' = sid_arr m @ us" using a(3) am by auto
  show ?thesis
    using am i h sid_map_inv_hash [OF i, of sid n] us
    by (auto simp: sid_to_sidno_def map_max_sidno_def sidno_to_sid_def nth_append)
qed

theorem add_sid_correct_witness:
  "\<exists>n m'. add_sid \<lparr>alloc_ok = True, resize_ok = True, pushes_done = 0\<rparr> uuid_clear new_sid_map = (Some n, m')
     \<and> sidno_to_sid m' n = uuid_clear"
  using add_sid_correct [OF sid_map_inv_new, of uuid_clear "\<lparr>alloc_ok = True, resize_ok = True, pushes_done = 0\<rparr>"]
  by (auto simp: is_uuid_def uuid_clear_def BYTE_LENGTH_def is_bytes_def)

text \<open>C10. When adding a SID fails because the global GTID state cannot be resized, the map is
  left inconsistent: the SID is not in the arrays, and yet the next lookup and the next
  \<open>add_sid\<close> report a SIDNO beyond the last one.\<close>

theorem add_sid_resize_failure:
  assumes "sid_hash m sid = None" "alloc_ok e" "\<not> resize_ok e"
  shows "\<exists>m'. add_sid e sid m = (None, m') \<and> map_max_sidno m' = map_max_sidno m
    \<and> sid_to_sidno m' sid = map_max_sidno m' + 1
    \<and> add_sid e' sid m' = (Some (map_max_sidno m' + 1), m') \<and> \<not> sid_map_inv m'"
proof -
  have "\<not> sid_map_inv (m\<lparr>sid_hash := (sid_hash m)(sid \<mapsto> Suc (length (sid_arr m)))\<rparr>)"
    using sid_map_inv_hash [of "m\<lparr>sid_hash := (sid_hash m)(sid \<mapsto> Suc (length (sid_arr m)))\<rparr>"
        sid "Suc (length (sid_arr m))"] by auto
  then show ?thesis
    using assms by (auto simp: add_sid_def add_node_def Let_def map_max_sidno_def sid_to_sidno_def)
qed

theorem add_sid_resize_failure_witness:
  "\<exists>m'. add_sid \<lparr>alloc_ok = True, resize_ok = False, pushes_done = 0\<rparr> uuid_clear new_sid_map = (None, m')
     \<and> \<not> sid_map_inv m'"
  using add_sid_resize_failure [of new_sid_map uuid_clear "\<lparr>alloc_ok = True, resize_ok = False, pushes_done = 0\<rparr>"
      "\<lparr>alloc_ok = True, resize_ok = True, pushes_done = 0\<rparr>"]
  by (auto simp: new_sid_map_def)

text \<open>C11. Copying a map into an empty one reproduces it, the sorted order included.\<close>

theorem sid_map_copy_correct:
  assumes "sid_map_inv m" "alloc_ok e" "resize_ok e"
  shows "sid_map_copy e m new_sid_map = (RETURN_STATUS_OK, m)"
proof -
  have a: "sid_arr new_sid_map = []" by (simp add: new_sid_map_def)
  have "distinct (sid_arr m)" "\<forall>u \<in> set (sid_arr m). is_uuid u"
    using assms(1) by (simp_all add: sid_map_inv_def)
  then have c: "fst (sid_map_copy e m new_sid_map) = RETURN_STATUS_OK"
    "sid_map_inv (snd (sid_map_copy e m new_sid_map))"
    "sid_arr (snd (sid_map_copy e m new_sid_map)) = sid_arr m"
    using copy_loop_ok [OF assms(2,3) sid_map_inv_new, of "sid_arr m"]
    by (simp_all add: sid_map_copy_def a)
  show ?thesis by (rule prod_eqI) (simp_all add: c sid_map_unique [OF c(2) assms(1) c(3)])
qed

text \<open>A map of two SIDs that are not in the order of their numbers.\<close>

definition two_sids :: sid_map where
  "two_sids =
     (let e = \<lparr>alloc_ok = True, resize_ok = True, pushes_done = 0\<rparr>
      in snd (add_sid e uuid_clear (snd (add_sid e (replicate BYTE_LENGTH 1) new_sid_map))))"

lemma two_sids_inv: "sid_map_inv two_sids"
  unfolding two_sids_def Let_def
  by (intro add_sid_ok(1)) (simp_all add: sid_map_inv_new is_uuid_def uuid_clear_def BYTE_LENGTH_def is_bytes_def)

lemma two_sids_sorted: "sorted_arr two_sids = [2, 1]"
  by code_simp

theorem sid_map_copy_correct_witness:
  "sid_map_copy \<lparr>alloc_ok = True, resize_ok = True, pushes_done = 0\<rparr> two_sids new_sid_map = (RETURN_STATUS_OK, two_sids)
   \<and> sorted_arr two_sids = [2, 1]"
  using sid_map_copy_correct [OF two_sids_inv, of "\<lparr>alloc_ok = True, resize_ok = True, pushes_done = 0\<rparr>"] two_sids_sorted by simp

end
