(* ===== verification/Gtid_Intervals.thy ===== *)
theory Gtid_Intervals
  imports Prelude
begin

text \<open>
  The list of transaction-number intervals of one server in a GTID set: the lowest-level
  operations of \<open>sql/rpl_gtid_set.cc\<close> (\<open>add_gno_interval\<close>,
  \<open>remove_gno_interval\<close>, the subset and intersection tests on two lists). A linked list
  is the list of its intervals; an iterator, which points to the link before the current
  element, is the pair of the elements before that link and the elements after it. The list
  of free intervals and its lock are not modelled: a new interval is always available.
\<close>

section \<open>Intervals and iterators\<close>

record interval =
  iv_start :: int
  iv_end :: int

definition mk_interval :: "int \<Rightarrow> int \<Rightarrow> interval" where
  "mk_interval s e = \<lparr>iv_start = s, iv_end = e\<rparr>"

lemma mk_interval_simps [simp]:
  "iv_start (mk_interval s e) = s" "iv_end (mk_interval s e) = e"
  by (simp_all add: mk_interval_def)

definition interval_equals :: "interval \<Rightarrow> interval \<Rightarrow> bool" where
  "interval_equals a b \<longleftrightarrow> iv_start a = iv_start b \<and> iv_end a = iv_end b"

lemma interval_equals_iff [simp]: "interval_equals a b \<longleftrightarrow> a = b"
  by (cases a; cases b) (simp add: interval_equals_def)

type_synonym interval_iterator = "interval list \<times> interval list"

definition ivit_init :: "interval list \<Rightarrow> interval_iterator" where
  "ivit_init ivs = ([], ivs)"

fun ivit_get :: "interval_iterator \<Rightarrow> interval option" where
  "ivit_get (pre, []) = None"
| "ivit_get (pre, iv # post) = Some iv"

fun ivit_next :: "interval_iterator \<Rightarrow> interval_iterator" where
  "ivit_next (pre, []) = (pre, [])"
| "ivit_next (pre, iv # post) = (pre @ [iv], post)"

definition ivit_insert :: "interval \<Rightarrow> interval_iterator \<Rightarrow> interval_iterator" where
  "ivit_insert iv it = (fst it, iv # snd it)"

definition ivit_remove :: "interval_iterator \<Rightarrow> interval_iterator" where
  "ivit_remove it = (fst it, tl (snd it))"

text \<open>The list an iterator walks over.\<close>

definition ivit_list :: "interval_iterator \<Rightarrow> interval list" where
  "ivit_list it = fst it @ snd it"

lemma ivit_list_simps [simp]: "ivit_list (pre, post) = pre @ post"
  "ivit_list (ivit_init ivs) = ivs" "ivit_init ivs = ([], ivs)"
  by (simp_all add: ivit_list_def ivit_init_def)

section \<open>Adding an interval\<close>

text \<open>
  The inner loop of \<open>add_gno_interval\<close>: the current interval is removed while the new one
  reaches the next one.
\<close>

fun absorb :: "int \<Rightarrow> interval list \<Rightarrow> interval list" where
  "absorb e (iv # nx # rest) =
     (if e \<ge> iv_start nx then absorb e (nx # rest) else iv # nx # rest)"
| "absorb e ivs = ivs"

fun add_gno_interval :: "interval_iterator \<Rightarrow> int \<Rightarrow> int \<Rightarrow> interval_iterator" where
  "add_gno_interval (pre, []) s e = ivit_insert (mk_interval s e) (pre, [])"
| "add_gno_interval (pre, iv # post) s e =
     (if iv_end iv \<ge> s then
        if iv_start iv > e then ivit_insert (mk_interval s e) (pre, iv # post)
        else let s' = (if iv_start iv < s then iv_start iv else s);
                 cur = absorb e (iv # post);
                 iv' = hd cur
             in (pre, iv'\<lparr>iv_start := s', iv_end := if iv_end iv' < e then e else iv_end iv'\<rparr>
                        # tl cur)
      else add_gno_interval (ivit_next (pre, iv # post)) s e)"

section \<open>Removing an interval\<close>

text \<open>The first loop: skip the intervals before the removed one.\<close>

fun skip_before :: "interval_iterator \<Rightarrow> int \<Rightarrow> interval_iterator" where
  "skip_before (pre, []) s = (pre, [])"
| "skip_before (pre, iv # post) s =
     (if iv_end iv > s then (pre, iv # post) else skip_before (ivit_next (pre, iv # post)) s)"

text \<open>The second loop: drop the covered intervals and cut the one that sticks out.\<close>

fun drop_covered :: "interval_iterator \<Rightarrow> int \<Rightarrow> interval_iterator" where
  "drop_covered (pre, []) e = (pre, [])"
| "drop_covered (pre, iv # post) e =
     (if iv_end iv \<le> e then drop_covered (pre, post) e
      else if iv_start iv < e then (pre, iv\<lparr>iv_start := e\<rparr> # post)
      else (pre, iv # post))"

definition remove_gno_interval :: "interval_iterator \<Rightarrow> int \<Rightarrow> int \<Rightarrow> interval_iterator" where
  "remove_gno_interval it s e =
     (let it = skip_before it s in
      case snd it of
        [] \<Rightarrow> it
      | iv # post \<Rightarrow>
          if iv_start iv < s then
            if iv_end iv > e then
              ivit_insert (mk_interval e (iv_end iv))
                (ivit_next (fst it, iv\<lparr>iv_end := s\<rparr> # post))
            else drop_covered (ivit_next (fst it, iv\<lparr>iv_end := s\<rparr> # post)) e
          else drop_covered it e)"

section \<open>Queries\<close>

fun contains_gno :: "interval list \<Rightarrow> int \<Rightarrow> bool" where
  "contains_gno [] gno = False"
| "contains_gno (iv # ivs) gno =
     (if gno < iv_start iv then False
      else if gno < iv_end iv then True
      else contains_gno ivs gno)"

fun last_gno :: "interval list \<Rightarrow> int \<Rightarrow> int" where
  "last_gno [] gno = gno"
| "last_gno (iv # ivs) gno = last_gno ivs (iv_end iv - 1)"

text \<open>\<open>get_gtid_count\<close> sums in an \<open>ulonglong\<close>.\<close>

fun gtid_count :: "interval list \<Rightarrow> int \<Rightarrow> int" where
  "gtid_count [] ret = ret"
| "gtid_count (iv # ivs) ret = gtid_count ivs (u64 (ret + (iv_end iv - iv_start iv)))"

text \<open>\<open>sidno_equals\<close>: both lists in step.\<close>

fun intervals_equal :: "interval list \<Rightarrow> interval list \<Rightarrow> bool" where
  "intervals_equal (a # as) (b # bs) =
     (if \<not> interval_equals a b then False else intervals_equal as bs)"
| "intervals_equal [] [] = True"
| "intervals_equal _ _ = False"

text \<open>
  \<open>is_interval_subset\<close> and \<open>is_interval_intersection_nonempty\<close>: the first argument
  holds the current interval and those after it; each recursive call is one step of the
  inner or of the outer loop. The loop body of \<open>is_interval_subset\<close> runs before the test
  for the end of \<open>sub\<close>: for an empty \<open>sub\<close> the function returns false where
  \<open>super\<close> is empty too, and reads through a null pointer otherwise (\<open>None\<close>).
\<close>

fun subset_loop :: "interval list \<Rightarrow> interval list \<Rightarrow> bool" where
  "subset_loop [] super = True"
| "subset_loop (sub_iv # sub) [] = False"
| "subset_loop (sub_iv # sub) (super_iv # super) =
     (if iv_start sub_iv > iv_end super_iv then subset_loop (sub_iv # sub) super
      else if iv_start sub_iv < iv_start super_iv \<or> iv_end sub_iv > iv_end super_iv then False
      else subset_loop sub (super_iv # super))"

definition is_interval_subset :: "interval list \<Rightarrow> interval list \<Rightarrow> bool option" where
  "is_interval_subset sub super =
     (if super = [] then Some False
      else if sub = [] then None
      else Some (subset_loop sub super))"

fun is_interval_intersection_nonempty :: "interval list \<Rightarrow> interval list \<Rightarrow> bool" where
  "is_interval_intersection_nonempty [] ivs2 = False"
| "is_interval_intersection_nonempty (iv1 # ivs1) [] = False"
| "is_interval_intersection_nonempty (iv1 # ivs1) (iv2 # ivs2) =
     (if iv_end iv2 \<le> iv_start iv1 then is_interval_intersection_nonempty (iv1 # ivs1) ivs2
      else if iv_start iv2 < iv_end iv1 then True
      else is_interval_intersection_nonempty ivs1 (iv2 # ivs2))"

section \<open>Meaning and invariant\<close>

text \<open>
  The intervals of a list are not empty, in increasing order, and do not touch: there is a
  gap before each start. GNOs are positive, so the first gap is at 0.
\<close>

fun ivs_ok :: "int \<Rightarrow> interval list \<Rightarrow> bool" where
  "ivs_ok lo [] = True"
| "ivs_ok lo (iv # ivs) \<longleftrightarrow> lo < iv_start iv \<and> iv_start iv < iv_end iv \<and> ivs_ok (iv_end iv) ivs"

fun gnos :: "interval list \<Rightarrow> int set" where
  "gnos [] = {}"
| "gnos (iv # ivs) = {iv_start iv..<iv_end iv} \<union> gnos ivs"

lemma gnos_append [simp]: "gnos (as @ bs) = gnos as \<union> gnos bs"
  by (induction as) auto

definition last_end :: "int \<Rightarrow> interval list \<Rightarrow> int" where
  "last_end lo ivs = (if ivs = [] then lo else iv_end (last ivs))"

lemma last_end_simps [simp]:
  "last_end lo [] = lo" "last_end lo (iv # ivs) = last_end (iv_end iv) ivs"
  "last_end lo (ivs @ [iv]) = iv_end iv"
  by (simp_all add: last_end_def)

lemma last_end_append [simp]: "last_end lo (as @ bs) = last_end (last_end lo as) bs"
  by (simp add: last_end_def)

lemma ivs_ok_append [simp]:
  "ivs_ok lo (as @ bs) \<longleftrightarrow> ivs_ok lo as \<and> ivs_ok (last_end lo as) bs"
  by (induction as arbitrary: lo) auto

lemma ivs_ok_weaken: "ivs_ok lo ivs \<Longrightarrow> lo' \<le> lo \<Longrightarrow> ivs_ok lo' ivs"
  by (cases ivs) auto

lemma gnos_lower: "ivs_ok lo ivs \<Longrightarrow> x \<in> gnos ivs \<Longrightarrow> lo < x"
  by (induction ivs arbitrary: lo) (auto, fastforce)

lemma last_end_ge: "ivs_ok lo ivs \<Longrightarrow> lo \<le> last_end lo ivs"
  by (induction ivs arbitrary: lo) (simp, fastforce)

lemma gnos_upper: "ivs_ok lo ivs \<Longrightarrow> x \<in> gnos ivs \<Longrightarrow> x < last_end lo ivs"
  by (induction ivs arbitrary: lo) (use last_end_ge in \<open>fastforce+\<close>)

lemma ends_below: "ivs_ok lo ivs \<Longrightarrow> iv \<in> set ivs \<Longrightarrow> iv_end iv \<le> last_end lo ivs"
  by (induction ivs arbitrary: lo) (use last_end_ge in \<open>fastforce+\<close>)

lemma last_end_less: "\<forall>iv \<in> set ivs. iv_end iv < s \<Longrightarrow> lo < s \<Longrightarrow> last_end lo ivs < s"
  by (simp add: last_end_def)

lemma last_end_le: "\<forall>iv \<in> set ivs. iv_end iv \<le> s \<Longrightarrow> lo \<le> s \<Longrightarrow> last_end lo ivs \<le> s"
  by (simp add: last_end_def)

lemma gnos_empty_iff: "ivs_ok lo ivs \<Longrightarrow> gnos ivs = {} \<longleftrightarrow> ivs = []"
  by (cases ivs) auto

section \<open>Adding and removing\<close>

text \<open>What the new interval absorbs: the loop and the final stores together.\<close>

definition merge_cur :: "int \<Rightarrow> int \<Rightarrow> interval list \<Rightarrow> interval list" where
  "merge_cur s e ivs =
     (let cur = absorb e ivs; iv = hd cur
      in iv\<lparr>iv_start := s, iv_end := if iv_end iv < e then e else iv_end iv\<rparr> # tl cur)"

lemma merge_cur_correct:
  assumes "ivs_ok lo (iv # ivs)" "lo < s" "s \<le> iv_start iv" "iv_start iv \<le> e" "s < e"
  shows "ivs_ok lo (merge_cur s e (iv # ivs))
    \<and> gnos (merge_cur s e (iv # ivs)) = gnos (iv # ivs) \<union> {s..<e}
    \<and> e \<le> iv_end (hd (merge_cur s e (iv # ivs)))"
  using assms
proof (induction ivs arbitrary: iv lo)
  case Nil
  then show ?case by (auto simp: merge_cur_def)
next
  case (Cons nx rest)
  show ?case
  proof (cases "iv_start nx \<le> e")
    case True
    have o: "ivs_ok lo (nx # rest)" and n: "s \<le> iv_start nx" using Cons.prems by simp_all
    note ih = Cons.IH [OF o Cons.prems(2) n True Cons.prems(5)]
    have m: "merge_cur s e (iv # nx # rest) = merge_cur s e (nx # rest)"
      using True by (simp add: merge_cur_def)
    have "iv_end iv \<le> e" using Cons.prems True by simp
    then have "{iv_start iv..<iv_end iv} \<subseteq> {s..<e}" using Cons.prems(3) by simp
    then have "gnos (iv # nx # rest) \<union> {s..<e} = gnos (nx # rest) \<union> {s..<e}" by auto
    with ih show ?thesis unfolding m by simp
  next
    case False
    then show ?thesis using Cons.prems by (auto simp: merge_cur_def)
  qed
qed

lemma add_gno_interval_step:
  assumes "iv_end iv \<ge> s" "iv_start iv \<le> e"
  shows "add_gno_interval (pre, iv # post) s e
    = (pre, merge_cur (if iv_start iv < s then iv_start iv else s) e (iv # post))"
  using assms by (simp add: merge_cur_def Let_def)

text \<open>
  The contract of \<open>add_gno_interval\<close>: started after intervals that end before the new one
  starts, it keeps the invariant and adds exactly the new numbers; the iterator is left on
  the interval that contains them, again after intervals that end before it.
\<close>

lemma add_gno_interval_correct:
  assumes "ivs_ok 0 (pre @ post)" "\<forall>iv \<in> set pre. iv_end iv < s" "0 < s" "s < e"
  shows "\<exists>pre' iv post'. add_gno_interval (pre, post) s e = (pre', iv # post')
    \<and> ivs_ok 0 (pre' @ iv # post') \<and> gnos (pre' @ iv # post') = gnos (pre @ post) \<union> {s..<e}
    \<and> (\<forall>iv \<in> set pre'. iv_end iv < s) \<and> iv_start iv \<le> s \<and> e \<le> iv_end iv"
  using assms
proof (induction post arbitrary: pre)
  case Nil
  then show ?case by (simp add: ivit_insert_def last_end_less)
next
  case (Cons iv post)
  have le: "last_end 0 pre < s" using Cons.prems by (simp add: last_end_less)
  consider (skip) "iv_end iv < s" | (before) "s \<le> iv_end iv" "e < iv_start iv"
    | (merge) "s \<le> iv_end iv" "iv_start iv \<le> e" by linarith
  then show ?case
  proof cases
    case skip
    with Cons.IH [of "pre @ [iv]"] Cons.prems show ?thesis by auto
  next
    case before
    with Cons.prems le show ?thesis by (auto simp: ivit_insert_def)
  next
    case merge
    let ?s = "if iv_start iv < s then iv_start iv else s"
    obtain iv' post' where m: "merge_cur ?s e (iv # post) = iv' # post'" "iv_start iv' = ?s"
      by (simp add: merge_cur_def Let_def)
    have "ivs_ok (last_end 0 pre) (iv # post)" "last_end 0 pre < ?s" "?s \<le> iv_start iv"
      "iv_start iv \<le> e" "?s < e"
      using Cons.prems le merge by auto
    from merge_cur_correct [OF this]
    have r: "ivs_ok (last_end 0 pre) (iv' # post')" "gnos (iv' # post') = gnos (iv # post) \<union> {?s..<e}"
      "e \<le> iv_end iv'" using m by auto
    have "{?s..<e} \<union> gnos (iv # post) = {s..<e} \<union> gnos (iv # post)"
      using merge Cons.prems by auto
    then show ?thesis
      using add_gno_interval_step [OF merge] m r Cons.prems by auto
  qed
qed

lemma skip_before_split:
  "\<exists>a b. post = a @ b \<and> skip_before (pre, post) s = (pre @ a, b)
     \<and> (\<forall>iv \<in> set a. iv_end iv \<le> s) \<and> (b \<noteq> [] \<longrightarrow> s < iv_end (hd b))"
proof (induction post arbitrary: pre)
  case (Cons iv post)
  show ?case
  proof (cases "s < iv_end iv")
    case True
    then show ?thesis by (intro exI [of _ "[]"] exI [of _ "iv # post"]) simp
  next
    case False
    from Cons.IH [of "pre @ [iv]"] obtain a b where
      "post = a @ b" "skip_before (pre @ [iv], post) s = ((pre @ [iv]) @ a, b)"
      "\<forall>iv \<in> set a. iv_end iv \<le> s" "b \<noteq> [] \<longrightarrow> s < iv_end (hd b)" by blast
    with False show ?thesis by (intro exI [of _ "iv # a"] exI [of _ b]) simp
  qed
qed simp

lemma drop_covered_correct:
  assumes "ivs_ok lo post" "lo < e"
  shows "\<exists>post'. drop_covered (pre, post) e = (pre, post') \<and> ivs_ok lo post'
    \<and> gnos post' = gnos post - {..<e}"
  using assms
proof (induction post arbitrary: lo)
  case (Cons iv post)
  have o: "ivs_ok (iv_end iv) post" using Cons.prems(1) by simp
  have above: "gnos post - {..<e} = gnos post" if "e \<le> iv_end iv"
    using gnos_lower [OF o] that by force
  consider (covered) "iv_end iv \<le> e" | (cut) "e < iv_end iv" "iv_start iv < e"
    | (keep) "e \<le> iv_start iv" by linarith
  then show ?case
  proof cases
    case covered
    have "ivs_ok lo post" using Cons.prems by (auto intro: ivs_ok_weaken)
    from Cons.IH [OF this Cons.prems(2)] obtain p' where
      "drop_covered (pre, post) e = (pre, p') \<and> ivs_ok lo p' \<and> gnos p' = gnos post - {..<e}"
      by blast
    moreover have "gnos (iv # post) - {..<e} = gnos post - {..<e}" using covered by auto
    ultimately show ?thesis using covered by simp
  next
    case cut
    have "{iv_start iv..<iv_end iv} - {..<e} = {e..<iv_end iv}" using cut by auto
    with cut Cons.prems above o show ?thesis by (simp add: Un_Diff)
  next
    case keep
    have "{iv_start iv..<iv_end iv} - {..<e} = {iv_start iv..<iv_end iv}" using keep by auto
    with keep Cons.prems above o show ?thesis by (simp add: Un_Diff)
  qed
qed simp

lemma gnos_below: "ivs_ok lo ivs \<Longrightarrow> last_end lo ivs \<le> s \<Longrightarrow> gnos ivs - {s..<e} = gnos ivs"
  using gnos_upper [of lo ivs] by force

text \<open>
  The contract of \<open>remove_gno_interval\<close>, with the same reading of the iterator: the
  intervals before it end at or before the start of the removed one.
\<close>

lemma remove_gno_interval_correct:
  assumes "ivs_ok 0 (pre @ post)" "\<forall>iv \<in> set pre. iv_end iv \<le> s" "0 \<le> s" "s < e"
  shows "\<exists>pre' post'. remove_gno_interval (pre, post) s e = (pre', post')
    \<and> ivs_ok 0 (pre' @ post') \<and> gnos (pre' @ post') = gnos (pre @ post) - {s..<e}
    \<and> (\<forall>iv \<in> set pre'. iv_end iv \<le> s)"
proof -
  obtain a b where ab: "post = a @ b" "skip_before (pre, post) s = (pre @ a, b)"
    "\<forall>iv \<in> set a. iv_end iv \<le> s" "b \<noteq> [] \<longrightarrow> s < iv_end (hd b)"
    using skip_before_split by blast
  let ?p = "pre @ a"
  have ok: "ivs_ok 0 ?p" "ivs_ok (last_end 0 ?p) b" using assms(1) ab(1) by simp_all
  have pre: "\<forall>iv \<in> set ?p. iv_end iv \<le> s" using assms(2) ab(3) by auto
  have le: "last_end 0 ?p \<le> s" using last_end_le [OF pre assms(3)] .
  have gp: "gnos ?p - {s..<e} = gnos ?p" using gnos_below [OF ok(1) le] .
  have gd: "gnos (pre @ post) - {s..<e} = gnos ?p \<union> (gnos b - {s..<e})" using ab(1) gp by auto
  show ?thesis
  proof (cases b)
    case Nil
    then show ?thesis using ab ok pre gd by (auto simp: remove_gno_interval_def)
  next
    case (Cons iv post')
    have iv: "last_end 0 ?p < iv_start iv" "iv_start iv < iv_end iv" "ivs_ok (iv_end iv) post'"
      "s < iv_end iv" using ok Cons ab(4) by auto
    have pg: "x \<in> gnos post' \<Longrightarrow> iv_end iv < x" for x using gnos_lower [OF iv(3)] .
    have bg: "x \<in> gnos b \<Longrightarrow> iv_start iv \<le> x" for x using Cons iv pg by fastforce
    consider (split) "iv_start iv < s" "e < iv_end iv" | (head) "iv_start iv < s" "iv_end iv \<le> e"
      | (tail) "s \<le> iv_start iv" by linarith
    then show ?thesis
    proof cases
      case split
      have "gnos post' - {s..<e} = gnos post'" using pg split by force
      moreover have "{iv_start iv..<iv_end iv} - {s..<e} = {iv_start iv..<s} \<union> {e..<iv_end iv}"
        using split assms(4) by auto
      ultimately have "gnos b - {s..<e} = {iv_start iv..<s} \<union> {e..<iv_end iv} \<union> gnos post'"
        unfolding Cons gnos.simps Un_Diff by simp
      then show ?thesis using split ab(2) ok pre gd Cons iv assms(4)
        by (simp add: remove_gno_interval_def ivit_insert_def Un_assoc)
    next
      case head
      let ?q = "?p @ [iv\<lparr>iv_end := s\<rparr>]"
      obtain p' where d: "drop_covered (?q, post') e = (?q, p')" "ivs_ok s p'"
        "gnos p' = gnos post' - {..<e}"
        using drop_covered_correct [of s post' e ?q] ivs_ok_weaken [OF iv(3), of s] iv(4) assms(4)
        by auto
      have "gnos post' - {s..<e} = gnos p'" unfolding d(3) using pg iv(4) by force
      moreover have "{iv_start iv..<iv_end iv} - {s..<e} = {iv_start iv..<s}"
        using head iv(4) by auto
      ultimately have "gnos b - {s..<e} = {iv_start iv..<s} \<union> gnos p'"
        unfolding Cons gnos.simps Un_Diff by simp
      then show ?thesis using head ab(2) ok pre gd Cons iv d
        by (simp add: remove_gno_interval_def Un_assoc)
    next
      case tail
      obtain p' where d: "drop_covered (?p, b) e = (?p, p')" "ivs_ok (last_end 0 ?p) p'"
        "gnos p' = gnos b - {..<e}"
        using drop_covered_correct [OF ok(2), of e ?p] le assms(4) by auto
      have "gnos b - {s..<e} = gnos p'" using tail bg d(3) by force
      then show ?thesis using tail ab(2) ok pre gd Cons d
        by (simp add: remove_gno_interval_def)
    qed
  qed
qed

section \<open>Queries are about the set of numbers\<close>

lemma contains_gno_iff: "ivs_ok lo ivs \<Longrightarrow> contains_gno ivs g \<longleftrightarrow> g \<in> gnos ivs"
proof (induction ivs arbitrary: lo)
  case (Cons iv ivs)
  then have "ivs_ok (iv_end iv) ivs" "iv_start iv < iv_end iv" by simp_all
  with Cons.IH gnos_lower [of "iv_end iv" ivs g] show ?case by auto
qed simp

lemma last_gno_last_end: "last_gno ivs g = (if ivs = [] then g else last_end 0 ivs - 1)"
  by (induction ivs arbitrary: g) (auto simp: last_end_def)

lemma last_end_mem: "ivs_ok lo ivs \<Longrightarrow> ivs \<noteq> [] \<Longrightarrow> last_end lo' ivs - 1 \<in> gnos ivs"
  by (cases ivs rule: rev_cases) auto

lemma last_gno_max:
  assumes "ivs_ok 0 ivs"
  shows "ivs = [] \<Longrightarrow> last_gno ivs 0 = 0"
    and "ivs \<noteq> [] \<Longrightarrow> last_gno ivs 0 \<in> gnos ivs"
    and "x \<in> gnos ivs \<Longrightarrow> x \<le> last_gno ivs 0"
  using last_end_mem [OF assms] gnos_upper [OF assms, of x] last_gno_last_end [of ivs 0]
  by (auto split: if_splits)

lemma finite_gnos [simp]: "finite (gnos ivs)"
  by (induction ivs) auto

lemma card_gnos_Cons:
  assumes "ivs_ok lo (iv # ivs)"
  shows "int (card (gnos (iv # ivs))) = (iv_end iv - iv_start iv) + int (card (gnos ivs))"
proof -
  have "{iv_start iv..<iv_end iv} \<inter> gnos ivs = {}"
    using gnos_lower [of "iv_end iv" ivs] assms by force
  then show ?thesis using assms by (simp add: card_Un_disjoint)
qed

lemma gtid_count_card:
  "ivs_ok lo ivs \<Longrightarrow> 0 \<le> r \<Longrightarrow> r + int (card (gnos ivs)) < 2 ^ 64 \<Longrightarrow>
   gtid_count ivs r = r + int (card (gnos ivs))"
proof (induction ivs arbitrary: lo r)
  case (Cons iv ivs)
  have o: "ivs_ok (iv_end iv) ivs" "iv_start iv < iv_end iv" using Cons.prems(1) by simp_all
  note c = card_gnos_Cons [OF Cons.prems(1)]
  have "u64 (r + (iv_end iv - iv_start iv)) = r + (iv_end iv - iv_start iv)"
    using Cons.prems(2,3) c o by (intro u64_id) linarith+
  then show ?case using Cons.IH [OF o(1)] Cons.prems(2,3) c o by simp
qed simp

lemma card_gnos_bound: "ivs_ok 0 ivs \<Longrightarrow> int (card (gnos ivs)) \<le> last_end 0 ivs"
proof -
  assume o: "ivs_ok 0 ivs"
  have "gnos ivs \<subseteq> {0..<last_end 0 ivs}" using gnos_lower [OF o] gnos_upper [OF o] by force
  from card_mono [OF _ this] last_end_ge [OF o] show ?thesis by simp
qed

lemma intervals_equal_iff [simp]: "intervals_equal as bs \<longleftrightarrow> as = bs"
  by (induction as bs rule: intervals_equal.induct) auto

lemma subset_loop_iff:
  "ivs_ok lo sub \<Longrightarrow> ivs_ok lo' super \<Longrightarrow> subset_loop sub super \<longleftrightarrow> gnos sub \<subseteq> gnos super"
proof (induction sub super arbitrary: lo lo' rule: subset_loop.induct)
  case (2 sub_iv sub)
  then show ?case by auto
next
  case (3 a sub b super)
  have a: "iv_start a < iv_end a" "ivs_ok (iv_end a) sub" and b: "iv_start b < iv_end b"
    "ivs_ok (iv_end b) super" using "3.prems" by simp_all
  have sub_lo: "x \<in> gnos (a # sub) \<Longrightarrow> iv_start a \<le> x" for x
    using a gnos_lower [OF a(2)] by fastforce
  have super_lo: "x \<in> gnos (b # super) \<Longrightarrow> iv_start b \<le> x" for x
    using b gnos_lower [OF b(2)] by fastforce
  consider (skip) "iv_end b < iv_start a" | (left) "iv_start a < iv_start b"
    | (right) "iv_start a \<le> iv_end b" "iv_start b \<le> iv_start a" "iv_end b < iv_end a"
    | (covered) "iv_start a \<le> iv_end b" "iv_start b \<le> iv_start a" "iv_end a \<le> iv_end b"
    by linarith
  then show ?case
  proof cases
    case skip
    have "gnos (a # sub) \<inter> {iv_start b..<iv_end b} = {}" using sub_lo skip by fastforce
    with "3.IH"(1) [OF skip "3.prems"(1) b(2)] skip show ?thesis by auto
  next
    case left
    have "iv_start a \<in> gnos (a # sub)" "iv_start a \<notin> gnos (b # super)"
      using a super_lo left by force+
    moreover have "\<not> subset_loop (a # sub) (b # super)" using left b by simp
    ultimately show ?thesis by blast
  next
    case right
    have "iv_end b \<in> gnos (a # sub)" "iv_end b \<notin> gnos (b # super)"
      using right gnos_lower [OF b(2), of "iv_end b"] by auto
    moreover have "\<not> subset_loop (a # sub) (b # super)" using right by simp
    ultimately show ?thesis by blast
  next
    case covered
    have "{iv_start a..<iv_end a} \<subseteq> gnos (b # super)" using covered by auto
    with "3.IH"(2) [OF _ _ a(2) "3.prems"(2)] covered show ?thesis by auto
  qed
qed simp

lemma intersection_nonempty_iff:
  "ivs_ok lo as \<Longrightarrow> ivs_ok lo' bs \<Longrightarrow>
   is_interval_intersection_nonempty as bs \<longleftrightarrow> gnos as \<inter> gnos bs \<noteq> {}"
proof (induction as bs arbitrary: lo lo' rule: is_interval_intersection_nonempty.induct)
  case (3 a as b bs)
  have a: "iv_start a < iv_end a" "ivs_ok (iv_end a) as" and b: "iv_start b < iv_end b"
    "ivs_ok (iv_end b) bs" using "3.prems" by simp_all
  have alo: "x \<in> gnos (a # as) \<Longrightarrow> iv_start a \<le> x" for x
    using a gnos_lower [OF a(2)] by fastforce
  have blo: "x \<in> gnos (b # bs) \<Longrightarrow> iv_start b \<le> x" for x
    using b gnos_lower [OF b(2)] by fastforce
  consider (skip) "iv_end b \<le> iv_start a" | (hit) "iv_start a < iv_end b" "iv_start b < iv_end a"
    | (next_a) "iv_start a < iv_end b" "iv_end a \<le> iv_start b" by linarith
  then show ?case
  proof cases
    case skip
    have "gnos (a # as) \<inter> {iv_start b..<iv_end b} = {}" using alo skip by fastforce
    with "3.IH"(1) [OF skip "3.prems"(1) b(2)] skip show ?thesis by auto
  next
    case hit
    have "max (iv_start a) (iv_start b) \<in> gnos (a # as) \<inter> gnos (b # bs)" using hit a b by auto
    then have "gnos (a # as) \<inter> gnos (b # bs) \<noteq> {}" by blast
    moreover have "is_interval_intersection_nonempty (a # as) (b # bs)" using hit by simp
    ultimately show ?thesis by simp
  next
    case next_a
    have "{iv_start a..<iv_end a} \<inter> gnos (b # bs) = {}" using blo next_a by fastforce
    with "3.IH"(2) [OF _ _ a(2) "3.prems"(2)] next_a show ?thesis by auto
  qed
qed simp_all

text \<open>The invariant makes the representation unique.\<close>

lemma gnos_Cons_above:
  assumes "ivs_ok lo (iv # ivs)"
  shows "iv_start iv \<in> gnos (iv # ivs)" and "x \<in> gnos (iv # ivs) \<Longrightarrow> iv_start iv \<le> x"
    and "iv_end iv \<notin> gnos (iv # ivs)" and "gnos ivs = gnos (iv # ivs) - {..<iv_end iv}"
proof -
  have o: "iv_start iv < iv_end iv" "ivs_ok (iv_end iv) ivs" using assms by simp_all
  note l = gnos_lower [OF o(2)]
  show "iv_start iv \<in> gnos (iv # ivs)" using o by simp
  show "x \<in> gnos (iv # ivs) \<Longrightarrow> iv_start iv \<le> x" using o l [of x] by auto
  show "iv_end iv \<notin> gnos (iv # ivs)" using l by force
  show "gnos ivs = gnos (iv # ivs) - {..<iv_end iv}" using l by force
qed

lemma gnos_inj: "ivs_ok lo as \<Longrightarrow> ivs_ok lo' bs \<Longrightarrow> gnos as = gnos bs \<Longrightarrow> as = bs"
proof (induction as arbitrary: bs lo lo')
  case Nil
  then show ?case using gnos_empty_iff [of lo' bs] by simp
next
  case (Cons a as)
  then obtain b bs' where bs: "bs = b # bs'" using gnos_empty_iff [of lo "a # as"] by (cases bs) auto
  note A = gnos_Cons_above [OF Cons.prems(1)]
  note B = gnos_Cons_above [OF Cons.prems(2) [unfolded bs]]
  have eq: "gnos (a # as) = gnos (b # bs')" using Cons.prems(3) bs by simp
  have s: "iv_start a = iv_start b" using A(1,2) B(1,2) eq by (metis order_antisym)
  have "iv_start a < iv_end a" "iv_start b < iv_end b" using Cons.prems(1,2) bs by simp_all
  then have "iv_end a < iv_end b \<Longrightarrow> iv_end a \<in> gnos (b # bs')"
    and "iv_end b < iv_end a \<Longrightarrow> iv_end b \<in> gnos (a # as)" using s by auto
  then have e: "iv_end a = iv_end b" using A(3) B(3) eq by (metis linorder_cases)
  have "gnos as = gnos bs'" using A(4) B(4) eq e by simp
  with Cons.IH Cons.prems(1,2) bs have "as = bs'" by auto
  moreover have "a = b" using s e by (cases a; cases b) simp
  ultimately show ?case using bs by simp
qed

section \<open>Adding and removing whole lists\<close>

text \<open>
  \<open>add_gno_intervals\<close> and \<open>remove_gno_intervals\<close> walk over the other list with one
  iterator on this one; the second stops when the iterator is at the end.
\<close>

fun add_gno_intervals :: "interval_iterator \<Rightarrow> interval list \<Rightarrow> interval_iterator" where
  "add_gno_intervals ivit [] = ivit"
| "add_gno_intervals ivit (other_iv # others) =
     add_gno_intervals (add_gno_interval ivit (iv_start other_iv) (iv_end other_iv)) others"

fun remove_gno_intervals :: "interval_iterator \<Rightarrow> interval list \<Rightarrow> interval_iterator" where
  "remove_gno_intervals ivit [] = ivit"
| "remove_gno_intervals ivit (other_iv # others) =
     (let it = remove_gno_interval ivit (iv_start other_iv) (iv_end other_iv)
      in if ivit_get it = None then it else remove_gno_intervals it others)"

lemma add_gno_intervals_correct:
  assumes "ivs_ok 0 (pre @ post)" "ivs_ok lo os" "0 \<le> lo" "\<forall>iv \<in> set pre. iv_end iv \<le> lo"
  shows "ivs_ok 0 (ivit_list (add_gno_intervals (pre, post) os))
    \<and> gnos (ivit_list (add_gno_intervals (pre, post) os)) = gnos (pre @ post) \<union> gnos os"
  using assms
proof (induction os arbitrary: pre post lo)
  case (Cons a os)
  have a: "lo < iv_start a" "iv_start a < iv_end a" "ivs_ok (iv_end a) os" "0 < iv_start a"
    using Cons.prems by simp_all
  have "\<forall>iv \<in> set pre. iv_end iv < iv_start a" using Cons.prems(4) a(1) by force
  from add_gno_interval_correct [OF Cons.prems(1) this a(4,2)] obtain pre' iv post' where
    r: "add_gno_interval (pre, post) (iv_start a) (iv_end a) = (pre', iv # post')"
    "ivs_ok 0 (pre' @ iv # post')"
    "gnos (pre' @ iv # post') = gnos (pre @ post) \<union> {iv_start a..<iv_end a}"
    "\<forall>iv \<in> set pre'. iv_end iv < iv_start a" by blast
  have "\<forall>iv \<in> set pre'. iv_end iv \<le> iv_end a" "0 \<le> iv_end a" using r(4) a by force+
  from Cons.IH [OF r(2) a(3) this(2,1), unfolded r(3)] show ?case by (simp add: r(1) Un_assoc)
qed simp

lemma remove_gno_intervals_correct:
  assumes "ivs_ok 0 (pre @ post)" "ivs_ok lo os" "0 \<le> lo" "\<forall>iv \<in> set pre. iv_end iv \<le> lo"
  shows "ivs_ok 0 (ivit_list (remove_gno_intervals (pre, post) os))
    \<and> gnos (ivit_list (remove_gno_intervals (pre, post) os)) = gnos (pre @ post) - gnos os"
  using assms
proof (induction os arbitrary: pre post lo)
  case (Cons a os)
  note IH = Cons.IH
  have a: "lo < iv_start a" "iv_start a < iv_end a" "ivs_ok (iv_end a) os" "0 \<le> iv_start a"
    using Cons.prems by simp_all
  have "\<forall>iv \<in> set pre. iv_end iv \<le> iv_start a" using Cons.prems(4) a(1) by force
  from remove_gno_interval_correct [OF Cons.prems(1) this a(4,2)] obtain pre' post' where
    r: "remove_gno_interval (pre, post) (iv_start a) (iv_end a) = (pre', post')"
    "ivs_ok 0 (pre' @ post')"
    "gnos (pre' @ post') = gnos (pre @ post) - {iv_start a..<iv_end a}"
    "\<forall>iv \<in> set pre'. iv_end iv \<le> iv_start a" by blast
  show ?case
  proof (cases post')
    case Nil
    have "last_end 0 pre' \<le> iv_start a" using last_end_le [OF r(4) a(4)] .
    then have "gnos pre' \<inter> gnos os = {}"
      using gnos_upper [of 0 pre'] gnos_lower [OF a(3)] r(2) a(2) Nil by fastforce
    then show ?thesis using r Nil by auto
  next
    case (Cons iv p)
    have "\<forall>iv \<in> set pre'. iv_end iv \<le> iv_end a" "0 \<le> iv_end a" using r(4) a by force+
    note ih = IH [OF r(2) a(3) this(2,1), unfolded r(3)]
    have "(A - B) - C = A - (B \<union> C)" for A B C :: "int set" by auto
    with ih Cons show ?thesis by (simp add: r(1))
  qed
qed simp

section \<open>The interface of a set of numbers\<close>

text \<open>
  What the rest of a GTID set relies on: ranges of numbers are added and removed, and
  membership follows.
\<close>

locale gno_set =
  fixes add :: "'s \<Rightarrow> int \<Rightarrow> int \<Rightarrow> 's" and remove :: "'s \<Rightarrow> int \<Rightarrow> int \<Rightarrow> 's"
    and contains :: "'s \<Rightarrow> int \<Rightarrow> bool" and abs_gnos :: "'s \<Rightarrow> int set" and inv :: "'s \<Rightarrow> bool"
  assumes add_inv: "inv t \<Longrightarrow> 0 < s \<Longrightarrow> s < e \<Longrightarrow> inv (add t s e)"
    and add_abs: "inv t \<Longrightarrow> 0 < s \<Longrightarrow> s < e \<Longrightarrow> abs_gnos (add t s e) = abs_gnos t \<union> {s..<e}"
    and remove_inv: "inv t \<Longrightarrow> 0 \<le> s \<Longrightarrow> s < e \<Longrightarrow> inv (remove t s e)"
    and remove_abs:
      "inv t \<Longrightarrow> 0 \<le> s \<Longrightarrow> s < e \<Longrightarrow> abs_gnos (remove t s e) = abs_gnos t - {s..<e}"
    and contains_abs: "inv t \<Longrightarrow> contains t g \<longleftrightarrow> g \<in> abs_gnos t"
begin

lemma contains_add:
  "inv t \<Longrightarrow> 0 < s \<Longrightarrow> s < e \<Longrightarrow> contains (add t s e) g \<longleftrightarrow> contains t g \<or> s \<le> g \<and> g < e"
  by (auto simp: contains_abs add_inv add_abs)

lemma contains_remove:
  "inv t \<Longrightarrow> 0 \<le> s \<Longrightarrow> s < e \<Longrightarrow>
   contains (remove t s e) g \<longleftrightarrow> contains t g \<and> \<not> (s \<le> g \<and> g < e)"
  by (auto simp: contains_abs remove_inv remove_abs)

lemma remove_add_same:
  "inv t \<Longrightarrow> 0 < g \<Longrightarrow> \<not> contains t g \<Longrightarrow>
   abs_gnos (remove (add t g (g + 1)) g (g + 1)) = abs_gnos t"
  by (auto simp: contains_abs add_inv add_abs remove_abs)

end

definition add_range :: "interval list \<Rightarrow> int \<Rightarrow> int \<Rightarrow> interval list" where
  "add_range ivs s e = ivit_list (add_gno_interval (ivit_init ivs) s e)"

definition remove_range :: "interval list \<Rightarrow> int \<Rightarrow> int \<Rightarrow> interval list" where
  "remove_range ivs s e = ivit_list (remove_gno_interval (ivit_init ivs) s e)"

interpretation ivs: gno_set add_range remove_range contains_gno gnos "ivs_ok 0"
proof
  fix t :: "interval list" and s e :: int
  assume t: "ivs_ok 0 t" "s < e"
  show "ivs_ok 0 (add_range t s e)" and "gnos (add_range t s e) = gnos t \<union> {s..<e}" if "0 < s"
    using add_gno_interval_correct [of "[]" t s e] t that by (auto simp: add_range_def)
  show "ivs_ok 0 (remove_range t s e)" and "gnos (remove_range t s e) = gnos t - {s..<e}" if "0 \<le> s"
    using remove_gno_interval_correct [of "[]" t s e] t that by (auto simp: remove_range_def)
next
  show "ivs_ok 0 t \<Longrightarrow> contains_gno t g \<longleftrightarrow> g \<in> gnos t" for t g by (rule contains_gno_iff)
qed

end
