(* ===== verification/Gtid_Set.thy ===== *)
theory Gtid_Set
  imports Sid_Map Gtid_Intervals
begin

text \<open>
  Sets of global transaction identifiers, the class \<open>Gtid_set\<close> of \<open>sql/rpl_gtid.h\<close>
  and \<open>sql/rpl_gtid_set.cc\<close>: an array with one list of intervals per SIDNO. A set refers
  to a \<open>Sid_map\<close> by pointer, and two sets may share one: the maps live in a store from
  addresses to maps, and the null pointer is \<open>None\<close>. Locks are not modelled, and neither
  is the pool of free intervals: allocating a chunk of it either succeeds or ends the process.
\<close>

section \<open>Data\<close>

type_synonym sid_store = "nat \<Rightarrow> sid_map"

record string_format =
  sf_begin :: string
  sf_end :: string
  sid_gno_separator :: string
  gno_start_end_separator :: string
  gno_gno_separator :: string
  gno_sid_separator :: string
  empty_set_string :: "string option"
  begin_length :: int
  end_length :: int
  sid_gno_separator_length :: int
  gno_start_end_separator_length :: int
  gno_gno_separator_length :: int
  gno_sid_separator_length :: int
  empty_set_string_length :: int

record gtid_set =
  m_intervals :: "interval list list"
  sid_map_p :: "nat option"
  has_cached_string_length :: bool
  cached_string_length :: int
  cached_string_format :: "string_format option"

definition GNO_END :: int where
  "GNO_END = 2 ^ 63 - 1"

definition new_gtid_set :: "nat option \<Rightarrow> gtid_set" where
  "new_gtid_set p =
     \<lparr>m_intervals = [], sid_map_p = p, has_cached_string_length = False,
      cached_string_length = 0, cached_string_format = None\<rparr>"

section \<open>Access to the lists\<close>

definition get_max_sidno :: "gtid_set \<Rightarrow> nat" where
  "get_max_sidno gs = length (m_intervals gs)"

text \<open>The SIDNOs a loop from 1 to a bound walks over.\<close>

definition sidnos :: "nat \<Rightarrow> nat list" where
  "sidnos n = [1..<n + 1]"

lemma sidnos_simps [simp]: "set (sidnos n) = {1..n}" "distinct (sidnos n)"
  by (auto simp: sidnos_def)

text \<open>The list an iterator for a SIDNO starts on.\<close>

definition ivs_of :: "gtid_set \<Rightarrow> nat \<Rightarrow> interval list" where
  "ivs_of gs sidno = m_intervals gs ! (sidno - 1)"

definition contains_sidno :: "gtid_set \<Rightarrow> nat \<Rightarrow> bool" where
  "contains_sidno gs sidno =
     (if sidno > get_max_sidno gs then False else ivs_of gs sidno \<noteq> [])"

text \<open>When a \<open>push_back\<close> fails, the entries pushed before it stay.\<close>

definition ensure_sidno :: "mem_env \<Rightarrow> nat \<Rightarrow> gtid_set \<Rightarrow> enum_return_status \<times> gtid_set" where
  "ensure_sidno e sidno gs =
     (let max_sidno = get_max_sidno gs in
      if sidno > max_sidno then
        if alloc_ok e
        then (RETURN_STATUS_OK,
              gs\<lparr>m_intervals := m_intervals gs @ replicate (sidno - max_sidno) []\<rparr>)
        else (RETURN_STATUS_REPORTED_ERROR,
              gs\<lparr>m_intervals := m_intervals gs @ replicate (min (pushes_done e) (sidno - max_sidno - 1)) []\<rparr>)
      else (RETURN_STATUS_OK, gs))"

definition gs_clear :: "gtid_set \<Rightarrow> gtid_set" where
  "gs_clear gs =
     (let gs = gs\<lparr>has_cached_string_length := False, cached_string_length := 0\<rparr> in
      if get_max_sidno gs = 0 then gs
      else gs\<lparr>m_intervals := map (\<lambda>ivs. []) (m_intervals gs)\<rparr>)"

definition clear_set_and_sid_map :: "gtid_set \<Rightarrow> sid_store \<Rightarrow> gtid_set \<times> sid_store" where
  "clear_set_and_sid_map gs sm =
     (let p = the (sid_map_p gs)
      in ((gs_clear gs)\<lparr>m_intervals := []\<rparr>, sm(p := sid_map_clear (sm p))))"

section \<open>Single transactions and lists of intervals\<close>

text \<open>
  Every call of \<open>add_gno_interval\<close> and \<open>remove_gno_interval\<close> drops the cached
  string length; the latter stores -1, converted to \<open>size_t\<close>, in its place.
\<close>

definition store_added :: "nat \<Rightarrow> interval_iterator \<Rightarrow> gtid_set \<Rightarrow> gtid_set" where
  "store_added sidno it gs =
     gs\<lparr>m_intervals := (m_intervals gs)[sidno - 1 := ivit_list it],
       has_cached_string_length := False, cached_string_length := 0\<rparr>"

definition store_removed :: "nat \<Rightarrow> interval_iterator \<Rightarrow> gtid_set \<Rightarrow> gtid_set" where
  "store_removed sidno it gs =
     gs\<lparr>m_intervals := (m_intervals gs)[sidno - 1 := ivit_list it],
       has_cached_string_length := False, cached_string_length := u64 (-1)\<rparr>"

definition add_gtid :: "nat \<Rightarrow> int \<Rightarrow> gtid_set \<Rightarrow> gtid_set" where
  "add_gtid sidno gno gs =
     store_added sidno (add_gno_interval (ivit_init (ivs_of gs sidno)) gno (gno + 1)) gs"

definition remove_gtid :: "nat \<Rightarrow> int \<Rightarrow> gtid_set \<Rightarrow> gtid_set" where
  "remove_gtid sidno gno gs =
     (if sidno \<le> get_max_sidno gs
      then store_removed sidno (remove_gno_interval (ivit_init (ivs_of gs sidno)) gno (gno + 1)) gs
      else gs)"

definition gs_add_gno_intervals :: "nat \<Rightarrow> interval list \<Rightarrow> gtid_set \<Rightarrow> gtid_set" where
  "gs_add_gno_intervals sidno others gs =
     (if others = [] then gs
      else store_added sidno (add_gno_intervals (ivit_init (ivs_of gs sidno)) others) gs)"

definition gs_remove_gno_intervals :: "nat \<Rightarrow> interval list \<Rightarrow> gtid_set \<Rightarrow> gtid_set" where
  "gs_remove_gno_intervals sidno others gs =
     (if others = [] then gs
      else store_removed sidno (remove_gno_intervals (ivit_init (ivs_of gs sidno)) others) gs)"

definition remove_intervals_for_sidno :: "gtid_set \<Rightarrow> nat \<Rightarrow> gtid_set \<Rightarrow> gtid_set" where
  "remove_intervals_for_sidno other sidno gs =
     gs_remove_gno_intervals sidno (ivs_of other sidno) gs"

section \<open>Union and difference\<close>

text \<open>
  The condition under which two sets number the servers alike, and the loops over the
  SIDNOs of the other set, from the given one to its last.
\<close>

definition same_sid_map :: "gtid_set \<Rightarrow> gtid_set \<Rightarrow> bool" where
  "same_sid_map gs other \<longleftrightarrow>
     sid_map_p other = sid_map_p gs \<or> sid_map_p other = None \<or> sid_map_p gs = None"

fun add_same_loop :: "gtid_set \<Rightarrow> nat list \<Rightarrow> gtid_set \<Rightarrow> gtid_set" where
  "add_same_loop other [] gs = gs"
| "add_same_loop other (sidno # ks) gs =
     add_same_loop other ks (gs_add_gno_intervals sidno (ivs_of other sidno) gs)"

fun add_other_loop ::
    "mem_env \<Rightarrow> gtid_set \<Rightarrow> sid_map \<Rightarrow> nat list \<Rightarrow> gtid_set \<Rightarrow> sid_map
      \<Rightarrow> enum_return_status \<times> gtid_set \<times> sid_map" where
  "add_other_loop e other om [] gs m = (RETURN_STATUS_OK, gs, m)"
| "add_other_loop e other om (other_sidno # ks) gs m =
     (if ivs_of other other_sidno \<noteq> [] then
        let sid = sidno_to_sid om other_sidno;
            (this_sidno, m1) = add_sid e sid m
        in case this_sidno of
             None \<Rightarrow> (RETURN_STATUS_REPORTED_ERROR, gs, m1)
           | Some k \<Rightarrow>
               let (st, gs1) = ensure_sidno e k gs
               in if st \<noteq> RETURN_STATUS_OK then (st, gs1, m1)
                  else add_other_loop e other om ks
                         (gs_add_gno_intervals k (ivs_of other other_sidno) gs1) m1
      else add_other_loop e other om ks gs m)"

definition add_gtid_set ::
    "mem_env \<Rightarrow> gtid_set \<Rightarrow> gtid_set \<Rightarrow> sid_store
      \<Rightarrow> enum_return_status \<times> gtid_set \<times> sid_store" where
  "add_gtid_set e other gs sm =
     (let max_other_sidno = get_max_sidno other in
      if same_sid_map gs other then
        let (st, gs1) = ensure_sidno e max_other_sidno gs
        in if st \<noteq> RETURN_STATUS_OK then (st, gs1, sm)
           else (RETURN_STATUS_OK, add_same_loop other (sidnos max_other_sidno) gs1, sm)
      else
        let p = the (sid_map_p gs);
            (st, gs1, m1) = add_other_loop e other (sm (the (sid_map_p other)))
                              (sidnos max_other_sidno) gs (sm p)
        in (st, gs1, sm(p := m1)))"

fun remove_same_loop :: "gtid_set \<Rightarrow> nat list \<Rightarrow> gtid_set \<Rightarrow> gtid_set" where
  "remove_same_loop other [] gs = gs"
| "remove_same_loop other (sidno # ks) gs =
     remove_same_loop other ks (gs_remove_gno_intervals sidno (ivs_of other sidno) gs)"

text \<open>
  The set removed from may be smaller than its \<open>Sid_map\<close>: a SIDNO of the map beyond its
  array would be read out of bounds there (\<open>None\<close>).
\<close>

fun remove_other_loop ::
    "gtid_set \<Rightarrow> sid_map \<Rightarrow> sid_map \<Rightarrow> nat list \<Rightarrow> gtid_set \<Rightarrow> gtid_set option" where
  "remove_other_loop other om m [] gs = Some gs"
| "remove_other_loop other om m (other_sidno # ks) gs =
     (if ivs_of other other_sidno \<noteq> [] then
        let this_sidno = sid_to_sidno m (sidno_to_sid om other_sidno)
        in if this_sidno = 0 then remove_other_loop other om m ks gs
           else if this_sidno > get_max_sidno gs then None
           else remove_other_loop other om m ks
                  (gs_remove_gno_intervals this_sidno (ivs_of other other_sidno) gs)
      else remove_other_loop other om m ks gs)"

definition remove_gtid_set :: "gtid_set \<Rightarrow> gtid_set \<Rightarrow> sid_store \<Rightarrow> gtid_set option" where
  "remove_gtid_set other gs sm =
     (if same_sid_map gs other then
        let max_sidno = min (get_max_sidno other) (get_max_sidno gs)
        in Some (remove_same_loop other (sidnos max_sidno) gs)
      else remove_other_loop other (sm (the (sid_map_p other))) (sm (the (sid_map_p gs)))
             (sidnos (get_max_sidno other)) gs)"

section \<open>Queries\<close>

definition contains_gtid :: "gtid_set \<Rightarrow> nat \<Rightarrow> int \<Rightarrow> bool" where
  "contains_gtid gs sidno gno =
     (if sidno > get_max_sidno gs then False else contains_gno (ivs_of gs sidno) gno)"

definition get_last_gno :: "gtid_set \<Rightarrow> nat \<Rightarrow> int" where
  "get_last_gno gs sidno =
     (if sidno > get_max_sidno gs then 0 else last_gno (ivs_of gs sidno) 0)"

definition get_gtid_count :: "gtid_set \<Rightarrow> nat \<Rightarrow> int" where
  "get_gtid_count gs sidno = gtid_count (ivs_of gs sidno) 0"

text \<open>\<open>Gtid_iterator::next_sidno\<close> from SIDNO 0: the first SIDNO with an interval, or 0.\<close>

fun next_sidno :: "gtid_set \<Rightarrow> nat list \<Rightarrow> nat" where
  "next_sidno gs [] = 0"
| "next_sidno gs (sidno # ks) =
     (if ivs_of gs sidno \<noteq> [] then sidno else next_sidno gs ks)"

definition is_empty :: "gtid_set \<Rightarrow> bool" where
  "is_empty gs \<longleftrightarrow> next_sidno gs (sidnos (get_max_sidno gs)) = 0"

fun size_loop :: "gtid_set \<Rightarrow> int \<Rightarrow> nat list \<Rightarrow> int \<Rightarrow> bool" where
  "size_loop gs num [] count = False"
| "size_loop gs num (sidno # ks) count =
     (let count = u64 (count + get_gtid_count gs sidno)
      in if count \<ge> num then True else size_loop gs num ks count)"

definition is_size_greater_than_or_equal :: "gtid_set \<Rightarrow> int \<Rightarrow> bool" where
  "is_size_greater_than_or_equal gs num = size_loop gs num (sidnos (get_max_sidno gs)) 0"

definition sidno_equals :: "gtid_set \<Rightarrow> nat \<Rightarrow> gtid_set \<Rightarrow> nat \<Rightarrow> bool" where
  "sidno_equals gs sidno other other_sidno =
     intervals_equal (ivs_of gs sidno) (ivs_of other other_sidno)"

text \<open>
  \<open>equals\<close>. Where the two sets share the numbering, the loops over the SIDNOs that only one
  of the arrays has stop before the last one, as written in the source.
\<close>

definition equals_same :: "gtid_set \<Rightarrow> gtid_set \<Rightarrow> bool" where
  "equals_same gs other =
     (let max_sidno = get_max_sidno gs; other_max_sidno = get_max_sidno other;
          common_max_sidno = min max_sidno other_max_sidno in
      if max_sidno > common_max_sidno
         \<and> (\<exists>sidno \<in> set [common_max_sidno + 1..<max_sidno]. contains_sidno gs sidno) then False
      else if \<not> max_sidno > common_max_sidno \<and> other_max_sidno > common_max_sidno
         \<and> (\<exists>sidno \<in> set [common_max_sidno + 1..<other_max_sidno]. contains_sidno other sidno)
        then False
      else \<forall>sidno \<in> set (sidnos common_max_sidno). sidno_equals gs sidno other sidno)"

text \<open>
  Where they do not, the SIDNOs of both maps are walked in the order of the SIDs, skipping
  those without intervals.
\<close>

definition skip_unused :: "gtid_set \<Rightarrow> nat list \<Rightarrow> nat list" where
  "skip_unused gs ks = dropWhile (\<lambda>sidno. \<not> contains_sidno gs sidno) ks"

lemma length_skip_unused: "length (skip_unused gs ks) \<le> length ks"
  by (simp add: skip_unused_def length_dropWhile_le)

function equals_sorted ::
    "gtid_set \<Rightarrow> sid_map \<Rightarrow> gtid_set \<Rightarrow> sid_map \<Rightarrow> nat list \<Rightarrow> nat list \<Rightarrow> bool" where
  "equals_sorted gs m other om sids other_sids =
     (case (skip_unused gs sids, skip_unused other other_sids) of
        (sidno # sids', other_sidno # other_sids') \<Rightarrow>
          if \<not> uuid_equals (sidno_to_sid m sidno) (sidno_to_sid om other_sidno) then False
          else if \<not> sidno_equals gs sidno other other_sidno then False
          else equals_sorted gs m other om sids' other_sids'
      | ([], []) \<Rightarrow> True
      | _ \<Rightarrow> False)"
  by pat_completeness auto

termination
proof (relation "measure (\<lambda>(gs, m, other, om, sids, other_sids). length sids)")
  fix gs m other om sids other_sids x y sidno sids' other_sidno other_sids'
  assume "(x, y) = (skip_unused gs sids, skip_unused other other_sids)" "x = sidno # sids'"
  then have "sidno # sids' = skip_unused gs sids" by simp
  from arg_cong [OF this, of length] length_skip_unused [of gs sids]
  show "((gs, m, other, om, sids', other_sids'), (gs, m, other, om, sids, other_sids))
      \<in> measure (\<lambda>(gs, m, other, om, sids, other_sids). length sids)"
    by simp
qed simp

definition gs_equals :: "gtid_set \<Rightarrow> gtid_set \<Rightarrow> sid_store \<Rightarrow> bool" where
  "gs_equals gs other sm =
     (if same_sid_map gs other then equals_same gs other
      else let m = sm (the (sid_map_p gs)); om = sm (the (sid_map_p other))
           in equals_sorted gs m other om (sorted_arr m) (sorted_arr om))"

text \<open>
  \<open>is_subset_for_sid\<close>, with \<open>None\<close> where \<open>is_interval_subset\<close> reads through a
  null pointer or an iterator is made for a SIDNO beyond an array.
\<close>

definition is_subset_for_sid :: "gtid_set \<Rightarrow> gtid_set \<Rightarrow> nat \<Rightarrow> nat \<Rightarrow> bool option" where
  "is_subset_for_sid gs super superset_sidno subset_sidno =
     (if subset_sidno = 0 then Some True
      else if superset_sidno = 0 then Some False
      else if subset_sidno > get_max_sidno gs \<or> superset_sidno > get_max_sidno super then None
      else is_interval_subset (ivs_of gs subset_sidno) (ivs_of super superset_sidno))"

text \<open>
  The SIDNO of another set for one of this set: the same where the sets share a map or one
  has none, 0 where the other map lacks the SID.
\<close>

definition translate_sidno :: "gtid_set \<Rightarrow> gtid_set \<Rightarrow> sid_store \<Rightarrow> nat \<Rightarrow> nat" where
  "translate_sidno gs other sm sidno =
     (if same_sid_map gs other then sidno
      else sid_to_sidno (sm (the (sid_map_p other)))
             (sidno_to_sid (sm (the (sid_map_p gs))) sidno))"

fun subset_sidnos :: "gtid_set \<Rightarrow> gtid_set \<Rightarrow> sid_store \<Rightarrow> nat list \<Rightarrow> bool" where
  "subset_sidnos gs super sm [] = True"
| "subset_sidnos gs super sm (sidno # ks) =
     (if ivs_of gs sidno \<noteq> [] then
        let super_sidno = translate_sidno gs super sm sidno in
        if super_sidno = 0 then False
        else if super_sidno > get_max_sidno super then False
        else if is_interval_subset (ivs_of gs sidno) (ivs_of super super_sidno) \<noteq> Some True
          then False
        else subset_sidnos gs super sm ks
      else subset_sidnos gs super sm ks)"

definition is_subset :: "gtid_set \<Rightarrow> gtid_set \<Rightarrow> sid_store \<Rightarrow> bool" where
  "is_subset gs super sm = subset_sidnos gs super sm (sidnos (get_max_sidno gs))"

definition is_subset_not_equals :: "gtid_set \<Rightarrow> gtid_set \<Rightarrow> sid_store \<Rightarrow> bool" where
  "is_subset_not_equals gs super sm \<longleftrightarrow> is_subset gs super sm \<and> \<not> gs_equals gs super sm"

fun intersects_sidnos :: "gtid_set \<Rightarrow> gtid_set \<Rightarrow> sid_store \<Rightarrow> nat list \<Rightarrow> bool" where
  "intersects_sidnos gs other sm [] = False"
| "intersects_sidnos gs other sm (sidno # ks) =
     (if ivs_of gs sidno \<noteq> [] then
        let other_sidno = translate_sidno gs other sm sidno in
        if other_sidno = 0 then intersects_sidnos gs other sm ks
        else if other_sidno > get_max_sidno other then intersects_sidnos gs other sm ks
        else if is_interval_intersection_nonempty (ivs_of gs sidno) (ivs_of other other_sidno)
          then True
        else intersects_sidnos gs other sm ks
      else intersects_sidnos gs other sm ks)"

definition is_intersection_nonempty :: "gtid_set \<Rightarrow> gtid_set \<Rightarrow> sid_store \<Rightarrow> bool" where
  "is_intersection_nonempty gs other sm =
     intersects_sidnos gs other sm (sidnos (get_max_sidno gs))"

text \<open>
  \<open>intersection\<close>: through two local sets that use this set's map. The last component of a
  successful result is the store after the union into \<open>result\<close>; \<open>None\<close> as for
  \<open>remove_gtid_set\<close>.
\<close>

definition intersection ::
    "mem_env \<Rightarrow> gtid_set \<Rightarrow> gtid_set \<Rightarrow> gtid_set \<Rightarrow> sid_store
      \<Rightarrow> (enum_return_status \<times> gtid_set \<times> sid_store) option" where
  "intersection e gs other result sm =
     (let (st1, this_minus_other, sm1) = add_gtid_set e gs (new_gtid_set (sid_map_p gs)) sm in
      if st1 \<noteq> RETURN_STATUS_OK then Some (st1, result, sm1)
      else case remove_gtid_set other this_minus_other sm1 of
        None \<Rightarrow> None
      | Some this_minus_other \<Rightarrow>
          let (st2, inter, sm2) = add_gtid_set e gs (new_gtid_set (sid_map_p gs)) sm1 in
          if st2 \<noteq> RETURN_STATUS_OK then Some (st2, result, sm2)
          else case remove_gtid_set this_minus_other inter sm2 of
            None \<Rightarrow> None
          | Some inter \<Rightarrow> Some (add_gtid_set e inter result sm2))"

end
