(* ===== verification/Gtid_Algebra.thy ===== *)
theory Gtid_Algebra
  imports Gtid_Set
begin

text \<open>
  The set algebra of GTID sets: what the operations of the theory \<open>Gtid_Set\<close> do to the
  set of transactions a set stands for, within one numbering of the servers and across two.
\<close>

section \<open>Meaning and invariant\<close>

definition gs_inv :: "gtid_set \<Rightarrow> bool" where
  "gs_inv gs \<longleftrightarrow> (\<forall>ivs \<in> set (m_intervals gs). ivs_ok 0 ivs)"

text \<open>The transaction numbers of a SIDNO, and of a SID under a map.\<close>

definition gnos_at :: "gtid_set \<Rightarrow> nat \<Rightarrow> int set" where
  "gnos_at gs k = (if 1 \<le> k \<and> k \<le> get_max_sidno gs then gnos (ivs_of gs k) else {})"

definition sid_gnos :: "sid_map \<Rightarrow> gtid_set \<Rightarrow> uuid \<Rightarrow> int set" where
  "sid_gnos m gs u = gnos_at gs (sid_to_sidno m u)"

text \<open>A set is well formed with a map that knows all its SIDNOs.\<close>

definition gs_wf :: "sid_map \<Rightarrow> gtid_set \<Rightarrow> bool" where
  "gs_wf m gs \<longleftrightarrow> gs_inv gs \<and> sid_map_inv m \<and> get_max_sidno gs \<le> map_max_sidno m"

lemma gs_inv_ivs: "gs_inv gs \<Longrightarrow> 1 \<le> k \<Longrightarrow> k \<le> get_max_sidno gs \<Longrightarrow> ivs_ok 0 (ivs_of gs k)"
  by (simp add: gs_inv_def ivs_of_def get_max_sidno_def)

lemma gnos_at_pos: "gs_inv gs \<Longrightarrow> g \<in> gnos_at gs k \<Longrightarrow> 0 < g"
  using gnos_lower [OF gs_inv_ivs] by (auto simp: gnos_at_def split: if_splits)

lemma gnos_at_empty_iff:
  "gs_inv gs \<Longrightarrow> 1 \<le> k \<Longrightarrow> k \<le> get_max_sidno gs \<Longrightarrow> gnos_at gs k = {} \<longleftrightarrow> ivs_of gs k = []"
  using gnos_empty_iff [OF gs_inv_ivs] by (simp add: gnos_at_def)

lemma new_gtid_set_simps [simp]:
  "gs_inv (new_gtid_set p)" "gnos_at (new_gtid_set p) k = {}"
  "get_max_sidno (new_gtid_set p) = 0" "sid_map_p (new_gtid_set p) = p"
  by (auto simp: gs_inv_def gnos_at_def new_gtid_set_def get_max_sidno_def)

section \<open>Storing a list\<close>

lemma store_simps [simp]:
  "get_max_sidno (store_added k it gs) = get_max_sidno gs"
  "get_max_sidno (store_removed k it gs) = get_max_sidno gs"
  "sid_map_p (store_added k it gs) = sid_map_p gs"
  "sid_map_p (store_removed k it gs) = sid_map_p gs"
  by (simp_all add: get_max_sidno_def store_added_def store_removed_def)

lemma store_inv:
  assumes "gs_inv gs" "ivs_ok 0 (ivit_list it)"
  shows "gs_inv (store_added k it gs)" and "gs_inv (store_removed k it gs)"
  using assms set_update_subset_insert [of "m_intervals gs" "k - 1" "ivit_list it"]
  by (auto simp: gs_inv_def store_added_def store_removed_def)

lemma store_gnos:
  assumes "1 \<le> k" "k \<le> get_max_sidno gs"
  shows "gnos_at (store_added k it gs) = (gnos_at gs)(k := gnos (ivit_list it))"
    and "gnos_at (store_removed k it gs) = (gnos_at gs)(k := gnos (ivit_list it))"
  using assms
  by (auto simp: gnos_at_def fun_eq_iff ivs_of_def get_max_sidno_def store_added_def
      store_removed_def nth_list_update)

lemma gs_add_gno_intervals_correct:
  assumes "gs_inv gs" "1 \<le> k" "k \<le> get_max_sidno gs" "ivs_ok 0 os"
  shows "gs_inv (gs_add_gno_intervals k os gs)"
    and "gnos_at (gs_add_gno_intervals k os gs) = (gnos_at gs)(k := gnos_at gs k \<union> gnos os)"
proof -
  have o: "ivs_ok 0 ([] @ ivs_of gs k)" using gs_inv_ivs [OF assms(1-3)] by simp
  note a = add_gno_intervals_correct [OF o assms(4)]
  show "gs_inv (gs_add_gno_intervals k os gs)"
    using a assms(1) by (simp add: gs_add_gno_intervals_def store_inv)
  show "gnos_at (gs_add_gno_intervals k os gs) = (gnos_at gs)(k := gnos_at gs k \<union> gnos os)"
    using a assms(2,3) store_gnos(1) [OF assms(2,3)]
    by (simp add: gs_add_gno_intervals_def) (simp add: gnos_at_def)
qed

lemma gs_remove_gno_intervals_correct:
  assumes "gs_inv gs" "1 \<le> k" "k \<le> get_max_sidno gs" "ivs_ok 0 os"
  shows "gs_inv (gs_remove_gno_intervals k os gs)"
    and "gnos_at (gs_remove_gno_intervals k os gs) = (gnos_at gs)(k := gnos_at gs k - gnos os)"
proof -
  have o: "ivs_ok 0 ([] @ ivs_of gs k)" using gs_inv_ivs [OF assms(1-3)] by simp
  note a = remove_gno_intervals_correct [OF o assms(4)]
  show "gs_inv (gs_remove_gno_intervals k os gs)"
    using a assms(1) by (simp add: gs_remove_gno_intervals_def store_inv)
  show "gnos_at (gs_remove_gno_intervals k os gs) = (gnos_at gs)(k := gnos_at gs k - gnos os)"
    using a assms(2,3) store_gnos(2) [OF assms(2,3)]
    by (simp add: gs_remove_gno_intervals_def) (simp add: gnos_at_def)
qed

lemma gs_intervals_simps [simp]:
  "get_max_sidno (gs_add_gno_intervals k os gs) = get_max_sidno gs"
  "get_max_sidno (gs_remove_gno_intervals k os gs) = get_max_sidno gs"
  "sid_map_p (gs_add_gno_intervals k os gs) = sid_map_p gs"
  "sid_map_p (gs_remove_gno_intervals k os gs) = sid_map_p gs"
  by (simp_all add: gs_add_gno_intervals_def gs_remove_gno_intervals_def)

lemma ensure_sidno_correct:
  assumes "alloc_ok e"
  shows "fst (ensure_sidno e k gs) = RETURN_STATUS_OK"
    and "gs_inv gs \<Longrightarrow> gs_inv (snd (ensure_sidno e k gs))"
    and "gnos_at (snd (ensure_sidno e k gs)) = gnos_at gs"
    and "get_max_sidno (snd (ensure_sidno e k gs)) = max k (get_max_sidno gs)"
    and "sid_map_p (snd (ensure_sidno e k gs)) = sid_map_p gs"
  using assms
  by (auto simp: ensure_sidno_def gs_inv_def gnos_at_def get_max_sidno_def ivs_of_def Let_def
      nth_append fun_eq_iff)

section \<open>Sets that share a numbering\<close>

lemma add_same_loop_correct:
  assumes "gs_inv gs" "gs_inv other" "distinct ks"
    "\<forall>k \<in> set ks. 1 \<le> k \<and> k \<le> get_max_sidno other \<and> k \<le> get_max_sidno gs"
  shows "gs_inv (add_same_loop other ks gs)
    \<and> gnos_at (add_same_loop other ks gs)
        = (\<lambda>k. gnos_at gs k \<union> (if k \<in> set ks then gnos_at other k else {}))
    \<and> get_max_sidno (add_same_loop other ks gs) = get_max_sidno gs
    \<and> sid_map_p (add_same_loop other ks gs) = sid_map_p gs"
  using assms
proof (induction ks arbitrary: gs)
  case (Cons k ks)
  have k: "1 \<le> k" "k \<le> get_max_sidno gs" "k \<le> get_max_sidno other" using Cons.prems(4) by simp_all
  have io: "ivs_ok 0 (ivs_of other k)" by (rule gs_inv_ivs [OF Cons.prems(2) k(1,3)])
  note a = gs_add_gno_intervals_correct [OF Cons.prems(1) k(1,2) io]
  have g: "gnos (ivs_of other k) = gnos_at other k" using k by (simp add: gnos_at_def)
  from Cons.IH [of "gs_add_gno_intervals k (ivs_of other k) gs"] a Cons.prems
  show ?case by (auto simp: fun_eq_iff g)
qed simp

lemma remove_same_loop_correct:
  assumes "gs_inv gs" "gs_inv other" "distinct ks"
    "\<forall>k \<in> set ks. 1 \<le> k \<and> k \<le> get_max_sidno other \<and> k \<le> get_max_sidno gs"
  shows "gs_inv (remove_same_loop other ks gs)
    \<and> gnos_at (remove_same_loop other ks gs)
        = (\<lambda>k. gnos_at gs k - (if k \<in> set ks then gnos_at other k else {}))
    \<and> get_max_sidno (remove_same_loop other ks gs) = get_max_sidno gs
    \<and> sid_map_p (remove_same_loop other ks gs) = sid_map_p gs"
  using assms
proof (induction ks arbitrary: gs)
  case (Cons k ks)
  have k: "1 \<le> k" "k \<le> get_max_sidno gs" "k \<le> get_max_sidno other" using Cons.prems(4) by simp_all
  have io: "ivs_ok 0 (ivs_of other k)" by (rule gs_inv_ivs [OF Cons.prems(2) k(1,3)])
  note a = gs_remove_gno_intervals_correct [OF Cons.prems(1) k(1,2) io]
  have g: "gnos (ivs_of other k) = gnos_at other k" using k by (simp add: gnos_at_def)
  from Cons.IH [of "gs_remove_gno_intervals k (ivs_of other k) gs"] a Cons.prems
  show ?case by (auto simp: fun_eq_iff g)
qed simp

lemma add_gtid_set_same:
  assumes "gs_inv gs" "gs_inv other" "same_sid_map gs other" "alloc_ok e"
  shows "\<exists>gs'. add_gtid_set e other gs sm = (RETURN_STATUS_OK, gs', sm) \<and> gs_inv gs'
    \<and> gnos_at gs' = (\<lambda>k. gnos_at gs k \<union> gnos_at other k)
    \<and> get_max_sidno gs' = max (get_max_sidno other) (get_max_sidno gs)
    \<and> sid_map_p gs' = sid_map_p gs"
proof -
  let ?n = "get_max_sidno other"
  note E = ensure_sidno_correct [OF assms(4), where k = ?n and gs = gs]
  obtain gs1 where gs1: "ensure_sidno e ?n gs = (RETURN_STATUS_OK, gs1)"
    using E(1) by (cases "ensure_sidno e ?n gs") auto
  have "gs_inv gs1" "\<forall>k \<in> set (sidnos ?n). 1 \<le> k \<and> k \<le> ?n \<and> k \<le> get_max_sidno gs1"
    using E assms(1) gs1 by auto
  from add_same_loop_correct [OF this(1) assms(2) _ this(2)] show ?thesis
    using gs1 E assms(3)
    by (simp add: add_gtid_set_def Let_def) (simp add: gnos_at_def fun_eq_iff)
qed

lemma remove_gtid_set_same:
  assumes "gs_inv gs" "gs_inv other" "same_sid_map gs other"
  shows "\<exists>gs'. remove_gtid_set other gs sm = Some gs' \<and> gs_inv gs'
    \<and> gnos_at gs' = (\<lambda>k. gnos_at gs k - gnos_at other k)
    \<and> get_max_sidno gs' = get_max_sidno gs \<and> sid_map_p gs' = sid_map_p gs"
proof -
  let ?n = "min (get_max_sidno other) (get_max_sidno gs)"
  have "\<forall>k \<in> set (sidnos ?n). 1 \<le> k \<and> k \<le> get_max_sidno other \<and> k \<le> get_max_sidno gs" by auto
  from remove_same_loop_correct [OF assms(1,2) _ this] show ?thesis
    using assms(3)
    by (simp add: remove_gtid_set_def Let_def) (simp add: gnos_at_def fun_eq_iff)
qed

section \<open>Sets with different numberings\<close>

lemma sid_gnos_extend:
  assumes "sid_map_inv m" "sid_map_inv m'" "sid_arr m' = sid_arr m @ us"
    "get_max_sidno gs \<le> map_max_sidno m"
  shows "sid_gnos m' gs = sid_gnos m gs"
proof
  fix u
  show "sid_gnos m' gs u = sid_gnos m gs u"
  proof (cases "sid_hash m u")
    case (Some n)
    then have "sid_hash m' u = Some n"
      using sid_map_inv_hash [OF assms(1), of u n] sid_map_inv_hash [OF assms(2), of u n] assms(3)
      by (auto simp: nth_append)
    with Some show ?thesis by (simp add: sid_gnos_def sid_to_sidno_def)
  next
    case None
    have "n > map_max_sidno m" if "sid_hash m' u = Some n" for n
      using that None sid_map_inv_hash [OF assms(1), of u n] sid_map_inv_hash [OF assms(2), of u n]
        assms(3) by (auto simp: nth_append map_max_sidno_def not_le split: if_splits)
    with None assms(4) show ?thesis
      by (cases "sid_hash m' u") (auto simp: sid_gnos_def sid_to_sidno_def gnos_at_def)
  qed
qed

lemma sid_to_sidno_inv:
  assumes "sid_map_inv m"
  shows "sid_to_sidno m u \<le> map_max_sidno m"
    and "1 \<le> k \<Longrightarrow> k \<le> map_max_sidno m \<Longrightarrow> sid_to_sidno m u = k \<longleftrightarrow> sidno_to_sid m k = u"
    and "1 \<le> k \<Longrightarrow> k \<le> map_max_sidno m \<Longrightarrow> is_uuid (sidno_to_sid m k)"
proof -
  show "sid_to_sidno m u \<le> map_max_sidno m"
    using sid_map_inv_hash [OF assms, of u]
    by (auto simp: sid_to_sidno_def map_max_sidno_def split: option.splits)
  show "1 \<le> k \<Longrightarrow> k \<le> map_max_sidno m \<Longrightarrow> sid_to_sidno m u = k \<longleftrightarrow> sidno_to_sid m k = u"
    using sid_map_inv_hash [OF assms, of u k]
    by (auto simp: sid_to_sidno_def map_max_sidno_def sidno_to_sid_def split: option.splits)
  show "1 \<le> k \<Longrightarrow> k \<le> map_max_sidno m \<Longrightarrow> is_uuid (sidno_to_sid m k)"
    using sid_map_inv_uuid [OF assms, of "k - 1"] by (simp add: map_max_sidno_def sidno_to_sid_def)
qed

lemma sid_to_sidno_to_sid:
  "sid_map_inv m \<Longrightarrow> 1 \<le> k \<Longrightarrow> k \<le> map_max_sidno m \<Longrightarrow> sid_to_sidno m (sidno_to_sid m k) = k"
  using sid_to_sidno_inv(2) [of m k "sidno_to_sid m k"] by simp

text \<open>One step of the loop: the numbers of one SID of the other set are added.\<close>

lemma add_other_step:
  assumes "gs_wf m gs" "is_uuid sid" "alloc_ok e" "resize_ok e" "ivs_ok 0 os"
  shows "\<exists>n m1 gs1. add_sid e sid m = (Some n, m1) \<and> ensure_sidno e n gs = (RETURN_STATUS_OK, gs1)
    \<and> gs_wf m1 (gs_add_gno_intervals n os gs1) \<and> (\<exists>us. sid_arr m1 = sid_arr m @ us)
    \<and> sid_map_p gs1 = sid_map_p gs
    \<and> sid_gnos m1 (gs_add_gno_intervals n os gs1)
        = (sid_gnos m gs)(sid := sid_gnos m gs sid \<union> gnos os)"
proof -
  have gi: "gs_inv gs" and mi: "sid_map_inv m" and mx: "get_max_sidno gs \<le> map_max_sidno m"
    using assms(1) by (simp_all add: gs_wf_def)
  note A = add_sid_ok [OF mi assms(2-4)]
  obtain n m1 where am: "add_sid e sid m = (Some n, m1)" and h: "sid_hash m1 sid = Some n"
    using A(2) by (cases "add_sid e sid m") auto
  have m1: "sid_map_inv m1" using A(1) am by simp
  obtain us where us: "sid_arr m1 = sid_arr m @ us" using A(3) am by auto
  have n: "1 \<le> n" "n \<le> map_max_sidno m1" "sidno_to_sid m1 n = sid"
    using sid_map_inv_hash [OF m1, of sid n] h by (auto simp: map_max_sidno_def sidno_to_sid_def)
  note E = ensure_sidno_correct [OF assms(3), where k = n and gs = gs]
  obtain gs1 where gs1: "ensure_sidno e n gs = (RETURN_STATUS_OK, gs1)"
    using E(1) by (cases "ensure_sidno e n gs") auto
  have g1: "gs_inv gs1" "n \<le> get_max_sidno gs1" using E gi gs1 by auto
  note B = gs_add_gno_intervals_correct [OF g1(1) n(1) g1(2) assms(5)]
  have "get_max_sidno gs1 \<le> map_max_sidno m1" using E(4) gs1 n(2) mx us by (simp add: map_max_sidno_def)
  then have wf: "gs_wf m1 (gs_add_gno_intervals n os gs1)" using B(1) m1 by (simp add: gs_wf_def)
  have sn: "sid_to_sidno m1 sid = n" using h by (simp add: sid_to_sidno_def)
  have eq: "sid_to_sidno m1 u = n \<longleftrightarrow> u = sid" for u
    using sid_to_sidno_inv(2) [OF m1 n(1,2), of u] n(3) by auto
  have ga: "gnos_at (gs_add_gno_intervals n os gs1) = (gnos_at gs)(n := gnos_at gs n \<union> gnos os)"
    using B(2) E(3) gs1 by simp
  have "sid_gnos m1 (gs_add_gno_intervals n os gs1)
      = (sid_gnos m1 gs)(sid := sid_gnos m1 gs sid \<union> gnos os)"
    by (rule ext) (simp add: sid_gnos_def ga eq sn)
  then show ?thesis
    using am gs1 wf us E(5) sid_gnos_extend [OF mi m1 us mx] by auto
qed

lemma add_other_loop_correct:
  assumes "gs_wf m gs" "gs_inv other" "sid_map_inv om" "alloc_ok e" "resize_ok e"
    "\<forall>k \<in> set ks. 1 \<le> k \<and> k \<le> get_max_sidno other \<and> k \<le> map_max_sidno om"
  shows "\<exists>gs' m'. add_other_loop e other om ks gs m = (RETURN_STATUS_OK, gs', m') \<and> gs_wf m' gs'
    \<and> (\<exists>us. sid_arr m' = sid_arr m @ us) \<and> sid_map_p gs' = sid_map_p gs
    \<and> (\<forall>u. sid_gnos m' gs' u
            = sid_gnos m gs u \<union> (\<Union>k \<in> {k \<in> set ks. sidno_to_sid om k = u}. gnos_at other k))"
  using assms
proof (induction ks arbitrary: gs m)
  case (Cons k ks)
  have k: "1 \<le> k" "k \<le> get_max_sidno other" "k \<le> map_max_sidno om" using Cons.prems(6) by auto
  have g: "gnos_at other k = gnos (ivs_of other k)" using k by (simp add: gnos_at_def)
  have io: "ivs_ok 0 (ivs_of other k)" by (rule gs_inv_ivs [OF Cons.prems(2) k(1,2)])
  have ks: "\<forall>k \<in> set ks. 1 \<le> k \<and> k \<le> get_max_sidno other \<and> k \<le> map_max_sidno om"
    using Cons.prems(6) by simp
  have split: "(\<Union>k \<in> {k' \<in> set (k # ks). sidno_to_sid om k' = u}. gnos_at other k)
    = (if sidno_to_sid om k = u then gnos_at other k else {})
      \<union> (\<Union>k \<in> {k \<in> set ks. sidno_to_sid om k = u}. gnos_at other k)" for u by auto
  show ?case
  proof (cases "ivs_of other k = []")
    case True
    with Cons.IH [OF Cons.prems(1-5) ks] g show ?thesis unfolding split by simp
  next
    case False
    have "is_uuid (sidno_to_sid om k)" by (rule sid_to_sidno_inv(3) [OF Cons.prems(3) k(1,3)])
    from add_other_step [OF Cons.prems(1) this Cons.prems(4,5) io] obtain n m1 gs1 us where
      s: "add_sid e (sidno_to_sid om k) m = (Some n, m1)" "ensure_sidno e n gs = (RETURN_STATUS_OK, gs1)"
      "gs_wf m1 (gs_add_gno_intervals n (ivs_of other k) gs1)" "sid_arr m1 = sid_arr m @ us"
      "sid_map_p gs1 = sid_map_p gs"
      "sid_gnos m1 (gs_add_gno_intervals n (ivs_of other k) gs1) = (sid_gnos m gs)
         (sidno_to_sid om k := sid_gnos m gs (sidno_to_sid om k) \<union> gnos (ivs_of other k))"
      by blast
    from Cons.IH [OF s(3) Cons.prems(2-5) ks] obtain gs' m' us' where
      t: "add_other_loop e other om ks (gs_add_gno_intervals n (ivs_of other k) gs1) m1
          = (RETURN_STATUS_OK, gs', m')" "gs_wf m' gs'" "sid_arr m' = sid_arr m1 @ us'"
      "sid_map_p gs' = sid_map_p gs"
      "\<forall>u. sid_gnos m' gs' u = sid_gnos m1 (gs_add_gno_intervals n (ivs_of other k) gs1) u
         \<union> (\<Union>k \<in> {k \<in> set ks. sidno_to_sid om k = u}. gnos_at other k)"
      using s(5) by auto
    have "add_other_loop e other om (k # ks) gs m = (RETURN_STATUS_OK, gs', m')"
      using False s(1,2) t(1) by simp
    moreover have "\<forall>u. sid_gnos m' gs' u = sid_gnos m gs u
        \<union> (\<Union>k \<in> {k' \<in> set (k # ks). sidno_to_sid om k' = u}. gnos_at other k)"
      using t(5) s(6) g unfolding split by auto
    ultimately show ?thesis using t(2,3,4) s(4) by auto
  qed
qed (auto simp: gs_wf_def)

lemma sid_gnos_union:
  assumes "sid_map_inv om" "get_max_sidno other \<le> map_max_sidno om"
  shows "(\<Union>k \<in> {k \<in> set (sidnos (get_max_sidno other)). sidno_to_sid om k = u}. gnos_at other k)
    = sid_gnos om other u"
proof -
  have "(\<exists>k. 1 \<le> k \<and> k \<le> get_max_sidno other \<and> sidno_to_sid om k = u \<and> x \<in> gnos_at other k)
      \<longleftrightarrow> x \<in> gnos_at other (sid_to_sidno om u)" for x
    using sid_to_sidno_inv(2) [OF assms(1), of _ u] assms(2)
    by (metis (mono_tags, lifting) empty_iff gnos_at_def le_trans)
  then show ?thesis by (auto simp: sid_gnos_def)
qed

lemma remove_other_loop_correct:
  assumes "gs_inv gs" "gs_inv other" "sid_map_inv om" "sid_map_inv m"
    "\<forall>k \<in> set ks. ivs_of other k \<noteq> [] \<longrightarrow> sid_to_sidno m (sidno_to_sid om k) \<le> get_max_sidno gs"
    "\<forall>k \<in> set ks. 1 \<le> k \<and> k \<le> get_max_sidno other \<and> k \<le> map_max_sidno om"
  shows "\<exists>gs'. remove_other_loop other om m ks gs = Some gs' \<and> gs_inv gs'
    \<and> get_max_sidno gs' = get_max_sidno gs \<and> sid_map_p gs' = sid_map_p gs
    \<and> (\<forall>u. sid_gnos m gs' u
            = sid_gnos m gs u - (\<Union>k \<in> {k \<in> set ks. sidno_to_sid om k = u}. gnos_at other k))"
  using assms
proof (induction ks arbitrary: gs)
  case (Cons k ks)
  have k: "1 \<le> k" "k \<le> get_max_sidno other" "k \<le> map_max_sidno om" using Cons.prems(6) by auto
  have g: "gnos_at other k = gnos (ivs_of other k)" using k by (simp add: gnos_at_def)
  have io: "ivs_ok 0 (ivs_of other k)" by (rule gs_inv_ivs [OF Cons.prems(2) k(1,2)])
  have ks: "\<forall>k \<in> set ks. 1 \<le> k \<and> k \<le> get_max_sidno other \<and> k \<le> map_max_sidno om"
    using Cons.prems(6) by simp
  let ?u = "sidno_to_sid om k"
  let ?n = "sid_to_sidno m ?u"
  let ?rest = "\<lambda>u. \<Union>k \<in> {k \<in> set ks. sidno_to_sid om k = u}. gnos_at other k"
  have split: "(\<Union>k \<in> {k' \<in> set (k # ks). sidno_to_sid om k' = u}. gnos_at other k)
    = (if ?u = u then gnos_at other k else {}) \<union> ?rest u" for u by auto
  show ?case
  proof (cases "ivs_of other k = [] \<or> ?n = 0")
    case True
    have "sid_gnos m gs u - (if ?u = u then gnos_at other k else {}) = sid_gnos m gs u" for u
      using True g by (auto simp: sid_gnos_def gnos_at_def)
    then have "sid_gnos m gs u - ((if ?u = u then gnos_at other k else {}) \<union> ?rest u)
        = sid_gnos m gs u - ?rest u" for u by blast
    moreover have "remove_other_loop other om m (k # ks) gs = remove_other_loop other om m ks gs"
      using True by auto
    moreover have "\<forall>k \<in> set ks. ivs_of other k \<noteq> [] \<longrightarrow> sid_to_sidno m (sidno_to_sid om k) \<le> get_max_sidno gs"
      using Cons.prems(5) by simp
    ultimately show ?thesis using Cons.IH [OF Cons.prems(1-4) _ ks] unfolding split by simp
  next
    case False
    then have n: "1 \<le> ?n" "?n \<le> get_max_sidno gs" "?n \<le> map_max_sidno m"
      using sid_to_sidno_inv(1) [OF Cons.prems(4), of ?u] Cons.prems(5) by auto
    note R = gs_remove_gno_intervals_correct [OF Cons.prems(1) n(1,2) io]
    have eq: "sid_to_sidno m u = ?n \<longleftrightarrow> ?u = u" for u
      using sid_to_sidno_inv(2) [OF Cons.prems(4) n(1,3), of u]
        sid_to_sidno_inv(2) [OF Cons.prems(4) n(1,3), of ?u] by simp
    have sg: "sid_gnos m (gs_remove_gno_intervals ?n (ivs_of other k) gs) u
        = sid_gnos m gs u - (if ?u = u then gnos_at other k else {})" for u
      using R(2) eq [of u] g by (auto simp: sid_gnos_def)
    have mx: "\<forall>k' \<in> set ks. ivs_of other k' \<noteq> [] \<longrightarrow>
        sid_to_sidno m (sidno_to_sid om k') \<le> get_max_sidno (gs_remove_gno_intervals ?n (ivs_of other k) gs)"
      using Cons.prems(5) by simp
    obtain gs' where
      t: "remove_other_loop other om m ks (gs_remove_gno_intervals ?n (ivs_of other k) gs) = Some gs'"
      "gs_inv gs'" "get_max_sidno gs' = get_max_sidno gs" "sid_map_p gs' = sid_map_p gs"
      and t5: "\<And>u. sid_gnos m gs' u
          = sid_gnos m (gs_remove_gno_intervals ?n (ivs_of other k) gs) u - ?rest u"
      using Cons.IH [OF R(1) Cons.prems(2-4) mx ks] unfolding gs_intervals_simps by blast
    have "remove_other_loop other om m (k # ks) gs = Some gs'" using False n(2) t(1) by simp
    moreover have "(A - B) - C = A - (B \<union> C)" for A B C :: "int set" by auto
    ultimately show ?thesis using t t5 unfolding split sg by simp
  qed
qed simp

section \<open>Union and difference\<close>

lemma add_gtid_set_sound:
  assumes "gs_wf (sm p) gs" "gs_wf (sm q) other" "sid_map_p gs = Some p" "sid_map_p other = Some q"
    "alloc_ok e" "resize_ok e"
  shows "\<exists>gs' sm'. add_gtid_set e other gs sm = (RETURN_STATUS_OK, gs', sm')
    \<and> gs_wf (sm' p) gs' \<and> sid_map_p gs' = Some p
    \<and> (\<forall>u. sid_gnos (sm' p) gs' u = sid_gnos (sm p) gs u \<union> sid_gnos (sm q) other u)
    \<and> (\<exists>us. sid_arr (sm' p) = sid_arr (sm p) @ us) \<and> (\<forall>r. r \<noteq> p \<longrightarrow> sm' r = sm r)"
proof (cases "p = q")
  case True
  then have "same_sid_map gs other" using assms by (simp add: same_sid_map_def)
  with add_gtid_set_same [of gs other e sm] assms True show ?thesis
    by (auto simp: gs_wf_def sid_gnos_def)
next
  case False
  then have d: "\<not> same_sid_map gs other" using assms by (simp add: same_sid_map_def)
  have o: "gs_inv other" "sid_map_inv (sm q)" "get_max_sidno other \<le> map_max_sidno (sm q)"
    using assms(2) by (simp_all add: gs_wf_def)
  have "\<forall>k \<in> set (sidnos (get_max_sidno other)).
      1 \<le> k \<and> k \<le> get_max_sidno other \<and> k \<le> map_max_sidno (sm q)" using o(3) by auto
  from add_other_loop_correct [OF assms(1) o(1,2) assms(5,6) this] show ?thesis
    unfolding sid_gnos_union [OF o(2,3)] using d assms(3,4)
    by (auto simp: add_gtid_set_def Let_def)
qed

text \<open>
  Across two maps, \<open>remove_gtid_set\<close> indexes the array of the set with the SIDNO its map has for a SID
  of the other set. The array may be shorter than the map.
\<close>

definition beyond_array :: "sid_store \<Rightarrow> gtid_set \<Rightarrow> gtid_set \<Rightarrow> bool" where
  "beyond_array sm gs other \<longleftrightarrow>
     \<not> same_sid_map gs other
     \<and> (\<exists>k \<in> set (sidnos (get_max_sidno other)). ivs_of other k \<noteq> []
          \<and> get_max_sidno gs < sid_to_sidno (sm (the (sid_map_p gs))) (sidno_to_sid (sm (the (sid_map_p other))) k))"

lemma remove_other_loop_None:
  "remove_other_loop other om m ks gs = None \<longleftrightarrow>
     (\<exists>k \<in> set ks. ivs_of other k \<noteq> [] \<and> get_max_sidno gs < sid_to_sidno m (sidno_to_sid om k))"
  by (induction ks arbitrary: gs) (auto simp: Let_def)

lemma remove_gtid_set_None: "remove_gtid_set other gs sm = None \<longleftrightarrow> beyond_array sm gs other"
  by (auto simp: remove_gtid_set_def beyond_array_def remove_other_loop_None)

lemma full_array_not_beyond:
  assumes "gs_wf (sm p) gs" "sid_map_p gs = Some p" "sid_map_p other = Some q" "p = q \<or> get_max_sidno gs = map_max_sidno (sm p)"
  shows "\<not> beyond_array sm gs other"
  using assms sid_to_sidno_inv(1) [of "sm p"]
  by (auto simp: beyond_array_def same_sid_map_def gs_wf_def not_less)

lemma remove_gtid_set_sound:
  assumes "gs_wf (sm p) gs" "gs_wf (sm q) other" "sid_map_p gs = Some p" "sid_map_p other = Some q"
    "\<not> beyond_array sm gs other"
  shows "\<exists>gs'. remove_gtid_set other gs sm = Some gs' \<and> gs_wf (sm p) gs' \<and> sid_map_p gs' = Some p
    \<and> (\<forall>u. sid_gnos (sm p) gs' u = sid_gnos (sm p) gs u - sid_gnos (sm q) other u)"
proof (cases "p = q")
  case True
  then have "same_sid_map gs other" using assms by (simp add: same_sid_map_def)
  with remove_gtid_set_same [of gs other sm] assms True show ?thesis
    by (auto simp: gs_wf_def sid_gnos_def)
next
  case False
  then have d: "\<not> same_sid_map gs other" using assms by (simp add: same_sid_map_def)
  have o: "gs_inv other" "sid_map_inv (sm q)" "get_max_sidno other \<le> map_max_sidno (sm q)"
    and g: "gs_inv gs" "sid_map_inv (sm p)" "get_max_sidno gs \<le> map_max_sidno (sm p)"
    using assms False by (simp_all add: gs_wf_def)
  have b: "\<forall>k \<in> set (sidnos (get_max_sidno other)). ivs_of other k \<noteq> [] \<longrightarrow>
      sid_to_sidno (sm p) (sidno_to_sid (sm q) k) \<le> get_max_sidno gs"
    using assms(3-5) d unfolding beyond_array_def by (auto simp: not_less)
  have "\<forall>k \<in> set (sidnos (get_max_sidno other)).
      1 \<le> k \<and> k \<le> get_max_sidno other \<and> k \<le> map_max_sidno (sm q)" using o(3) by auto
  from remove_other_loop_correct [OF g(1) o(1,2) g(2) b this] show ?thesis
    unfolding sid_gnos_union [OF o(2,3)] using d assms(3,4) g
    by (auto simp: remove_gtid_set_def gs_wf_def)
qed

text \<open>Two sets of one server each, with separate maps, as a concrete instance.\<close>

definition sample_env :: mem_env where
  "sample_env = \<lparr>alloc_ok = True, resize_ok = True, pushes_done = 0\<rparr>"

definition sample_map :: sid_map where
  "sample_map = snd (add_sid sample_env uuid_clear new_sid_map)"

definition sample_set :: "nat \<Rightarrow> int \<Rightarrow> int \<Rightarrow> gtid_set" where
  "sample_set p s e = (new_gtid_set (Some p))\<lparr>m_intervals := [[mk_interval s e]]\<rparr>"

lemma sample_map_eq:
  "sample_map = \<lparr>sid_arr = [uuid_clear], sid_hash = [uuid_clear \<mapsto> 1], sorted_arr = [1]\<rparr>"
  by (simp add: sample_map_def sample_env_def add_sid_def add_node_def new_sid_map_def
      map_max_sidno_def)

lemma sample_map_inv: "sid_map_inv sample_map"
  unfolding sample_map_def
  by (rule add_sid_ok(1))
    (simp_all add: sid_map_inv_new is_uuid_def uuid_clear_def BYTE_LENGTH_def is_bytes_def
      sample_env_def)

lemma sample_wf: "0 < s \<Longrightarrow> s < e \<Longrightarrow> gs_wf sample_map (sample_set p s e)"
  using sample_map_inv
  by (simp add: gs_wf_def gs_inv_def sample_set_def get_max_sidno_def map_max_sidno_def
      sample_map_eq)

lemma sample_simps:
  "sid_map_p (sample_set p s e) = Some p" "get_max_sidno (sample_set p s e) = 1"
  "map_max_sidno sample_map = 1" "alloc_ok sample_env" "resize_ok sample_env"
  "sid_gnos sample_map (sample_set p s e) uuid_clear = {s..<e}"
  by (simp_all add: sample_set_def new_gtid_set_def get_max_sidno_def map_max_sidno_def
      sample_map_eq sample_env_def sid_gnos_def sid_to_sidno_def gnos_at_def ivs_of_def)

section \<open>Union and difference as seen through lookups\<close>

text \<open>A set has a transaction of a server when the server's SIDNO has its number.\<close>

definition has_gtid :: "sid_map \<Rightarrow> gtid_set \<Rightarrow> uuid \<Rightarrow> int \<Rightarrow> bool" where
  "has_gtid m gs u g \<longleftrightarrow> sid_to_sidno m u \<noteq> 0 \<and> contains_gtid gs (sid_to_sidno m u) g"

lemma contains_gtid_iff:
  "gs_inv gs \<Longrightarrow> 1 \<le> k \<Longrightarrow> contains_gtid gs k g \<longleftrightarrow> g \<in> gnos_at gs k"
  using contains_gno_iff [OF gs_inv_ivs [of gs k]] by (auto simp: contains_gtid_def gnos_at_def)

lemma has_gtid_iff: "gs_inv gs \<Longrightarrow> has_gtid m gs u g \<longleftrightarrow> g \<in> sid_gnos m gs u"
  using contains_gtid_iff [of gs "sid_to_sidno m u" g]
  by (cases "sid_to_sidno m u") (auto simp: has_gtid_def sid_gnos_def gnos_at_def)

text \<open>C14. \<open>add_gtid_set\<close> is set union: afterwards exactly the transactions of either set
  are found in the set, whether or not the two sets share a map. The set stays well formed,
  new SIDs are appended to its map, and no other map changes.\<close>

theorem add_gtid_set_union:
  assumes "gs_wf (sm p) gs" "gs_wf (sm q) other" "sid_map_p gs = Some p" "sid_map_p other = Some q"
    "alloc_ok e" "resize_ok e"
  shows "\<exists>gs' sm'. add_gtid_set e other gs sm = (RETURN_STATUS_OK, gs', sm')
    \<and> gs_wf (sm' p) gs' \<and> sid_map_p gs' = Some p
    \<and> (\<forall>u g. has_gtid (sm' p) gs' u g \<longleftrightarrow> has_gtid (sm p) gs u g \<or> has_gtid (sm q) other u g)
    \<and> (\<exists>us. sid_arr (sm' p) = sid_arr (sm p) @ us) \<and> (\<forall>r. r \<noteq> p \<longrightarrow> sm' r = sm r)"
  using add_gtid_set_sound [OF assms] assms(1,2) by (force simp: has_gtid_iff gs_wf_def)

theorem add_gtid_set_union_witness:
  "\<exists>gs' sm'. add_gtid_set sample_env (sample_set 1 4 6) (sample_set 0 1 3) (\<lambda>_. sample_map)
       = (RETURN_STATUS_OK, gs', sm')
     \<and> has_gtid (sm' 0) gs' uuid_clear 5 \<and> has_gtid (sm' 0) gs' uuid_clear 1
     \<and> \<not> has_gtid (sm' 0) gs' uuid_clear 3"
  using add_gtid_set_union [of "\<lambda>_. sample_map" 0 "sample_set 0 1 3" 1 "sample_set 1 4 6" sample_env]
    sample_wf [of 1 3 0] sample_wf [of 4 6 1]
    has_gtid_iff [of "sample_set 0 1 3" sample_map uuid_clear]
    has_gtid_iff [of "sample_set 1 4 6" sample_map uuid_clear]
  by (auto simp: sample_simps gs_wf_def)

text \<open>C15. \<open>remove_gtid_set\<close> is set difference. Across two maps this needs the array of the
  set to be as long as its map: the code does not check the bound there.\<close>

theorem remove_gtid_set_difference:
  assumes "gs_wf (sm p) gs" "gs_wf (sm q) other" "sid_map_p gs = Some p" "sid_map_p other = Some q"
    "p = q \<or> get_max_sidno gs = map_max_sidno (sm p)"
  shows "\<exists>gs'. remove_gtid_set other gs sm = Some gs' \<and> gs_wf (sm p) gs' \<and> sid_map_p gs' = Some p
    \<and> (\<forall>u g. has_gtid (sm p) gs' u g \<longleftrightarrow> has_gtid (sm p) gs u g \<and> \<not> has_gtid (sm q) other u g)"
  using remove_gtid_set_sound [OF assms(1-4) full_array_not_beyond [where sm = sm, OF assms(1,3-5)]] assms(1,2)
  by (force simp: has_gtid_iff gs_wf_def)

theorem remove_gtid_set_difference_witness:
  "\<exists>gs'. remove_gtid_set (sample_set 1 2 6) (sample_set 0 1 9) (\<lambda>_. sample_map) = Some gs'
     \<and> has_gtid sample_map gs' uuid_clear 7 \<and> \<not> has_gtid sample_map gs' uuid_clear 3"
  using remove_gtid_set_difference
      [of "\<lambda>_. sample_map" 0 "sample_set 0 1 9" 1 "sample_set 1 2 6"]
    sample_wf [of 1 9 0] sample_wf [of 2 6 1]
    has_gtid_iff [of "sample_set 0 1 9" sample_map uuid_clear]
    has_gtid_iff [of "sample_set 1 2 6" sample_map uuid_clear]
  by (auto simp: sample_simps gs_wf_def)

section \<open>Subset, intersection and equality\<close>

lemma translate_gnos:
  assumes "gs_wf (sm p) gs" "gs_wf (sm q) other" "sid_map_p gs = Some p" "sid_map_p other = Some q"
    "1 \<le> k" "k \<le> get_max_sidno gs"
  shows "gnos_at other (translate_sidno gs other sm k) = sid_gnos (sm q) other (sidno_to_sid (sm p) k)"
    and "gnos_at gs k = sid_gnos (sm p) gs (sidno_to_sid (sm p) k)"
proof -
  have m: "sid_map_inv (sm p)" "k \<le> map_max_sidno (sm p)" using assms by (auto simp: gs_wf_def)
  have k: "sid_to_sidno (sm p) (sidno_to_sid (sm p) k) = k"
    using sid_to_sidno_inv(2) [OF m(1) assms(5) m(2)] by simp
  then show "gnos_at gs k = sid_gnos (sm p) gs (sidno_to_sid (sm p) k)" by (simp add: sid_gnos_def)
  show "gnos_at other (translate_sidno gs other sm k) = sid_gnos (sm q) other (sidno_to_sid (sm p) k)"
    using k assms(3,4) by (auto simp: translate_sidno_def same_sid_map_def sid_gnos_def)
qed

lemma gnos_at_outside: "k = 0 \<or> get_max_sidno gs < k \<Longrightarrow> gnos_at gs k = {}"
  by (auto simp: gnos_at_def)

lemma subset_sidnos_iff:
  assumes "gs_inv gs" "gs_inv super" "\<forall>k \<in> set ks. 1 \<le> k \<and> k \<le> get_max_sidno gs"
  shows "subset_sidnos gs super sm ks
    \<longleftrightarrow> (\<forall>k \<in> set ks. gnos_at gs k \<subseteq> gnos_at super (translate_sidno gs super sm k))"
  using assms(3)
proof (induction ks)
  case (Cons k ks)
  let ?t = "translate_sidno gs super sm k"
  have k: "1 \<le> k" "k \<le> get_max_sidno gs" using Cons.prems by simp_all
  have ik: "ivs_ok 0 (ivs_of gs k)" by (rule gs_inv_ivs [OF assms(1) k])
  have gk: "gnos_at gs k = gnos (ivs_of gs k)" using k by (simp add: gnos_at_def)
  have "\<forall>k \<in> set ks. 1 \<le> k \<and> k \<le> get_max_sidno gs" using Cons.prems by simp
  note IH = Cons.IH [OF this]
  consider (none) "ivs_of gs k = []" | (out) "ivs_of gs k \<noteq> []" "?t = 0 \<or> get_max_sidno super < ?t"
    | (cmp) "ivs_of gs k \<noteq> []" "1 \<le> ?t" "?t \<le> get_max_sidno super" by linarith
  then show ?case
  proof cases
    case none
    then show ?thesis using IH gk by simp
  next
    case out
    then show ?thesis using gk gnos_empty_iff [OF ik] gnos_at_outside [OF out(2)] by auto
  next
    case cmp
    have iss: "ivs_ok 0 (ivs_of super ?t)" by (rule gs_inv_ivs [OF assms(2) cmp(2,3)])
    have gt: "gnos_at super ?t = gnos (ivs_of super ?t)" using cmp by (simp add: gnos_at_def)
    have "is_interval_subset (ivs_of gs k) (ivs_of super ?t) = Some True
        \<longleftrightarrow> gnos_at gs k \<subseteq> gnos_at super ?t"
      using cmp(1) subset_loop_iff [OF ik iss] gnos_empty_iff [OF ik] gk gt
      by (auto simp: is_interval_subset_def)
    then show ?thesis using IH cmp by (auto simp: Let_def)
  qed
qed simp

lemma intersects_sidnos_iff:
  assumes "gs_inv gs" "gs_inv other" "\<forall>k \<in> set ks. 1 \<le> k \<and> k \<le> get_max_sidno gs"
  shows "intersects_sidnos gs other sm ks
    \<longleftrightarrow> (\<exists>k \<in> set ks. gnos_at gs k \<inter> gnos_at other (translate_sidno gs other sm k) \<noteq> {})"
  using assms(3)
proof (induction ks)
  case (Cons k ks)
  let ?t = "translate_sidno gs other sm k"
  have k: "1 \<le> k" "k \<le> get_max_sidno gs" using Cons.prems by simp_all
  have ik: "ivs_ok 0 (ivs_of gs k)" by (rule gs_inv_ivs [OF assms(1) k])
  have gk: "gnos_at gs k = gnos (ivs_of gs k)" using k by (simp add: gnos_at_def)
  have "\<forall>k \<in> set ks. 1 \<le> k \<and> k \<le> get_max_sidno gs" using Cons.prems by simp
  note IH = Cons.IH [OF this]
  consider (none) "ivs_of gs k = []" | (out) "ivs_of gs k \<noteq> []" "?t = 0 \<or> get_max_sidno other < ?t"
    | (cmp) "ivs_of gs k \<noteq> []" "1 \<le> ?t" "?t \<le> get_max_sidno other" by linarith
  then show ?case
  proof cases
    case none
    then show ?thesis using IH gk by simp
  next
    case out
    then show ?thesis using IH gnos_at_outside [OF out(2)] by (auto simp: Let_def)
  next
    case cmp
    have io: "ivs_ok 0 (ivs_of other ?t)" by (rule gs_inv_ivs [OF assms(2) cmp(2,3)])
    have gt: "gnos_at other ?t = gnos (ivs_of other ?t)" using cmp by (simp add: gnos_at_def)
    show ?thesis using IH cmp intersection_nonempty_iff [OF ik io] gk gt by (auto simp: Let_def)
  qed
qed simp

lemma all_sids:
  assumes "gs_wf m gs"
  shows "(\<forall>k. 1 \<le> k \<and> k \<le> get_max_sidno gs \<longrightarrow> P (sidno_to_sid m k))
    \<longleftrightarrow> (\<forall>u. 1 \<le> sid_to_sidno m u \<and> sid_to_sidno m u \<le> get_max_sidno gs \<longrightarrow> P u)"
proof -
  have m: "sid_map_inv m" "get_max_sidno gs \<le> map_max_sidno m"
    using assms by (simp_all add: gs_wf_def)
  note i = sid_to_sidno_inv(2) [OF m(1)]
  show ?thesis
  proof (intro iffI allI impI)
    fix u
    assume a: "\<forall>k. 1 \<le> k \<and> k \<le> get_max_sidno gs \<longrightarrow> P (sidno_to_sid m k)"
      "1 \<le> sid_to_sidno m u \<and> sid_to_sidno m u \<le> get_max_sidno gs"
    with i [of "sid_to_sidno m u" u] m(2) show "P u" by fastforce
  next
    fix k
    assume a: "\<forall>u. 1 \<le> sid_to_sidno m u \<and> sid_to_sidno m u \<le> get_max_sidno gs \<longrightarrow> P u"
      "1 \<le> k \<and> k \<le> get_max_sidno gs"
    with i [of k "sidno_to_sid m k"] m(2) show "P (sidno_to_sid m k)" by simp
  qed
qed

text \<open>C16. \<open>is_subset\<close> decides inclusion: for every server, the transactions of this set
  are among those of the other. The test on the intervals relies on neighbouring intervals
  never touching.\<close>

theorem is_subset_iff:
  assumes "gs_wf (sm p) gs" "gs_wf (sm q) super" "sid_map_p gs = Some p" "sid_map_p super = Some q"
  shows "is_subset gs super sm
    \<longleftrightarrow> (\<forall>u. sid_gnos (sm p) gs u \<subseteq> sid_gnos (sm q) super u)"
proof -
  have inv: "gs_inv gs" "gs_inv super" using assms(1,2) by (simp_all add: gs_wf_def)
  have "is_subset gs super sm \<longleftrightarrow> (\<forall>k \<in> set (sidnos (get_max_sidno gs)).
      gnos_at gs k \<subseteq> gnos_at super (translate_sidno gs super sm k))"
    unfolding is_subset_def by (rule subset_sidnos_iff [OF inv]) simp
  also have "\<dots> \<longleftrightarrow> (\<forall>k. 1 \<le> k \<and> k \<le> get_max_sidno gs \<longrightarrow>
      sid_gnos (sm p) gs (sidno_to_sid (sm p) k) \<subseteq> sid_gnos (sm q) super (sidno_to_sid (sm p) k))"
    using translate_gnos [OF assms] by auto
  also have "\<dots> \<longleftrightarrow> (\<forall>u. 1 \<le> sid_to_sidno (sm p) u \<and> sid_to_sidno (sm p) u \<le> get_max_sidno gs \<longrightarrow>
      sid_gnos (sm p) gs u \<subseteq> sid_gnos (sm q) super u)"
    by (rule all_sids [OF assms(1)])
  also have "\<dots> \<longleftrightarrow> (\<forall>u. sid_gnos (sm p) gs u \<subseteq> sid_gnos (sm q) super u)"
    by (auto simp: sid_gnos_def gnos_at_def split: if_splits)
  finally show ?thesis .
qed

theorem is_subset_iff_witness:
  "is_subset (sample_set 0 2 4) (sample_set 1 1 9) (\<lambda>_. sample_map)
     \<longleftrightarrow> (\<forall>u. sid_gnos sample_map (sample_set 0 2 4) u \<subseteq> sid_gnos sample_map (sample_set 1 1 9) u)"
  using is_subset_iff [of "\<lambda>_. sample_map" 0 "sample_set 0 2 4" 1 "sample_set 1 1 9"]
    sample_wf [of 2 4 0] sample_wf [of 1 9 1] by (simp add: sample_simps)

text \<open>C17. \<open>is_intersection_nonempty\<close> decides whether some server has a transaction in both
  sets.\<close>

theorem is_intersection_nonempty_iff:
  assumes "gs_wf (sm p) gs" "gs_wf (sm q) other" "sid_map_p gs = Some p" "sid_map_p other = Some q"
  shows "is_intersection_nonempty gs other sm
    \<longleftrightarrow> (\<exists>u. sid_gnos (sm p) gs u \<inter> sid_gnos (sm q) other u \<noteq> {})"
proof -
  have inv: "gs_inv gs" "gs_inv other" using assms(1,2) by (simp_all add: gs_wf_def)
  have "\<not> is_intersection_nonempty gs other sm \<longleftrightarrow> (\<forall>k \<in> set (sidnos (get_max_sidno gs)).
      gnos_at gs k \<inter> gnos_at other (translate_sidno gs other sm k) = {})"
    unfolding is_intersection_nonempty_def by (subst intersects_sidnos_iff [OF inv]) auto
  also have "\<dots> \<longleftrightarrow> (\<forall>k. 1 \<le> k \<and> k \<le> get_max_sidno gs \<longrightarrow> sid_gnos (sm p) gs (sidno_to_sid (sm p) k)
      \<inter> sid_gnos (sm q) other (sidno_to_sid (sm p) k) = {})"
    using translate_gnos [OF assms] by auto
  also have "\<dots> \<longleftrightarrow> (\<forall>u. 1 \<le> sid_to_sidno (sm p) u \<and> sid_to_sidno (sm p) u \<le> get_max_sidno gs \<longrightarrow>
      sid_gnos (sm p) gs u \<inter> sid_gnos (sm q) other u = {})"
    by (rule all_sids [OF assms(1)])
  also have "\<dots> \<longleftrightarrow> (\<forall>u. sid_gnos (sm p) gs u \<inter> sid_gnos (sm q) other u = {})"
    by (auto simp: sid_gnos_def gnos_at_def split: if_splits)
  finally show ?thesis by blast
qed

theorem is_intersection_nonempty_iff_witness:
  "is_intersection_nonempty (sample_set 0 2 4) (sample_set 1 3 9) (\<lambda>_. sample_map)
     \<longleftrightarrow> (\<exists>u. sid_gnos sample_map (sample_set 0 2 4) u \<inter> sid_gnos sample_map (sample_set 1 3 9) u \<noteq> {})"
  using is_intersection_nonempty_iff
      [of "\<lambda>_. sample_map" 0 "sample_set 0 2 4" 1 "sample_set 1 3 9"]
    sample_wf [of 2 4 0] sample_wf [of 3 9 1] by (simp add: sample_simps)

lemma add_to_new:
  assumes "gs_wf (sm p) gs" "sid_map_p gs = Some p" "alloc_ok e"
  shows "\<exists>a. add_gtid_set e gs (new_gtid_set (Some p)) sm = (RETURN_STATUS_OK, a, sm)
    \<and> gs_wf (sm p) a \<and> sid_map_p a = Some p \<and> get_max_sidno a = get_max_sidno gs
    \<and> sid_gnos (sm p) a = sid_gnos (sm p) gs"
proof -
  have "same_sid_map (new_gtid_set (Some p)) gs" using assms(2) by (simp add: same_sid_map_def)
  from add_gtid_set_same [OF _ _ this assms(3), of sm] assms show ?thesis
    by (auto simp: gs_wf_def sid_gnos_def fun_eq_iff)
qed

text \<open>The two local sets of \<open>intersection\<close>.\<close>

lemma intersection_differences:
  assumes g: "gs_wf (sm p) gs" "gs_wf (sm q) other" "sid_map_p gs = Some p" "sid_map_p other = Some q"
    and a: "gs_wf (sm p) a" "sid_map_p a = Some p" "get_max_sidno a = get_max_sidno gs" "sid_gnos (sm p) a = sid_gnos (sm p) gs"
    and b: "\<not> beyond_array sm gs other"
  shows "\<exists>minus inter. remove_gtid_set other a sm = Some minus \<and> remove_gtid_set minus a sm = Some inter
    \<and> gs_wf (sm p) inter \<and> sid_map_p inter = Some p
    \<and> (\<forall>u. sid_gnos (sm p) inter u = sid_gnos (sm p) gs u \<inter> sid_gnos (sm q) other u)"
proof -
  have "\<not> beyond_array sm a other"
    using b a(2,3) g(3) by (simp add: beyond_array_def same_sid_map_def)
  from remove_gtid_set_sound [OF a(1) g(2) a(2) g(4) this] obtain minus where
    m: "remove_gtid_set other a sm = Some minus" "gs_wf (sm p) minus" "sid_map_p minus = Some p"
    "\<forall>u. sid_gnos (sm p) minus u = sid_gnos (sm p) gs u - sid_gnos (sm q) other u" unfolding a(4) by blast
  have "\<not> beyond_array sm a minus"
    using a(2) m(3) by (simp add: beyond_array_def same_sid_map_def)
  from remove_gtid_set_sound [where sm = sm, OF a(1) m(2) a(2) m(3) this] obtain inter where
    "remove_gtid_set minus a sm = Some inter" "gs_wf (sm p) inter" "sid_map_p inter = Some p"
    "\<forall>u. sid_gnos (sm p) inter u = sid_gnos (sm p) gs u - sid_gnos (sm p) minus u" unfolding a(4) by blast
  then show ?thesis
    using m(1,4) by auto
qed

text \<open>C18. \<open>intersection\<close> adds to the result set exactly the transactions that both sets
  have, through two differences, except in one case: across two maps, when the map of the set knows a SID
  of the other set under a number beyond the array of the set. There, and only there, the code
  reads outside of the array (\<open>None\<close>).\<close>

theorem intersection_correct:
  assumes "gs_wf (sm p) gs" "gs_wf (sm q) other" "gs_wf (sm r) result"
    "sid_map_p gs = Some p" "sid_map_p other = Some q" "sid_map_p result = Some r" "alloc_ok e" "resize_ok e"
  shows "if beyond_array sm gs other then intersection e gs other result sm = None
    else \<exists>result' sm'. intersection e gs other result sm = Some (RETURN_STATUS_OK, result', sm')
      \<and> gs_wf (sm' r) result'
      \<and> (\<forall>u g. has_gtid (sm' r) result' u g \<longleftrightarrow>
            has_gtid (sm r) result u g \<or> has_gtid (sm p) gs u g \<and> has_gtid (sm q) other u g)"
proof -
  obtain a where a: "add_gtid_set e gs (new_gtid_set (Some p)) sm = (RETURN_STATUS_OK, a, sm)"
    "gs_wf (sm p) a" "sid_map_p a = Some p" "get_max_sidno a = get_max_sidno gs"
    "sid_gnos (sm p) a = sid_gnos (sm p) gs" using add_to_new [where sm = sm, OF assms(1,4,7)] by blast
  show ?thesis
  proof (cases "beyond_array sm gs other")
    case True
    then have "remove_gtid_set other a sm = None"
      using a(3,4) assms(4) unfolding remove_gtid_set_None by (simp add: beyond_array_def same_sid_map_def)
    then show ?thesis
      using True a(1) assms(4) by (simp add: intersection_def)
  next
    case False
    obtain minus inter where i: "remove_gtid_set other a sm = Some minus" "remove_gtid_set minus a sm = Some inter"
      "gs_wf (sm p) inter" "sid_map_p inter = Some p"
      "\<forall>u. sid_gnos (sm p) inter u = sid_gnos (sm p) gs u \<inter> sid_gnos (sm q) other u"
      using intersection_differences [OF assms(1,2,4,5) a(2-5) False] by blast
    from add_gtid_set_sound [where sm = sm, OF assms(3) i(3) assms(6) i(4) assms(7,8)] obtain result' sm' where
      d: "add_gtid_set e inter result sm = (RETURN_STATUS_OK, result', sm')" "gs_wf (sm' r) result'"
      "\<forall>u. sid_gnos (sm' r) result' u = sid_gnos (sm r) result u \<union> sid_gnos (sm p) inter u" by blast
    have "intersection e gs other result sm = Some (RETURN_STATUS_OK, result', sm')"
      using a(1) i(1,2) d(1) assms(4) by (simp add: intersection_def)
    moreover have "gs_inv gs" "gs_inv other" "gs_inv result" "gs_inv result'"
      using assms(1-3) d(2) by (simp_all add: gs_wf_def)
    ultimately show ?thesis
      using False d(2,3) i(5) by (auto simp: has_gtid_iff)
  qed
qed

lemma sample_beyond: "beyond_array (\<lambda>_. sample_map) (new_gtid_set (Some 0)) (sample_set 1 3 9)"
  by (simp add: beyond_array_def same_sid_map_def sample_simps sidnos_def)
    (simp add: sample_set_def ivs_of_def sid_to_sidno_def sidno_to_sid_def sample_map_eq)

theorem intersection_correct_witness:
  "(\<exists>result' sm'. intersection sample_env (sample_set 0 1 5) (sample_set 1 3 9) (sample_set 2 7 8)
       (\<lambda>_. sample_map) = Some (RETURN_STATUS_OK, result', sm')
     \<and> has_gtid (sm' 2) result' uuid_clear 4 \<and> \<not> has_gtid (sm' 2) result' uuid_clear 2)
   \<and> intersection sample_env (new_gtid_set (Some 0)) (sample_set 1 3 9) (sample_set 2 7 8) (\<lambda>_. sample_map) = None"
proof
  show "\<exists>result' sm'. intersection sample_env (sample_set 0 1 5) (sample_set 1 3 9) (sample_set 2 7 8)
       (\<lambda>_. sample_map) = Some (RETURN_STATUS_OK, result', sm')
     \<and> has_gtid (sm' 2) result' uuid_clear 4 \<and> \<not> has_gtid (sm' 2) result' uuid_clear 2"
    using full_array_not_beyond [of "\<lambda>_. sample_map" 0 "sample_set 0 1 5" "sample_set 1 3 9" 1]
      intersection_correct [of "\<lambda>_. sample_map" 0 "sample_set 0 1 5" 1 "sample_set 1 3 9" 2 "sample_set 2 7 8" sample_env]
      sample_wf [of 1 5 0] sample_wf [of 3 9 1] sample_wf [of 7 8 2]
      has_gtid_iff [of "sample_set 0 1 5" sample_map uuid_clear]
      has_gtid_iff [of "sample_set 1 3 9" sample_map uuid_clear]
      has_gtid_iff [of "sample_set 2 7 8" sample_map uuid_clear]
    by (auto simp: sample_simps gs_wf_def)
  show "intersection sample_env (new_gtid_set (Some 0)) (sample_set 1 3 9) (sample_set 2 7 8) (\<lambda>_. sample_map) = None"
    using intersection_correct [of "\<lambda>_. sample_map" 0 "new_gtid_set (Some 0)" 1 "sample_set 1 3 9" 2 "sample_set 2 7 8" sample_env]
      sample_beyond sample_wf [of 3 9 1] sample_wf [of 7 8 2]
    by (simp add: sample_simps gs_wf_def)
qed

text \<open>C19. Adding a transaction to a SIDNO of a set makes it found and changes no other lookup;
  removing it makes it not found and changes no other lookup. Both keep the invariant.\<close>

theorem add_remove_gtid_lookup:
  assumes "gs_inv gs" "1 \<le> k" "k \<le> get_max_sidno gs" "1 \<le> g" "1 \<le> k'"
  shows "gs_inv (add_gtid k g gs) \<and> gs_inv (remove_gtid k g gs)
    \<and> (contains_gtid (add_gtid k g gs) k' g' \<longleftrightarrow> k' = k \<and> g' = g \<or> contains_gtid gs k' g')
    \<and> (contains_gtid (remove_gtid k g gs) k' g' \<longleftrightarrow> \<not> (k' = k \<and> g' = g) \<and> contains_gtid gs k' g')"
proof -
  have i: "ivs_ok 0 (ivs_of gs k)" by (rule gs_inv_ivs [OF assms(1-3)])
  note A = ivs.add_inv [OF i, of g "g + 1"] ivs.add_abs [OF i, of g "g + 1"]
  note R = ivs.remove_inv [OF i, of g "g + 1"] ivs.remove_abs [OF i, of g "g + 1"]
  have inv: "gs_inv (add_gtid k g gs)" "gs_inv (remove_gtid k g gs)"
    using A R assms by (simp_all add: add_gtid_def remove_gtid_def add_range_def remove_range_def
        store_inv)
  have "gnos_at (add_gtid k g gs) = (gnos_at gs)(k := gnos_at gs k \<union> {g..<g + 1})"
    "gnos_at (remove_gtid k g gs) = (gnos_at gs)(k := gnos_at gs k - {g..<g + 1})"
    using A R assms store_gnos [OF assms(2,3)]
    by (simp_all add: add_gtid_def remove_gtid_def add_range_def remove_range_def)
      (simp_all add: gnos_at_def)
  moreover have "{g..<g + 1} = {g}" by auto
  ultimately show ?thesis
    using inv contains_gtid_iff [OF _ assms(5)] assms(1) by auto
qed

theorem add_remove_gtid_lookup_witness:
  "contains_gtid (add_gtid 1 9 (sample_set 0 2 5)) 1 9
   \<and> \<not> contains_gtid (remove_gtid 1 3 (sample_set 0 2 5)) 1 3"
  using add_remove_gtid_lookup [of "sample_set 0 2 5" 1 9 1 9]
    add_remove_gtid_lookup [of "sample_set 0 2 5" 1 3 1 3] sample_wf [of 2 5 0]
  by (simp add: sample_simps gs_wf_def)

end
