(* ===== verification/Gtid_Equality.thy ===== *)
theory Gtid_Equality
  imports Gtid_Algebra
begin

text \<open>
  The equality test of GTID sets, exact across two maps and, within one, for arrays of the
  same length only; and the inputs for which the set operations read out of bounds.
\<close>

section \<open>The walk in the order of the SIDs\<close>

definition used :: "sid_map \<Rightarrow> gtid_set \<Rightarrow> nat list \<Rightarrow> (uuid \<times> interval list) list" where
  "used m gs ks = map (\<lambda>k. (sidno_to_sid m k, ivs_of gs k)) (filter (contains_sidno gs) ks)"

lemma used_skip: "used m gs (skip_unused gs ks) = used m gs ks"
  by (induction ks) (auto simp: skip_unused_def used_def)

lemma skip_unused_cases:
  "skip_unused gs ks = [] \<Longrightarrow> used m gs ks = []"
  "skip_unused gs ks = k # ks' \<Longrightarrow>
     used m gs ks = (sidno_to_sid m k, ivs_of gs k) # used m gs ks' \<and> k \<in> set ks \<and> set ks' \<subseteq> set ks"
proof -
  show "skip_unused gs ks = [] \<Longrightarrow> used m gs ks = []"
    by (simp add: skip_unused_def used_def filter_empty_conv dropWhile_eq_Nil_conv)
  assume a: "skip_unused gs ks = k # ks'"
  then have "contains_sidno gs k" by (simp add: skip_unused_def dropWhile_eq_Cons_conv)
  moreover have "set (k # ks') \<subseteq> set ks"
    using a set_dropWhileD [of _ _ ks] unfolding skip_unused_def by (metis subsetI)
  ultimately show "used m gs ks = (sidno_to_sid m k, ivs_of gs k) # used m gs ks'
      \<and> k \<in> set ks \<and> set ks' \<subseteq> set ks"
    using a used_skip [of m gs ks] by (simp add: used_def)
qed

lemma uuid_equals_iff: "is_uuid u \<Longrightarrow> is_uuid v \<Longrightarrow> uuid_equals u v \<longleftrightarrow> u = v"
  using memcmp_eq_iff [of u v] by (simp add: uuid_equals_def is_uuid_def)

lemma equals_sorted_iff:
  assumes "\<forall>k \<in> set ks. is_uuid (sidno_to_sid m k)" "\<forall>k \<in> set os. is_uuid (sidno_to_sid om k)"
  shows "equals_sorted gs m other om ks os \<longleftrightarrow> used m gs ks = used om other os"
  using assms
proof (induction gs m other om ks os rule: equals_sorted.induct)
  case (1 gs m other om ks os)
  show ?case
  proof (cases "skip_unused gs ks")
    case Nil
    then show ?thesis
      using skip_unused_cases [where gs = gs and ks = ks and m = m]
        skip_unused_cases [where gs = other and ks = os and m = om]
      by (cases "skip_unused other os") auto
  next
    case (Cons k ks')
    note K = skip_unused_cases(2) [OF Cons, where m = m]
    show ?thesis
    proof (cases "skip_unused other os")
      case Nil
      then show ?thesis using Cons K skip_unused_cases(1) [where gs = other and ks = os and m = om] by simp
    next
      case (Cons n os')
      note N = skip_unused_cases(2) [OF Cons, where m = om]
      have "is_uuid (sidno_to_sid m k)" "is_uuid (sidno_to_sid om n)" using K N "1.prems" by auto
      then have u: "uuid_equals (sidno_to_sid m k) (sidno_to_sid om n)
          \<longleftrightarrow> sidno_to_sid m k = sidno_to_sid om n" by (rule uuid_equals_iff)
      have "equals_sorted gs m other om ks' os' \<longleftrightarrow> used m gs ks' = used om other os'"
        if "sidno_to_sid m k = sidno_to_sid om n" "sidno_equals gs k other n"
        using "1.IH" [OF refl \<open>skip_unused gs ks = k # ks'\<close> Cons] that u K N "1.prems"
        by (auto simp: subset_iff)
      then show ?thesis
        using \<open>skip_unused gs ks = k # ks'\<close> Cons K N u by (auto simp: sidno_equals_def)
    qed
  qed
qed

text \<open>The used entries of a well-formed set, in SID order, are determined by its contents.\<close>

lemma used_sorted:
  assumes "gs_wf m gs"
  shows "sorted_wrt (<) (map fst (used m gs (sorted_arr m)))"
proof -
  have "sorted_wrt (\<lambda>a b. sidno_to_sid m a < sidno_to_sid m b) (sorted_arr m)"
    using assms by (simp add: gs_wf_def sid_map_inv_def sidno_to_sid_def)
  then have "sorted_wrt (\<lambda>a b. sidno_to_sid m a < sidno_to_sid m b)
      (filter (contains_sidno gs) (sorted_arr m))" by (rule sorted_wrt_filter)
  then show ?thesis by (simp add: used_def sorted_wrt_map comp_def)
qed

lemma used_mem:
  assumes "gs_wf m gs"
  shows "(u, vs) \<in> set (used m gs (sorted_arr m))
    \<longleftrightarrow> vs \<noteq> [] \<and> ivs_ok 0 vs \<and> gnos vs = sid_gnos m gs u"
proof -
  have mi: "sid_map_inv m" and gi: "gs_inv gs" and mx: "get_max_sidno gs \<le> map_max_sidno m"
    using assms by (simp_all add: gs_wf_def)
  have st: "set (sorted_arr m) = {1..map_max_sidno m}"
    using mi by (simp add: sid_map_inv_def map_max_sidno_def)
  note i = sid_to_sidno_inv(2) [OF mi]
  show ?thesis
  proof
    assume "(u, vs) \<in> set (used m gs (sorted_arr m))"
    then obtain k where k: "1 \<le> k" "k \<le> map_max_sidno m" "contains_sidno gs k"
      "u = sidno_to_sid m k" "vs = ivs_of gs k" by (auto simp: used_def st)
    have kg: "k \<le> get_max_sidno gs" "vs \<noteq> []" using k(3,5) by (auto simp: contains_sidno_def split: if_splits)
    have "sid_to_sidno m u = k" using i [OF k(1,2)] k(4) by simp
    then show "vs \<noteq> [] \<and> ivs_ok 0 vs \<and> gnos vs = sid_gnos m gs u"
      using kg k(1,5) gs_inv_ivs [OF gi k(1)] by (simp add: sid_gnos_def gnos_at_def)
  next
    assume v: "vs \<noteq> [] \<and> ivs_ok 0 vs \<and> gnos vs = sid_gnos m gs u"
    let ?k = "sid_to_sidno m u"
    have "gnos_at gs ?k \<noteq> {}" using v gnos_empty_iff [of 0 vs] by (auto simp: sid_gnos_def)
    then have k: "1 \<le> ?k" "?k \<le> get_max_sidno gs" by (auto simp: gnos_at_def split: if_splits)
    have io: "ivs_ok 0 (ivs_of gs ?k)" by (rule gs_inv_ivs [OF gi k])
    have "vs = ivs_of gs ?k"
      using v io k by (intro gnos_inj [of 0 _ 0]) (simp_all add: sid_gnos_def gnos_at_def)
    moreover have "sidno_to_sid m ?k = u" using i [of ?k u] k mx by simp
    ultimately show "(u, vs) \<in> set (used m gs (sorted_arr m))"
      using v k mx by (force simp: used_def st contains_sidno_def)
  qed
qed

lemma used_nonempty:
  assumes "gs_wf m gs" "sid_gnos m gs u \<noteq> {}"
  shows "\<exists>vs. (u, vs) \<in> set (used m gs (sorted_arr m))"
proof -
  let ?k = "sid_to_sidno m u"
  have k: "1 \<le> ?k" "?k \<le> get_max_sidno gs"
    using assms(2) by (auto simp: sid_gnos_def gnos_at_def split: if_splits)
  have "ivs_ok 0 (ivs_of gs ?k)" using gs_inv_ivs [OF _ k] assms(1) by (simp add: gs_wf_def)
  moreover have "sid_gnos m gs u = gnos (ivs_of gs ?k)"
    using k by (simp add: sid_gnos_def gnos_at_def)
  ultimately have "(u, ivs_of gs ?k) \<in> set (used m gs (sorted_arr m))"
    using assms(2) by (subst used_mem [OF assms(1)]) auto
  then show ?thesis by blast
qed

lemma used_eq_iff:
  assumes "gs_wf m gs" "gs_wf om other"
  shows "used m gs (sorted_arr m) = used om other (sorted_arr om)
    \<longleftrightarrow> (\<forall>u. sid_gnos m gs u = sid_gnos om other u)"
proof
  assume eq: "used m gs (sorted_arr m) = used om other (sorted_arr om)"
  show "\<forall>u. sid_gnos m gs u = sid_gnos om other u"
  proof
    fix u
    show "sid_gnos m gs u = sid_gnos om other u"
    proof (cases "sid_gnos m gs u = {}")
      case True
      then show ?thesis
        using used_nonempty [OF assms(2), of u] used_mem [OF assms(1), of u]
          used_mem [OF assms(2), of u] eq gnos_empty_iff by metis
    next
      case False
      then show ?thesis
        using used_nonempty [OF assms(1), of u] used_mem [OF assms(1), of u]
          used_mem [OF assms(2), of u] eq by metis
    qed
  qed
next
  assume eq: "\<forall>u. sid_gnos m gs u = sid_gnos om other u"
  then have s: "set (used m gs (sorted_arr m)) = set (used om other (sorted_arr om))"
    using used_mem [OF assms(1)] used_mem [OF assms(2)] by auto
  let ?x = "used m gs (sorted_arr m)" and ?y = "used om other (sorted_arr om)"
  have sx: "sorted_wrt (<) (map fst ?x)" and sy: "sorted_wrt (<) (map fst ?y)"
    using used_sorted assms by blast+
  have k: "map fst ?x = map fst ?y"
    by (rule strict_sorted_equal [OF sy sx]) (simp only: set_map s)
  have "inj_on fst (set ?x)" using sx by (simp add: strict_sorted_iff distinct_map)
  then show "?x = ?y" by (intro list.inj_map_strong [OF _ k]) (auto simp: s dest: inj_onD)
qed

section \<open>Properties\<close>

lemma equals_same_iff:
  assumes "gs_wf m gs" "gs_wf m other" "get_max_sidno gs = get_max_sidno other"
  shows "equals_same gs other \<longleftrightarrow> (\<forall>u. sid_gnos m gs u = sid_gnos m other u)"
proof -
  have inv: "gs_inv gs" "gs_inv other" "sid_map_inv m" "get_max_sidno gs \<le> map_max_sidno m"
    using assms(1,2) by (simp_all add: gs_wf_def)
  have iv: "ivs_of gs k = ivs_of other k \<longleftrightarrow> gnos_at gs k = gnos_at other k"
    if k: "1 \<le> k" "k \<le> get_max_sidno gs" for k
  proof -
    have "ivs_ok 0 (ivs_of gs k)" "ivs_ok 0 (ivs_of other k)"
      using gs_inv_ivs [OF inv(1) k] gs_inv_ivs [OF inv(2)] k assms(3) by simp_all
    then show ?thesis using gnos_inj [of 0 "ivs_of gs k" 0 "ivs_of other k"] k assms(3)
      by (auto simp: gnos_at_def)
  qed
  have "equals_same gs other
      \<longleftrightarrow> (\<forall>k. 1 \<le> k \<and> k \<le> get_max_sidno gs \<longrightarrow> ivs_of gs k = ivs_of other k)"
    using assms(3) by (auto simp: equals_same_def sidno_equals_def)
  also have "\<dots> \<longleftrightarrow> (\<forall>k. 1 \<le> k \<and> k \<le> get_max_sidno gs \<longrightarrow>
      sid_gnos m gs (sidno_to_sid m k) = sid_gnos m other (sidno_to_sid m k))"
    using iv sid_to_sidno_to_sid [OF inv(3)] inv(4) by (auto simp: sid_gnos_def)
  also have "\<dots> \<longleftrightarrow> (\<forall>u. 1 \<le> sid_to_sidno m u \<and> sid_to_sidno m u \<le> get_max_sidno gs \<longrightarrow>
      sid_gnos m gs u = sid_gnos m other u)"
    by (rule all_sids [OF assms(1)])
  also have "\<dots> \<longleftrightarrow> (\<forall>u. sid_gnos m gs u = sid_gnos m other u)"
    using assms(3) by (auto simp: sid_gnos_def gnos_at_def)
  finally show ?thesis .
qed

text \<open>C33. \<open>equals\<close> decides whether two sets have the same transactions, when they use
  different maps, or the same map with arrays of the same length.\<close>

theorem gs_equals_iff:
  assumes "gs_wf (sm p) gs" "gs_wf (sm q) other" "sid_map_p gs = Some p" "sid_map_p other = Some q"
    "p \<noteq> q \<or> get_max_sidno gs = get_max_sidno other"
  shows "gs_equals gs other sm
    \<longleftrightarrow> (\<forall>u g. has_gtid (sm p) gs u g \<longleftrightarrow> has_gtid (sm q) other u g)"
proof -
  have "gs_equals gs other sm \<longleftrightarrow> (\<forall>u. sid_gnos (sm p) gs u = sid_gnos (sm q) other u)"
  proof (cases "p = q")
    case True
    with equals_same_iff [of "sm p" gs other] assms show ?thesis
      by (simp add: gs_equals_def same_sid_map_def)
  next
    case False
    have u: "\<forall>k \<in> set (sorted_arr m). is_uuid (sidno_to_sid m k)" if "sid_map_inv m" for m
      using that sid_to_sidno_inv(3) [OF that]
      by (simp add: sid_map_inv_def map_max_sidno_def)
    from False assms(3,4) have "gs_equals gs other sm
        \<longleftrightarrow> equals_sorted gs (sm p) other (sm q) (sorted_arr (sm p)) (sorted_arr (sm q))"
      by (simp add: gs_equals_def same_sid_map_def Let_def del: equals_sorted.simps)
    also have "\<dots> \<longleftrightarrow> used (sm p) gs (sorted_arr (sm p)) = used (sm q) other (sorted_arr (sm q))"
      using u assms(1,2) by (intro equals_sorted_iff) (simp_all add: gs_wf_def)
    also have "\<dots> \<longleftrightarrow> (\<forall>u. sid_gnos (sm p) gs u = sid_gnos (sm q) other u)"
      by (rule used_eq_iff [OF assms(1,2)])
    finally show ?thesis .
  qed
  then show ?thesis using assms(1,2) by (auto simp: has_gtid_iff gs_wf_def)
qed

theorem gs_equals_iff_witness:
  "gs_equals (sample_set 0 2 4) (sample_set 1 2 4) (\<lambda>_. sample_map) \<longleftrightarrow>
   (\<forall>u g. has_gtid sample_map (sample_set 0 2 4) u g \<longleftrightarrow> has_gtid sample_map (sample_set 1 2 4) u g)"
  using gs_equals_iff [of "\<lambda>_. sample_map" 0 "sample_set 0 2 4" 1 "sample_set 1 2 4"]
    sample_wf [of 2 4 0] sample_wf [of 2 4 1] by (simp add: sample_simps)

text \<open>C37. Within one map, \<open>equals\<close> takes an empty set for equal to a set whose only
  transactions are those of the last SIDNO of its longer array: the loops over the SIDNOs that
  only one array has stop one short.\<close>

theorem gs_equals_misses_last_sidno:
  assumes "gs_wf (sm p) other" "sid_map_p other = Some p" "1 \<le> get_max_sidno other"
    "\<forall>k. 1 \<le> k \<and> k < get_max_sidno other \<longrightarrow> ivs_of other k = []"
    "ivs_of other (get_max_sidno other) \<noteq> []"
  shows "gs_equals (new_gtid_set (Some p)) other sm
    \<and> (\<exists>u g. has_gtid (sm p) other u g \<and> \<not> has_gtid (sm p) (new_gtid_set (Some p)) u g)"
proof -
  let ?n = "get_max_sidno other"
  have i: "sid_map_inv (sm p)" "?n \<le> map_max_sidno (sm p)" "gs_inv other"
    using assms(1) by (simp_all add: gs_wf_def)
  have "gs_equals (new_gtid_set (Some p)) other sm"
    using assms(2-4)
    by (auto simp: gs_equals_def same_sid_map_def equals_same_def contains_sidno_def)
  moreover obtain g where "g \<in> gnos_at other ?n"
    using gnos_at_empty_iff [OF i(3) assms(3) order_refl] assms(5) by blast
  then have "g \<in> sid_gnos (sm p) other (sidno_to_sid (sm p) ?n)"
    using sid_to_sidno_to_sid [OF i(1) assms(3) i(2)] by (simp add: sid_gnos_def)
  then have "has_gtid (sm p) other (sidno_to_sid (sm p) ?n) g" by (simp add: has_gtid_iff i(3))
  moreover have "\<not> has_gtid (sm p) (new_gtid_set (Some p)) u g" for u
    by (simp add: has_gtid_iff sid_gnos_def)
  ultimately show ?thesis by blast
qed

theorem gs_equals_misses_last_sidno_witness:
  "gs_equals (new_gtid_set (Some 0)) (sample_set 0 2 4) (\<lambda>_. sample_map)"
  using gs_equals_misses_last_sidno [of "\<lambda>_. sample_map" 0 "sample_set 0 2 4"] sample_wf [of 2 4 0]
  by (simp add: sample_simps) (simp add: sample_set_def ivs_of_def)

text \<open>\<open>is_subset_for_sid\<close> reads through a null pointer for a server that the set's map
  knows but that has no transactions in the set, while the other set has some: a situation a
  decoded set with an empty list of intervals is in.\<close>

theorem is_subset_for_sid_null:
  assumes "1 \<le> k" "k \<le> get_max_sidno gs" "ivs_of gs k = []"
    "1 \<le> n" "n \<le> get_max_sidno super" "ivs_of super n \<noteq> []"
  shows "is_subset_for_sid gs super n k = None"
  using assms by (simp add: is_subset_for_sid_def is_interval_subset_def)

theorem is_subset_for_sid_null_witness:
  "is_subset_for_sid (gs_clear (sample_set 0 1 2)) (sample_set 1 1 4) 1 1 = None"
  using is_subset_for_sid_null [of 1 "gs_clear (sample_set 0 1 2)" 1 "sample_set 1 1 4"]
  by (simp add: sample_set_def gs_clear_def get_max_sidno_def ivs_of_def)

lemma size_loop_iff:
  assumes "gs_inv gs" "\<forall>k \<in> set ks. 1 \<le> k \<and> k \<le> get_max_sidno gs \<and> last_end 0 (ivs_of gs k) < 2 ^ 63"
    "num \<le> 2 ^ 63" "0 \<le> c" "c < num \<or> c = 0"
  shows "size_loop gs num ks c \<longleftrightarrow> ks \<noteq> [] \<and> num \<le> c + (\<Sum>k \<leftarrow> ks. int (card (gnos_at gs k)))"
  using assms(2,4,5)
proof (induction ks arbitrary: c)
  case (Cons k ks)
  have k: "1 \<le> k" "k \<le> get_max_sidno gs" "last_end 0 (ivs_of gs k) < 2 ^ 63" using Cons.prems by auto
  have i: "ivs_ok 0 (ivs_of gs k)" by (rule gs_inv_ivs [OF assms(1) k(1,2)])
  have g: "gnos_at gs k = gnos (ivs_of gs k)" using k by (simp add: gnos_at_def)
  have b: "int (card (gnos_at gs k)) < 2 ^ 63" using card_gnos_bound [OF i] k(3) g by simp
  then have cnt: "get_gtid_count gs k = int (card (gnos_at gs k))"
    using gtid_count_card [OF i, of 0] g by (simp add: get_gtid_count_def)
  have u: "u64 (c + int (card (gnos_at gs k))) = c + int (card (gnos_at gs k))"
    using b Cons.prems(2,3) assms(3) by (intro u64_id) auto
  have nn: "0 \<le> (\<Sum>k \<leftarrow> ks. int (card (gnos_at gs k)))" by (intro sum_list_nonneg) auto
  show ?case
    using Cons.IH [of "c + int (card (gnos_at gs k))"] Cons.prems nn
    by (cases "ks = []") (auto simp: cnt u Let_def)
qed simp

text \<open>C38. \<open>get_last_gno\<close> gives the greatest transaction number of a SIDNO, or 0 where
  there is none; and \<open>is_size_greater_than_or_equal\<close> compares the number of transactions
  with a positive bound up to 2 to the 63 without being misled by the wrap-around of its
  counter.\<close>

theorem last_gno_and_size:
  assumes "gs_inv gs" "\<forall>k. 1 \<le> k \<and> k \<le> get_max_sidno gs \<longrightarrow> last_end 0 (ivs_of gs k) \<le> GNO_END"
    "1 \<le> k" "1 \<le> num" "num \<le> 2 ^ 63"
  shows "(if gnos_at gs k = {} then get_last_gno gs k = 0
          else get_last_gno gs k \<in> gnos_at gs k \<and> (\<forall>g \<in> gnos_at gs k. g \<le> get_last_gno gs k))
    \<and> (is_size_greater_than_or_equal gs num
        \<longleftrightarrow> num \<le> (\<Sum>k \<leftarrow> sidnos (get_max_sidno gs). int (card (gnos_at gs k))))"
proof
  show "if gnos_at gs k = {} then get_last_gno gs k = 0
          else get_last_gno gs k \<in> gnos_at gs k \<and> (\<forall>g \<in> gnos_at gs k. g \<le> get_last_gno gs k)"
  proof (cases "k \<le> get_max_sidno gs")
    case True
    have "ivs_ok 0 (ivs_of gs k)" by (rule gs_inv_ivs [OF assms(1,3) True])
    with last_gno_max [OF this] gnos_empty_iff [OF this] True assms(3) show ?thesis
      by (auto simp: get_last_gno_def gnos_at_def)
  qed (simp add: get_last_gno_def gnos_at_def)
  have "\<forall>k \<in> set (sidnos (get_max_sidno gs)).
      1 \<le> k \<and> k \<le> get_max_sidno gs \<and> last_end 0 (ivs_of gs k) < 2 ^ 63"
    using assms(2) by (force simp: GNO_END_def)
  from size_loop_iff [OF assms(1) this assms(5), of 0] assms(4)
  show "is_size_greater_than_or_equal gs num
      \<longleftrightarrow> num \<le> (\<Sum>k \<leftarrow> sidnos (get_max_sidno gs). int (card (gnos_at gs k)))"
    by (auto simp: is_size_greater_than_or_equal_def)
qed

theorem last_gno_and_size_witness:
  "get_last_gno (sample_set 0 2 6) 1 = 5 \<and> is_size_greater_than_or_equal (sample_set 0 2 6) 4"
  using last_gno_and_size [of "sample_set 0 2 6" 1 4] sample_wf [of 2 6 0]
  by (auto simp: gs_wf_def sample_simps GNO_END_def sidnos_def)
    (auto simp: sample_set_def gnos_at_def ivs_of_def get_last_gno_def get_max_sidno_def)

end
