(* ===== verification/Gtid_Encoding.thy ===== *)
theory Gtid_Encoding
  imports Gtid_Algebra
begin

text \<open>
  The binary form of GTID sets (\<open>encode\<close>, \<open>add_gtid_encoding\<close> and
  \<open>get_encoded_length\<close> of \<open>sql/rpl_gtid_set.cc\<close>), as it is written to binary logs
  and sent by replicas. A buffer is the list of its bytes; its length is the \<open>length\<close>
  argument of the decoder.
\<close>

section \<open>Encoder\<close>

fun encode_intervals :: "interval list \<Rightarrow> bytes" where
  "encode_intervals [] = []"
| "encode_intervals (iv # ivs) =
     int8store (iv_start iv) @ int8store (iv_end iv) @ encode_intervals ivs"

text \<open>The loop over the sorted SIDNOs: the number of SIDs written and their bytes.\<close>

fun encode_sids :: "sid_map \<Rightarrow> gtid_set \<Rightarrow> nat list \<Rightarrow> int \<times> bytes" where
  "encode_sids m gs [] = (0, [])"
| "encode_sids m gs (sidno # ks) =
     (let (n_sids, buf) = encode_sids m gs ks in
      if sidno > get_max_sidno gs then (n_sids, buf)
      else if ivs_of gs sidno \<noteq> [] then
        (n_sids + 1,
         copy_to (sidno_to_sid m sidno) @ int8store (int (length (ivs_of gs sidno)))
           @ encode_intervals (ivs_of gs sidno) @ buf)
      else (n_sids, buf))"

definition gs_encode :: "sid_map \<Rightarrow> gtid_set \<Rightarrow> bytes" where
  "gs_encode m gs = (let (n_sids, buf) = encode_sids m gs (sorted_arr m) in int8store n_sids @ buf)"

text \<open>
  The intervals are counted in an \<open>int\<close>, and the bytes of one SID are computed in \<open>int\<close> before they are
  added to the \<open>size_t\<close>. Overflow of an \<open>int\<close> wraps around.
\<close>

fun n_intervals_loop :: "interval list \<Rightarrow> int \<Rightarrow> int" where
  "n_intervals_loop [] ret = ret"
| "n_intervals_loop (iv # ivs) ret = n_intervals_loop ivs (s32 (ret + 1))"

definition get_n_intervals :: "gtid_set \<Rightarrow> nat \<Rightarrow> int" where
  "get_n_intervals gs sidno = n_intervals_loop (ivs_of gs sidno) 0"

fun encoded_length_loop :: "gtid_set \<Rightarrow> nat list \<Rightarrow> int \<Rightarrow> int" where
  "encoded_length_loop gs [] ret = ret"
| "encoded_length_loop gs (sidno # ks) ret =
     encoded_length_loop gs ks
       (if contains_sidno gs sidno
        then u64 (ret + u64 (s32 (16 + 8 + s32 (2 * 8 * get_n_intervals gs sidno)))) else ret)"

definition get_encoded_length :: "gtid_set \<Rightarrow> int" where
  "get_encoded_length gs = encoded_length_loop gs (sidnos (get_max_sidno gs)) 8"

section \<open>Decoder\<close>

text \<open>
  How decoding ends: normally, with a malformed encoding reported, with an error of a callee,
  or by a read beyond the buffer.
\<close>

datatype decode_result = Decode_ok | Decode_malformed | Decode_error | Decode_out_of_bounds

text \<open>
  The loop over the intervals of a SID, on the bytes from the current position. The iterator
  is set back to the start of the list unless it can be used where it is.
\<close>

definition reposition :: "interval_iterator \<Rightarrow> int \<Rightarrow> interval_iterator" where
  "reposition ivit start =
     (case ivit_get ivit of
        None \<Rightarrow> ivit_init (ivit_list ivit)
      | Some current \<Rightarrow>
          if start < iv_start current then ivit_init (ivit_list ivit) else ivit)"

function decode_intervals ::
    "int \<Rightarrow> int \<Rightarrow> int \<Rightarrow> interval_iterator \<Rightarrow> bytes \<Rightarrow> decode_result \<times> interval_iterator \<times> bytes" where
  "decode_intervals n_intervals i prev ivit bs =
     (if \<not> i < n_intervals then (Decode_ok, ivit, bs)
      else if length bs < 16 then (Decode_out_of_bounds, ivit, bs)
      else let start = sint8korr bs; bs1 = drop 8 bs; end' = sint8korr bs1; bs2 = drop 8 bs1 in
      if start \<le> prev \<or> end' \<le> start then (Decode_malformed, ivit, bs2)
      else decode_intervals n_intervals (u32 (i + 1)) end'
             (add_gno_interval (reposition ivit start) start end') bs2)"
  by pat_completeness auto

termination
  by (relation "measure (\<lambda>(n, i, prev, ivit, bs). length bs)") auto

declare decode_intervals.simps [simp del]

lemma length_decode_intervals:
  "decode_intervals n i prev ivit bs = (r, ivit', bs') \<Longrightarrow> length bs' \<le> length bs"
proof (induction n i prev ivit bs rule: decode_intervals.induct)
  case (1 n i prev ivit bs)
  show ?case
    using "1.prems" "1.IH" unfolding decode_intervals.simps [of n i prev ivit bs]
    by (fastforce simp: Let_def split: if_splits)
qed

text \<open>
  The loop over the SIDs. The bytes needed by the intervals are computed in 64 bits. The
  loop counters have 32 bits and the numbers they are compared with have 64: a counter that wraps
  around goes on, until the buffer ends.
\<close>

function decode_sids ::
    "mem_env \<Rightarrow> int \<Rightarrow> int \<Rightarrow> gtid_set \<Rightarrow> sid_map \<Rightarrow> bytes \<Rightarrow> decode_result \<times> gtid_set \<times> sid_map \<times> bytes" where
  "decode_sids e n_sids sid_counter gs m bs =
     (if \<not> sid_counter < n_sids then (Decode_ok, gs, m, bs)
      else if length bs < 16 + 8 then (Decode_malformed, gs, m, bs)
      else let sid = copy_from bs; bs1 = drop 16 bs; n_intervals = uint8korr bs1;
               bs2 = drop 8 bs1; (sidno, m1) = add_sid e sid m in
      case sidno of
        None \<Rightarrow> (Decode_error, gs, m1, bs2)
      | Some k \<Rightarrow>
          let (st, gs1) = ensure_sidno e k gs in
          if st \<noteq> RETURN_STATUS_OK then (Decode_error, gs1, m1, bs2)
          else if int (length bs2) < u64 (2 * 8 * n_intervals) then (Decode_malformed, gs1, m1, bs2)
          else
            let (r, ivit, bs3) = decode_intervals n_intervals 0 0 (ivit_init (ivs_of gs1 k)) bs2;
                gs2 = (if n_intervals = 0 then gs1 else store_added k ivit gs1)
            in if r \<noteq> Decode_ok then (r, gs2, m1, bs3) else decode_sids e n_sids (u32 (sid_counter + 1)) gs2 m1 bs3)"
  by pat_completeness auto

termination
proof (relation "measure (\<lambda>(e, n, i, gs, m, bs). length bs)", goal_cases)
  case (2 e n_sids sid_counter gs m bs sid bs1 n_intervals bs2 p sidno m1 k q st gs1 d r x ivit bs3 gs2)
  have "decode_intervals n_intervals 0 0 (ivit_init (ivs_of gs1 k)) bs2 = (r, ivit, bs3)"
    using 2(14-16) by simp
  from length_decode_intervals [OF this] show ?case
    using 2(2,4,6) by simp
qed simp

declare decode_sids.simps [simp del]

text \<open>
  The result, the set and map after it, and the number of bytes used; \<open>exact\<close> stands for
  a null \<open>actual_length\<close>.
\<close>

definition add_gtid_encoding ::
    "mem_env \<Rightarrow> bytes \<Rightarrow> bool \<Rightarrow> gtid_set \<Rightarrow> sid_map \<Rightarrow> decode_result \<times> gtid_set \<times> sid_map \<times> nat" where
  "add_gtid_encoding e encoded exact gs m =
     (if length encoded < 8 then (Decode_malformed, gs, m, 0)
      else let n_sids = uint8korr encoded;
               (r, gs1, m1, rest) = decode_sids e n_sids 0 gs m (drop 8 encoded);
               pos = length encoded - length rest in
      if r \<noteq> Decode_ok then (r, gs1, m1, pos)
      else if exact \<and> pos \<noteq> length encoded then (Decode_malformed, gs1, m1, pos)
      else (Decode_ok, gs1, m1, pos))"

section \<open>Sizes\<close>

lemma length_encode_intervals [simp]: "length (encode_intervals ivs) = 16 * length ivs"
  by (induction ivs) (auto simp: store_shape)

lemma is_bytes_encode_intervals [simp]: "is_bytes (encode_intervals ivs)"
  by (induction ivs) (auto simp: store_shape)

definition sid_length :: "gtid_set \<Rightarrow> nat \<Rightarrow> nat" where
  "sid_length gs k = (if contains_sidno gs k then 24 + 16 * length (ivs_of gs k) else 0)"

lemma encode_sids_length:
  assumes "\<forall>k \<in> set ks. is_uuid (sidno_to_sid m k)"
  shows "length (snd (encode_sids m gs ks)) = (\<Sum>k \<leftarrow> ks. sid_length gs k)
    \<and> fst (encode_sids m gs ks) = int (length (filter (contains_sidno gs) ks))"
  using assms
  by (induction ks)
    (auto simp: Let_def sid_length_def contains_sidno_def copy_to_def is_uuid_def BYTE_LENGTH_def
      store_shape split: prod.splits)

text \<open>The size conditions under which an encoding is exact: the GNOs fit their fields, SIDNOs are \<open>int\<close>,
  and the bytes of each SID, 24 and 16 for each interval, can be computed in \<open>int\<close>.\<close>

definition encodable :: "gtid_set \<Rightarrow> bool" where
  "encodable gs \<longleftrightarrow>
     (\<forall>ivs \<in> set (m_intervals gs). last_end 0 ivs < 2 ^ 63 \<and> 24 + 16 * length ivs < 2 ^ 31)
     \<and> get_max_sidno gs < 2 ^ 31"

lemma n_intervals_loop: "0 \<le> ret \<Longrightarrow> ret + int (length ivs) < 2 ^ 31 \<Longrightarrow> n_intervals_loop ivs ret = ret + int (length ivs)"
  by (induction ivs arbitrary: ret) (auto simp: s32_id)

lemma encodable_ivs:
  assumes "encodable gs" "contains_sidno gs k" "1 \<le> k"
  shows "last_end 0 (ivs_of gs k) < 2 ^ 63" "24 + 16 * length (ivs_of gs k) < 2 ^ 31"
proof -
  have "ivs_of gs k \<in> set (m_intervals gs)"
    using assms(2,3) by (auto simp: ivs_of_def contains_sidno_def get_max_sidno_def split: if_splits)
  then show "last_end 0 (ivs_of gs k) < 2 ^ 63" "24 + 16 * length (ivs_of gs k) < 2 ^ 31"
    using assms(1) by (auto simp: encodable_def)
qed

lemma sid_length_bound:
  assumes "encodable gs" "1 \<le> k"
  shows "sid_length gs k < 2 ^ 31"
  using encodable_ivs(2) [OF assms(1) _ assms(2)] by (simp add: sid_length_def)

lemma encoded_sid_length:
  assumes "encodable gs" "contains_sidno gs k" "1 \<le> k"
  shows "u64 (s32 (16 + 8 + s32 (2 * 8 * get_n_intervals gs k))) = int (sid_length gs k)"
proof -
  have l: "24 + 16 * int (length (ivs_of gs k)) < 2 ^ 31"
    using encodable_ivs(2) [OF assms] by simp
  then have "get_n_intervals gs k = int (length (ivs_of gs k))"
    by (simp add: get_n_intervals_def n_intervals_loop)
  then show ?thesis
    using l assms(2) by (simp add: sid_length_def s32_id u64_id)
qed

lemma encoded_length_loop:
  assumes "encodable gs" "\<forall>k \<in> set ks. 1 \<le> k" "0 \<le> ret" "ret + 2 ^ 31 * int (length ks) < 2 ^ 64"
  shows "encoded_length_loop gs ks ret = ret + int (\<Sum>k \<leftarrow> ks. sid_length gs k)"
  using assms(2-4)
proof (induction ks arbitrary: ret)
  case (Cons k ks)
  have b: "int (sid_length gs k) < 2 ^ 31"
    using sid_length_bound [OF assms(1), of k] Cons.prems(1) by simp
  have r: "ret + 2 ^ 31 + 2 ^ 31 * int (length ks) < 2 ^ 64"
    using Cons.prems(3) by (simp add: algebra_simps)
  have "(if contains_sidno gs k then u64 (ret + u64 (s32 (16 + 8 + s32 (2 * 8 * get_n_intervals gs k)))) else ret)
      = ret + int (sid_length gs k)"
  proof (cases "contains_sidno gs k")
    case True
    then show ?thesis
      using encoded_sid_length [OF assms(1) True] Cons.prems(1,2) b r by (simp add: u64_id)
  qed (simp add: sid_length_def)
  then show ?case
    using Cons.IH [of "ret + int (sid_length gs k)"] Cons.prems(1,2) b r by simp
qed simp

lemma get_encoded_length_eq:
  assumes "encodable gs"
  shows "get_encoded_length gs = 8 + int (\<Sum>k \<leftarrow> sidnos (get_max_sidno gs). sid_length gs k)"
proof -
  have "length (sidnos (get_max_sidno gs)) = get_max_sidno gs"
    by (simp add: sidnos_def)
  then show ?thesis
    using encoded_length_loop [OF assms, of "sidnos (get_max_sidno gs)" 8] assms
    by (simp add: get_encoded_length_def encodable_def)
qed

text \<open>One more interval, and the \<open>int\<close> overflows: the length announced is no length of a buffer.\<close>

lemma encoded_length_overflow:
  assumes "get_max_sidno gs = 1" "length (ivs_of gs 1) = 2 ^ 27 - 1"
  shows "get_encoded_length gs = 2 ^ 64 - 2 ^ 31 + 16"
proof -
  have "contains_sidno gs 1" "get_n_intervals gs 1 = 2 ^ 27 - 1"
    using assms by (auto simp: contains_sidno_def get_n_intervals_def n_intervals_loop)
  then show ?thesis
    using assms(1) by (simp add: get_encoded_length_def sidnos_def s32_def u64_def)
qed

lemma sid_length_unused: "\<not> contains_sidno gs k \<Longrightarrow> sid_length gs k = 0"
  by (simp add: sid_length_def)

lemma sum_list_sidnos:
  fixes f :: "nat \<Rightarrow> 'a :: comm_monoid_add"
  assumes "gs_wf m gs" "\<And>k. \<not> contains_sidno gs k \<Longrightarrow> f k = 0"
  shows "(\<Sum>k \<leftarrow> sorted_arr m. f k) = (\<Sum>k \<leftarrow> sidnos (get_max_sidno gs). f k)"
proof -
  have m: "set (sorted_arr m) = {1..map_max_sidno m}" "distinct (sorted_arr m)"
    "get_max_sidno gs \<le> map_max_sidno m"
    using assms(1) by (auto simp: gs_wf_def sid_map_inv_def map_max_sidno_def intro: card_distinct)
  have "(\<Sum>k \<leftarrow> sorted_arr m. f k) = (\<Sum>k \<in> {1..map_max_sidno m}. f k)"
    using m by (simp add: sum_list_distinct_conv_sum_set)
  also have "\<dots> = (\<Sum>k \<in> {1..get_max_sidno gs}. f k)"
    using m(3) assms(2) by (intro sum.mono_neutral_right) (auto simp: contains_sidno_def)
  also have "\<dots> = (\<Sum>k \<leftarrow> sidnos (get_max_sidno gs). f k)"
    by (simp add: sum_list_distinct_conv_sum_set)
  finally show ?thesis .
qed

lemma length_gs_encode:
  assumes "gs_wf m gs" "encodable gs"
  shows "int (length (gs_encode m gs)) = get_encoded_length gs"
proof -
  have "\<forall>k \<in> set (sorted_arr m). is_uuid (sidno_to_sid m k)"
    using assms sid_to_sidno_inv(3) [of m]
    by (simp add: gs_wf_def sid_map_inv_def map_max_sidno_def)
  from encode_sids_length [OF this, of gs] show ?thesis
    by (simp add: gs_encode_def get_encoded_length_eq [OF assms(2)] sum_list_sidnos [OF assms(1) sid_length_unused] store_shape
        case_prod_unfold Let_def)
qed

section \<open>Decoding what was encoded\<close>

lemma ivs_ok_before:
  "ivs_ok lo (pre @ iv # post) \<Longrightarrow> a \<in> set pre \<Longrightarrow> iv_end a < iv_start iv"
  using ends_below [of lo pre a] by auto

lemma reposition_ok:
  assumes "ivs_ok 0 (ivit_list it)"
  shows "\<exists>pre post. reposition it s = (pre, post) \<and> pre @ post = ivit_list it
    \<and> (\<forall>iv \<in> set pre. iv_end iv < s)"
proof (cases it)
  case (Pair pre post)
  then show ?thesis
    using assms ivs_ok_before [of 0 pre]
    by (cases post) (force simp: reposition_def)+
qed

lemma sint8korr_append: "- (2 ^ 63) \<le> a \<Longrightarrow> a < 2 ^ 63 \<Longrightarrow> sint8korr (int8store a @ rest) = a"
  using s_mod(1) [of a] s64_id [of a] by (simp add: sint8korr_def korr_append)

lemma decode_intervals_encode:
  assumes "ivs_ok lo os" "0 \<le> lo" "last_end lo os < 2 ^ 63" "ivs_ok 0 (ivit_list it)"
    "n = i + int (length os)" "0 \<le> i" "n < 2 ^ 32"
  shows "\<exists>it'. decode_intervals n i lo it (encode_intervals os @ rest) = (Decode_ok, it', rest)
    \<and> ivs_ok 0 (ivit_list it') \<and> gnos (ivit_list it') = gnos (ivit_list it) \<union> gnos os"
  using assms
proof (induction os arbitrary: i lo it)
  case Nil
  then show ?case by (simp add: decode_intervals.simps)
next
  case (Cons a os)
  have a: "lo < iv_start a" "iv_start a < iv_end a" "ivs_ok (iv_end a) os" "0 \<le> iv_end a"
    "last_end (iv_end a) os < 2 ^ 63" "0 < iv_start a" using Cons.prems by simp_all
  have e63: "iv_end a < 2 ^ 63" using last_end_ge [OF a(3)] a(5) by linarith
  obtain pre post where r: "reposition it (iv_start a) = (pre, post)" "pre @ post = ivit_list it"
    "\<forall>iv \<in> set pre. iv_end iv < iv_start a" using reposition_ok [OF Cons.prems(4)] by blast
  have "ivs_ok 0 (pre @ post)" using r(2) Cons.prems(4) by simp
  from add_gno_interval_correct [OF this r(3) a(6,2)] obtain it1 where
    ai: "add_gno_interval (pre, post) (iv_start a) (iv_end a) = it1" "ivs_ok 0 (ivit_list it1)"
    "gnos (ivit_list it1) = gnos (ivit_list it) \<union> {iv_start a..<iv_end a}" using r(2) by auto
  let ?bs = "int8store (iv_start a) @ int8store (iv_end a) @ encode_intervals os @ rest"
  have k: "sint8korr ?bs = iv_start a" "sint8korr (drop 8 ?bs) = iv_end a"
    "drop 8 (drop 8 ?bs) = encode_intervals os @ rest" "\<not> length ?bs < 16"
    using a e63 by (simp_all add: sint8korr_append store_shape)
  have i: "i < n" "u32 (i + 1) = i + 1" "n = (i + 1) + int (length os)" "0 \<le> i + 1"
    using Cons.prems(5-7) by (auto simp: u32_id)
  have "decode_intervals n i lo it (encode_intervals (a # os) @ rest)
      = decode_intervals n (i + 1) (iv_end a) it1 (encode_intervals os @ rest)"
    using k a(1,2) r(1) ai(1) i(1,2) by (subst decode_intervals.simps) (simp del: drop_append drop_drop add: Let_def)
  with Cons.IH [OF a(3,4,5) ai(2) i(3,4) Cons.prems(7)] ai(3) show ?case by (auto simp: Un_assoc)
qed

lemma decode_one_sid:
  assumes "ivs_ok 0 (ivs_of gs1 n)" "ivs_ok 0 os" "os \<noteq> []" "last_end 0 os < 2 ^ 63" "24 + 16 * length os < 2 ^ 31"
  shows "\<exists>it. decode_intervals (int (length os)) 0 0 (ivit_init (ivs_of gs1 n)) (encode_intervals os @ rest)
      = (Decode_ok, it, rest) \<and> store_added n it gs1 = gs_add_gno_intervals n os gs1"
proof -
  have o: "ivs_ok 0 (ivit_list (ivit_init (ivs_of gs1 n)))" using assms(1) by simp
  obtain it where it: "decode_intervals (int (length os)) 0 0 (ivit_init (ivs_of gs1 n))
      (encode_intervals os @ rest) = (Decode_ok, it, rest)" "ivs_ok 0 (ivit_list it)"
    "gnos (ivit_list it) = gnos (ivs_of gs1 n) \<union> gnos os"
    using decode_intervals_encode [OF assms(2) order_refl assms(4) o, of "int (length os)" 0 rest] assms(5)
    unfolding ivit_list_simps(2) by auto
  note a = add_gno_intervals_correct [of "[]" "ivs_of gs1 n" 0 os]
  have "ivit_list it = ivit_list (add_gno_intervals (ivit_init (ivs_of gs1 n)) os)"
    using a assms it(2,3) by (intro gnos_inj [of 0 _ 0]) auto
  then have "store_added n it gs1 = gs_add_gno_intervals n os gs1"
    using assms(3) by (simp add: store_added_def gs_add_gno_intervals_def)
  with it(1) show ?thesis by blast
qed

lemma decode_sids_skip:
  "\<not> contains_sidno gs k \<Longrightarrow> encode_sids m gs (k # ks) = encode_sids m gs ks"
  by (auto simp: contains_sidno_def Let_def split: prod.splits if_splits)

lemma decode_sids_step:
  assumes "gs_wf tm t" "is_uuid sid" "alloc_ok e" "resize_ok e" "ivs_ok 0 os" "os \<noteq> []"
    "last_end 0 os < 2 ^ 63" "24 + 16 * length os < 2 ^ 31" "0 \<le> i" "i < n" "n < 2 ^ 32"
  shows "\<exists>t' tm'. decode_sids e n i t tm
        (copy_to sid @ int8store (int (length os)) @ encode_intervals os @ rest)
      = decode_sids e n (i + 1) t' tm' rest
    \<and> gs_wf tm' t' \<and> sid_gnos tm' t' = (sid_gnos tm t)(sid := sid_gnos tm t sid \<union> gnos os)"
proof -
  let ?bs = "copy_to sid @ int8store (int (length os)) @ encode_intervals os @ rest"
  have l16: "length sid = 16" using assms(2) by (simp add: is_uuid_def BYTE_LENGTH_def)
  have c: "copy_to sid = sid" "copy_from ?bs = sid" "drop 16 ?bs = int8store (int (length os))
      @ encode_intervals os @ rest" "\<not> length ?bs < 16 + 8"
    using l16 by (simp_all add: copy_to_def copy_from_def BYTE_LENGTH_def store_shape)
  have i: "u32 (i + 1) = i + 1" using assms(9-11) by (simp add: u32_id)
  have small: "int (length os) < 2 ^ 31" using assms(8) by simp
  then have len: "uint8korr (int8store (int (length os)) @ encode_intervals os @ rest) = int (length os)"
    by (simp add: korr_append)
  have mul: "u64 (2 * 8 * int (length os)) = 16 * int (length os)"
    using small by (simp add: u64_def)
  obtain k m1 gs1 where s: "add_sid e sid tm = (Some k, m1)" "ensure_sidno e k t = (RETURN_STATUS_OK, gs1)"
    "gs_wf m1 (gs_add_gno_intervals k os gs1)"
    "sid_gnos m1 (gs_add_gno_intervals k os gs1) = (sid_gnos tm t)(sid := sid_gnos tm t sid \<union> gnos os)"
    using add_other_step [OF assms(1-5)] by blast
  have g1: "gs_inv gs1" "k \<le> get_max_sidno gs1"
    using ensure_sidno_correct(2,4) [OF assms(3), where k = k and gs = t] s(2) assms(1)
    by (auto simp: gs_wf_def)
  have k1: "1 \<le> k"
    using add_sid_ok(1,2) [OF _ assms(2-4), of tm] assms(1) s(1) sid_map_inv_hash [of m1 sid k]
    by (auto simp: gs_wf_def)
  obtain it where it: "decode_intervals (int (length os)) 0 0 (ivit_init (ivs_of gs1 k))
      (encode_intervals os @ rest) = (Decode_ok, it, rest)"
    "store_added k it gs1 = gs_add_gno_intervals k os gs1"
    using decode_one_sid [OF gs_inv_ivs [OF g1(1) k1 g1(2)] assms(5-8), of rest] by blast
  have "decode_sids e n i t tm ?bs = decode_sids e n (i + 1) (gs_add_gno_intervals k os gs1) m1 rest"
    using c s(1,2) len mul it assms(6,10) i
    by (subst decode_sids.simps) (simp add: Let_def store_shape del: append_assoc)
  then show ?thesis using s(3,4) by auto
qed

lemma encode_sids_nonneg: "0 \<le> fst (encode_sids m gs ks)"
  by (induction ks) (auto simp: Let_def split: prod.splits)

lemma decode_sids_encode:
  assumes "gs_wf m gs" "encodable gs" "alloc_ok e" "resize_ok e"
    "\<forall>k \<in> set ks. 1 \<le> k \<and> k \<le> map_max_sidno m" "gs_wf tm t"
    "n = i + fst (encode_sids m gs ks)" "0 \<le> i" "n < 2 ^ 32"
  shows "\<exists>t' tm'. decode_sids e n i t tm (snd (encode_sids m gs ks) @ rest) = (Decode_ok, t', tm', rest) \<and> gs_wf tm' t'
    \<and> (\<forall>u. sid_gnos tm' t' u
            = sid_gnos tm t u \<union> (\<Union>k \<in> {k \<in> set ks. sidno_to_sid m k = u}. gnos_at gs k))"
  using assms(5-8)
proof (induction ks arbitrary: i t tm)
  case Nil
  then show ?case by (simp add: decode_sids.simps)
next
  case (Cons k ks)
  have k: "1 \<le> k" "k \<le> map_max_sidno m" and ks: "\<forall>k \<in> set ks. 1 \<le> k \<and> k \<le> map_max_sidno m"
    using Cons.prems(1) by auto
  have mi: "sid_map_inv m" "gs_inv gs" using assms(1) by (simp_all add: gs_wf_def)
  let ?rest = "\<lambda>u. \<Union>k \<in> {k \<in> set ks. sidno_to_sid m k = u}. gnos_at gs k"
  have split: "(\<Union>k \<in> {k' \<in> set (k # ks). sidno_to_sid m k' = u}. gnos_at gs k)
    = (if sidno_to_sid m k = u then gnos_at gs k else {}) \<union> ?rest u" for u by auto
  show ?case
  proof (cases "contains_sidno gs k")
    case False
    have "gnos_at gs k = {}" using False by (auto simp: contains_sidno_def gnos_at_def split: if_splits)
    with Cons.IH [OF ks Cons.prems(2)] Cons.prems(3,4) decode_sids_skip [OF False, of m ks] show ?thesis
      unfolding split by simp
  next
    case True
    have kg: "k \<le> get_max_sidno gs" and ne: "ivs_of gs k \<noteq> []"
      using True by (auto simp: contains_sidno_def split: if_splits)
    note sz = encodable_ivs [OF assms(2) True k(1)]
    have io: "ivs_ok 0 (ivs_of gs k)" by (rule gs_inv_ivs [OF mi(2) k(1) kg])
    have g: "gnos_at gs k = gnos (ivs_of gs k)" using k(1) kg by (simp add: gnos_at_def)
    have u: "is_uuid (sidno_to_sid m k)" by (rule sid_to_sidno_inv(3) [OF mi(1) k])
    obtain l buf where nb: "encode_sids m gs ks = (l, buf)" by (cases "encode_sids m gs ks")
    have n0: "0 \<le> l" using nb by (metis encode_sids_nonneg fst_conv)
    have enc: "encode_sids m gs (k # ks) = (l + 1, copy_to (sidno_to_sid m k)
        @ int8store (int (length (ivs_of gs k))) @ encode_intervals (ivs_of gs k) @ buf)"
      using nb kg ne by simp
    have i: "i < n" "n = (i + 1) + fst (encode_sids m gs ks)" "0 \<le> i + 1"
      using Cons.prems(3,4) n0 nb enc by auto
    obtain t1 tm1 where s: "decode_sids e n i t tm (copy_to (sidno_to_sid m k)
          @ int8store (int (length (ivs_of gs k))) @ encode_intervals (ivs_of gs k) @ buf @ rest)
        = decode_sids e n (i + 1) t1 tm1 (buf @ rest)" "gs_wf tm1 t1"
      "sid_gnos tm1 t1 = (sid_gnos tm t)(sidno_to_sid m k := sid_gnos tm t (sidno_to_sid m k)
         \<union> gnos (ivs_of gs k))"
      using decode_sids_step [OF Cons.prems(2) u assms(3,4) io ne sz Cons.prems(4) i(1) assms(9), of "buf @ rest"] by blast
    from Cons.IH [OF ks s(2) i(2,3)] s(1,3) show ?thesis
      unfolding split enc nb snd_conv append_assoc by (auto simp: g)
  qed
qed

lemma used_count:
  assumes "gs_wf m gs"
  shows "fst (encode_sids m gs (sorted_arr m)) \<le> int (get_max_sidno gs)"
proof -
  have m: "set (sorted_arr m) = {1..map_max_sidno m}" "length (sorted_arr m) = map_max_sidno m"
    using assms by (auto simp: gs_wf_def sid_map_inv_def map_max_sidno_def)
  then have "distinct (sorted_arr m)" by (auto intro: card_distinct)
  then have d: "distinct (filter (contains_sidno gs) (sorted_arr m))" by simp
  have "set (filter (contains_sidno gs) (sorted_arr m)) \<subseteq> {1..get_max_sidno gs}"
    using m(1) by (auto simp: contains_sidno_def split: if_splits)
  from card_mono [OF _ this] distinct_card [OF d]
  have "length (filter (contains_sidno gs) (sorted_arr m)) \<le> get_max_sidno gs" by simp
  moreover have "\<forall>k \<in> set (sorted_arr m). is_uuid (sidno_to_sid m k)"
    using assms m sid_to_sidno_inv(3) [of m] by (simp add: gs_wf_def)
  ultimately show ?thesis using encode_sids_length by simp
qed

section \<open>Properties\<close>

text \<open>C20. An encoded set has the announced length, and decoding it succeeds, uses all its bytes
  and adds exactly its transactions to the set decoded into, whose map may be another one. This holds for
  sets in which no SID has so many intervals that \<open>get_encoded_length\<close>, which computes in \<open>int\<close>, overflows:
  up to 134217726 intervals for each SID.\<close>

theorem gtid_encoding_roundtrip:
  assumes "gs_wf m gs" "encodable gs" "gs_wf tm t" "alloc_ok e" "resize_ok e"
  shows "int (length (gs_encode m gs)) = get_encoded_length gs
    \<and> (\<exists>t' tm'. add_gtid_encoding e (gs_encode m gs) True t tm
          = (Decode_ok, t', tm', length (gs_encode m gs)) \<and> gs_wf tm' t'
        \<and> (\<forall>u g. has_gtid tm' t' u g \<longleftrightarrow> has_gtid tm t u g \<or> has_gtid m gs u g))"
proof
  show "int (length (gs_encode m gs)) = get_encoded_length gs" by (rule length_gs_encode [OF assms(1,2)])
  obtain n buf where nb: "encode_sids m gs (sorted_arr m) = (n, buf)"
    by (cases "encode_sids m gs (sorted_arr m)")
  have m: "sid_map_inv m" "get_max_sidno gs \<le> map_max_sidno m"
    "set (sorted_arr m) = {1..map_max_sidno m}"
    using assms(1) by (auto simp: gs_wf_def sid_map_inv_def map_max_sidno_def)
  have enc: "gs_encode m gs = int8store n @ buf" using nb by (simp add: gs_encode_def)
  have n: "0 \<le> n" "n < 2 ^ 32"
    using encode_sids_nonneg [of m gs "sorted_arr m"] used_count [OF assms(1)] assms(2) nb
    by (auto simp: encodable_def)
  then have len: "uint8korr (int8store n @ buf) = n" by (simp add: korr_append)
  have "\<forall>k \<in> set (sorted_arr m). 1 \<le> k \<and> k \<le> map_max_sidno m" using m(3) by simp
  from decode_sids_encode [OF assms(1,2,4,5) this assms(3), of n 0 "[]"] n(2) obtain t' tm' where
    d: "decode_sids e n 0 t tm buf = (Decode_ok, t', tm', [])" "gs_wf tm' t'"
    "\<And>u. sid_gnos tm' t' u = sid_gnos tm t u
       \<union> (\<Union>k \<in> {k \<in> set (sorted_arr m). sidno_to_sid m k = u}. gnos_at gs k)"
    unfolding nb by auto
  have "(\<Union>k \<in> {k \<in> set (sorted_arr m). sidno_to_sid m k = u}. gnos_at gs k) = sid_gnos m gs u" for u
  proof -
    have "gnos_at gs k = {}" if "k \<notin> set (sidnos (get_max_sidno gs))" for k
      using that by (auto simp: gnos_at_def)
    then show ?thesis
      unfolding sid_gnos_union [OF m(1,2), symmetric] m(3) using m(2) by fastforce
  qed
  with d(3) have "\<forall>u. sid_gnos tm' t' u = sid_gnos tm t u \<union> sid_gnos m gs u" by simp
  moreover have "add_gtid_encoding e (gs_encode m gs) True t tm
      = (Decode_ok, t', tm', length (gs_encode m gs))"
    unfolding enc using d(1) len by (simp add: add_gtid_encoding_def store_shape)
  ultimately show "\<exists>t' tm'. add_gtid_encoding e (gs_encode m gs) True t tm
        = (Decode_ok, t', tm', length (gs_encode m gs)) \<and> gs_wf tm' t'
      \<and> (\<forall>u g. has_gtid tm' t' u g \<longleftrightarrow> has_gtid tm t u g \<or> has_gtid m gs u g)"
    using d(2) assms(1,3) by (auto simp: has_gtid_iff gs_wf_def)
qed

theorem gtid_encoding_roundtrip_witness:
  "\<exists>t' tm'. add_gtid_encoding sample_env (gs_encode sample_map (sample_set 0 3 9)) True
       (new_gtid_set (Some 1)) new_sid_map
     = (Decode_ok, t', tm', length (gs_encode sample_map (sample_set 0 3 9)))
     \<and> has_gtid tm' t' uuid_clear 8"
proof -
  have w: "gs_wf sample_map (sample_set 0 3 9)" by (simp add: sample_wf)
  have "gs_wf new_sid_map (new_gtid_set (Some 1))"
    by (simp add: gs_wf_def sid_map_inv_new)
  moreover have "encodable (sample_set 0 3 9)"
    by (simp add: encodable_def sample_simps) (simp add: sample_set_def)
  moreover have "has_gtid sample_map (sample_set 0 3 9) uuid_clear 8"
    using w by (simp add: has_gtid_iff gs_wf_def sample_simps)
  ultimately show ?thesis
    using gtid_encoding_roundtrip [OF w, of new_sid_map "new_gtid_set (Some 1)" sample_env]
    by (auto simp: sample_simps)
qed

lemma decode_intervals_short:
  "i < n \<Longrightarrow> length bs < 16 \<Longrightarrow> decode_intervals n i prev ivit bs = (Decode_out_of_bounds, ivit, bs)"
  by (simp add: decode_intervals.simps)

text \<open>C39. The decoder's bound on the number of intervals is computed in 64 bits: an encoding that
  announces 2 to the 60 intervals and ends there passes the check, and the next read is
  beyond the buffer.\<close>

theorem interval_count_overflow:
  assumes "gs_wf m gs" "is_uuid u" "alloc_ok e" "resize_ok e"
  shows "fst (add_gtid_encoding e (int8store 1 @ u @ int8store (2 ^ 60)) True gs m)
    = Decode_out_of_bounds"
proof -
  have l: "length u = 16" using assms(2) by (simp add: is_uuid_def BYTE_LENGTH_def)
  obtain k m1 gs1 where s: "add_sid e u m = (Some k, m1)" "ensure_sidno e k gs = (RETURN_STATUS_OK, gs1)"
    using add_other_step [OF assms, of "[]"] by auto
  have "uint8korr (int8store (2 ^ 60)) = 2 ^ 60" "uint8korr (int8store 1 @ u @ int8store (2 ^ 60)) = 1"
    by (simp_all add: korr_store korr_append)
  moreover have "decode_intervals (2 ^ 60) 0 0 it [] = (Decode_out_of_bounds, it, [])" for it
    by (rule decode_intervals_short) simp_all
  ultimately show ?thesis
    using s l by (simp add: add_gtid_encoding_def decode_sids.simps store_shape copy_from_def BYTE_LENGTH_def u64_def)
qed

theorem interval_count_overflow_witness:
  "fst (add_gtid_encoding sample_env (int8store 1 @ uuid_clear @ int8store (2 ^ 60)) True
       (new_gtid_set (Some 1)) new_sid_map) = Decode_out_of_bounds"
proof -
  have "gs_wf new_sid_map (new_gtid_set (Some 1))" by (simp add: gs_wf_def sid_map_inv_new)
  moreover have "is_uuid uuid_clear"
    by (simp add: is_uuid_def uuid_clear_def BYTE_LENGTH_def is_bytes_def)
  ultimately show ?thesis using interval_count_overflow by (simp only: sample_simps)
qed

end
