(* ===== verification/Integer_Text.thy ===== *)
theory Integer_Text
  imports Prelude
begin

text \<open>
  Integers in text: the digit writers of \<open>include/integer_digits.h\<close>, the conversions of
  \<open>strings/int2str.cc\<close>, and the decimal parser \<open>my_strtoll10\<close> of
  \<open>strings/my_strtoll10.cc\<close>, which reads a number in chunks of nine digits.
\<close>

section \<open>Writing digits\<close>

definition digit_char :: "int \<Rightarrow> char" where
  "digit_char d = char_of (48 + d)"

definition write_two_digits :: "int \<Rightarrow> string" where
  "write_two_digits v = [digit_char (v div 10), digit_char (v mod 10)]"

text \<open>The binary search of \<open>DigitCounter\<close>, unrolled at compile time in the source.\<close>

function digit_counter :: "int \<Rightarrow> nat \<Rightarrow> nat \<Rightarrow> nat" where
  "digit_counter x min_digits max_digits =
     (if min_digits \<ge> max_digits then min_digits
      else let mid = (min_digits + max_digits) div 2 in
      if x < 10 ^ mid then digit_counter x min_digits mid
      else digit_counter x (mid + 1) max_digits)"
  by pat_completeness auto

termination
  by (relation "measure (\<lambda>(x, a, b). b - a)") auto

definition count_digits :: "int \<Rightarrow> nat" where
  "count_digits x = digit_counter x 1 20"

fun write_pairs :: "nat \<Rightarrow> int \<Rightarrow> string" where
  "write_pairs 0 number = []"
| "write_pairs (Suc n) number = write_pairs n (number div 100) @ write_two_digits (number mod 100)"

definition write_digits :: "int \<Rightarrow> nat \<Rightarrow> string" where
  "write_digits number digits =
     (if digits mod 2 \<noteq> 0
      then write_pairs (digits div 2) (number div 10) @ [digit_char (number mod 10)]
      else write_pairs (digits div 2) number)"

definition longlong10_to_str :: "int \<Rightarrow> int \<Rightarrow> string" where
  "longlong10_to_str val radix =
     (let uval = u64 val in
      if radix < 0 \<and> val < 0
      then let uval = u64 (0 - uval) in CHR ''-'' # write_digits uval (count_digits uval)
      else write_digits uval (count_digits uval))"

definition dig_vec_upper :: string where
  "dig_vec_upper = ''0123456789ABCDEFGHIJKLMNOPQRSTUVWXYZ''"

definition dig_vec_lower :: string where
  "dig_vec_lower = ''0123456789abcdefghijklmnopqrstuvwxyz''"

text \<open>The loop of \<open>ll2str\<close>; at most 64 digits, one for each halving of the value.\<close>

function radix_digits :: "string \<Rightarrow> int \<Rightarrow> int \<Rightarrow> string" where
  "radix_digits dig_vec radix uval =
     (let digit = dig_vec ! nat (uval mod radix); uval' = uval div radix in
      if radix < 2 \<or> uval' \<le> 0 then [digit] else radix_digits dig_vec radix uval' @ [digit])"
  by pat_completeness auto

termination
proof (relation "measure (\<lambda>(d, r, u). nat u)")
  fix d :: string and r u w :: int and x
  assume "w = u div r" "\<not> (r < 2 \<or> w \<le> 0)"
  then have "r \<le> u" "1 < r" using pos_imp_zdiv_pos_iff [of r u] by simp_all
  then have "u div r < u" by (intro int_div_less_self) auto
  then show "((d, r, w), (d, r, u)) \<in> measure (\<lambda>(d, r, u). nat u)"
    using \<open>r \<le> u\<close> \<open>1 < r\<close> \<open>w = u div r\<close> by simp
qed simp

definition ll2str :: "int \<Rightarrow> int \<Rightarrow> bool \<Rightarrow> string option" where
  "ll2str val radix upcase =
     (let dig_vec = (if upcase then dig_vec_upper else dig_vec_lower);
          uval = u64 val in
      if radix < 0 then
        if radix < -36 \<or> radix > -2 then None
        else if val < 0
          then Some (CHR ''-'' # radix_digits dig_vec (- radix) (u64 (0 - uval)))
          else Some (radix_digits dig_vec (- radix) uval)
      else if radix > 36 \<or> radix < 2 then None
      else Some (radix_digits dig_vec radix uval))"

section \<open>Reading a decimal number\<close>

definition MAX_NEGATIVE_NUMBER :: int where "MAX_NEGATIVE_NUMBER = 2 ^ 63"
definition ULLONG_MAX :: int where "ULLONG_MAX = 2 ^ 64 - 1"
definition LLONG_MIN :: int where "LLONG_MIN = - (2 ^ 63)"
definition LFACTOR :: int where "LFACTOR = 1000000000"
definition LFACTOR1 :: int where "LFACTOR1 = 10000000000"
definition LFACTOR2 :: int where "LFACTOR2 = 100000000000"

datatype strtoll_error = Strtoll_ok | Strtoll_negative | MY_ERRNO_ERANGE | MY_ERRNO_EDOM

text \<open>
  \<open>(c = (*s - '0')) > 9\<close> with \<open>c\<close> an \<open>uchar\<close>: the value of a digit, more than 9 for
  any other character.
\<close>

definition digit_of :: "char \<Rightarrow> int" where
  "digit_of c = u8 (of_char c - 48)"

text \<open>
  Read at most \<open>n\<close> digits into an accumulator, stopping at another character or at the end:
  the accumulator, the number of digits read and the rest.
\<close>

fun collect :: "nat \<Rightarrow> int \<Rightarrow> string \<Rightarrow> int \<times> nat \<times> string" where
  "collect 0 acc s = (acc, 0, s)"
| "collect (Suc n) acc [] = (acc, 0, [])"
| "collect (Suc n) acc (c # s) =
     (if digit_of c > 9 then (acc, 0, c # s)
      else let (a, k, r) = collect n (acc * 10 + digit_of c) s in (a, Suc k, r))"

text \<open>The labels \<open>end_i\<close> to \<open>end4\<close> and \<open>overflow\<close>: value, rest and error.\<close>

definition strtoll_end :: "bool \<Rightarrow> int \<Rightarrow> string \<Rightarrow> int \<times> string \<times> strtoll_error" where
  "strtoll_end negative li s =
     (if negative then s64 (- s64 li) else s64 li, s,
      if negative then Strtoll_negative else Strtoll_ok)"

definition strtoll_overflow :: "bool \<Rightarrow> string \<Rightarrow> int \<times> string \<times> strtoll_error" where
  "strtoll_overflow negative s =
     (if negative then LLONG_MIN else s64 ULLONG_MAX, s, MY_ERRNO_ERANGE)"

text \<open>After the first nine digits \<open>i\<close> and the next nine \<open>j\<close>: one or two more.\<close>

definition strtoll_last :: "bool \<Rightarrow> int \<Rightarrow> int \<Rightarrow> string \<Rightarrow> int \<times> string \<times> strtoll_error" where
  "strtoll_last negative i j s =
     (case s of
        [] \<Rightarrow> strtoll_end negative (u64 (i * LFACTOR + j)) s
      | c # s1 \<Rightarrow>
          if digit_of c > 9 then strtoll_end negative (u64 (i * LFACTOR + j)) s
          else let k = digit_of c in
          if s1 = [] \<or> digit_of (hd s1) > 9 then
            let li = u64 (i * LFACTOR1 + j * 10 + k) in
            if negative \<and> li > MAX_NEGATIVE_NUMBER then strtoll_overflow negative s1
            else if negative \<and> li = MAX_NEGATIVE_NUMBER then (LLONG_MIN, s1, Strtoll_negative)
            else strtoll_end negative li s1
          else
            let k = k * 10 + digit_of (hd s1); s2 = tl s1;
                limit = (if negative then MAX_NEGATIVE_NUMBER else ULLONG_MAX);
                cutoff = limit div LFACTOR2; cutoff2 = limit mod LFACTOR2 div 100;
                cutoff3 = limit mod 100 in
            if s2 \<noteq> [] \<and> digit_of (hd s2) \<le> 9 then strtoll_overflow negative s2
            else if i > cutoff \<or> i = cutoff \<and> (j > cutoff2 \<or> j = cutoff2 \<and> k > cutoff3)
              then strtoll_overflow negative s2
            else (s64 (u64 (i * LFACTOR2 + j * 100 + k)), s2,
                  if negative then Strtoll_negative else Strtoll_ok))"

text \<open>The second group of digits; \<open>limit\<close> is what is left of the first nine.\<close>

definition strtoll_groups :: "bool \<Rightarrow> int \<Rightarrow> nat \<Rightarrow> string \<Rightarrow> int \<times> string \<times> strtoll_error" where
  "strtoll_groups negative i limit s =
     (let (i, n, s1) = collect limit i s in
      if n < limit \<or> s1 = [] then strtoll_end negative i s1
      else let (j, n2, s2) = collect 9 0 s1 in
      if n2 < 9 then strtoll_end negative (u64 (i * 10 ^ n2 + j)) s2
      else strtoll_last negative i j s2)"

text \<open>What follows the sign, which is at least one character before the end.\<close>

definition strtoll_unsigned ::
  "bool \<Rightarrow> int \<times> string \<times> strtoll_error \<Rightarrow> string \<Rightarrow> int \<times> string \<times> strtoll_error" where
  "strtoll_unsigned negative no_conv s =
     (if s = [] then no_conv
      else if hd s = CHR ''0'' then
        let s = dropWhile (\<lambda>c. c = CHR ''0'') s in
        if s = [] then strtoll_end negative 0 s else strtoll_groups negative 0 9 s
      else if digit_of (hd s) > 9 then no_conv
      else strtoll_groups negative (digit_of (hd s)) 8 (tl s))"

definition my_strtoll10 :: "string \<Rightarrow> int \<times> string \<times> strtoll_error" where
  "my_strtoll10 nptr =
     (let s = dropWhile (\<lambda>c. c = CHR '' '' \<or> c = CHR 0x09) nptr;
          no_conv = (0, nptr, MY_ERRNO_EDOM) in
      case s of
        [] \<Rightarrow> no_conv
      | c # s' \<Rightarrow>
          if c = CHR ''-'' then strtoll_unsigned True no_conv s'
          else if c = CHR ''+'' then strtoll_unsigned False no_conv s'
          else strtoll_unsigned False no_conv s)"

declare digit_counter.simps [simp del] radix_digits.simps [simp del]

section \<open>Decimal values\<close>

abbreviation is_digit :: "char \<Rightarrow> bool" where
  "is_digit c \<equiv> digit_of c \<le> 9"

definition dec_val :: "string \<Rightarrow> int" where
  "dec_val s = foldl (\<lambda>a c. a * 10 + digit_of c) 0 s"

lemma digit_of_nonneg [simp]: "0 \<le> digit_of c"
  by (simp add: digit_of_def u8_def)

lemma digit_of_digit_char: "0 \<le> d \<Longrightarrow> d \<le> 9 \<Longrightarrow> digit_of (digit_char d) = d"
  by (auto simp: digit_of_def digit_char_def u8_def)

lemma of_char_range: "0 \<le> (of_char c :: int)" "(of_char c :: int) < 256"
  using pos_mod_bound [of 256 "of_char c :: int"] pos_mod_sign [of 256 "of_char c :: int"]
  by (simp_all only: of_char_mod_256 zero_less_numeral simp_thms)

lemma digit_of_char: "is_digit c \<Longrightarrow> 48 \<le> (of_char c :: int) \<and> (of_char c :: int) \<le> 57"
proof -
  assume d: "is_digit c"
  show ?thesis
  proof (cases "48 \<le> (of_char c :: int)")
    case True
    then have "digit_of c = of_char c - 48"
      using of_char_range [of c] by (simp add: digit_of_def u8_def)
    then show ?thesis using d True by simp
  next
    case False
    have "digit_of c = (of_char c - 48 + 256) mod 256" unfolding digit_of_def u8_def mod_add_self2 by simp
    also have "\<dots> = of_char c - 48 + 256"
      using of_char_range [of c] False by (intro mod_pos_pos_trivial) auto
    finally show ?thesis using d of_char_range [of c] False by simp
  qed
qed

lemma digit_of_eq_0_iff: "digit_of c = 0 \<longleftrightarrow> c = CHR ''0''"
proof
  have "of_char c < (256::int)" "0 \<le> (of_char c :: int)"
    using pos_mod_bound [of 256 "of_char c :: int"] pos_mod_sign [of 256 "of_char c :: int"]
    by (simp_all only: of_char_mod_256 zero_less_numeral simp_thms)
  moreover assume "digit_of c = 0"
  then obtain k where k: "of_char c - 48 = (256::int) * k" by (auto simp: digit_of_def u8_def)
  ultimately have "k < 1" "-1 < k" by linarith+
  then have "of_char c = (48::int)" using k by simp
  then have "of_char c = (of_char CHR ''0'' :: int)" by simp
  then show "c = CHR ''0''" by (simp only: of_char_eq_iff)
qed (simp add: digit_of_def u8_def)

lemma dec_val_Nil [simp]: "dec_val [] = 0"
  by (simp add: dec_val_def)

lemma dec_val_snoc: "dec_val (s @ [c]) = dec_val s * 10 + digit_of c"
  by (simp add: dec_val_def)

lemma dec_val_append: "dec_val (s @ t) = dec_val s * 10 ^ length t + dec_val t"
  by (induction t rule: rev_induct)
    (simp_all add: dec_val_snoc append_assoc [symmetric] algebra_simps del: append_assoc)

lemma dec_val_single [simp]: "dec_val [c] = digit_of c"
  using dec_val_snoc [of "[]" c] by simp

lemma dec_val_Cons: "dec_val (c # s) = digit_of c * 10 ^ length s + dec_val s"
  using dec_val_append [of "[c]" s] by simp

lemma dec_val_nonneg [simp]: "0 \<le> dec_val s"
  by (induction s) (simp_all add: dec_val_Cons)

lemma dec_val_less: "\<forall>c\<in>set s. is_digit c \<Longrightarrow> dec_val s < 10 ^ length s"
proof (induction s)
  case (Cons c s)
  then have "dec_val s + 1 \<le> 10 ^ length s" "digit_of c * 10 ^ length s \<le> 9 * 10 ^ length s"
    by (auto intro: mult_right_mono)
  then show ?case unfolding dec_val_Cons length_Cons power_Suc by linarith
qed simp

lemma dec_val_ge: "s \<noteq> [] \<Longrightarrow> hd s \<noteq> CHR ''0'' \<Longrightarrow> 10 ^ (length s - 1) \<le> dec_val s"
proof (cases s)
  case (Cons c t)
  assume "s \<noteq> []" "hd s \<noteq> CHR ''0''"
  then have "1 \<le> digit_of c"
    using digit_of_nonneg [of c] digit_of_eq_0_iff [of c] Cons by (simp add: order_less_le int_one_le_iff_zero_less)
  then have "1 * 10 ^ length t \<le> digit_of c * 10 ^ length t" by (intro mult_right_mono) auto
  then show ?thesis using dec_val_nonneg [of t]
    unfolding dec_val_Cons Cons list.size add_Suc_right add_0_right diff_Suc_1 by linarith
qed simp

lemma dec_val_zeros: "dec_val (dropWhile (\<lambda>c. c = CHR ''0'') s) = dec_val s"
  by (induction s) (simp_all add: dec_val_Cons digit_of_eq_0_iff)

section \<open>The digit writers\<close>

lemma digit_counter_correct:
  "1 \<le> lo \<Longrightarrow> lo \<le> hi \<Longrightarrow> (lo = 1 \<or> 10 ^ (lo - 1) \<le> x) \<Longrightarrow> x < 10 ^ hi \<Longrightarrow>
   lo \<le> digit_counter x lo hi \<and> digit_counter x lo hi \<le> hi \<and> x < 10 ^ digit_counter x lo hi \<and>
   (digit_counter x lo hi = 1 \<or> 10 ^ (digit_counter x lo hi - 1) \<le> x)"
proof (induction x lo hi rule: digit_counter.induct)
  case (1 x lo hi)
  show ?case
  proof (cases "lo \<ge> hi")
    case True
    then have "lo = hi" using 1(4) by simp
    moreover from True have "digit_counter x lo hi = lo" by (subst digit_counter.simps) simp
    ultimately show ?thesis using 1(5,6) by simp
  next
    case False
    then have "lo < hi" by simp
    define mid where "mid = (lo + hi) div 2"
    have mid: "lo \<le> mid" "mid < hi" using \<open>lo < hi\<close> by (simp_all add: mid_def)
    show ?thesis
    proof (cases "x < 10 ^ mid")
      case True
      then have "digit_counter x lo hi = digit_counter x lo mid"
        using \<open>lo < hi\<close> by (subst digit_counter.simps) (simp add: mid_def Let_def)
      moreover note 1(1) [OF False mid_def True]
      ultimately show ?thesis using 1(3-) mid True by simp
    next
      case F2: False
      then have "digit_counter x lo hi = digit_counter x (mid + 1) hi"
        using \<open>lo < hi\<close> by (subst digit_counter.simps) (simp add: mid_def Let_def)
      moreover note 1(2) [OF False mid_def F2]
      ultimately show ?thesis using 1(3-) mid F2 by auto
    qed
  qed
qed

lemma count_digits_correct:
  assumes "0 \<le> x" "x < 10 ^ 20"
  shows "1 \<le> count_digits x" "count_digits x \<le> 20" "x < 10 ^ count_digits x"
    "count_digits x = 1 \<or> 10 ^ (count_digits x - 1) \<le> x"
  using digit_counter_correct [of 1 20 x] assms by (auto simp: count_digits_def)

lemma write_pairs_correct:
  "0 \<le> x \<Longrightarrow> x < 100 ^ n \<Longrightarrow>
   length (write_pairs n x) = 2 * n \<and> (\<forall>c\<in>set (write_pairs n x). is_digit c) \<and>
   dec_val (write_pairs n x) = x"
proof (induction n x rule: write_pairs.induct)
  case (2 n x)
  have x: "0 \<le> x div 100" "x div 100 < 100 ^ n" using 2 by auto
  define y where "y = x mod 100"
  have y: "0 \<le> y div 10" "y div 10 \<le> 9" "0 \<le> y mod 10" "y mod 10 \<le> 9"
    by (auto simp: y_def)
  have "dec_val (write_two_digits y) = y div 10 * 10 + y mod 10"
    using y by (simp add: write_two_digits_def dec_val_Cons digit_of_digit_char)
  moreover have "\<forall>c\<in>set (write_two_digits y). is_digit c"
    using y by (simp add: write_two_digits_def digit_of_digit_char)
  moreover have "length (write_two_digits y) = 2" by (simp add: write_two_digits_def)
  ultimately show ?case using "2.IH" [OF x]
    by (auto simp: dec_val_append y_def [symmetric]) (simp add: y_def)
qed simp

lemma write_digits_correct:
  assumes "0 \<le> x" "x < 10 ^ n"
  shows "length (write_digits x n) = n" "\<forall>c\<in>set (write_digits x n). is_digit c"
    "dec_val (write_digits x n) = x"
proof -
  have pow: "(10::int) ^ n = (if n mod 2 \<noteq> 0 then 10 * 100 ^ (n div 2) else 100 ^ (n div 2))"
  proof -
    have "(10::int) ^ n = 10 ^ (2 * (n div 2) + n mod 2)" by simp
    also have "\<dots> = (10 ^ 2) ^ (n div 2) * 10 ^ (n mod 2)" by (simp only: power_add power_mult)
    finally show ?thesis by (auto simp: mod2_eq_if)
  qed
  have "length (write_digits x n) = n \<and> (\<forall>c\<in>set (write_digits x n). is_digit c) \<and>
    dec_val (write_digits x n) = x"
  proof (cases "n mod 2 \<noteq> 0")
    case True
    then have "0 \<le> x div 10" "x div 10 < 100 ^ (n div 2)" using assms pow by auto
    note write_pairs_correct [OF this]
    moreover have "2 * (n div 2) + 1 = n" using True by presburger
    ultimately show ?thesis using True
      by (auto simp: write_digits_def dec_val_snoc digit_of_digit_char)
  next
    case False
    then have "x < 100 ^ (n div 2)" using assms pow by auto
    note write_pairs_correct [OF assms(1) this]
    then show ?thesis using False by (auto simp: write_digits_def)
  qed
  then show "length (write_digits x n) = n" "\<forall>c\<in>set (write_digits x n). is_digit c"
    "dec_val (write_digits x n) = x" by auto
qed

section \<open>The parser\<close>

text \<open>
  What \<open>my_strtoll10\<close> computes, without the grouping of digits: skip blanks, read a sign,
  take the longest run of digits and saturate. At most 20 digits are consumed once the
  leading zeros are skipped, which is all of them unless the number is out of range.
\<close>

definition strtoll_value :: "bool \<Rightarrow> int \<Rightarrow> string \<Rightarrow> int \<times> string \<times> strtoll_error" where
  "strtoll_value negative n s =
     (if negative then
        if n \<le> 2 ^ 63 then (- n, s, Strtoll_negative) else (- (2 ^ 63), s, MY_ERRNO_ERANGE)
      else if n < 2 ^ 64 then (s64 n, s, Strtoll_ok) else (-1, s, MY_ERRNO_ERANGE))"

definition strtoll_ref :: "string \<Rightarrow> int \<times> string \<times> strtoll_error" where
  "strtoll_ref nptr =
     (let s = dropWhile (\<lambda>c. c = CHR '' '' \<or> c = CHR 0x09) nptr;
          sign = takeWhile (\<lambda>c. c = CHR ''-'' \<or> c = CHR ''+'') (take 1 s);
          s = drop (length sign) s;
          digits = takeWhile is_digit s;
          significant = dropWhile (\<lambda>c. c = CHR ''0'') digits in
      if digits = [] then (0, nptr, MY_ERRNO_EDOM)
      else strtoll_value (sign = ''-'') (dec_val digits)
             (drop (min 20 (length significant)) (dropWhile (\<lambda>c. c = CHR ''0'') s)))"

lemma collect_digits:
  "\<forall>c\<in>set ds. is_digit c \<Longrightarrow> rest = [] \<or> \<not> is_digit (hd rest) \<Longrightarrow>
   collect n acc (ds @ rest) =
     (let k = min n (length ds) in (acc * 10 ^ k + dec_val (take k ds), k, drop k ds @ rest))"
proof (induction n arbitrary: acc ds)
  case (Suc n)
  show ?case
  proof (cases ds)
    case Nil
    then show ?thesis using Suc.prems by (cases rest) auto
  next
    case (Cons c cs)
    then have "collect n (acc * 10 + digit_of c) (cs @ rest) =
      (let k = min n (length cs) in
       ((acc * 10 + digit_of c) * 10 ^ k + dec_val (take k cs), k, drop k cs @ rest))"
      using Suc.prems by (intro Suc.IH) auto
    then show ?thesis using Suc.prems Cons
      by (simp add: Let_def dec_val_Cons algebra_simps min_def)
  qed
qed simp

lemma strtoll_groups_first:
  assumes "is_digit c"
  shows "strtoll_groups negative 0 9 (c # s) = strtoll_groups negative (digit_of c) 8 s"
proof -
  obtain a k r where 8: "collect 8 (digit_of c) s = (a, k, r)" by (metis prod_cases3)
  have "collect (Suc 8) 0 (c # s) = (a, Suc k, r)"
    using assms 8 unfolding collect.simps by simp
  then have "collect 9 0 (c # s) = (a, Suc k, r)" by simp
  then show ?thesis unfolding strtoll_groups_def 8 by simp
qed

lemma strtoll_end_value:
  "0 \<le> n \<Longrightarrow> n < 2 ^ 63 \<Longrightarrow> strtoll_end negative n s = strtoll_value negative n s"
  by (auto simp: strtoll_end_def strtoll_value_def c_int_simps)

lemma strtoll_overflow_value:
  "2 ^ 64 \<le> n \<Longrightarrow> strtoll_overflow negative s = strtoll_value negative n s"
  by (auto simp: strtoll_overflow_def strtoll_value_def LLONG_MIN_def ULLONG_MAX_def s64_def)

text \<open>The lexicographic comparison with the three parts of the limit is the comparison with it.\<close>

lemma cutoff_correct:
  assumes "0 \<le> i" "0 \<le> j" "j < LFACTOR" "0 \<le> k" "k < 100" "0 \<le> limit"
  shows "(i > limit div LFACTOR2 \<or> i = limit div LFACTOR2 \<and>
          (j > limit mod LFACTOR2 div 100 \<or> j = limit mod LFACTOR2 div 100 \<and> k > limit mod 100)) \<longleftrightarrow>
         limit < i * LFACTOR2 + j * 100 + k"
proof -
  define a b c where "a = limit div LFACTOR2" "b = limit mod LFACTOR2 div 100" "c = limit mod 100"
  have "limit mod LFACTOR2 mod 100 = limit mod 100"
    by (rule mod_mod_cancel) (simp add: LFACTOR2_def)
  then have lim: "limit = a * LFACTOR2 + b * 100 + c"
    unfolding a_b_c_def by (metis div_mult_mod_eq add.assoc)
  have "0 \<le> b" "b < LFACTOR" "0 \<le> c" "c < 100"
    using assms by (auto simp: a_b_c_def LFACTOR2_def LFACTOR_def)
  then have "(i > a \<or> i = a \<and> (j > b \<or> j = b \<and> k > c)) \<longleftrightarrow>
    a * LFACTOR2 + b * 100 + c < i * LFACTOR2 + j * 100 + k"
    using assms by (auto simp: LFACTOR2_def LFACTOR_def)
  then show ?thesis unfolding lim [symmetric] unfolding a_b_c_def .
qed

lemma strtoll_last_nineteen:
  assumes "0 \<le> i" "i < LFACTOR" "0 \<le> j" "j < LFACTOR" "is_digit c"
    "rest = [] \<or> \<not> is_digit (hd rest)"
  shows "strtoll_last negative i j (c # rest) =
    strtoll_value negative (i * LFACTOR1 + j * 10 + digit_of c) rest"
proof -
  let ?li = "i * LFACTOR1 + j * 10 + digit_of c"
  have li: "0 \<le> ?li" "?li < 2 ^ 64"
    using assms digit_of_nonneg [of c] by (simp_all add: LFACTOR1_def LFACTOR_def)
  then have "u64 ?li = ?li" by (simp add: c_int_simps)
  moreover have "\<not> 9 < digit_of c" "rest = [] \<or> 9 < digit_of (hd rest)" using assms(5,6) by auto
  ultimately have "strtoll_last negative i j (c # rest) =
    (if negative \<and> ?li > MAX_NEGATIVE_NUMBER then strtoll_overflow negative rest
     else if negative \<and> ?li = MAX_NEGATIVE_NUMBER then (LLONG_MIN, rest, Strtoll_negative)
     else strtoll_end negative ?li rest)"
    unfolding strtoll_last_def list.case Let_def by (simp only: if_True if_False)
  also have "\<dots> = strtoll_value negative ?li rest"
    using li strtoll_end_value [of ?li True rest]
    by (auto simp: strtoll_value_def strtoll_overflow_def strtoll_end_def LLONG_MIN_def
        MAX_NEGATIVE_NUMBER_def)
  finally show ?thesis .
qed

lemma strtoll_last_twenty:
  assumes "10 ^ 8 \<le> i" "i < LFACTOR" "0 \<le> j" "j < LFACTOR" "is_digit c" "is_digit d"
    "rest = [] \<or> \<not> is_digit (hd rest)"
  shows "strtoll_last negative i j (c # d # rest) =
    strtoll_value negative (i * LFACTOR2 + j * 100 + (digit_of c * 10 + digit_of d)) rest"
proof -
  define k where "k = digit_of c * 10 + digit_of d"
  let ?li = "i * LFACTOR2 + j * 100 + k"
  define limit where "limit = (if negative then MAX_NEGATIVE_NUMBER else ULLONG_MAX)"
  have k: "0 \<le> k" "k < 100" using assms(5,6) by (simp_all add: k_def)
  have "10 ^ 8 * LFACTOR2 \<le> i * LFACTOR2" using assms by (simp add: LFACTOR2_def)
  then have li: "10 ^ 19 \<le> ?li" using assms(3) k(1) by (simp add: LFACTOR2_def)
  have "0 \<le> limit" by (simp add: limit_def MAX_NEGATIVE_NUMBER_def ULLONG_MAX_def)
  moreover have "\<not> 9 < digit_of c" "\<not> 9 < digit_of d" "\<not> (rest \<noteq> [] \<and> digit_of (hd rest) \<le> 9)"
    using assms(5-7) by auto
  ultimately have "strtoll_last negative i j (c # d # rest) =
    (if limit < ?li then strtoll_overflow negative rest
     else (s64 (u64 ?li), rest, if negative then Strtoll_negative else Strtoll_ok))"
    using assms(1-4) cutoff_correct [of i j k limit] k
    unfolding strtoll_last_def list.case Let_def list.sel limit_def [symmetric] k_def [symmetric] by auto
  also have "\<dots> = strtoll_value negative ?li rest"
    using li by (auto simp: strtoll_value_def strtoll_overflow_def LLONG_MIN_def limit_def
        MAX_NEGATIVE_NUMBER_def ULLONG_MAX_def c_int_simps s64_def)
  finally show ?thesis unfolding k_def .
qed

lemma strtoll_last_value:
  assumes ij: "10 ^ 8 \<le> i" "i < LFACTOR" "0 \<le> j" "j < LFACTOR"
    and ds: "\<forall>c\<in>set ds. is_digit c" and rest: "rest = [] \<or> \<not> is_digit (hd rest)"
  shows "strtoll_last negative i j (ds @ rest) =
    strtoll_value negative ((i * LFACTOR + j) * 10 ^ length ds + dec_val ds)
      (drop (min 2 (length ds)) (ds @ rest))"
proof -
  consider "ds = []" | c where "ds = [c]" | c d where "ds = [c, d]"
    | c d e es where "ds = c # d # e # es" by (metis neq_Nil_conv)
  then show ?thesis
  proof cases
    case 1
    have n: "0 \<le> i * LFACTOR + j" "i * LFACTOR + j < 2 ^ 63"
      using ij by (simp_all add: LFACTOR_def)
    then have "u64 (i * LFACTOR + j) = i * LFACTOR + j" by (simp add: c_int_simps)
    then show ?thesis using 1 rest strtoll_end_value [OF n]
      by (cases rest) (auto simp: strtoll_last_def)
  next
    case (2 c)
    then show ?thesis using strtoll_last_nineteen [of i j c rest] ij ds rest
      by (simp add: LFACTOR1_def LFACTOR_def algebra_simps)
  next
    case (3 c d)
    then show ?thesis using strtoll_last_twenty [of i j c d rest] ij ds rest
      by (simp add: LFACTOR2_def LFACTOR_def dec_val_Cons algebra_simps)
  next
    case (4 c d e es)
    let ?n = "(i * LFACTOR + j) * 10 ^ length ds + dec_val ds"
    have "(10::int) ^ 3 \<le> 10 ^ length ds" using 4 by (intro power_increasing) auto
    moreover have "10 ^ 17 \<le> i * LFACTOR + j" using ij by (simp add: LFACTOR_def)
    ultimately have "10 ^ 17 * 10 ^ 3 \<le> (i * LFACTOR + j) * 10 ^ length ds"
      by (intro mult_mono) auto
    then have "2 ^ 64 \<le> ?n" by (intro add_increasing2 dec_val_nonneg) simp
    then show ?thesis using 4 ds strtoll_overflow_value [of ?n negative]
      by (simp add: strtoll_last_def Let_def)
  qed
qed

lemma strtoll_groups_short:
  assumes ds: "\<forall>c\<in>set ds. is_digit c" and rest: "rest = [] \<or> \<not> is_digit (hd rest)"
    and len: "length ds < 18"
  shows "strtoll_groups negative 0 9 (ds @ rest) = strtoll_value negative (dec_val ds) rest"
proof -
  have "dec_val ds < 10 ^ length ds" by (rule dec_val_less [OF ds])
  also have "(10::int) ^ length ds \<le> 10 ^ 18" using len by (intro power_increasing) auto
  finally have n: "0 \<le> dec_val ds" "dec_val ds < 2 ^ 63" by simp_all
  have "dec_val (take 9 ds) * 10 ^ (length ds - 9) + dec_val (drop 9 ds) = dec_val ds"
    using dec_val_append [of "take 9 ds" "drop 9 ds"] by simp
  moreover have "u64 (dec_val ds) = dec_val ds" using n by (simp add: c_int_simps)
  moreover have "collect 9 0 (ds @ rest) =
    (dec_val (take 9 ds), min 9 (length ds), drop 9 ds @ rest)"
    using collect_digits [OF ds rest] by (simp add: Let_def min_def)
  moreover have "collect 9 0 (drop 9 ds @ rest) = (dec_val (drop 9 ds), length ds - 9, rest)"
  proof -
    have "\<forall>c\<in>set (drop 9 ds). is_digit c" using ds by (auto dest: in_set_dropD)
    moreover have "min 9 (length ds - 9) = length ds - 9" using len by simp
    ultimately show ?thesis using collect_digits [of "drop 9 ds" rest 9 0] rest
      by (simp add: Let_def)
  qed
  ultimately show ?thesis using strtoll_end_value [OF n] len
    by (auto simp: strtoll_groups_def min_def)
qed

lemma strtoll_groups_long:
  assumes ds: "\<forall>c\<in>set ds. is_digit c" and rest: "rest = [] \<or> \<not> is_digit (hd rest)"
    and nz: "hd ds \<noteq> CHR ''0''" and len: "18 \<le> length ds"
  shows "strtoll_groups negative 0 9 (ds @ rest) =
    strtoll_value negative (dec_val ds) (drop (min 20 (length ds)) (ds @ rest))"
proof -
  define as bs es where "as = take 9 ds" and "bs = take 9 (drop 9 ds)" and "es = drop 18 ds"
  have "drop 9 ds = bs @ es"
    unfolding bs_def es_def using append_take_drop_id [of 9 "drop 9 ds"] by simp
  then have ds_eq: "ds = as @ bs @ es" unfolding as_def by (metis append_take_drop_id)
  have digits: "\<forall>c\<in>set as. is_digit c" "\<forall>c\<in>set (bs @ es). is_digit c"
    "\<forall>c\<in>set bs. is_digit c" "\<forall>c\<in>set es. is_digit c"
    using ds unfolding ds_eq by auto
  have len': "length as = 9" "length bs = 9" "length ds = 18 + length es"
    using len by (simp_all add: as_def bs_def es_def)
  have "as \<noteq> []" "hd as \<noteq> CHR ''0''" using nz len'(1) by (cases as; auto simp: ds_eq)+
  then have i: "10 ^ 8 \<le> dec_val as" "dec_val as < LFACTOR"
    using dec_val_ge [of as] dec_val_less [OF digits(1)] len'(1) by (auto simp: LFACTOR_def)
  have j: "0 \<le> dec_val bs" "dec_val bs < LFACTOR"
    using dec_val_less [OF digits(3)] len'(2) by (simp_all add: LFACTOR_def)
  have c1: "collect 9 0 (ds @ rest) = (dec_val as, 9, (bs @ es) @ rest)"
    using collect_digits [OF ds rest, of 9 0] len' by (simp add: ds_eq Let_def)
  have c2: "collect 9 0 ((bs @ es) @ rest) = (dec_val bs, 9, es @ rest)"
    using collect_digits [OF digits(2) rest, of 9 0] len' by (simp add: Let_def)
  have "strtoll_groups negative 0 9 (ds @ rest) =
    strtoll_last negative (dec_val as) (dec_val bs) (es @ rest)"
    using len' by (auto simp: strtoll_groups_def c1 c2 [simplified])
  moreover have "dec_val ds = (dec_val as * LFACTOR + dec_val bs) * 10 ^ length es + dec_val es"
    using len' by (simp add: ds_eq dec_val_append LFACTOR_def algebra_simps power_add)
  moreover have "drop (min 20 (length ds)) (ds @ rest) = drop (min 2 (length es)) (es @ rest)"
    using len' by (simp add: ds_eq min_def)
  ultimately show ?thesis using strtoll_last_value [OF i j digits(4) rest] by simp
qed

lemma strtoll_groups_value:
  assumes "\<forall>c\<in>set ds. is_digit c" "rest = [] \<or> \<not> is_digit (hd rest)"
    "ds = [] \<or> hd ds \<noteq> CHR ''0''"
  shows "strtoll_groups negative 0 9 (ds @ rest) =
    strtoll_value negative (dec_val ds) (drop (min 20 (length ds)) (ds @ rest))"
  using strtoll_groups_short [OF assms(1,2)] strtoll_groups_long [OF assms(1,2)] assms(3)
  by (cases "length ds < 18") (auto simp: min_def not_less)

lemma strtoll_digits_value:
  assumes "ds \<noteq> []" "\<forall>c\<in>set ds. is_digit c" "rest = [] \<or> \<not> is_digit (hd rest)"
  shows "(if hd ds = CHR ''0'' then
      let s = dropWhile (\<lambda>c. c = CHR ''0'') (ds @ rest) in
      if s = [] then strtoll_end negative 0 s else strtoll_groups negative 0 9 s
    else strtoll_groups negative (digit_of (hd ds)) 8 (tl ds @ rest)) =
    strtoll_value negative (dec_val ds)
      (drop (min 20 (length (dropWhile (\<lambda>c. c = CHR ''0'') ds)))
        (dropWhile (\<lambda>c. c = CHR ''0'') (ds @ rest)))"
proof -
  define sg where "sg = dropWhile (\<lambda>c. c = CHR ''0'') ds"
  have rest': "dropWhile (\<lambda>c. c = CHR ''0'') rest = rest"
    using assms(3) digit_of_eq_0_iff [of "hd rest"] by (cases rest) auto
  have drop: "dropWhile (\<lambda>c. c = CHR ''0'') (ds @ rest) = sg @ rest"
    unfolding sg_def by (induction ds) (auto simp: rest')
  have sg: "\<forall>c\<in>set sg. is_digit c" "sg = [] \<or> hd sg \<noteq> CHR ''0''"
    using assms(2) hd_dropWhile [of "\<lambda>c. c = CHR ''0''" ds]
    by (auto simp: sg_def dest: set_dropWhileD)
  have val: "dec_val sg = dec_val ds" unfolding sg_def by (rule dec_val_zeros)
  note groups = strtoll_groups_value [OF sg(1) assms(3) sg(2), unfolded val]
  show ?thesis
  proof (cases "hd ds = CHR ''0''")
    case True
    then show ?thesis using groups val strtoll_end_value [of 0 negative]
      by (auto simp: drop sg_def [symmetric] Let_def)
  next
    case False
    then have "sg = ds" using assms(1) by (cases ds) (auto simp: sg_def)
    moreover have "strtoll_groups negative 0 9 (ds @ rest) =
      strtoll_groups negative (digit_of (hd ds)) 8 (tl ds @ rest)"
      using assms(1,2) strtoll_groups_first [of "hd ds" negative "tl ds @ rest"] by (cases ds) auto
    ultimately show ?thesis using False groups by (simp add: drop sg_def [symmetric])
  qed
qed

lemma strtoll_core:
  "strtoll_unsigned negative no_conv s =
   (let digits = takeWhile is_digit s in
    if digits = [] then no_conv
    else strtoll_value negative (dec_val digits)
      (drop (min 20 (length (dropWhile (\<lambda>c. c = CHR ''0'') digits)))
        (dropWhile (\<lambda>c. c = CHR ''0'') s)))"
proof (cases "takeWhile is_digit s = []")
  case True
  then have "s = [] \<or> \<not> is_digit (hd s)" by (cases s) (auto split: if_splits)
  then show ?thesis using True digit_of_eq_0_iff [of "hd s"]
    unfolding strtoll_unsigned_def by auto
next
  case False
  let ?ds = "takeWhile is_digit s" and ?rest = "dropWhile is_digit s"
  have s: "s \<noteq> []" "hd s = hd ?ds" "is_digit (hd s)" "tl s = tl ?ds @ ?rest" "s = ?ds @ ?rest"
    using False by (cases s; auto split: if_splits)+
  have "?rest = [] \<or> \<not> is_digit (hd ?rest)" using hd_dropWhile [of is_digit s] by auto
  moreover have "\<forall>c\<in>set ?ds. is_digit c" by (auto dest: set_takeWhileD)
  ultimately have "(if hd s = CHR ''0'' then
      let s = dropWhile (\<lambda>c. c = CHR ''0'') s in
      if s = [] then strtoll_end negative 0 s else strtoll_groups negative 0 9 s
    else strtoll_groups negative (digit_of (hd s)) 8 (tl s)) =
    strtoll_value negative (dec_val ?ds) (drop (min 20 (length (dropWhile (\<lambda>c. c = CHR ''0'') ?ds)))
      (dropWhile (\<lambda>c. c = CHR ''0'') s))"
    using strtoll_digits_value [OF False, of ?rest negative]
    unfolding s(2,4) takeWhile_dropWhile_id by (simp only: simp_thms)
  then show ?thesis unfolding strtoll_unsigned_def using s(1,3) False
    by (simp only: Let_def not_le [symmetric] simp_thms if_True if_False)
qed

text \<open>C34. The chunked decimal parser \<open>my_strtoll10\<close> computes, on every fixed-length
  input, what the reference definition does: it skips blanks and an optional sign, takes
  the longest run of digits, returns its value with the sign, saturates with the range
  error exactly when the value leaves the 64-bit range of its sign, reports a domain
  error exactly when there is no digit, and stops after the last digit it used.\<close>

theorem my_strtoll10_equiv: "my_strtoll10 s = strtoll_ref s"
proof -
  define t where "t = dropWhile (\<lambda>c. c = CHR '' '' \<or> c = CHR 0x09) s"
  show ?thesis unfolding my_strtoll10_def strtoll_ref_def Let_def t_def [symmetric]
    by (cases t) (simp_all add: strtoll_core Let_def)
qed

lemma strtoll_unsigned_digits:
  assumes "ds \<noteq> []" "\<forall>c\<in>set ds. is_digit c" "length ds \<le> 20"
  shows "strtoll_unsigned negative no_conv ds = strtoll_value negative (dec_val ds) []"
proof -
  have tw: "takeWhile is_digit ds = ds" using assms(2) by simp
  moreover have "length (dropWhile (\<lambda>c. c = CHR ''0'') ds) \<le> 20"
    using assms(3) length_dropWhile_le [of "\<lambda>c. c = CHR ''0''" ds] by simp
  ultimately show ?thesis using assms(1) unfolding strtoll_core Let_def tw by simp
qed

lemma not_digit_signs: "is_digit c \<Longrightarrow> c \<noteq> CHR '' '' \<and> c \<noteq> CHR 0x09 \<and> c \<noteq> CHR ''-'' \<and> c \<noteq> CHR ''+''"
  by (auto simp: digit_of_def u8_def)

lemma my_strtoll10_digits:
  assumes "ds \<noteq> []" "\<forall>c\<in>set ds. is_digit c" "length ds \<le> 20"
  shows "my_strtoll10 ds = strtoll_value False (dec_val ds) []"
    "my_strtoll10 (CHR ''-'' # ds) = strtoll_value True (dec_val ds) []"
proof -
  obtain c cs where ds: "ds = c # cs" "is_digit c" using assms(1,2) by (cases ds) auto
  note not_digit_signs [OF ds(2)]
  then show "my_strtoll10 ds = strtoll_value False (dec_val ds) []"
    using strtoll_unsigned_digits [OF assms] ds(1) by (simp add: my_strtoll10_def)
  show "my_strtoll10 (CHR ''-'' # ds) = strtoll_value True (dec_val ds) []"
    using strtoll_unsigned_digits [OF assms] by (simp add: my_strtoll10_def)
qed

lemma write_counted_digits:
  assumes "0 \<le> n" "n < 2 ^ 64"
  defines "w \<equiv> write_digits n (count_digits n)"
  shows "w \<noteq> []" "\<forall>c\<in>set w. is_digit c" "length w \<le> 20" "dec_val w = n"
    "length w = count_digits n"
proof -
  have "n < 10 ^ 20" using assms(2) by simp
  note count = count_digits_correct [OF assms(1) this]
  note w = write_digits_correct [OF assms(1) count(3), folded w_def]
  show "\<forall>c\<in>set w. is_digit c" "length w \<le> 20" "dec_val w = n" "length w = count_digits n"
    using count w by simp_all
  show "w \<noteq> []" using count(1) w(1) by (metis list.size(3) not_one_le_zero)
qed

text \<open>C35. Printing a 64-bit integer in decimal and parsing the text gives the integer back,
  for the signed radix -10 with a sign and the matching error code, and for the unsigned
  radix 10 as the same 64-bit pattern; the whole text is consumed.\<close>

theorem longlong10_roundtrip:
  assumes "- (2 ^ 63) \<le> val" "val < 2 ^ 63"
  shows "my_strtoll10 (longlong10_to_str val (-10)) =
      (val, [], if val < 0 then Strtoll_negative else Strtoll_ok) \<and>
    my_strtoll10 (longlong10_to_str val 10) = (val, [], Strtoll_ok)"
proof -
  have u: "0 \<le> u64 val" "u64 val < 2 ^ 64" by (simp_all add: u64_def)
  have s: "s64 (u64 val) = val" using assms by (simp add: s64_def u64_def mod_add_left_eq)
  note pos = my_strtoll10_digits(1) [OF write_counted_digits(1-3) [OF u],
      unfolded write_counted_digits(4) [OF u]]
  have "my_strtoll10 (longlong10_to_str val 10) = (val, [], Strtoll_ok)"
    using pos u s by (simp add: longlong10_to_str_def strtoll_value_def Let_def)
  moreover have "my_strtoll10 (longlong10_to_str val (-10)) =
    (val, [], if val < 0 then Strtoll_negative else Strtoll_ok)"
  proof (cases "val < 0")
    case True
    have "u64 (0 - u64 val) = u64 (- val)" by (simp add: u64_def mod_minus_eq)
    also have "\<dots> = - val" using True assms by (simp add: u64_id)
    finally have n: "u64 (0 - u64 val) = - val" .
    have r: "0 \<le> - val" "- val < 2 ^ 64" using True assms by simp_all
    show ?thesis using my_strtoll10_digits(2) [OF write_counted_digits(1-3) [OF r]]
        write_counted_digits(4) [OF r] True assms n
      by (simp add: longlong10_to_str_def strtoll_value_def Let_def)
  next
    case False
    then show ?thesis using pos u s by (simp add: longlong10_to_str_def strtoll_value_def Let_def)
  qed
  ultimately show ?thesis by simp
qed

theorem longlong10_roundtrip_witness:
  "- (2 ^ 63) \<le> (-40 :: int) \<and> (-40 :: int) < 2 ^ 63 \<and>
   my_strtoll10 (longlong10_to_str (-40) (-10)) = (-40, [], Strtoll_negative)"
  using longlong10_roundtrip [of "-40"] by simp

end
