(* ===== verification/Gtid_Text.thy ===== *)
theory Gtid_Text
  imports Gtid_Encoding Integer_Text
begin

text \<open>
  The text form of GTID sets (\<open>sql/rpl_gtid_set.cc\<close>): reading with \<open>add_gtid_text\<close>
  and \<open>is_valid\<close>, writing with \<open>to_string\<close>, and the cached \<open>get_string_length\<close>.
  A text is the list of its characters before the NUL.
\<close>

section \<open>Numbers\<close>

text \<open>
  \<open>my_isspace\<close> of the UTF-8 collation on one byte, which is also what \<open>strtoll\<close>
  skips, and the macro \<open>SKIP_WHITESPACE\<close>.
\<close>

definition my_isspace :: "char \<Rightarrow> bool" where
  "my_isspace c \<longleftrightarrow> (let k = of_char c :: int in 9 \<le> k \<and> k \<le> 13 \<or> k = 32)"

definition skip_whitespace :: "string \<Rightarrow> string" where
  "skip_whitespace s = dropWhile my_isspace s"

text \<open>
  \<open>strtoll\<close> of the C library with base 0: white space, a sign, the prefix that tells the
  base, the longest run of digits, saturating; the text itself is the end where there are
  no digits.
\<close>

definition strtoll_digit :: "char \<Rightarrow> int" where
  "strtoll_digit c =
     (let k = of_char c :: int in
      if 48 \<le> k \<and> k \<le> 57 then k - 48
      else if 65 \<le> k \<and> k \<le> 90 then k - 55
      else if 97 \<le> k \<and> k \<le> 122 then k - 87
      else 99)"

definition strtoll_base :: "string \<Rightarrow> int \<times> string" where
  "strtoll_base s =
     (if deref s = CHR ''0'' then
        if (deref (tl s) = CHR ''x'' \<or> deref (tl s) = CHR ''X'') \<and> strtoll_digit (deref (tl (tl s))) < 16
        then (16, drop 2 s) else (8, s)
      else (10, s))"

definition strtoll0 :: "string \<Rightarrow> int \<times> string" where
  "strtoll0 nptr =
     (let s = skip_whitespace nptr;
          negative = (deref s = CHR ''-'');
          s = (if deref s = CHR ''-'' \<or> deref s = CHR ''+'' then tl s else s);
          (base, s) = strtoll_base s;
          digits = takeWhile (\<lambda>c. strtoll_digit c < base) s;
          n = foldl (\<lambda>a c. a * base + strtoll_digit c) 0 digits in
      if digits = [] then (0, nptr)
      else (if negative then max (- (2 ^ 63)) (- n) else min (2 ^ 63 - 1) n,
            drop (length digits) s))"

definition parse_gno :: "string \<Rightarrow> int \<times> string" where
  "parse_gno s =
     (let (ret, endp) = strtoll0 s in
      if ret < 0 \<or> ret \<ge> GNO_END then (-1, s) else (ret, endp))"

definition format_gno :: "int \<Rightarrow> string" where
  "format_gno gno = longlong10_to_str gno 10"

lemma length_strtoll0: "length (snd (strtoll0 s)) \<le> length s"
proof -
  have w: "length (skip_whitespace s) \<le> length s" for s
    by (simp add: skip_whitespace_def length_dropWhile_le)
  have b: "length (snd (strtoll_base s)) \<le> length s" for s by (simp add: strtoll_base_def)
  show ?thesis
    using w [of s] b [of "skip_whitespace s"] b [of "tl (skip_whitespace s)"]
    by (auto simp: strtoll0_def Let_def split: prod.splits)
qed

lemma length_parse_gno: "length (snd (parse_gno s)) \<le> length s"
  using length_strtoll0 [of s] by (auto simp: parse_gno_def split: prod.splits)

lemma length_skip_whitespace: "length (skip_whitespace s) \<le> length s"
  by (simp add: skip_whitespace_def length_dropWhile_le)

lemma skip_whitespace_shorter [termination_simp]: "length (skip_whitespace s) < Suc (length s)"
  by (rule le_imp_less_Suc [OF length_skip_whitespace])

section \<open>Reading\<close>

text \<open>
  What \<open>add_gtid_text\<close> does after a colon: it reads a positive number, and after a dash a second one, which
  may be 0. The result is the first number of the interval, the first number after it, and
  the rest.
\<close>

definition read_interval :: "string \<Rightarrow> (int \<times> int \<times> string) option" where
  "read_interval s =
     (let (start, s) = parse_gno s in
      if start \<le> 0 then None
      else let s = skip_whitespace s in
      if deref s = CHR ''-'' then
        let (end', s) = parse_gno (tl s) in
        if end' < 0 then None else Some (start, end' + 1, skip_whitespace s)
      else Some (start, start + 1, s))"

lemma length_read_interval:
  assumes "read_interval s = Some (a, b, r)"
  shows "length r \<le> length s"
proof -
  obtain a' s1 where 1: "parse_gno s = (a', s1)" by (cases "parse_gno s")
  obtain b' s2 where 2: "parse_gno (tl (skip_whitespace s1)) = (b', s2)"
    by (cases "parse_gno (tl (skip_whitespace s1))")
  note l = length_parse_gno [of s] length_skip_whitespace [of s1] length_skip_whitespace [of s2]
    length_parse_gno [of "tl (skip_whitespace s1)"]
  have "length (tl (skip_whitespace s1)) \<le> length (skip_whitespace s1)" by simp
  then show ?thesis using assms l
    unfolding read_interval_def Let_def 1 2 prod.case fst_conv snd_conv
    by (auto split: if_splits)
qed

lemma deref_neq_NUL: "deref s = c \<Longrightarrow> c \<noteq> CHR 0x00 \<Longrightarrow> s \<noteq> []"
  by (auto simp: deref_def)

lemma read_interval_shorter:
  "deref s = CHR '':'' \<Longrightarrow> read_interval (tl s) = Some (a, b, r) \<Longrightarrow> length r < length s"
  using length_read_interval [of "tl s"] by (cases s) fastforce+

datatype text_result = Text_ok | Text_malformed | Text_error

text \<open>The loop over the intervals of a SID, on the set and the iterator in it.\<close>

function text_intervals ::
    "nat \<Rightarrow> gtid_set \<Rightarrow> interval_iterator \<Rightarrow> string \<Rightarrow> text_result \<times> gtid_set \<times> string" where
  "text_intervals sidno gs ivit s =
     (if deref s = CHR '':'' then
        case read_interval (tl s) of
          None \<Rightarrow> (Text_malformed, gs, s)
        | Some (start, end', r) \<Rightarrow>
            if end' > start then
              let ivit = add_gno_interval (reposition ivit start) start end'
              in text_intervals sidno (store_added sidno ivit gs) ivit r
            else text_intervals sidno gs ivit r
      else (Text_ok, gs, s))"
  by pat_completeness auto

termination
  by (relation "measure (\<lambda>(k, gs, it, s). length s)") (auto intro: read_interval_shorter)

declare text_intervals.simps [simp del]

lemma length_text_intervals: "length (snd (snd (text_intervals k gs it s))) \<le> length s"
proof (induction k gs it s rule: text_intervals.induct)
  case (1 k gs it s)
  show ?case
  proof (cases "deref s = CHR '':''")
    case True
    show ?thesis
    proof (cases "read_interval (tl s)")
      case (Some x)
      obtain a b r where x: "x = (a, b, r)" by (cases x)
      then have "length r < length s" using read_interval_shorter [OF True] Some by simp
      then show ?thesis
        using 1(1) [OF True Some x [symmetric] refl _ refl] 1(2) [OF True Some x [symmetric] refl]
          True Some x
        by (cases "a < b") (simp_all add: text_intervals.simps [of k gs it s] Let_def)
    qed (simp add: text_intervals.simps)
  qed (simp add: text_intervals.simps)
qed

fun skip_commas :: "string \<Rightarrow> string" where
  "skip_commas [] = []"
| "skip_commas (c # s) = (if c = CHR '','' then skip_commas (skip_whitespace s) else c # s)"

lemma length_skip_commas: "length (skip_commas s) \<le> length s"
proof (induction s rule: skip_commas.induct)
  case (2 c s)
  then show ?case using length_skip_whitespace [of s] by auto
qed simp

lemma skip_commas_shorter:
  assumes "deref (skip_commas s) \<noteq> CHR 0x00" "0 < n"
  shows "length (drop n (skip_commas s)) < length s"
  using assms length_skip_commas [of s] by (cases "skip_commas s") (auto simp: deref_def)

lemma text_intervals_shorter:
  assumes "deref (skip_commas s) \<noteq> CHR 0x00"
    "(r, gs', t) = text_intervals k gs it (skip_whitespace (drop TEXT_LENGTH (skip_commas s)))"
  shows "length t < length s"
proof -
  have "length t \<le> length (skip_whitespace (drop TEXT_LENGTH (skip_commas s)))"
    using length_text_intervals [of k gs it "skip_whitespace (drop TEXT_LENGTH (skip_commas s))"]
    by (simp flip: assms(2))
  also have "\<dots> \<le> length (drop TEXT_LENGTH (skip_commas s))" by (rule length_skip_whitespace)
  also have "\<dots> < length s" using assms(1) by (rule skip_commas_shorter) (simp add: TEXT_LENGTH_def)
  finally show ?thesis .
qed

text \<open>
  The loop over the SIDs. \<open>anonymous_p\<close> says whether the word \<open>ANONYMOUS\<close> is
  accepted in place of a SID; the flag that it was seen is part of the result. On an error,
  the set and its map keep what was added before.
\<close>

function text_sids ::
    "mem_env \<Rightarrow> bool \<Rightarrow> bool \<Rightarrow> gtid_set \<Rightarrow> sid_map \<Rightarrow> string \<Rightarrow>
     text_result \<times> bool \<times> gtid_set \<times> sid_map" where
  "text_sids e anonymous_p anonymous gs m s =
     (let s = skip_commas s in
      if deref s = CHR 0x00 then (Text_ok, anonymous, gs, m)
      else if anonymous_p \<and> strncmp_eq s ''ANONYMOUS'' 9 then
        let s = drop 9 s in
        if deref s \<noteq> CHR '','' \<and> deref s \<noteq> CHR 0x00 then (Text_malformed, True, gs, m)
        else text_sids e anonymous_p True gs m s
      else case uuid_parse s TEXT_LENGTH of
        None \<Rightarrow> (Text_malformed, anonymous, gs, m)
      | Some sid \<Rightarrow>
          let s = drop TEXT_LENGTH s; (sidno, m) = add_sid e sid m in
          case sidno of
            None \<Rightarrow> (Text_error, anonymous, gs, m)
          | Some k \<Rightarrow>
              let (st, gs) = ensure_sidno e k gs in
              if st \<noteq> RETURN_STATUS_OK then (Text_error, anonymous, gs, m)
              else let (r, gs, s) =
                     text_intervals k gs (ivit_init (ivs_of gs k)) (skip_whitespace s) in
              if r \<noteq> Text_ok then (r, anonymous, gs, m)
              else if deref s \<noteq> CHR '','' \<and> deref s \<noteq> CHR 0x00 then
                (Text_malformed, anonymous, gs, m)
              else text_sids e anonymous_p anonymous gs m s)"
  by pat_completeness auto

termination
proof (relation "measure (\<lambda>(e, ap, a, gs, m, s). length s)", goal_cases)
  case (2 e ap a gs m s t u)
  then show ?case using skip_commas_shorter [of s 9] by simp
next
  case (3 e ap a gs m s t)
  then show ?case using text_intervals_shorter [of s] by (simp) blast
qed simp

declare text_sids.simps [simp del]

definition add_gtid_text ::
    "mem_env \<Rightarrow> string \<Rightarrow> bool \<Rightarrow> bool \<Rightarrow> gtid_set \<Rightarrow> sid_map \<Rightarrow>
     text_result \<times> bool \<times> bool \<times> gtid_set \<times> sid_map" where
  "add_gtid_text e text anonymous_p plus_p gs m =
     (let (starts_with_plus, s) =
            (if plus_p then
               let s = skip_whitespace text in
               if deref s = CHR ''+'' then (True, tl s) else (False, s)
             else (False, text));
          s = skip_whitespace s in
      if deref s = CHR 0x00 then (Text_ok, False, starts_with_plus, gs, m)
      else let (r, anonymous, gs, m) = text_sids e anonymous_p False gs m s
           in (r, anonymous, starts_with_plus, gs, m))"

text \<open>
  \<open>Gtid_set::is_valid\<close> has its own copy of the loops, with nothing stored. The loop over the intervals gives
  the rest of the text, or \<open>None\<close> where \<open>is_valid\<close> returns false.
\<close>

function valid_intervals :: "string \<Rightarrow> string option" where
  "valid_intervals s =
     (if deref s = CHR '':'' then
        let (start, s) = parse_gno (tl s) in
        if start \<le> 0 then None
        else let s = skip_whitespace s in
        if deref s = CHR ''-'' then
          let (end', s) = parse_gno (tl s) in
          if end' < 0 then None else valid_intervals (skip_whitespace s)
        else valid_intervals s
      else Some s)"
  by pat_completeness auto

termination
proof (relation "measure length", goal_cases)
  case (2 s p start s1 s2 q end' s3)
  have "length s1 \<le> length (tl s)"
    using 2(2,3) length_parse_gno [of "tl s"] by (metis snd_conv)
  moreover have "length s2 \<le> length s1"
    using 2(5) length_skip_whitespace by simp
  moreover have "length s3 \<le> length (tl s2)"
    using 2(7,8) length_parse_gno [of "tl s2"] by (metis snd_conv)
  moreover have "length (tl s) < length s"
    using 2(1) by (cases s) auto
  ultimately show ?case
    using length_skip_whitespace [of s3] by simp
next
  case (3 s p start s1 s2)
  have "length s1 \<le> length (tl s)"
    using 3(2,3) length_parse_gno [of "tl s"] by (metis snd_conv)
  moreover have "length (tl s) < length s"
    using 3(1) by (cases s) auto
  ultimately show ?case
    using 3(5) length_skip_whitespace [of s1] by simp
qed simp

declare valid_intervals.simps [simp del]

text \<open>One round of the loop accepts what \<open>add_gtid_text\<close> reads there.\<close>

lemma valid_intervals_read:
  "valid_intervals s =
     (if deref s = CHR '':'' then
        case read_interval (tl s) of None \<Rightarrow> None | Some (start, end', r) \<Rightarrow> valid_intervals r
      else Some s)"
  unfolding valid_intervals.simps [of s] read_interval_def by (auto simp: Let_def split: prod.splits)

lemma length_valid_intervals: "valid_intervals s = Some t \<Longrightarrow> length t \<le> length s"
proof (induction s rule: length_induct)
  case (1 s)
  show ?case
  proof (cases "deref s = CHR '':''")
    case True
    then obtain a b r where r: "read_interval (tl s) = Some (a, b, r)"
      using 1(2) by (auto simp: valid_intervals_read [of s] split: option.splits)
    have "length r < length s" by (rule read_interval_shorter [OF True r])
    moreover have "valid_intervals r = Some t"
      using 1(2) True r by (simp add: valid_intervals_read [of s])
    ultimately show ?thesis using 1(1) by fastforce
  next
    case False
    then show ?thesis using 1(2) by (simp add: valid_intervals_read [of s])
  qed
qed

function valid_sids :: "string \<Rightarrow> bool" where
  "valid_sids s =
     (let s = skip_commas s in
      if deref s = CHR 0x00 then True
      else if \<not> uuid_is_valid s TEXT_LENGTH then False
      else case valid_intervals (skip_whitespace (drop TEXT_LENGTH s)) of
        None \<Rightarrow> False
      | Some s \<Rightarrow> if deref s = CHR '','' then valid_sids s else deref s = CHR 0x00)"
  by pat_completeness auto

termination
proof (relation "measure length", goal_cases)
  case (2 s t u)
  then have "length u \<le> length (skip_whitespace (drop TEXT_LENGTH t))"
    by (intro length_valid_intervals)
  also have "\<dots> \<le> length (drop TEXT_LENGTH t)" by (rule length_skip_whitespace)
  also have "\<dots> < length s" unfolding \<open>t = skip_commas s\<close>
    using 2 by (intro skip_commas_shorter) (simp_all add: TEXT_LENGTH_def)
  finally show ?case by simp
qed simp

declare valid_sids.simps [simp del]

definition gs_is_valid :: "string \<Rightarrow> bool" where
  "gs_is_valid text =
     (let s = skip_whitespace text;
          s = (if deref s = CHR ''+'' then tl s else s)
      in valid_sids (skip_whitespace s))"

section \<open>Writing\<close>

definition default_string_format :: string_format where
  "default_string_format =
     \<lparr>sf_begin = [], sf_end = [], sid_gno_separator = '':'', gno_start_end_separator = ''-'',
      gno_gno_separator = '':'', gno_sid_separator = [CHR '','', CHR 0x0A],
      empty_set_string = Some [], begin_length = 0, end_length = 0,
      sid_gno_separator_length = 1, gno_start_end_separator_length = 1,
      gno_gno_separator_length = 1, gno_sid_separator_length = 2, empty_set_string_length = 0\<rparr>"

definition sql_string_format :: string_format where
  "sql_string_format =
     \<lparr>sf_begin = [CHR 0x27], sf_end = [CHR 0x27], sid_gno_separator = '':'',
      gno_start_end_separator = ''-'', gno_gno_separator = '':'',
      gno_sid_separator = [CHR 0x27, CHR '','', CHR 0x0A, CHR 0x27],
      empty_set_string = Some [CHR 0x27, CHR 0x27], begin_length = 1, end_length = 1,
      sid_gno_separator_length = 1, gno_start_end_separator_length = 1,
      gno_gno_separator_length = 1, gno_sid_separator_length = 4, empty_set_string_length = 2\<rparr>"

definition commented_string_format :: string_format where
  "commented_string_format =
     \<lparr>sf_begin = ''# '', sf_end = [], sid_gno_separator = '':'', gno_start_end_separator = ''-'',
      gno_gno_separator = '':'', gno_sid_separator = [CHR '','', CHR 0x0A, CHR ''#'', CHR '' ''],
      empty_set_string = Some ''# [empty]'', begin_length = 2, end_length = 0,
      sid_gno_separator_length = 1, gno_start_end_separator_length = 1,
      gno_gno_separator_length = 1, gno_sid_separator_length = 4, empty_set_string_length = 9\<rparr>"

text \<open>\<open>memcpy\<close> of a separator with the length given for it.\<close>

definition memcpy_str :: "string \<Rightarrow> int \<Rightarrow> string" where
  "memcpy_str s n = take (nat n) s"

fun intervals_to_string :: "string_format \<Rightarrow> bool \<Rightarrow> interval list \<Rightarrow> string" where
  "intervals_to_string sf first_gno [] = []"
| "intervals_to_string sf first_gno (iv # ivs) =
     (if first_gno then memcpy_str (sid_gno_separator sf) (sid_gno_separator_length sf)
      else memcpy_str (gno_gno_separator sf) (gno_gno_separator_length sf))
     @ format_gno (iv_start iv)
     @ (if iv_end iv > iv_start iv + 1
        then memcpy_str (gno_start_end_separator sf) (gno_start_end_separator_length sf)
             @ format_gno (iv_end iv - 1)
        else [])
     @ intervals_to_string sf False ivs"

fun sids_to_string ::
    "sid_map \<Rightarrow> gtid_set \<Rightarrow> string_format \<Rightarrow> bool \<Rightarrow> nat list \<Rightarrow> string" where
  "sids_to_string m gs sf first_sidno [] = []"
| "sids_to_string m gs sf first_sidno (sidno # ks) =
     (if contains_sidno gs sidno then
        (if first_sidno then [] else memcpy_str (gno_sid_separator sf) (gno_sid_separator_length sf))
        @ uuid_to_string (sidno_to_sid m sidno)
        @ intervals_to_string sf True (ivs_of gs sidno)
        @ sids_to_string m gs sf False ks
      else sids_to_string m gs sf first_sidno ks)"

definition gs_to_string :: "sid_map \<Rightarrow> gtid_set \<Rightarrow> string_format \<Rightarrow> string" where
  "gs_to_string m gs sf =
     (if empty_set_string sf \<noteq> None \<and> is_empty gs
      then memcpy_str (the (empty_set_string sf)) (empty_set_string_length sf)
      else memcpy_str (sf_begin sf) (begin_length sf) @ sids_to_string m gs sf True (sorted_arr m)
           @ memcpy_str (sf_end sf) (end_length sf))"

text \<open>The list of all intervals with the SIDNO, in the order of the SIDs.\<close>

record gtid_interval =
  gi_sidno :: nat
  gno_start :: int
  gno_end :: int

definition get_gtid_intervals :: "sid_map \<Rightarrow> gtid_set \<Rightarrow> gtid_interval list" where
  "get_gtid_intervals m gs =
     concat (map (\<lambda>sidno. if contains_sidno gs sidno
       then map (\<lambda>iv. \<lparr>gi_sidno = sidno, gno_start = iv_start iv, gno_end = iv_end iv - 1\<rparr>)
              (ivs_of gs sidno)
       else []) (sorted_arr m))"

section \<open>The cached length\<close>

function gno_string_length :: "int \<Rightarrow> int" where
  "gno_string_length gno = (if gno div 10 \<le> 0 then 1 else gno_string_length (gno div 10) + 1)"
  by pat_completeness auto

termination by (relation "measure nat") auto

declare gno_string_length.simps [simp del]

text \<open>
  The counters of the loop: SIDs, intervals and intervals with two numbers, which are \<open>int\<close>, and digits,
  which is \<open>size_t\<close>.
\<close>

record string_counts =
  n_sids :: int
  n_intervals :: int
  n_long_intervals :: int
  total_interval_length :: int

fun count_intervals :: "string_counts \<Rightarrow> interval list \<Rightarrow> string_counts" where
  "count_intervals c [] = c"
| "count_intervals c (iv # ivs) =
     (let c = c\<lparr>n_intervals := s32 (n_intervals c + 1),
               total_interval_length := u64 (total_interval_length c + gno_string_length (iv_start iv))\<rparr>;
          c = (if iv_end iv - 1 > iv_start iv
               then c\<lparr>n_long_intervals := s32 (n_long_intervals c + 1),
                      total_interval_length :=
                        u64 (total_interval_length c + gno_string_length (iv_end iv - 1))\<rparr>
               else c)
      in count_intervals c ivs)"

fun count_sids :: "gtid_set \<Rightarrow> string_counts \<Rightarrow> nat list \<Rightarrow> string_counts" where
  "count_sids gs c [] = c"
| "count_sids gs c (sidno # ks) =
     (if ivs_of gs sidno \<noteq> []
      then count_sids gs (count_intervals (c\<lparr>n_sids := s32 (n_sids c + 1)\<rparr>) (ivs_of gs sidno)) ks
      else count_sids gs c ks)"

text \<open>
  The products with a separator length are computed in \<open>int\<close>, except the first one: \<open>TEXT_LENGTH\<close> is
  \<open>size_t\<close>. The sum is \<open>size_t\<close>.
\<close>

definition compute_string_length :: "gtid_set \<Rightarrow> string_format \<Rightarrow> int" where
  "compute_string_length gs sf =
     (let c = count_sids gs
                \<lparr>n_sids = 0, n_intervals = 0, n_long_intervals = 0, total_interval_length = 0\<rparr>
                (sidnos (get_max_sidno gs)) in
      if n_sids c = 0 \<and> empty_set_string sf \<noteq> None then u64 (empty_set_string_length sf)
      else
        let cached_string_length = u64 (s32 (begin_length sf + end_length sf)) in
        if n_sids c > 0 then
          u64 (cached_string_length +
            u64 (total_interval_length c + u64 (u64 (n_sids c) * u64 (int TEXT_LENGTH + sid_gno_separator_length sf))
              + u64 (s32 (s32 (n_sids c - 1) * gno_sid_separator_length sf))
              + u64 (s32 (s32 (n_intervals c - n_sids c) * gno_gno_separator_length sf))
              + u64 (s32 (n_long_intervals c * gno_start_end_separator_length sf))))
        else cached_string_length)"

definition get_string_length :: "string_format option \<Rightarrow> gtid_set \<Rightarrow> int \<times> gtid_set" where
  "get_string_length sf gs =
     (let sf = (case sf of None \<Rightarrow> default_string_format | Some sf \<Rightarrow> sf);
          gs = (if \<not> has_cached_string_length gs \<or> cached_string_format gs \<noteq> Some sf
                then gs\<lparr>cached_string_length := compute_string_length gs sf,
                       has_cached_string_length := True, cached_string_format := Some sf\<rparr>
                else gs)
      in (cached_string_length gs, gs))"

end
