(* ===== verification/Gtid_Text_Proofs.thy ===== *)
theory Gtid_Text_Proofs
  imports Gtid_Text
begin

text \<open>
  The text form of GTID sets: the validator accepts exactly what the reader accepts, the
  cached length is the length of the printed text through all changes of a set, and reading
  a printed set gives its transactions back.
\<close>

section \<open>The validator\<close>

lemma text_intervals_valid:
  "(case valid_intervals s of
      None \<Rightarrow> fst (text_intervals k gs it s) = Text_malformed
    | Some t \<Rightarrow> \<exists>gs'. text_intervals k gs it s = (Text_ok, gs', t))"
proof (induction k gs it s rule: text_intervals.induct)
  case (1 k gs it s)
  show ?case
  proof (cases "deref s = CHR '':''")
    case True
    show ?thesis
    proof (cases "read_interval (tl s)")
      case (Some x)
      obtain a b r where x: "x = (a, b, r)" by (cases x)
      show ?thesis
        using 1(1) [OF True Some x [symmetric] refl _ refl] 1(2) [OF True Some x [symmetric] refl]
          True Some x
        by (cases "a < b")
          (simp_all add: text_intervals.simps [of k gs it s] valid_intervals_read [of s] Let_def
            split: option.splits)
    qed (use True in \<open>simp add: text_intervals.simps [of k gs it s] valid_intervals_read [of s]\<close>)
  qed (simp add: text_intervals.simps [of k gs it s] valid_intervals_read [of s])
qed

lemma add_sid_enough_memory:
  assumes "alloc_ok e" "resize_ok e"
  obtains k m' where "add_sid e sid m = (Some k, m')"
  using assms by (cases "sid_hash m sid") (auto simp: add_sid_def add_node_def Let_def)

lemma ensure_sidno_enough_memory:
  assumes "alloc_ok e"
  obtains gs' where "ensure_sidno e k gs = (RETURN_STATUS_OK, gs')"
  using assms by (cases "get_max_sidno gs < k") (auto simp: ensure_sidno_def Let_def)

lemma text_sids_valid:
  assumes mem: "alloc_ok e" "resize_ok e"
  shows "fst (text_sids e False a gs m s) = (if valid_sids s then Text_ok else Text_malformed)"
proof (induction s arbitrary: a gs m rule: valid_sids.induct)
  case (1 s)
  define t where "t = skip_commas s"
  show ?case
  proof (cases "deref t = CHR 0x00")
    case True
    then show ?thesis
      unfolding text_sids.simps [of e False a gs m s] valid_sids.simps [of s] by (simp add: t_def)
  next
    case nonempty: False
    show ?thesis
    proof (cases "uuid_parse t TEXT_LENGTH")
      case None
      with nonempty show ?thesis
        unfolding text_sids.simps [of e False a gs m s] valid_sids.simps [of s]
        by (simp add: t_def uuid_is_valid_def)
    next
      case (Some sid)
      obtain k m1 where k: "add_sid e sid m = (Some k, m1)" by (rule add_sid_enough_memory [OF mem])
      obtain gs1 where g: "ensure_sidno e k gs = (RETURN_STATUS_OK, gs1)"
        by (rule ensure_sidno_enough_memory [OF mem(1)])
      define v where "v = skip_whitespace (drop TEXT_LENGTH t)"
      obtain r gs2 w where ti: "text_intervals k gs1 (ivit_init (ivs_of gs1 k)) v = (r, gs2, w)"
        by (metis prod_cases3)
      have tx: "fst (text_sids e False a gs m s) =
          (if r \<noteq> Text_ok then r
           else if deref w \<noteq> CHR '','' \<and> deref w \<noteq> CHR 0x00 then Text_malformed
           else fst (text_sids e False a gs2 m1 w))"
        unfolding text_sids.simps [of e False a gs m s] t_def [symmetric] Let_def
        using nonempty Some k g ti by (simp add: v_def [symmetric])
      have valid: "valid_sids s = (case valid_intervals v of None \<Rightarrow> False
          | Some w \<Rightarrow> if deref w = CHR '','' then valid_sids w else deref w = CHR 0x00)"
        unfolding valid_sids.simps [of s] t_def [symmetric] Let_def
        using nonempty Some by (simp add: v_def [symmetric] uuid_is_valid_def)
      show ?thesis
      proof (cases "valid_intervals v")
        case None
        then show ?thesis using text_intervals_valid [where s = v and k = k and gs = gs1 and it = "ivit_init (ivs_of gs1 k)"] ti
          by (simp add: tx valid)
      next
        case w': (Some w')
        then have r: "r = Text_ok" "w' = w"
          using text_intervals_valid [where s = v and k = k and gs = gs1 and it = "ivit_init (ivs_of gs1 k)"] ti by auto
        have nul: "fst (text_sids e False a gs2 m1 w) = Text_ok" if "deref w = CHR 0x00"
          using that by (subst text_sids.simps) (cases w; auto simp: deref_def)
        show ?thesis
          using 1 [OF t_def nonempty _ w' [unfolded v_def]] w' r nul Some
          by (auto simp: tx valid uuid_is_valid_def)
      qed
    qed
  qed
qed

lemma plus_not_valid: "deref s = CHR ''+'' \<Longrightarrow> \<not> valid_sids s"
proof -
  assume "deref s = CHR ''+''"
  then obtain t where s: "s = CHR ''+'' # t" by (cases s) auto
  have "read_section 4 s = None"
    by (simp add: s numeral_eq_Suc hex_to_byte_def)
  then have "\<not> uuid_is_valid s TEXT_LENGTH"
    by (simp add: uuid_is_valid_def uuid_parse_def TEXT_LENGTH_def bytes_per_section_def)
  then show ?thesis
    unfolding valid_sids.simps [of s] by (simp add: s)
qed

text \<open>C31. With enough memory, \<open>add_gtid_text\<close> reads a text without an error exactly when \<open>is_valid\<close> accepts
  it, and if no pointer \<open>starts_with_plus\<close> is given, the text has no leading plus, which \<open>is_valid\<close> always
  allows. The word for anonymous transactions is not allowed here. Every other text is reported as malformed.\<close>

theorem is_valid_iff_readable:
  assumes "alloc_ok e" "resize_ok e"
  shows "fst (add_gtid_text e text False plus_p gs m)
    = (if gs_is_valid text \<and> (plus_p \<or> deref (skip_whitespace text) \<noteq> CHR ''+'') then Text_ok else Text_malformed)"
proof -
  have nul: "valid_sids s" if "deref s = CHR 0x00" for s
    using that by (subst valid_sids.simps) (cases s; auto simp: deref_def)
  let ?s = "skip_whitespace text"
  have idem: "skip_whitespace ?s = ?s"
    by (simp add: skip_whitespace_def)
  have t: "(if deref t = CHR 0x00 then Text_ok else fst (text_sids e False False gs m t))
      = (if valid_sids t then Text_ok else Text_malformed)" for t
    using nul [of t] text_sids_valid [OF assms, of False gs m t] by simp
  have rd: "fst (add_gtid_text e text False plus_p gs m) = (if valid_sids t then Text_ok else Text_malformed)"
    if "t = skip_whitespace (if plus_p then if deref ?s = CHR ''+'' then tl ?s else ?s else text)" for t
    unfolding that t [symmetric] add_gtid_text_def Let_def case_prod_unfold by simp
  show ?thesis
  proof (cases plus_p)
    case True
    show ?thesis
      unfolding rd [OF refl] gs_is_valid_def Let_def by (simp only: True if_True simp_thms)
  next
    case False
    show ?thesis
      unfolding rd [OF refl] gs_is_valid_def Let_def
      using plus_not_valid [of ?s] by (simp only: False if_False simp_thms idem split: if_split) blast
  qed
qed

theorem is_valid_iff_readable_witness:
  "fst (add_gtid_text sample_env ''+ 3e11fa47-71ca-11e1-9e33-c80aa9429562:1-5:7'' False True
      (new_gtid_set (Some 0)) new_sid_map)
   = (if gs_is_valid ''+ 3e11fa47-71ca-11e1-9e33-c80aa9429562:1-5:7'' then Text_ok else Text_malformed)
   \<and> fst (add_gtid_text sample_env ''+ 3e11fa47-71ca-11e1-9e33-c80aa9429562:1-5:7'' False False
      (new_gtid_set (Some 0)) new_sid_map) = Text_malformed"
proof -
  have e: "alloc_ok sample_env" "resize_ok sample_env"
    by (simp_all add: sample_simps)
  have "deref (skip_whitespace ''+ 3e11fa47-71ca-11e1-9e33-c80aa9429562:1-5:7'') = CHR ''+''"
    by (simp add: skip_whitespace_def my_isspace_def)
  then show ?thesis
    by (simp only: is_valid_iff_readable [OF e] simp_thms if_False)
qed

section \<open>Lengths\<close>

lemma digit_count_unique:
  assumes "x < (10::int) ^ a" "x < 10 ^ b" "a = 1 \<or> 10 ^ (a - 1) \<le> x" "b = 1 \<or> 10 ^ (b - 1) \<le> x"
    "1 \<le> a" "1 \<le> b"
  shows "a = b"
proof (rule ccontr)
  have *: False if "a < b" "x < (10::int) ^ a" "b = 1 \<or> 10 ^ (b - 1) \<le> x" "1 \<le> a" for a b
  proof -
    have "(10::int) ^ a \<le> 10 ^ (b - 1)" using that by (intro power_increasing) auto
    moreover have "10 ^ (b - 1) \<le> x" using that by auto
    ultimately show False using that(2) by linarith
  qed
  assume "a \<noteq> b"
  then show False using * [of a b] * [of b a] assms by (meson linorder_neqE_nat)
qed

lemma gno_string_length_bounds:
  "0 \<le> x \<Longrightarrow> 1 \<le> gno_string_length x \<and> x < 10 ^ nat (gno_string_length x)
    \<and> (gno_string_length x = 1 \<or> 10 ^ (nat (gno_string_length x) - 1) \<le> x)"
proof (induction x rule: gno_string_length.induct)
  case (1 x)
  show ?case
  proof (cases "x div 10 \<le> 0")
    case True
    then have "gno_string_length x = 1" by (simp add: gno_string_length.simps)
    then show ?thesis using True 1(2) by simp
  next
    case False
    define n where "n = nat (gno_string_length (x div 10))"
    have IH: "1 \<le> n" "gno_string_length (x div 10) = int n" "x div 10 < 10 ^ n"
      "n = 1 \<or> 10 ^ (n - 1) \<le> x div 10"
      using 1(1) [OF False] False nat_mono [of 1 "gno_string_length (x div 10)"]
      by (auto simp: n_def nat_eq_iff)
    have len: "gno_string_length x = int n + 1"
      using False IH(2) by (simp add: gno_string_length.simps [of x])
    have "x < 10 ^ Suc n" using IH(3) by simp
    moreover have "10 ^ n \<le> x"
    proof (cases "n = 1")
      case True
      then show ?thesis using False by simp
    next
      case False
      then have "10 * 10 ^ (n - 1) \<le> x" using IH(4) by simp
      then show ?thesis using IH(1) by (simp add: power_eq_if)
    qed
    ultimately show ?thesis using len by (simp add: nat_add_distrib)
  qed
qed

lemma length_format_gno:
  assumes "0 \<le> g" "g < 2 ^ 63"
  shows "int (length (format_gno g)) = gno_string_length g"
proof -
  have u: "u64 g = g" using assms by (simp add: u64_id)
  have g: "g < 2 ^ 64" "g < 10 ^ 20" using assms by simp_all
  have "length (format_gno g) = count_digits g"
    using write_counted_digits(5) [OF assms(1) g(1)] u by (simp add: format_gno_def longlong10_to_str_def Let_def)
  also have "\<dots> = nat (gno_string_length g)"
    using count_digits_correct [OF assms(1) g(2)] gno_string_length_bounds [OF assms(1)]
    by (intro digit_count_unique [of g]) auto
  finally show ?thesis using gno_string_length_bounds [OF assms(1)] by simp
qed

text \<open>A format whose recorded lengths are those of its strings.\<close>

definition sf_ok :: "string_format \<Rightarrow> bool" where
  "sf_ok sf \<longleftrightarrow>
     begin_length sf = int (length (sf_begin sf)) \<and> end_length sf = int (length (sf_end sf))
     \<and> sid_gno_separator_length sf = int (length (sid_gno_separator sf))
     \<and> gno_start_end_separator_length sf = int (length (gno_start_end_separator sf))
     \<and> gno_gno_separator_length sf = int (length (gno_gno_separator sf))
     \<and> gno_sid_separator_length sf = int (length (gno_sid_separator sf))
     \<and> (\<forall>s. empty_set_string sf = Some s \<longrightarrow> empty_set_string_length sf = int (length s))"

lemma string_formats_ok: "sf_ok default_string_format" "sf_ok sql_string_format"
  "sf_ok commented_string_format"
  by (simp_all add: sf_ok_def default_string_format_def sql_string_format_def
      commented_string_format_def)

lemma memcpy_full [simp]: "memcpy_str s (int (length s)) = s"
  by (simp add: memcpy_str_def)

text \<open>The contribution of one list of intervals to the counters.\<close>

definition long_count :: "interval list \<Rightarrow> int" where
  "long_count ivs = (\<Sum>iv \<leftarrow> ivs. if iv_end iv - 1 > iv_start iv then 1 else 0)"

definition digit_count :: "interval list \<Rightarrow> int" where
  "digit_count ivs = (\<Sum>iv \<leftarrow> ivs. gno_string_length (iv_start iv)
     + (if iv_end iv - 1 > iv_start iv then gno_string_length (iv_end iv - 1) else 0))"

lemma wrap_add [simp]:
  "s32 (s32 a + b) = s32 (a + b)" "s32 (s32 a) = s32 a" "u64 (u64 a + b) = u64 (a + b)" "u64 (u64 a) = u64 a"
proof -
  have "s32 (x + 2 ^ 32 * y) = s32 x" for x y
    using mod_mult_self2 [of "x + 2 ^ 31" "2 ^ 32" y] by (simp add: s32_def algebra_simps)
  moreover have "s32 a = a + 2 ^ 32 * - ((a + 2 ^ 31) div 2 ^ 32)"
    using div_mult_mod_eq [of "a + 2 ^ 31" "2 ^ 32"] by (simp add: s32_def algebra_simps)
  ultimately show "s32 (s32 a + b) = s32 (a + b)" "s32 (s32 a) = s32 a"
    by (metis add.assoc add.commute)+
  show "u64 (u64 a + b) = u64 (a + b)" "u64 (u64 a) = u64 a"
    by (simp_all add: u64_def mod_simps)
qed

definition counts_wrapped :: "string_counts \<Rightarrow> bool" where
  "counts_wrapped c \<longleftrightarrow>
     s32 (n_sids c) = n_sids c \<and> s32 (n_intervals c) = n_intervals c \<and> s32 (n_long_intervals c) = n_long_intervals c
     \<and> u64 (total_interval_length c) = total_interval_length c"

lemma count_intervals_sum:
  "counts_wrapped c \<Longrightarrow> count_intervals c ivs =
     c\<lparr>n_intervals := s32 (n_intervals c + int (length ivs)),
       n_long_intervals := s32 (n_long_intervals c + long_count ivs),
       total_interval_length := u64 (total_interval_length c + digit_count ivs)\<rparr>"
  by (induction c ivs rule: count_intervals.induct)
    (simp_all add: counts_wrapped_def long_count_def digit_count_def Let_def add.assoc)

lemma count_sids_sum:
  assumes "counts_wrapped c"
  shows "n_sids (count_sids gs c ks) = s32 (n_sids c + (\<Sum>k \<leftarrow> ks. if ivs_of gs k \<noteq> [] then 1 else 0))"
    "n_intervals (count_sids gs c ks) = s32 (n_intervals c + (\<Sum>k \<leftarrow> ks. int (length (ivs_of gs k))))"
    "n_long_intervals (count_sids gs c ks) = s32 (n_long_intervals c + (\<Sum>k \<leftarrow> ks. long_count (ivs_of gs k)))"
    "total_interval_length (count_sids gs c ks)
       = u64 (total_interval_length c + (\<Sum>k \<leftarrow> ks. digit_count (ivs_of gs k)))"
  using assms
  by (induction gs c ks rule: count_sids.induct)
    (simp_all add: count_intervals_sum counts_wrapped_def long_count_def digit_count_def add.assoc)

text \<open>
  The conditions under which the length is computed exactly: the intervals can be counted in \<open>int\<close>, and so can
  the characters of the separators of one kind. The formats of the source have separators of one to four
  characters, so that fewer than \<open>2 ^ 29\<close> intervals are enough.
\<close>

definition interval_total :: "gtid_set \<Rightarrow> int" where
  "interval_total gs = (\<Sum>k \<leftarrow> sidnos (get_max_sidno gs). int (length (ivs_of gs k)))"

definition text_countable :: "gtid_set \<Rightarrow> string_format \<Rightarrow> bool" where
  "text_countable gs sf \<longleftrightarrow>
     interval_total gs < 2 ^ 31 \<and> interval_total gs * gno_sid_separator_length sf < 2 ^ 31
     \<and> interval_total gs * gno_gno_separator_length sf < 2 ^ 31 \<and> interval_total gs * gno_start_end_separator_length sf < 2 ^ 31
     \<and> sid_gno_separator_length sf < 2 ^ 31 \<and> begin_length sf + end_length sf < 2 ^ 31
     \<and> (empty_set_string sf \<noteq> None \<longrightarrow> empty_set_string_length sf < 2 ^ 31)"

text \<open>Every number of the set can be printed and read back.\<close>

definition gno_bounded :: "gtid_set \<Rightarrow> bool" where
  "gno_bounded gs \<longleftrightarrow> (\<forall>ivs \<in> set (m_intervals gs). last_end 0 ivs \<le> GNO_END)"

lemma length_intervals_to_string:
  assumes "sf_ok sf" "ivs_ok lo ivs" "0 \<le> lo" "last_end lo ivs \<le> GNO_END"
  shows "int (length (intervals_to_string sf first ivs)) =
    (if ivs = [] then 0
     else (if first then sid_gno_separator_length sf - gno_gno_separator_length sf else 0)
       + int (length ivs) * gno_gno_separator_length sf
       + long_count ivs * gno_start_end_separator_length sf + digit_count ivs)"
  using assms(2-)
proof (induction ivs arbitrary: lo first)
  case (Cons a ivs)
  have a: "lo < iv_start a" "iv_start a < iv_end a" "ivs_ok (iv_end a) ivs" "0 \<le> iv_end a"
    "last_end (iv_end a) ivs \<le> GNO_END" using Cons.prems by auto
  have e: "iv_end a \<le> GNO_END" using last_end_ge [OF a(3)] a(5) by linarith
  have f: "int (length (format_gno (iv_start a))) = gno_string_length (iv_start a)"
    "int (length (format_gno (iv_end a - 1))) = gno_string_length (iv_end a - 1)"
    using a(1,2) e Cons.prems(2) by (auto intro!: length_format_gno simp: GNO_END_def)
  show ?case
    using Cons.IH [OF a(3-5), of False] f assms(1)
    by (cases "ivs = []") (auto simp: sf_ok_def long_count_def digit_count_def algebra_simps)
qed simp

definition sid_text_length :: "gtid_set \<Rightarrow> string_format \<Rightarrow> nat \<Rightarrow> int" where
  "sid_text_length gs sf k =
     (if contains_sidno gs k then
        int TEXT_LENGTH + sid_gno_separator_length sf - gno_gno_separator_length sf
        + gno_sid_separator_length sf + int (length (ivs_of gs k)) * gno_gno_separator_length sf
        + long_count (ivs_of gs k) * gno_start_end_separator_length sf + digit_count (ivs_of gs k)
      else 0)"

lemma length_sids_to_string:
  assumes "sf_ok sf" "gs_inv gs" "gno_bounded gs" "\<forall>k \<in> set ks. 1 \<le> k \<and> is_uuid (sidno_to_sid m k)"
  shows "int (length (sids_to_string m gs sf first ks)) = (\<Sum>k \<leftarrow> ks. sid_text_length gs sf k)
    - (if first \<and> (\<exists>k \<in> set ks. contains_sidno gs k) then gno_sid_separator_length sf else 0)"
  using assms(4)
proof (induction ks arbitrary: first)
  case (Cons k ks)
  show ?case
  proof (cases "contains_sidno gs k")
    case True
    then have k: "1 \<le> k" "k \<le> get_max_sidno gs" "ivs_of gs k \<noteq> []"
      using Cons.prems by (auto simp: contains_sidno_def split: if_splits)
    then have "ivs_of gs k \<in> set (m_intervals gs)" by (simp add: ivs_of_def get_max_sidno_def)
    then have "last_end 0 (ivs_of gs k) \<le> GNO_END" using assms(3) by (simp add: gno_bounded_def)
    note ivs = length_intervals_to_string [OF assms(1) gs_inv_ivs [OF assms(2) k(1,2)] order_refl this, of True]
    have "int (length (uuid_to_string (sidno_to_sid m k))) = int TEXT_LENGTH"
      using Cons.prems length_uuid_to_string by simp
    then show ?thesis using True Cons.IH [of False] Cons.prems ivs k(3) assms(1)
      by (simp add: sid_text_length_def sf_ok_def)
  next
    case False
    then show ?thesis using Cons by (simp add: sid_text_length_def)
  qed
qed simp

lemma next_sidno_zero: "0 \<notin> set ks \<Longrightarrow> next_sidno gs ks = 0 \<longleftrightarrow> (\<forall>k \<in> set ks. ivs_of gs k = [])"
  by (induction ks) auto

lemma is_empty_iff: "is_empty gs \<longleftrightarrow> (\<forall>k. 1 \<le> k \<longrightarrow> \<not> contains_sidno gs k)"
  using next_sidno_zero [of "sidnos (get_max_sidno gs)" gs]
  by (auto simp: is_empty_def contains_sidno_def)

lemma sum_sid_text_length:
  assumes "\<forall>k \<in> set ks. contains_sidno gs k \<longleftrightarrow> ivs_of gs k \<noteq> []"
  shows "(\<Sum>k \<leftarrow> ks. sid_text_length gs sf k) =
    (\<Sum>k \<leftarrow> ks. if ivs_of gs k \<noteq> [] then 1 else 0)
      * (int TEXT_LENGTH + sid_gno_separator_length sf - gno_gno_separator_length sf
         + gno_sid_separator_length sf)
    + (\<Sum>k \<leftarrow> ks. int (length (ivs_of gs k))) * gno_gno_separator_length sf
    + (\<Sum>k \<leftarrow> ks. long_count (ivs_of gs k)) * gno_start_end_separator_length sf
    + (\<Sum>k \<leftarrow> ks. digit_count (ivs_of gs k))"
  using assms
  by (induction ks)
    (auto simp: sid_text_length_def long_count_def digit_count_def algebra_simps)

lemma sum_list_count_eq_0:
  "(\<Sum>k \<leftarrow> ks. if P k then 1 else 0 :: int) = 0 \<longleftrightarrow> (\<forall>k \<in> set ks. \<not> P k)"
  "0 \<le> (\<Sum>k \<leftarrow> ks. if P k then 1 else 0 :: int)"
proof -
  show nn: "0 \<le> (\<Sum>k \<leftarrow> ks. if P k then 1 else 0 :: int)" for ks by (induction ks) auto
  show "(\<Sum>k \<leftarrow> ks. if P k then 1 else 0 :: int) = 0 \<longleftrightarrow> (\<forall>k \<in> set ks. \<not> P k)"
  proof (induction ks)
    case (Cons k ks)
    then show ?case using nn [of ks] by auto
  qed simp
qed

lemma sid_text_length_unused: "\<not> contains_sidno gs k \<Longrightarrow> sid_text_length gs sf k = 0"
  by (simp add: sid_text_length_def)

lemma sum_list_unused:
  fixes f :: "interval list \<Rightarrow> int"
  shows "\<forall>k \<in> set ks. ivs_of gs k = [] \<Longrightarrow> f [] = 0 \<Longrightarrow> (\<Sum>k \<leftarrow> ks. f (ivs_of gs k)) = 0"
  by (induction ks) auto

text \<open>Nothing wraps around under these conditions.\<close>

lemma exact_length:
  fixes A B C ns be sg gs gg gse :: int
  assumes n: "0 < ns" "ns \<le> A" "0 \<le> B" "B \<le> A" "0 \<le> C" "C \<le> 38 * A" "A < 2 ^ 31"
    and l: "0 \<le> be" "be < 2 ^ 31" "0 \<le> sg" "sg < 2 ^ 31" "0 \<le> gs" "0 \<le> gg" "0 \<le> gse"
      "A * gs < 2 ^ 31" "A * gg < 2 ^ 31" "A * gse < 2 ^ 31"
  shows "u64 (u64 (s32 be) + u64 (u64 C + u64 (u64 (s32 ns) * u64 (36 + sg)) + u64 (s32 (s32 (s32 ns - 1) * gs))
      + u64 (s32 (s32 (s32 A - s32 ns) * gg)) + u64 (s32 (s32 B * gse))))
    = be + (C + ns * (36 + sg) + (ns - 1) * gs + (A - ns) * gg + B * gse)"
proof -
  have p: "(ns - 1) * gs \<le> A * gs" "(A - ns) * gg \<le> A * gg" "B * gse \<le> A * gse"
    "0 \<le> (ns - 1) * gs" "0 \<le> (A - ns) * gg" "0 \<le> B * gse"
    using n l by (auto intro!: mult_right_mono mult_nonneg_nonneg)
  have "ns * (36 + sg) \<le> 2 ^ 31 * (36 + 2 ^ 31)"
    by (rule mult_mono) (use n l in auto)
  then have q: "ns * (36 + sg) \<le> 4611686095736799232" "0 \<le> ns * (36 + sg)"
    using n l by auto
  have i: "s32 ns = ns" "s32 A = A" "s32 B = B" "s32 (ns - 1) = ns - 1" "s32 (A - ns) = A - ns" "s32 be = be"
    using n l by (auto intro!: s32_id)
  have j: "s32 ((ns - 1) * gs) = (ns - 1) * gs" "s32 ((A - ns) * gg) = (A - ns) * gg" "s32 (B * gse) = B * gse"
    using p l by (auto intro!: s32_id)
  have k: "u64 ((ns - 1) * gs) = (ns - 1) * gs" "u64 ((A - ns) * gg) = (A - ns) * gg" "u64 (B * gse) = B * gse" "u64 C = C"
    "u64 be = be" "u64 ns = ns" "u64 (36 + sg) = 36 + sg" "u64 (ns * (36 + sg)) = ns * (36 + sg)"
    using p q n l by (auto intro!: u64_id)
  show ?thesis
    unfolding i j k using p q n l by (subst u64_id; simp add: u64_id)+
qed

lemma gno_string_length_le:
  assumes "0 \<le> x" "x < 2 ^ 63"
  shows "gno_string_length x \<le> 19"
proof (rule ccontr)
  assume "\<not> gno_string_length x \<le> 19"
  then have n: "19 \<le> nat (gno_string_length x) - 1" "gno_string_length x \<noteq> 1"
    by auto
  have "(10 :: int) ^ 19 \<le> 10 ^ (nat (gno_string_length x) - 1)"
    by (rule power_increasing [OF n(1)]) simp
  with n(2) show False
    using gno_string_length_bounds [OF assms(1)] assms(2) by auto
qed

lemma interval_count_bounds:
  assumes "ivs_ok lo ivs" "0 \<le> lo" "last_end lo ivs \<le> GNO_END"
  shows "0 \<le> long_count ivs" "long_count ivs \<le> int (length ivs)" "0 \<le> digit_count ivs" "digit_count ivs \<le> 38 * int (length ivs)"
    "(if ivs \<noteq> [] then 1 else 0) \<le> int (length ivs)"
proof -
  have "0 \<le> long_count ivs \<and> long_count ivs \<le> int (length ivs) \<and> 0 \<le> digit_count ivs \<and> digit_count ivs \<le> 38 * int (length ivs)"
    using assms
  proof (induction ivs arbitrary: lo)
    case (Cons a ivs)
    have a: "lo < iv_start a" "iv_start a < iv_end a" "ivs_ok (iv_end a) ivs" "0 \<le> iv_end a" "last_end (iv_end a) ivs \<le> GNO_END"
      using Cons.prems by auto
    have "iv_end a \<le> GNO_END" using last_end_ge [OF a(3)] a(5) by linarith
    then have "gno_string_length (iv_start a) \<le> 19" "gno_string_length (iv_end a - 1) \<le> 19"
      "1 \<le> gno_string_length (iv_start a)" "1 \<le> gno_string_length (iv_end a - 1)"
      using a(1,2) Cons.prems(2) gno_string_length_bounds by (auto simp: GNO_END_def intro!: gno_string_length_le)
    then show ?case
      using Cons.IH [OF a(3-5)] by (auto simp: long_count_def digit_count_def)
  qed (simp add: long_count_def digit_count_def)
  then show "0 \<le> long_count ivs" "long_count ivs \<le> int (length ivs)" "0 \<le> digit_count ivs" "digit_count ivs \<le> 38 * int (length ivs)"
    by auto
  show "(if ivs \<noteq> [] then 1 else 0) \<le> int (length ivs)"
    by (cases ivs) auto
qed

lemma compute_string_length_exact:
  assumes inv: "gs_inv gs" and b: "gno_bounded gs" and sf: "sf_ok sf" and t: "text_countable gs sf"
    and ns: "ns = (\<Sum>k \<leftarrow> sidnos (get_max_sidno gs). if ivs_of gs k \<noteq> [] then 1 else 0 :: int)"
    and A: "A = (\<Sum>k \<leftarrow> sidnos (get_max_sidno gs). int (length (ivs_of gs k)))"
    and B: "B = (\<Sum>k \<leftarrow> sidnos (get_max_sidno gs). long_count (ivs_of gs k))"
    and C: "C = (\<Sum>k \<leftarrow> sidnos (get_max_sidno gs). digit_count (ivs_of gs k))"
  shows "compute_string_length gs sf =
    (if ns = 0 \<and> empty_set_string sf \<noteq> None then empty_set_string_length sf
     else begin_length sf + end_length sf +
       (if ns > 0 then C + ns * (int TEXT_LENGTH + sid_gno_separator_length sf)
          + (ns - 1) * gno_sid_separator_length sf + (A - ns) * gno_gno_separator_length sf
          + B * gno_start_end_separator_length sf else 0))"
proof -
  let ?c = "count_sids gs \<lparr>n_sids = 0, n_intervals = 0, n_long_intervals = 0, total_interval_length = 0\<rparr> (sidnos (get_max_sidno gs))"
  have w: "counts_wrapped \<lparr>n_sids = 0, n_intervals = 0, n_long_intervals = 0, total_interval_length = 0\<rparr>"
    by (simp add: counts_wrapped_def s32_def u64_def)
  have c: "n_sids ?c = s32 ns" "n_intervals ?c = s32 A" "n_long_intervals ?c = s32 B" "total_interval_length ?c = u64 C"
    unfolding count_sids_sum [OF w] ns A B C by simp_all
  have k: "ivs_ok 0 (ivs_of gs k)" "last_end 0 (ivs_of gs k) \<le> GNO_END" if "k \<in> set (sidnos (get_max_sidno gs))" for k
  proof -
    have "1 \<le> k" "k \<le> get_max_sidno gs"
      using that by auto
    moreover from this have "ivs_of gs k \<in> set (m_intervals gs)"
      by (simp add: ivs_of_def get_max_sidno_def)
    ultimately show "ivs_ok 0 (ivs_of gs k)" "last_end 0 (ivs_of gs k) \<le> GNO_END"
      using gs_inv_ivs [OF inv] b by (auto simp: gno_bounded_def)
  qed
  note iv = interval_count_bounds [OF k(1) order_refl k(2)]
  have n: "0 \<le> ns" "ns \<le> A" "0 \<le> B" "B \<le> A" "0 \<le> C" "C \<le> 38 * A"
    unfolding ns A B C sum_list_const_mult [symmetric]
    using iv by (auto intro!: sum_list_nonneg sum_list_mono)
  have l: "A < 2 ^ 31" "A * gno_sid_separator_length sf < 2 ^ 31" "A * gno_gno_separator_length sf < 2 ^ 31"
    "A * gno_start_end_separator_length sf < 2 ^ 31" "sid_gno_separator_length sf < 2 ^ 31" "begin_length sf + end_length sf < 2 ^ 31"
    "empty_set_string sf \<noteq> None \<Longrightarrow> empty_set_string_length sf < 2 ^ 31"
    using t by (auto simp: text_countable_def interval_total_def A)
  have sn: "0 \<le> gno_sid_separator_length sf" "0 \<le> gno_gno_separator_length sf" "0 \<le> gno_start_end_separator_length sf"
    "0 \<le> sid_gno_separator_length sf" "0 \<le> begin_length sf + end_length sf" "empty_set_string sf \<noteq> None \<Longrightarrow> 0 \<le> empty_set_string_length sf"
    using sf by (auto simp: sf_ok_def)
  have s: "s32 ns = ns" "u64 (s32 (begin_length sf + end_length sf)) = begin_length sf + end_length sf"
    "empty_set_string sf \<noteq> None \<Longrightarrow> u64 (empty_set_string_length sf) = empty_set_string_length sf"
    using n l sn by (auto simp: s32_id u64_id)
  show ?thesis
  proof (cases "0 < ns")
    case True
    from exact_length [OF True n(2-6) l(1) sn(5) l(6) sn(4) l(5) sn(1-3) l(2-4)] True s(1) show ?thesis
      unfolding compute_string_length_def Let_def c by (simp add: TEXT_LENGTH_def)
  next
    case False
    then show ?thesis
      using n(1) s unfolding compute_string_length_def Let_def c by auto
  qed
qed

lemma compute_string_length_correct:
  assumes "gs_wf m gs" "gno_bounded gs" "sf_ok sf" "text_countable gs sf"
  shows "compute_string_length gs sf = int (length (gs_to_string m gs sf))"
proof -
  let ?ks = "sidnos (get_max_sidno gs)"
  have inv: "gs_inv gs" "sid_map_inv m" "get_max_sidno gs \<le> map_max_sidno m"
    "set (sorted_arr m) = {1..map_max_sidno m}"
    using assms(1) by (auto simp: gs_wf_def sid_map_inv_def map_max_sidno_def)
  have c: "\<forall>k \<in> set ?ks. contains_sidno gs k \<longleftrightarrow> ivs_of gs k \<noteq> []"
    by (auto simp: contains_sidno_def)
  define ns where "ns = (\<Sum>k \<leftarrow> ?ks. if ivs_of gs k \<noteq> [] then 1 else 0 :: int)"
  have ns: "ns = 0 \<longleftrightarrow> is_empty gs" "0 \<le> ns"
    unfolding ns_def using sum_list_count_eq_0 [where ks = ?ks and P = "\<lambda>k. ivs_of gs k \<noteq> []"] c
    by (auto simp: is_empty_iff contains_sidno_def)
  have used: "(\<exists>k \<in> set (sorted_arr m). contains_sidno gs k) \<longleftrightarrow> ns \<noteq> 0"
  proof -
    have "k \<le> map_max_sidno m" if "contains_sidno gs k" for k
      using that inv(3) by (simp add: contains_sidno_def split: if_splits)
    then show ?thesis unfolding ns(1) is_empty_iff inv(4) atLeastAtMost_iff Bex_def by blast
  qed
  have "\<forall>k \<in> set (sorted_arr m). 1 \<le> k \<and> is_uuid (sidno_to_sid m k)"
    using sid_to_sidno_inv(3) [OF inv(2)] inv(4) by simp
  note sids = length_sids_to_string [OF assms(3) inv(1) assms(2) this, of True]
  note sum = sum_list_sidnos [where f = "sid_text_length gs sf", OF assms(1) sid_text_length_unused]
    sum_sid_text_length [OF c, of sf]
  define A B C where "A = (\<Sum>k \<leftarrow> ?ks. int (length (ivs_of gs k)))"
    and "B = (\<Sum>k \<leftarrow> ?ks. long_count (ivs_of gs k))" and "C = (\<Sum>k \<leftarrow> ?ks. digit_count (ivs_of gs k))"
  note comp = compute_string_length_exact [OF inv(1) assms(2-4) ns_def A_def B_def C_def]
  have len: "int (length (sids_to_string m gs sf True (sorted_arr m))) =
    ns * (int TEXT_LENGTH + sid_gno_separator_length sf - gno_gno_separator_length sf
      + gno_sid_separator_length sf) + A * gno_gno_separator_length sf
    + B * gno_start_end_separator_length sf + C - (if ns \<noteq> 0 then gno_sid_separator_length sf else 0)"
    using sids trans [OF sum] unfolding ns_def [symmetric] A_def [symmetric] B_def [symmetric]
      C_def [symmetric] by (simp add: used)
  show ?thesis
  proof (cases "ns = 0")
    case True
    have "\<forall>k \<in> set ?ks. ivs_of gs k = []"
      using True sum_list_count_eq_0(1) [where ks = ?ks and P = "\<lambda>k. ivs_of gs k \<noteq> []"]
      by (simp add: ns_def)
    then have "A = 0" "B = 0" "C = 0"
      unfolding A_def B_def C_def
      by (intro sum_list_unused; simp add: long_count_def digit_count_def)+
    then show ?thesis using True len ns(1) assms(3)
      by (auto simp: comp gs_to_string_def sf_ok_def)
  next
    case False
    then show ?thesis using len ns assms(3)
      by (simp add: comp gs_to_string_def sf_ok_def algebra_simps)
  qed
qed

section \<open>The cache\<close>

text \<open>A cached length is the length for the format it was computed for.\<close>

definition cache_ok :: "gtid_set \<Rightarrow> bool" where
  "cache_ok gs \<longleftrightarrow> (\<forall>sf. has_cached_string_length gs \<and> cached_string_format gs = Some sf
     \<longrightarrow> cached_string_length gs = compute_string_length gs sf)"

lemma count_sids_append: "count_sids gs c (as @ bs) = count_sids gs (count_sids gs c as) bs"
  by (induction gs c as rule: count_sids.induct) auto

lemma count_sids_cong:
  "(\<And>k. k \<in> set ks \<Longrightarrow> ivs_of gs k = ivs_of gs' k) \<Longrightarrow> count_sids gs c ks = count_sids gs' c ks"
  by (induction ks arbitrary: c) auto

lemma count_sids_empty:
  "(\<And>k. k \<in> set ks \<Longrightarrow> ivs_of gs k = []) \<Longrightarrow> count_sids gs c ks = c"
  by (induction ks) auto

text \<open>Growing the array by empty lists does not change the text, so the cache stays valid.\<close>

lemma grown_string_length:
  "compute_string_length (gs\<lparr>m_intervals := m_intervals gs @ replicate j []\<rparr>) sf = compute_string_length gs sf"
proof -
  let ?n = "get_max_sidno gs"
  let ?gs = "gs\<lparr>m_intervals := m_intervals gs @ replicate j []\<rparr>"
  have max: "get_max_sidno ?gs = ?n + j" by (simp add: get_max_sidno_def)
  have split: "sidnos (?n + j) = sidnos ?n @ [?n + 1..<?n + j + 1]"
    using upt_add_eq_append [of 1 "?n + 1" j] by (simp add: sidnos_def)
  have "count_sids ?gs c (sidnos (?n + j)) = count_sids gs c (sidnos ?n)" for c
  proof -
    have "count_sids ?gs c (sidnos ?n) = count_sids gs c (sidnos ?n)"
      by (rule count_sids_cong) (auto simp: ivs_of_def nth_append get_max_sidno_def)
    moreover have "count_sids ?gs d [?n + 1..<?n + j + 1] = d" for d
      by (rule count_sids_empty) (auto simp: ivs_of_def nth_append get_max_sidno_def)
    ultimately show ?thesis unfolding split count_sids_append by simp
  qed
  then show ?thesis unfolding compute_string_length_def max by simp
qed

lemma ensure_sidno_cache: "cache_ok gs \<Longrightarrow> cache_ok (snd (ensure_sidno e k gs))"
  by (simp add: ensure_sidno_def cache_ok_def grown_string_length Let_def)

lemma change_cache:
  "cache_ok (store_added k it gs)" "cache_ok (store_removed k it gs)" "cache_ok (new_gtid_set p)"
  "cache_ok (gs_clear gs)" "cache_ok (fst (clear_set_and_sid_map gs sm))"
  by (simp_all add: cache_ok_def store_added_def store_removed_def new_gtid_set_def gs_clear_def clear_set_and_sid_map_def Let_def)

lemma intervals_cache:
  "cache_ok gs \<Longrightarrow> cache_ok (gs_add_gno_intervals k os gs)"
  "cache_ok gs \<Longrightarrow> cache_ok (gs_remove_gno_intervals k os gs)"
  by (simp_all add: gs_add_gno_intervals_def gs_remove_gno_intervals_def change_cache)

text \<open>The operations on whole sets.\<close>

lemma add_same_loop_cache: "cache_ok gs \<Longrightarrow> cache_ok (add_same_loop other ks gs)"
  by (induction other ks gs rule: add_same_loop.induct) (simp_all add: intervals_cache)

lemma remove_same_loop_cache: "cache_ok gs \<Longrightarrow> cache_ok (remove_same_loop other ks gs)"
  by (induction other ks gs rule: remove_same_loop.induct) (simp_all add: intervals_cache)

lemma add_other_loop_cache: "cache_ok gs \<Longrightarrow> cache_ok (fst (snd (add_other_loop e other om ks gs m)))"
proof (induction e other om ks gs m rule: add_other_loop.induct)
  case (2 e other om k ks gs m)
  obtain a m1 where a: "add_sid e (sidno_to_sid om k) m = (a, m1)"
    by fastforce
  show ?case
  proof (cases a)
    case (Some n)
    obtain st gs1 where g: "ensure_sidno e n gs = (st, gs1)"
      by fastforce
    then have "cache_ok gs1"
      using ensure_sidno_cache [OF "2.prems", of e n] by simp
    then show ?thesis
      using 2 a Some g by (auto simp: Let_def intervals_cache)
  qed (use 2 a in auto)
qed simp

lemma add_gtid_set_cache: "cache_ok gs \<Longrightarrow> cache_ok (fst (snd (add_gtid_set e other gs sm)))"
  using ensure_sidno_cache add_same_loop_cache add_other_loop_cache
  by (simp add: add_gtid_set_def Let_def case_prod_unfold)

lemma remove_other_loop_cache: "cache_ok gs \<Longrightarrow> remove_other_loop other om m ks gs = Some gs' \<Longrightarrow> cache_ok gs'"
  by (induction other om m ks gs rule: remove_other_loop.induct) (auto simp: Let_def intervals_cache split: if_splits)

lemma remove_gtid_set_cache: "cache_ok gs \<Longrightarrow> remove_gtid_set other gs sm = Some gs' \<Longrightarrow> cache_ok gs'"
  using remove_same_loop_cache [of gs] remove_other_loop_cache [of gs] by (auto simp: remove_gtid_set_def Let_def split: if_splits)

lemma decode_sids_cache: "cache_ok gs \<Longrightarrow> cache_ok (fst (snd (decode_sids e n i gs m bs)))"
proof (induction e n i gs m bs rule: decode_sids.induct)
  case (1 e n i gs m bs)
  obtain a m1 where a: "add_sid e (copy_from bs) m = (a, m1)"
    by fastforce
  show ?case
  proof (cases a)
    case (Some k)
    obtain st gs1 where g: "ensure_sidno e k gs = (st, gs1)"
      by fastforce
    obtain r it bs3 where d: "decode_intervals (uint8korr (drop 16 bs)) 0 0 (ivit_init (ivs_of gs1 k)) (drop 8 (drop 16 bs)) = (r, it, bs3)"
      by (metis prod_cases3)
    define gs2 where "gs2 = (if uint8korr (drop 16 bs) = 0 then gs1 else store_added k it gs1)"
    have c: "cache_ok gs1" "cache_ok gs2"
      using ensure_sidno_cache [OF "1.prems", of e k] g change_cache by (simp_all add: gs2_def)
    have IH: "cache_ok (fst (snd (decode_sids e n (u32 (i + 1)) gs2 m1 bs3)))"
      if "i < n" "\<not> length bs < 16 + 8" "st = RETURN_STATUS_OK" "r = Decode_ok"
        "\<not> int (length (drop 8 (drop 16 bs))) < u64 (2 * 8 * uint8korr (drop 16 bs))"
      using "1.IH" [OF _ that(2) refl refl refl refl a [symmetric] refl Some g [symmetric] refl _ that(5) d [symmetric] refl refl
          gs2_def _ c(2)] that by simp
    show ?thesis
      using 1 a Some g d c IH by (subst decode_sids.simps) (simp add: Let_def gs2_def [symmetric] del: drop_drop)
  qed (use 1 a in \<open>simp add: decode_sids.simps\<close>)
qed

lemma add_gtid_encoding_cache: "cache_ok gs \<Longrightarrow> cache_ok (fst (snd (add_gtid_encoding e bs exact gs m)))"
  using decode_sids_cache [of gs e "uint8korr bs" 0 m "drop 8 bs"]
  by (simp add: add_gtid_encoding_def Let_def case_prod_unfold)

lemma text_intervals_cache: "cache_ok gs \<Longrightarrow> cache_ok (fst (snd (text_intervals k gs it s)))"
proof (induction k gs it s rule: text_intervals.induct)
  case (1 k gs it s)
  show ?case
  proof (cases "deref s = CHR '':''")
    case True
    show ?thesis
    proof (cases "read_interval (tl s)")
      case (Some x)
      obtain a b r where x: "x = (a, b, r)" by (cases x)
      show ?thesis
        using 1(1) [OF True Some x [symmetric] refl _ refl] 1(2) [OF True Some x [symmetric] refl] 1(3) True Some x
        by (cases "a < b") (simp_all add: text_intervals.simps [of k gs it s] Let_def change_cache)
    qed (use 1(3) True in \<open>simp add: text_intervals.simps\<close>)
  qed (use 1(3) in \<open>simp add: text_intervals.simps\<close>)
qed

lemma text_sids_cache: "cache_ok gs \<Longrightarrow> cache_ok (fst (snd (snd (text_sids e ap a gs m s))))"
proof (induction e ap a gs m s rule: text_sids.induct)
  case (1 e ap a gs m s)
  define t where "t = skip_commas s"
  consider (ends) "deref t = CHR 0x00" | (anon) "deref t \<noteq> CHR 0x00" "ap \<and> strncmp_eq t ''ANONYMOUS'' 9"
    | (bad) "deref t \<noteq> CHR 0x00" "\<not> (ap \<and> strncmp_eq t ''ANONYMOUS'' 9)" "uuid_parse t TEXT_LENGTH = None"
    | (sid) sid where "deref t \<noteq> CHR 0x00" "\<not> (ap \<and> strncmp_eq t ''ANONYMOUS'' 9)" "uuid_parse t TEXT_LENGTH = Some sid"
    by fastforce
  then show ?case
  proof cases
    case anon
    then show ?thesis
      using 1(1) [OF t_def anon refl] "1.prems" unfolding text_sids.simps [of e ap a gs m s] t_def [symmetric]
      by (simp add: Let_def)
  next
    case sid
    obtain k m1 where k: "add_sid e sid m = (k, m1)"
      by fastforce
    show ?thesis
    proof (cases k)
      case None
      then show ?thesis
        using sid k "1.prems" unfolding text_sids.simps [of e ap a gs m s] t_def [symmetric] by (auto simp: Let_def)
    next
      case (Some n)
      obtain st gs1 where g: "ensure_sidno e n gs = (st, gs1)"
        by fastforce
      obtain r gs2 w where ti: "text_intervals n gs1 (ivit_init (ivs_of gs1 n)) (skip_whitespace (drop TEXT_LENGTH t)) = (r, gs2, w)"
        by (metis prod_cases3)
      have c: "cache_ok gs1" "cache_ok gs2"
        using ensure_sidno_cache [OF "1.prems", of e n] g
          text_intervals_cache [of gs1 n "ivit_init (ivs_of gs1 n)" "skip_whitespace (drop TEXT_LENGTH t)"] ti by simp_all
      have IH: "cache_ok (fst (snd (snd (text_sids e ap a gs2 m1 w))))"
        if "st = RETURN_STATUS_OK" "r = Text_ok" "\<not> (deref w \<noteq> CHR '','' \<and> deref w \<noteq> CHR 0x00)"
        using 1(2) [OF t_def sid refl refl k [symmetric] Some refl g [symmetric] _ refl ti [symmetric] refl _ that(3) c(2)] that by simp
      show ?thesis
        unfolding text_sids.simps [of e ap a gs m s] t_def [symmetric] using sid k Some g ti c IH
        by (auto simp: Let_def)
    qed
  qed (use "1.prems" in \<open>auto simp: text_sids.simps [of e ap a gs m s] t_def [symmetric] Let_def\<close>)
qed

lemma add_gtid_text_cache: "cache_ok gs \<Longrightarrow> cache_ok (fst (snd (snd (snd (add_gtid_text e t ap pp gs m)))))"
  using text_sids_cache by (simp add: add_gtid_text_def Let_def case_prod_unfold)

text \<open>C32. The cached text length is right through all changes of a set. Every operation that changes a set
  keeps the cache valid, although growing the array does not reset it: a new set, adding and removing
  transactions, lists of intervals and whole sets, reading an encoding or a text, clearing, growing the
  array, failures included, and asking for a length. With a valid cache
  \<open>get_string_length\<close> gives the length of what \<open>to_string\<close> writes, in every format whose
  recorded lengths are right, the three built-in ones among them, as long as the intervals and the separators of each
  kind can be counted in \<open>int\<close>, in which the code computes.\<close>

theorem string_length_cache:
  assumes "cache_ok gs" "gs_wf m gs" "gno_bounded gs" "sf_ok sf" "text_countable gs sf"
  shows "fst (get_string_length (Some sf) gs) = int (length (gs_to_string m gs sf))
    \<and> cache_ok (snd (get_string_length (Some sf) gs)) \<and> cache_ok (new_gtid_set p)
    \<and> cache_ok (add_gtid k g gs) \<and> cache_ok (remove_gtid k g gs)
    \<and> cache_ok (gs_add_gno_intervals k ivs gs) \<and> cache_ok (gs_remove_gno_intervals k ivs gs)
    \<and> cache_ok (remove_intervals_for_sidno other k gs)
    \<and> cache_ok (fst (snd (add_gtid_set e other gs sm))) \<and> cache_ok (case remove_gtid_set other gs sm of None \<Rightarrow> gs | Some gs' \<Rightarrow> gs')
    \<and> cache_ok (fst (snd (add_gtid_encoding e bs exact gs sid_map)))
    \<and> cache_ok (fst (snd (snd (snd (add_gtid_text e t anonymous_p plus_p gs sid_map)))))
    \<and> cache_ok (gs_clear gs) \<and> cache_ok (fst (clear_set_and_sid_map gs sm)) \<and> cache_ok (snd (ensure_sidno e k gs))
    \<and> sf_ok default_string_format \<and> sf_ok sql_string_format \<and> sf_ok commented_string_format"
proof -
  have "compute_string_length (gs\<lparr>cached_string_length := a, has_cached_string_length := b,
      cached_string_format := c\<rparr>) sf = compute_string_length gs sf" for a b c
  proof -
    have "count_sids (gs\<lparr>cached_string_length := a, has_cached_string_length := b,
      cached_string_format := c\<rparr>) d ks = count_sids gs d ks" for d ks
      by (rule count_sids_cong) (simp add: ivs_of_def)
    then show ?thesis by (simp add: compute_string_length_def get_max_sidno_def)
  qed
  then have "fst (get_string_length (Some sf) gs) = int (length (gs_to_string m gs sf))"
    "cache_ok (snd (get_string_length (Some sf) gs))"
    using assms(1) compute_string_length_correct [OF assms(2-5)]
    by (auto simp: get_string_length_def cache_ok_def Let_def)
  moreover have "cache_ok (case remove_gtid_set other gs sm of None \<Rightarrow> gs | Some gs' \<Rightarrow> gs')"
    using assms(1) remove_gtid_set_cache by (auto split: option.split)
  ultimately show ?thesis
    using assms(1) ensure_sidno_cache change_cache intervals_cache string_formats_ok add_gtid_set_cache add_gtid_encoding_cache
      add_gtid_text_cache
    by (simp add: add_gtid_def remove_gtid_def remove_intervals_for_sidno_def)
qed

theorem string_length_cache_witness:
  "fst (get_string_length (Some sql_string_format) (sample_set 0 2 12))
     = int (length (gs_to_string sample_map (sample_set 0 2 12) sql_string_format))"
proof -
  have "cache_ok (sample_set 0 2 12)" "gno_bounded (sample_set 0 2 12)"
    by (simp_all add: sample_set_def cache_ok_def gno_bounded_def GNO_END_def new_gtid_set_def)
  moreover have "text_countable (sample_set 0 2 12) sql_string_format"
    by (simp add: text_countable_def interval_total_def sample_set_def sql_string_format_def get_max_sidno_def sidnos_def ivs_of_def)
  ultimately show ?thesis
    using string_length_cache [OF _ sample_wf [of 2 12 0], of sql_string_format] string_formats_ok by simp
qed

section \<open>Reading what was written\<close>

lemma strtoll_digit_of: "is_digit c \<Longrightarrow> strtoll_digit c = digit_of c"
  using digit_of_char [of c] by (auto simp: strtoll_digit_def digit_of_def u8_def Let_def)

lemma digit_not_special:
  assumes "is_digit c"
  shows "\<not> my_isspace c" "c \<noteq> CHR ''-''" "c \<noteq> CHR ''+''"
proof -
  show "\<not> my_isspace c" using digit_of_char [OF assms] by (auto simp: my_isspace_def Let_def)
  show "c \<noteq> CHR ''-''" "c \<noteq> CHR ''+''" using not_digit_signs [OF assms] by auto
qed

lemma foldl_dec_val:
  "\<forall>c \<in> set ds. is_digit c \<Longrightarrow> foldl (\<lambda>a c. a * 10 + strtoll_digit c) x ds = foldl (\<lambda>a c. a * 10 + digit_of c) x ds"
  by (induction ds arbitrary: x) (auto simp: strtoll_digit_of)

lemma strtoll0_digits:
  assumes "ds \<noteq> []" "hd ds \<noteq> CHR ''0''" "\<forall>c \<in> set ds. is_digit c" "dec_val ds < 2 ^ 63"
    "rest = [] \<or> 10 \<le> strtoll_digit (hd rest)"
  shows "strtoll0 (ds @ rest) = (dec_val ds, rest)"
proof -
  obtain c cs where ds: "ds = c # cs" using assms(1) by (cases ds) auto
  note c = digit_not_special [of c]
  have d: "is_digit c" using assms(3) ds by simp
  have skip: "skip_whitespace (ds @ rest) = ds @ rest" using c d ds by (simp add: skip_whitespace_def)
  have base: "strtoll_base (ds @ rest) = (10, ds @ rest)" using assms(2) ds by (simp add: strtoll_base_def)
  have small: "\<forall>c \<in> set ds. strtoll_digit c < 10" using assms(3) strtoll_digit_of by auto
  have tw: "takeWhile (\<lambda>c. strtoll_digit c < 10) (ds @ rest) = ds"
    using small assms(5) by (cases rest) (auto simp: takeWhile_append2)
  have val: "foldl (\<lambda>a c. a * 10 + strtoll_digit c) 0 ds = dec_val ds"
    using foldl_dec_val [OF assms(3)] by (simp add: dec_val_def)
  have sign: "deref (ds @ rest) \<noteq> CHR ''-''" "deref (ds @ rest) \<noteq> CHR ''+''"
    using c d ds by simp_all
  show ?thesis
    unfolding strtoll0_def Let_def skip using sign base tw val assms(1,4) by simp
qed

lemma format_gno_digits:
  assumes "1 \<le> g" "g < 2 ^ 63"
  shows "format_gno g \<noteq> []" "hd (format_gno g) \<noteq> CHR ''0''" "\<forall>c \<in> set (format_gno g). is_digit c"
    "dec_val (format_gno g) = g"
proof -
  have u: "u64 g = g" using assms by (simp add: u64_id)
  have g: "0 \<le> g" "g < 2 ^ 64" "g < 10 ^ 20" using assms by simp_all
  have f: "format_gno g = write_digits g (count_digits g)"
    using u by (simp add: format_gno_def longlong10_to_str_def Let_def)
  note w = write_counted_digits [OF g(1,2), folded f]
  show "format_gno g \<noteq> []" "\<forall>c \<in> set (format_gno g). is_digit c" "dec_val (format_gno g) = g"
    using w by auto
  show "hd (format_gno g) \<noteq> CHR ''0''"
  proof
    assume z: "hd (format_gno g) = CHR ''0''"
    obtain cs where cs: "format_gno g = CHR ''0'' # cs" using w(1) z by (cases "format_gno g") auto
    have "g = dec_val cs" using w(4) cs by (simp add: dec_val_Cons digit_of_def u8_def)
    moreover have "dec_val cs < 10 ^ length cs" using w(2) cs by (intro dec_val_less) auto
    moreover have "length cs = count_digits g - 1" using w(5) cs by simp
    moreover have "count_digits g = 1 \<or> 10 ^ (count_digits g - 1) \<le> g"
      using count_digits_correct(4) [OF g(1,3)] .
    ultimately show False using assms(1) by auto
  qed
qed

lemma parse_gno_format:
  assumes "1 \<le> g" "g < GNO_END" "rest = [] \<or> 10 \<le> strtoll_digit (hd rest)"
  shows "parse_gno (format_gno g @ rest) = (g, rest)"
proof -
  have "g < 2 ^ 63" using assms(2) by (simp add: GNO_END_def)
  note d = format_gno_digits [OF assms(1) this]
  show ?thesis
    using strtoll0_digits [OF d(1-3) _ assms(3)] d(4) assms by (simp add: parse_gno_def GNO_END_def)
qed

lemma default_format_simps:
  "intervals_to_string default_string_format first [] = []"
  "intervals_to_string default_string_format first (iv # ivs) =
     CHR '':'' # format_gno (iv_start iv)
     @ (if iv_end iv > iv_start iv + 1 then CHR ''-'' # format_gno (iv_end iv - 1) else [])
     @ intervals_to_string default_string_format False ivs"
  by (simp_all add: default_string_format_def memcpy_str_def)

declare intervals_to_string.simps [simp del]

text \<open>What may follow a list of intervals: the end, or the comma before the next SID.\<close>

definition text_end :: "string \<Rightarrow> bool" where
  "text_end s \<longleftrightarrow> s = [] \<or> hd s = CHR '',''"

lemma intervals_rest:
  "text_end rest \<Longrightarrow> t = intervals_to_string default_string_format False ivs @ rest \<Longrightarrow>
   t = [] \<or> hd t = CHR '':'' \<or> hd t = CHR '',''"
  by (cases ivs) (auto simp: default_format_simps text_end_def)

lemma separators_no_digit:
  "t = [] \<or> hd t = CHR '':'' \<or> hd t = CHR '','' \<Longrightarrow> t = [] \<or> 10 \<le> strtoll_digit (hd t)"
  "t = [] \<or> hd t = CHR '':'' \<or> hd t = CHR '','' \<Longrightarrow> skip_whitespace t = t"
  "t = [] \<or> hd t = CHR '':'' \<or> hd t = CHR '','' \<Longrightarrow> deref t \<noteq> CHR ''-''"
  by (cases t; auto simp: strtoll_digit_def skip_whitespace_def my_isspace_def deref_def)+

lemma read_interval_written:
  assumes "1 \<le> a" "a < b" "b \<le> GNO_END" "t = [] \<or> hd t = CHR '':'' \<or> hd t = CHR '',''"
  shows "read_interval (format_gno a @ (if b > a + 1 then CHR ''-'' # format_gno (b - 1) else []) @ t)
    = Some (a, b, t)"
proof (cases "b > a + 1")
  case True
  have "parse_gno (format_gno a @ CHR ''-'' # format_gno (b - 1) @ t)
    = (a, CHR ''-'' # format_gno (b - 1) @ t)"
    using assms by (intro parse_gno_format) (auto simp: strtoll_digit_def)
  moreover have "skip_whitespace (CHR ''-'' # u) = CHR ''-'' # u" for u
    by (simp add: skip_whitespace_def my_isspace_def)
  moreover have "parse_gno (format_gno (b - 1) @ t) = (b - 1, t)"
    using assms separators_no_digit(1) [OF assms(4)] by (intro parse_gno_format) auto
  ultimately show ?thesis
    using True assms(1) separators_no_digit(2) [OF assms(4)] by (simp add: read_interval_def)
next
  case False
  then have b: "b = a + 1" using assms(2) by simp
  have "parse_gno (format_gno a @ t) = (a, t)"
    using assms separators_no_digit(1) [OF assms(4)] b by (intro parse_gno_format) auto
  then show ?thesis
    using b assms(1) separators_no_digit(2,3) [OF assms(4)] by (simp add: read_interval_def)
qed

lemma store_added_twice [simp]: "store_added k it (store_added k it' gs) = store_added k it gs"
  by (simp add: store_added_def)

lemma text_intervals_written:
  assumes "ivs_ok lo os" "0 \<le> lo" "last_end lo os \<le> GNO_END" "ivs_ok 0 (ivit_list it)" "text_end rest"
  shows "\<exists>it'. text_intervals k gs it (intervals_to_string default_string_format first os @ rest)
      = (Text_ok, if os = [] then gs else store_added k it' gs, rest)
    \<and> ivs_ok 0 (ivit_list it') \<and> gnos (ivit_list it') = gnos (ivit_list it) \<union> gnos os"
  using assms(1-4)
proof (induction os arbitrary: lo it gs first)
  case Nil
  have "deref rest \<noteq> CHR '':''" using assms(5) by (cases rest) (auto simp: text_end_def)
  then show ?case using Nil
    by (intro exI [of _ it]) (simp add: default_format_simps text_intervals.simps)
next
  case (Cons a os)
  have a: "lo < iv_start a" "iv_start a < iv_end a" "ivs_ok (iv_end a) os" "0 \<le> iv_end a"
    "last_end (iv_end a) os \<le> GNO_END" "0 < iv_start a" using Cons.prems by simp_all
  have e: "iv_end a \<le> GNO_END" using last_end_ge [OF a(3)] a(5) by linarith
  obtain pre post where r: "reposition it (iv_start a) = (pre, post)" "pre @ post = ivit_list it"
    "\<forall>iv \<in> set pre. iv_end iv < iv_start a" using reposition_ok [OF Cons.prems(4)] by blast
  have "ivs_ok 0 (pre @ post)" using r(2) Cons.prems(4) by simp
  from add_gno_interval_correct [OF this r(3) a(6,2)] obtain it1 where
    i: "add_gno_interval (pre, post) (iv_start a) (iv_end a) = it1" "ivs_ok 0 (ivit_list it1)"
    "gnos (ivit_list it1) = gnos (ivit_list it) \<union> {iv_start a..<iv_end a}" using r(2) by auto
  let ?t = "intervals_to_string default_string_format False os @ rest"
  have rd: "read_interval (tl (intervals_to_string default_string_format first (a # os) @ rest))
    = Some (iv_start a, iv_end a, ?t)"
    using read_interval_written [of "iv_start a" "iv_end a" ?t] a(2,6) e intervals_rest [OF assms(5) refl]
    by (simp add: default_format_simps)
  have "text_intervals k gs it (intervals_to_string default_string_format first (a # os) @ rest)
    = text_intervals k (store_added k it1 gs) it1 ?t"
    using rd a(2) r(1) i(1)
    by (subst text_intervals.simps) (simp add: default_format_simps Let_def)
  moreover obtain it2 where
    "text_intervals k (store_added k it1 gs) it1 ?t
      = (Text_ok, if os = [] then store_added k it1 gs else store_added k it2 gs, rest)"
    "ivs_ok 0 (ivit_list it2)" "gnos (ivit_list it2) = gnos (ivit_list it1) \<union> gnos os"
    using Cons.IH [OF a(3,4,5) i(2), of "store_added k it1 gs" False]
    unfolding store_added_twice by blast
  ultimately show ?case using i(2,3)
    by (intro exI [of _ "if os = [] then it1 else it2"]) (simp add: Un_assoc)
qed

lemma text_one_sid:
  assumes "ivs_ok 0 (ivs_of gs1 n)" "ivs_ok 0 os" "os \<noteq> []" "last_end 0 os \<le> GNO_END" "text_end rest"
  shows "text_intervals n gs1 (ivit_init (ivs_of gs1 n))
      (intervals_to_string default_string_format True os @ rest)
    = (Text_ok, gs_add_gno_intervals n os gs1, rest)"
proof -
  have o: "ivs_ok 0 (ivit_list (ivit_init (ivs_of gs1 n)))" using assms(1) by simp
  obtain it where it: "text_intervals n gs1 (ivit_init (ivs_of gs1 n))
      (intervals_to_string default_string_format True os @ rest) = (Text_ok, store_added n it gs1, rest)"
    "ivs_ok 0 (ivit_list it)" "gnos (ivit_list it) = gnos (ivs_of gs1 n) \<union> gnos os"
    using text_intervals_written [OF assms(2) order_refl assms(4) o assms(5), of n gs1 True] assms(3)
    by auto
  note a = add_gno_intervals_correct [of "[]" "ivs_of gs1 n" 0 os]
  have "ivit_list it = ivit_list (add_gno_intervals (ivit_init (ivs_of gs1 n)) os)"
    using a assms it(2,3) by (intro gnos_inj [of 0 _ 0]) auto
  then have "store_added n it gs1 = gs_add_gno_intervals n os gs1"
    using assms(3) by (simp add: store_added_def gs_add_gno_intervals_def)
  with it(1) show ?thesis by simp
qed

lemma hex_chars: "c \<in> set byte_to_hex \<Longrightarrow> \<not> my_isspace c \<and> c \<noteq> CHR '','' \<and> c \<noteq> CHR 0x00
  \<and> c \<noteq> CHR ''A'' \<and> c \<noteq> CHR ''+''"
  unfolding byte_to_hex_def list.set insert_iff empty_iff by (elim disjE; simp add: my_isspace_def)

lemma uuid_text_head:
  assumes "is_uuid u"
  obtains c cs where "uuid_to_string u = c # cs" "c \<in> set byte_to_hex"
proof -
  obtain b bs where u: "u = b # bs" "0 \<le> b" "b < 256"
    using assms by (cases u) (auto simp: is_uuid_def BYTE_LENGTH_def is_bytes_def)
  have "nat (b div 2 ^ 4) < length byte_to_hex"
    using u by (simp add: byte_to_hex_def nat_less_iff)
  then have "byte_to_hex ! nat (b div 2 ^ 4) \<in> set byte_to_hex" by (rule nth_mem)
  moreover obtain cs where "uuid_to_string u = byte_to_hex ! nat (b div 2 ^ 4) # cs"
    using u(1) by (simp add: uuid_to_string_def bytes_per_section_def numeral_eq_Suc)
  ultimately show thesis using that by blast
qed

lemma skip_to_uuid:
  assumes "is_uuid u"
  shows "skip_commas (uuid_to_string u @ t) = uuid_to_string u @ t"
    "skip_commas (CHR '','' # CHR 0x0A # uuid_to_string u @ t) = uuid_to_string u @ t"
    "skip_whitespace (uuid_to_string u @ t) = uuid_to_string u @ t"
    "deref (uuid_to_string u @ t) \<noteq> CHR 0x00" "deref (uuid_to_string u @ t) \<noteq> CHR ''+''"
    "\<not> strncmp_eq (uuid_to_string u @ t) ''ANONYMOUS'' 9"
proof -
  obtain c cs where c: "uuid_to_string u = c # cs" "c \<in> set byte_to_hex"
    by (rule uuid_text_head [OF assms])
  note h = hex_chars [OF c(2)]
  show "skip_commas (uuid_to_string u @ t) = uuid_to_string u @ t"
    "skip_whitespace (uuid_to_string u @ t) = uuid_to_string u @ t"
    "deref (uuid_to_string u @ t) \<noteq> CHR 0x00" "deref (uuid_to_string u @ t) \<noteq> CHR ''+''"
    using h by (simp_all add: c(1) skip_whitespace_def)
  show "skip_commas (CHR '','' # CHR 0x0A # uuid_to_string u @ t) = uuid_to_string u @ t"
    using h by (simp add: c(1) skip_whitespace_def) (simp add: my_isspace_def)
  show "\<not> strncmp_eq (uuid_to_string u @ t) ''ANONYMOUS'' 9"
    using h by (simp add: c(1) strncmp_eq_def numeral_eq_Suc)
qed

lemma text_sids_step:
  assumes "gs_wf tm t" "is_uuid sid" "alloc_ok e" "resize_ok e" "ivs_ok 0 os" "os \<noteq> []"
    "last_end 0 os \<le> GNO_END" "text_end rest" "pre = [] \<or> pre = [CHR '','', CHR 0x0A]"
  shows "\<exists>t' tm'. text_sids e ap a t tm (pre @ uuid_to_string sid
        @ intervals_to_string default_string_format True os @ rest)
      = text_sids e ap a t' tm' rest
    \<and> gs_wf tm' t' \<and> sid_gnos tm' t' = (sid_gnos tm t)(sid := sid_gnos tm t sid \<union> gnos os)"
proof -
  let ?iv = "intervals_to_string default_string_format True os @ rest"
  let ?s = "uuid_to_string sid @ ?iv"
  have sk: "skip_commas (pre @ ?s) = ?s" using assms(9) skip_to_uuid(1,2) [OF assms(2)] by auto
  obtain k m1 gs1 where s: "add_sid e sid tm = (Some k, m1)" "ensure_sidno e k t = (RETURN_STATUS_OK, gs1)"
    "gs_wf m1 (gs_add_gno_intervals k os gs1)"
    "sid_gnos m1 (gs_add_gno_intervals k os gs1) = (sid_gnos tm t)(sid := sid_gnos tm t sid \<union> gnos os)"
    using add_other_step [OF assms(1-5)] by blast
  have g1: "gs_inv gs1" "k \<le> get_max_sidno gs1"
    using ensure_sidno_correct(2,4) [OF assms(3), where k = k and gs = t] s(2) assms(1)
    by (auto simp: gs_wf_def)
  have k1: "1 \<le> k"
    using add_sid_ok(1,2) [OF _ assms(2-4), of tm] assms(1) s(1) sid_map_inv_hash [of m1 sid k]
    by (auto simp: gs_wf_def)
  have ti: "text_intervals k gs1 (ivit_init (ivs_of gs1 k)) (skip_whitespace ?iv)
    = (Text_ok, gs_add_gno_intervals k os gs1, rest)"
  proof -
    have "skip_whitespace ?iv = ?iv"
      using assms(6) by (cases os) (auto simp: default_format_simps skip_whitespace_def my_isspace_def)
    then show ?thesis using text_one_sid [OF gs_inv_ivs [OF g1(1) k1 g1(2)] assms(5-8)] by simp
  qed
  have drop: "drop TEXT_LENGTH ?s = ?iv" using length_uuid_to_string [OF assms(2)] by simp
  have "deref rest = CHR '','' \<or> deref rest = CHR 0x00" using assms(8) by (cases rest) (auto simp: text_end_def)
  then have "text_sids e ap a t tm (pre @ ?s) = text_sids e ap a (gs_add_gno_intervals k os gs1) m1 rest"
    unfolding text_sids.simps [of e ap a t tm "pre @ ?s"] sk Let_def drop
    using skip_to_uuid(4,6) [OF assms(2)] uuid_parse_to_string [OF assms(2)] s(1,2) ti by auto
  then show ?thesis using s(3,4) by auto
qed

lemma default_sids_simps:
  "sids_to_string m gs default_string_format first (k # ks) =
     (if contains_sidno gs k then
        (if first then [] else [CHR '','', CHR 0x0A]) @ uuid_to_string (sidno_to_sid m k)
        @ intervals_to_string default_string_format True (ivs_of gs k)
        @ sids_to_string m gs default_string_format False ks
      else sids_to_string m gs default_string_format first ks)"
  by (simp add: default_string_format_def memcpy_str_def)

lemma text_end_sids: "text_end (sids_to_string m gs default_string_format False ks)"
  by (induction ks) (auto simp: default_sids_simps text_end_def simp del: sids_to_string.simps(2))

lemma text_sids_written:
  assumes "gs_wf m gs" "gno_bounded gs" "alloc_ok e" "resize_ok e"
    "\<forall>k \<in> set ks. 1 \<le> k \<and> k \<le> map_max_sidno m" "gs_wf tm t"
  shows "\<exists>t' tm'. text_sids e ap a t tm (sids_to_string m gs default_string_format first ks)
      = (Text_ok, a, t', tm') \<and> gs_wf tm' t'
    \<and> (\<forall>u. sid_gnos tm' t' u
            = sid_gnos tm t u \<union> (\<Union>k \<in> {k \<in> set ks. sidno_to_sid m k = u}. gnos_at gs k))"
  using assms(5,6)
proof (induction ks arbitrary: t tm first)
  case Nil
  then show ?case by (subst text_sids.simps) simp
next
  case (Cons k ks)
  have k: "1 \<le> k" "k \<le> map_max_sidno m" and ks: "\<forall>k \<in> set ks. 1 \<le> k \<and> k \<le> map_max_sidno m"
    using Cons.prems(1) by auto
  have mi: "sid_map_inv m" "gs_inv gs" using assms(1) by (simp_all add: gs_wf_def)
  let ?rest = "\<lambda>u. \<Union>k \<in> {k \<in> set ks. sidno_to_sid m k = u}. gnos_at gs k"
  have split: "(\<Union>k \<in> {k' \<in> set (k # ks). sidno_to_sid m k' = u}. gnos_at gs k)
    = (if sidno_to_sid m k = u then gnos_at gs k else {}) \<union> ?rest u" for u by auto
  show ?case
  proof (cases "contains_sidno gs k")
    case False
    have "gnos_at gs k = {}" using False by (auto simp: contains_sidno_def gnos_at_def split: if_splits)
    with Cons.IH [OF ks Cons.prems(2)] False show ?thesis
      unfolding split by (simp add: default_sids_simps)
  next
    case True
    have kg: "k \<le> get_max_sidno gs" and ne: "ivs_of gs k \<noteq> []"
      using True by (auto simp: contains_sidno_def split: if_splits)
    have mem: "ivs_of gs k \<in> set (m_intervals gs)" using k(1) kg by (simp add: ivs_of_def get_max_sidno_def)
    have sz: "last_end 0 (ivs_of gs k) \<le> GNO_END" using assms(2) mem by (auto simp: gno_bounded_def)
    have io: "ivs_ok 0 (ivs_of gs k)" by (rule gs_inv_ivs [OF mi(2) k(1) kg])
    have g: "gnos_at gs k = gnos (ivs_of gs k)" using k(1) kg by (simp add: gnos_at_def)
    have u: "is_uuid (sidno_to_sid m k)" by (rule sid_to_sidno_inv(3) [OF mi(1) k])
    have pre: "(if first then [] else [CHR '','', CHR 0x0A]) = []
      \<or> (if first then [] else [CHR '','', CHR 0x0A]) = [CHR '','', CHR 0x0A]" by simp
    obtain t1 tm1 where s: "text_sids e ap a t tm (sids_to_string m gs default_string_format first (k # ks))
        = text_sids e ap a t1 tm1 (sids_to_string m gs default_string_format False ks)" "gs_wf tm1 t1"
      "sid_gnos tm1 t1 = (sid_gnos tm t)(sidno_to_sid m k := sid_gnos tm t (sidno_to_sid m k)
         \<union> gnos (ivs_of gs k))"
      using text_sids_step [OF Cons.prems(2) u assms(3,4) io ne sz
          text_end_sids [where m = m and gs = gs and ks = ks] pre, of ap a] True
      unfolding default_sids_simps by auto
    from Cons.IH [OF ks s(2), of False] s(1,3) show ?thesis
      unfolding split by (auto simp: g)
  qed
qed

text \<open>C21. Reading the text a set is printed as, in the default format, succeeds, and adds exactly
  the transactions of the set to the set read into, whose map may be another one; the text
  is read as neither anonymous nor starting with a plus.\<close>

theorem gtid_text_roundtrip:
  assumes "gs_wf m gs" "gno_bounded gs" "gs_wf tm t" "alloc_ok e" "resize_ok e"
  shows "\<exists>t' tm'. add_gtid_text e (gs_to_string m gs default_string_format) ap pp t tm
      = (Text_ok, False, False, t', tm') \<and> gs_wf tm' t'
    \<and> (\<forall>u g. has_gtid tm' t' u g \<longleftrightarrow> has_gtid tm t u g \<or> has_gtid m gs u g)"
proof -
  have m: "sid_map_inv m" "get_max_sidno gs \<le> map_max_sidno m" "gs_inv gs"
    "set (sorted_arr m) = {1..map_max_sidno m}"
    using assms(1) by (auto simp: gs_wf_def sid_map_inv_def map_max_sidno_def)
  let ?s = "sids_to_string m gs default_string_format True (sorted_arr m)"
  have str: "gs_to_string m gs default_string_format = (if is_empty gs then [] else ?s)"
    by (simp add: gs_to_string_def default_string_format_def memcpy_str_def)
  have ks: "\<forall>k \<in> set (sorted_arr m). 1 \<le> k \<and> k \<le> map_max_sidno m" using m(4) by simp
  have none: "sids_to_string m gs default_string_format first ks = []"
    if "is_empty gs" "\<forall>k \<in> set ks. 1 \<le> k" for first ks
    using that by (induction ks) (auto simp: is_empty_iff default_sids_simps simp del: sids_to_string.simps(2))
  then have str: "gs_to_string m gs default_string_format = ?s"
    using str ks by auto
  have head: "?s = [] \<or> (\<exists>k v. ?s = uuid_to_string (sidno_to_sid m k) @ v \<and> is_uuid (sidno_to_sid m k))"
  proof -
    have "sids_to_string m gs default_string_format True ks = [] \<or> (\<exists>k v.
        sids_to_string m gs default_string_format True ks = uuid_to_string (sidno_to_sid m k) @ v
        \<and> is_uuid (sidno_to_sid m k))" if "\<forall>k \<in> set ks. 1 \<le> k \<and> k \<le> map_max_sidno m" for ks
      using that sid_to_sidno_inv(3) [OF m(1)]
      by (induction ks) (auto simp: default_sids_simps simp del: sids_to_string.simps(2))
    then show ?thesis using ks by blast
  qed
  obtain t' tm' where d: "text_sids e ap False t tm ?s = (Text_ok, False, t', tm')" "gs_wf tm' t'"
    "\<And>u. sid_gnos tm' t' u = sid_gnos tm t u
       \<union> (\<Union>k \<in> {k \<in> set (sorted_arr m). sidno_to_sid m k = u}. gnos_at gs k)"
    using text_sids_written [OF assms(1,2,4,5) ks assms(3)] by blast
  have "gnos_at gs k = {}" if "k \<notin> set (sidnos (get_max_sidno gs))" for k
    using that by (auto simp: gnos_at_def)
  then have "(\<Union>k \<in> {k \<in> set (sorted_arr m). sidno_to_sid m k = u}. gnos_at gs k) = sid_gnos m gs u" for u
    unfolding sid_gnos_union [OF m(1,2), symmetric] m(4) using m(2) by fastforce
  with d(3) have "\<forall>u. sid_gnos tm' t' u = sid_gnos tm t u \<union> sid_gnos m gs u" by simp
  moreover have "add_gtid_text e ?s ap pp t tm = (Text_ok, False, False, t', tm')"
  proof (cases "?s = []")
    case True
    then have "text_sids e ap False t tm [] = (Text_ok, False, t', tm')" using d(1) by simp
    then have "t' = t" "tm' = tm" by (simp_all add: text_sids.simps)
    then show ?thesis using True by (simp add: add_gtid_text_def skip_whitespace_def)
  next
    case False
    with head obtain k v where "?s = uuid_to_string (sidno_to_sid m k) @ v" "is_uuid (sidno_to_sid m k)"
      by blast
    then show ?thesis using d(1) skip_to_uuid(3-5) [of "sidno_to_sid m k" v]
      by (simp add: add_gtid_text_def Let_def)
  qed
  ultimately show ?thesis using d(2) assms(1,3) unfolding str by (auto simp: has_gtid_iff gs_wf_def)
qed

theorem gtid_text_roundtrip_witness:
  "\<exists>t' tm'. add_gtid_text sample_env (gs_to_string sample_map (sample_set 0 3 9) default_string_format)
       False False (new_gtid_set (Some 1)) new_sid_map
     = (Text_ok, False, False, t', tm') \<and> has_gtid tm' t' uuid_clear 8"
proof -
  have w: "gs_wf sample_map (sample_set 0 3 9)" by (simp add: sample_wf)
  have "gs_wf new_sid_map (new_gtid_set (Some 1))" by (simp add: gs_wf_def sid_map_inv_new)
  moreover have "gno_bounded (sample_set 0 3 9)"
    by (simp add: sample_set_def gno_bounded_def GNO_END_def)
  moreover have "has_gtid sample_map (sample_set 0 3 9) uuid_clear 8"
    using w by (simp add: has_gtid_iff gs_wf_def sample_simps)
  ultimately show ?thesis
    using gtid_text_roundtrip [OF w, of new_sid_map "new_gtid_set (Some 1)" sample_env False False]
    by (auto simp: sample_simps)
qed

end
