(* ===== verification/Thr_Lock.thy ===== *)
theory Thr_Lock
  imports Prelude "HOL-Library.Multiset"
begin

text \<open>
  Table locks: \<open>mysys/thr_lock.cc\<close> and \<open>include/thr_lock.h\<close>. Every operation runs
  under the mutex of its lock, so a lock is a state machine whose steps are the operations;
  a thread that has to wait leaves its request in a queue, and goes on when another operation
  grants or aborts it, or when its wait ends with a timeout or because it was killed.

  A doubly linked list of requests is a list. The address of a request and of its owner are
  numbers. The callbacks a storage engine installs to copy its row counts do not touch the
  lock and are left out; the one that decides whether a concurrent insert is possible is a
  parameter.
\<close>

section \<open>Data\<close>

datatype thr_lock_type =
  TL_IGNORE | TL_UNLOCK | TL_READ_DEFAULT | TL_READ | TL_READ_WITH_SHARED_LOCKS
| TL_READ_HIGH_PRIORITY | TL_READ_NO_INSERT | TL_WRITE_ALLOW_WRITE | TL_WRITE_CONCURRENT_DEFAULT
| TL_WRITE_CONCURRENT_INSERT | TL_WRITE_DEFAULT | TL_WRITE_LOW_PRIORITY | TL_WRITE | TL_WRITE_ONLY

primrec type_num :: "thr_lock_type \<Rightarrow> int" where
  "type_num TL_IGNORE = -1"
| "type_num TL_UNLOCK = 0"
| "type_num TL_READ_DEFAULT = 1"
| "type_num TL_READ = 2"
| "type_num TL_READ_WITH_SHARED_LOCKS = 3"
| "type_num TL_READ_HIGH_PRIORITY = 4"
| "type_num TL_READ_NO_INSERT = 5"
| "type_num TL_WRITE_ALLOW_WRITE = 6"
| "type_num TL_WRITE_CONCURRENT_DEFAULT = 7"
| "type_num TL_WRITE_CONCURRENT_INSERT = 8"
| "type_num TL_WRITE_DEFAULT = 9"
| "type_num TL_WRITE_LOW_PRIORITY = 10"
| "type_num TL_WRITE = 11"
| "type_num TL_WRITE_ONLY = 12"

text \<open>The comparisons of lock types in the source compare these numbers.\<close>

lemma type_num_inj: "type_num a = type_num b \<Longrightarrow> a = b"
  by (cases a; cases b; simp)

instantiation thr_lock_type :: linorder
begin

definition less_eq_thr_lock_type :: "thr_lock_type \<Rightarrow> thr_lock_type \<Rightarrow> bool" where
  "less_eq_thr_lock_type a b \<longleftrightarrow> type_num a \<le> type_num b"

definition less_thr_lock_type :: "thr_lock_type \<Rightarrow> thr_lock_type \<Rightarrow> bool" where
  "less_thr_lock_type a b \<longleftrightarrow> type_num a < type_num b"

instance
  by standard (auto simp: less_eq_thr_lock_type_def less_thr_lock_type_def intro: type_num_inj)

end

lemmas type_order = less_eq_thr_lock_type_def less_thr_lock_type_def

datatype enum_thr_lock_result =
  THR_LOCK_SUCCESS | THR_LOCK_ABORTED | THR_LOCK_WAIT_TIMEOUT | THR_LOCK_DEADLOCK

record thr_lock_info =
  info_addr :: nat
  thread_id :: nat

record thr_lock_data =
  data_addr :: nat
  owner :: thr_lock_info
  lock_type :: thr_lock_type
  cond :: bool

record THR_LOCK =
  read_wait :: "thr_lock_data list"
  read_list :: "thr_lock_data list"
  write_wait :: "thr_lock_data list"
  write_list :: "thr_lock_data list"
  write_lock_count :: int
  read_no_write_count :: int

text \<open>
  The engine's answer whether a concurrent insert is not possible (\<open>check_status\<close>, a
  null pointer is \<open>None\<close>), and two global variables.
\<close>

record thr_env =
  check_status :: "(nat \<Rightarrow> bool) option"
  thr_upgraded_concurrent_insert_lock :: thr_lock_type
  max_write_lock_count :: int

definition thr_lock_init :: THR_LOCK where
  "thr_lock_init = \<lparr>read_wait = [], read_list = [], write_wait = [], write_list = [],
     write_lock_count = 0, read_no_write_count = 0\<rparr>"

definition thr_lock_info_init :: "nat \<Rightarrow> nat \<Rightarrow> thr_lock_info" where
  "thr_lock_info_init addr tid = \<lparr>info_addr = addr, thread_id = tid\<rparr>"

definition thr_lock_owner_equal :: "thr_lock_info \<Rightarrow> thr_lock_info \<Rightarrow> bool" where
  "thr_lock_owner_equal rhs lhs \<longleftrightarrow> info_addr rhs = info_addr lhs"

fun has_old_lock :: "thr_lock_data list \<Rightarrow> thr_lock_info \<Rightarrow> bool" where
  "has_old_lock [] ow = False"
| "has_old_lock (d # ds) ow = (if thr_lock_owner_equal (owner d) ow then True else has_old_lock ds ow)"

definition call_check_status :: "thr_env \<Rightarrow> thr_lock_data \<Rightarrow> bool" where
  "call_check_status e d = (case check_status e of None \<Rightarrow> False | Some f \<Rightarrow> f (data_addr d))"

section \<open>Granting waiting requests\<close>

text \<open>
  The loop of \<open>free_all_read_locks\<close> over the waiting readers: what goes to the readers,
  what stays, and the readers that forbid inserts among the former.
\<close>

fun free_reads :: "bool \<Rightarrow> thr_lock_data list \<Rightarrow> thr_lock_data list \<times> thr_lock_data list \<times> int" where
  "free_reads uci [] = ([], [], 0)"
| "free_reads uci (d # ds) =
     (let (go, stay, n) = free_reads uci ds in
      if lock_type d = TL_READ_NO_INSERT then
        if uci then (go, d # stay, n) else (d\<lparr>cond := False\<rparr> # go, stay, n + 1)
      else (d\<lparr>cond := False\<rparr> # go, stay, n))"

definition free_all_read_locks :: "bool \<Rightarrow> THR_LOCK \<Rightarrow> THR_LOCK" where
  "free_all_read_locks using_concurrent_insert lock =
     (let (go, stay, n) = free_reads using_concurrent_insert (read_wait lock) in
      lock\<lparr>read_list := read_list lock @ go, read_wait := stay,
        read_no_write_count := read_no_write_count lock + n,
        write_lock_count := if stay = [] then 0 else write_lock_count lock\<rparr>)"

text \<open>A writer that starts: a concurrent insert that is not possible becomes a plain write.\<close>

definition start_writer :: "thr_env \<Rightarrow> thr_lock_data \<Rightarrow> thr_lock_data" where
  "start_writer e d =
     (if lock_type d = TL_WRITE_CONCURRENT_INSERT \<and> call_check_status e d
      then d\<lparr>lock_type := TL_WRITE, cond := False\<rparr> else d\<lparr>cond := False\<rparr>)"

text \<open>
  The loop that grants the first waiting writer when no lock is in use, and after a writer
  that allows writers also those that follow it: the writers, the rest of the queue and the
  request granted last.
\<close>

fun grant_writes ::
    "thr_env \<Rightarrow> thr_lock_data \<Rightarrow> thr_lock_data list \<Rightarrow> thr_lock_data list \<Rightarrow>
     thr_lock_data list \<times> thr_lock_data list \<times> thr_lock_data" where
  "grant_writes e d [] wr = (let d = start_writer e d in (wr @ [d], [], d))"
| "grant_writes e d (n # ns) wr =
     (let d = start_writer e d in
      if lock_type d \<noteq> TL_WRITE_ALLOW_WRITE \<or> lock_type n \<noteq> TL_WRITE_ALLOW_WRITE
      then (wr @ [d], n # ns, d)
      else grant_writes e n ns (wr @ [d]))"

text \<open>The loop that grants writers next to active readers; \<open>lt\<close> is the first one's type.\<close>

fun grant_beside_reads ::
    "thr_lock_type \<Rightarrow> thr_lock_data \<Rightarrow> thr_lock_data list \<Rightarrow> thr_lock_data list \<Rightarrow>
     thr_lock_data list \<times> thr_lock_data list" where
  "grant_beside_reads lt d [] wr = (wr @ [d\<lparr>cond := False\<rparr>], [])"
| "grant_beside_reads lt d (n # ns) wr =
     (if lt = TL_WRITE_ALLOW_WRITE \<and> lock_type n = TL_WRITE_ALLOW_WRITE
      then grant_beside_reads lt n ns (wr @ [d\<lparr>cond := False\<rparr>])
      else (wr @ [d\<lparr>cond := False\<rparr>], n # ns))"

definition allows_inserts :: "thr_lock_type \<Rightarrow> bool" where
  "allows_inserts t \<longleftrightarrow> t = TL_WRITE_CONCURRENT_INSERT \<or> t = TL_WRITE_ALLOW_WRITE"

text \<open>No lock is in use.\<close>

definition wake_up_idle :: "thr_env \<Rightarrow> THR_LOCK \<Rightarrow> THR_LOCK" where
  "wake_up_idle e lock =
     (let free = (\<lambda>uci l. if read_wait l \<noteq> [] then free_all_read_locks uci l else l) in
      case write_wait lock of
        [] \<Rightarrow> free False lock
      | d # ds \<Rightarrow>
          if lock_type d \<noteq> TL_WRITE_LOW_PRIORITY \<or> read_wait lock = []
             \<or> lock_type (hd (read_wait lock)) < TL_READ_HIGH_PRIORITY then
            let over = (write_lock_count lock > max_write_lock_count e);
                lock = lock\<lparr>write_lock_count := if over then 0 else u64 (write_lock_count lock + 1)\<rparr> in
            if over \<and> read_wait lock \<noteq> [] then free_all_read_locks False lock
            else
              let (wr, ww, granted) = grant_writes e d ds (write_list lock);
                  lock = lock\<lparr>write_list := wr, write_wait := ww\<rparr> in
              if lock_type granted \<ge> TL_WRITE_LOW_PRIORITY then lock
              else free (allows_inserts (lock_type granted)) lock
          else free (allows_inserts (lock_type d)) lock)"

text \<open>Only readers are active.\<close>

definition wake_up_reading :: "thr_env \<Rightarrow> THR_LOCK \<Rightarrow> THR_LOCK" where
  "wake_up_reading e lock =
     (let free = (\<lambda>uci l. if read_wait l \<noteq> [] then free_all_read_locks uci l else l) in
      case write_wait lock of
        [] \<Rightarrow> free False lock
      | d # ds \<Rightarrow>
          let lt = lock_type d in
          if lt \<le> TL_WRITE_CONCURRENT_INSERT \<and> (\<not> allows_inserts lt \<or> read_no_write_count lock = 0) then
            if lt = TL_WRITE_CONCURRENT_INSERT \<and> call_check_status e d
            then free False (lock\<lparr>write_wait := d\<lparr>lock_type := TL_WRITE\<rparr> # ds\<rparr>)
            else let (wr, ww) = grant_beside_reads lt d ds (write_list lock) in
              free (allows_inserts lt) (lock\<lparr>write_list := wr, write_wait := ww\<rparr>)
          else lock)"

definition wake_up_waiters :: "thr_env \<Rightarrow> THR_LOCK \<Rightarrow> THR_LOCK" where
  "wake_up_waiters e lock =
     (if write_list lock = [] then
        if read_list lock = [] then wake_up_idle e lock else wake_up_reading e lock
      else lock)"

section \<open>Requests\<close>

text \<open>
  A request is granted, refused, or left waiting, which is \<open>None\<close>; then it is the last
  one of its queue.
\<close>

definition grant_read :: "thr_lock_data \<Rightarrow> THR_LOCK \<Rightarrow> enum_thr_lock_result option \<times> THR_LOCK" where
  "grant_read d lock =
     (Some THR_LOCK_SUCCESS,
      lock\<lparr>read_list := read_list lock @ [d],
        read_no_write_count := read_no_write_count lock + (if lock_type d = TL_READ_NO_INSERT then 1 else 0)\<rparr>)"

definition wait_read :: "thr_lock_data \<Rightarrow> THR_LOCK \<Rightarrow> enum_thr_lock_result option \<times> THR_LOCK" where
  "wait_read d lock = (None, lock\<lparr>read_wait := read_wait lock @ [d\<lparr>cond := True\<rparr>]\<rparr>)"

definition thr_lock_read :: "thr_lock_data \<Rightarrow> THR_LOCK \<Rightarrow> enum_thr_lock_result option \<times> THR_LOCK" where
  "thr_lock_read d lock =
     (case write_list lock of
        w # ws \<Rightarrow>
          if thr_lock_owner_equal (owner d) (owner w) \<or> lock_type w < TL_WRITE_CONCURRENT_INSERT
             \<or> lock_type w = TL_WRITE_CONCURRENT_INSERT \<and> lock_type d \<le> TL_READ_HIGH_PRIORITY
          then grant_read d lock
          else if lock_type w = TL_WRITE_ONLY then (Some THR_LOCK_ABORTED, lock)
          else wait_read d lock
      | [] \<Rightarrow>
          if write_wait lock = [] \<or> lock_type (hd (write_wait lock)) \<le> TL_WRITE_LOW_PRIORITY
             \<or> lock_type d = TL_READ_HIGH_PRIORITY \<or> has_old_lock (read_list lock) (owner d)
          then grant_read d lock
          else wait_read d lock)"

definition wait_write :: "thr_lock_data \<Rightarrow> THR_LOCK \<Rightarrow> enum_thr_lock_result option \<times> THR_LOCK" where
  "wait_write d lock = (None, lock\<lparr>write_wait := write_wait lock @ [d\<lparr>cond := True\<rparr>]\<rparr>)"

definition thr_lock_write ::
    "thr_env \<Rightarrow> thr_lock_data \<Rightarrow> THR_LOCK \<Rightarrow> enum_thr_lock_result option \<times> THR_LOCK" where
  "thr_lock_write e d lock =
     (let d = (if lock_type d = TL_WRITE_CONCURRENT_INSERT \<and> check_status e = None
               then d\<lparr>lock_type := thr_upgraded_concurrent_insert_lock e\<rparr> else d) in
      case write_list lock of
        w # ws \<Rightarrow>
          if lock_type w = TL_WRITE_ONLY \<and> \<not> thr_lock_owner_equal (owner d) (owner w)
          then (Some THR_LOCK_ABORTED, lock)
          else if lock_type d = TL_WRITE_ALLOW_WRITE \<and> write_wait lock = []
                  \<and> lock_type w = TL_WRITE_ALLOW_WRITE
                \<or> has_old_lock (write_list lock) (owner d)
          then (Some THR_LOCK_SUCCESS, lock\<lparr>write_list := write_list lock @ [d]\<rparr>)
          else wait_write d lock
      | [] \<Rightarrow>
          if write_wait lock = [] then
            let d = (if lock_type d = TL_WRITE_CONCURRENT_INSERT \<and> call_check_status e d
                     then d\<lparr>lock_type := thr_upgraded_concurrent_insert_lock e\<rparr> else d) in
            if read_list lock = [] \<or> lock_type d \<le> TL_WRITE_CONCURRENT_INSERT
                 \<and> (\<not> allows_inserts (lock_type d) \<or> read_no_write_count lock = 0)
            then (Some THR_LOCK_SUCCESS, lock\<lparr>write_list := [d]\<rparr>)
            else wait_write d lock
          else wait_write d lock)"

text \<open>The request of a thread; \<open>addr\<close> is the address of its \<open>THR_LOCK_DATA\<close>.\<close>

definition thr_lock ::
    "thr_env \<Rightarrow> nat \<Rightarrow> thr_lock_info \<Rightarrow> thr_lock_type \<Rightarrow> THR_LOCK \<Rightarrow> enum_thr_lock_result option \<times> THR_LOCK" where
  "thr_lock e addr ow t lock =
     (let d = \<lparr>data_addr = addr, owner = ow, lock_type = t, cond = False\<rparr> in
      if t \<le> TL_READ_NO_INSERT then thr_lock_read d lock else thr_lock_write e d lock)"

text \<open>
  The end of \<open>wait_for_lock\<close> for a request that is still waiting: it leaves its queue and
  whoever it was in the way of is woken up. For a request that was granted or aborted
  meanwhile nothing is left to do.
\<close>

definition wait_for_lock_end :: "thr_env \<Rightarrow> bool \<Rightarrow> thr_lock_data \<Rightarrow> THR_LOCK \<Rightarrow> enum_thr_lock_result \<times> THR_LOCK" where
  "wait_for_lock_end e timed_out d lock =
     (let result = (if timed_out then THR_LOCK_WAIT_TIMEOUT else THR_LOCK_ABORTED) in
      if cond d then
        (result, wake_up_waiters e
           (if lock_type d \<le> TL_READ_NO_INSERT then lock\<lparr>read_wait := remove1 d (read_wait lock)\<rparr>
            else lock\<lparr>write_wait := remove1 d (write_wait lock)\<rparr>))
      else if lock_type d = TL_UNLOCK then (result, lock)
      else (THR_LOCK_SUCCESS, lock))"

definition thr_unlock :: "thr_env \<Rightarrow> thr_lock_data \<Rightarrow> THR_LOCK \<Rightarrow> THR_LOCK" where
  "thr_unlock e d lock =
     wake_up_waiters e
       (if lock_type d \<le> TL_READ_NO_INSERT
        then lock\<lparr>read_list := remove1 d (read_list lock), read_no_write_count := read_no_write_count lock
               - (if lock_type d = TL_READ_NO_INSERT then 1 else 0)\<rparr>
        else lock\<lparr>write_list := remove1 d (write_list lock)\<rparr>)"

definition thr_abort_locks_for_thread :: "thr_env \<Rightarrow> nat \<Rightarrow> THR_LOCK \<Rightarrow> THR_LOCK" where
  "thr_abort_locks_for_thread e tid lock =
     wake_up_waiters e
       (lock\<lparr>read_wait := filter (\<lambda>d. thread_id (owner d) \<noteq> tid) (read_wait lock),
          write_wait := filter (\<lambda>d. thread_id (owner d) \<noteq> tid) (write_wait lock)\<rparr>)"

section \<open>The order of several requests\<close>

text \<open>
  A request for several tables is sorted by the address of the table's lock less the number of
  the lock type. The inner loop of the insertion sort walks down from the end of the sorted
  part, which is kept in reverse.
\<close>

type_synonym lock_request = "int \<times> thr_lock_type"

definition LOCK_CMP :: "lock_request \<Rightarrow> lock_request \<Rightarrow> bool" where
  "LOCK_CMP a b \<longleftrightarrow> fst a - u32 (type_num (snd a)) < fst b - u32 (type_num (snd b))"

fun sort_shift :: "lock_request \<Rightarrow> lock_request list \<Rightarrow> lock_request list" where
  "sort_shift tmp [] = [tmp]"
| "sort_shift tmp (p # ps) = (if LOCK_CMP tmp p then p # sort_shift tmp ps else tmp # p # ps)"

definition sort_locks :: "lock_request list \<Rightarrow> lock_request list" where
  "sort_locks data = rev (foldl (\<lambda>sorted tmp. sort_shift tmp sorted) [] data)"

end
