(* ===== verification/Thr_Lock_Safety.thy ===== *)
theory Thr_Lock_Safety
  imports Thr_Lock
begin

text \<open>
  What table locks promise: locks in use are compatible, the counter of readers that forbid
  inserts is exact, and no request waits for nothing; in every state any sequence of
  requests, releases, timeouts and aborts leads to.
\<close>

section \<open>The invariant\<close>

definition is_read :: "thr_lock_type \<Rightarrow> bool" where
  "is_read t \<longleftrightarrow> TL_READ \<le> t \<and> t \<le> TL_READ_NO_INSERT"

definition is_write :: "thr_lock_type \<Rightarrow> bool" where
  "is_write t \<longleftrightarrow> t \<in> {TL_WRITE_ALLOW_WRITE, TL_WRITE_CONCURRENT_INSERT, TL_WRITE_LOW_PRIORITY,
     TL_WRITE, TL_WRITE_ONLY}"

definition same_owner :: "thr_lock_data \<Rightarrow> thr_lock_data \<Rightarrow> bool" where
  "same_owner a b \<longleftrightarrow> thr_lock_owner_equal (owner a) (owner b)"

text \<open>Compatibility of two locks in use, as the comments of the source give it.\<close>

definition ww_ok :: "thr_lock_data \<Rightarrow> thr_lock_data \<Rightarrow> bool" where
  "ww_ok a b \<longleftrightarrow>
     same_owner a b \<or> lock_type a = TL_WRITE_ALLOW_WRITE \<and> lock_type b = TL_WRITE_ALLOW_WRITE"

definition wr_ok :: "thr_lock_data \<Rightarrow> thr_lock_data \<Rightarrow> bool" where
  "wr_ok w r \<longleftrightarrow>
     same_owner w r \<or> lock_type w = TL_WRITE_ALLOW_WRITE
     \<or> lock_type w = TL_WRITE_CONCURRENT_INSERT \<and> lock_type r \<le> TL_READ_HIGH_PRIORITY"

text \<open>Strength of a write lock: the two plain kinds are equally strong.\<close>

definition strength :: "thr_lock_type \<Rightarrow> int" where
  "strength t = type_num (if t = TL_WRITE_LOW_PRIORITY then TL_WRITE else t)"

definition no_insert_count :: "thr_lock_data list \<Rightarrow> int" where
  "no_insert_count ds = int (length (filter (\<lambda>d. lock_type d = TL_READ_NO_INSERT) ds))"

definition thr_safe :: "THR_LOCK \<Rightarrow> bool" where
  "thr_safe l \<longleftrightarrow>
     (\<forall>d \<in> set (read_list l) \<union> set (read_wait l). is_read (lock_type d))
     \<and> (\<forall>d \<in> set (write_list l) \<union> set (write_wait l). is_write (lock_type d))
     \<and> read_no_write_count l = no_insert_count (read_list l)
     \<and> sorted_wrt (\<lambda>a b. strength (lock_type b) \<le> strength (lock_type a)) (write_list l)
     \<and> (\<forall>a \<in> set (write_list l). \<forall>b \<in> set (write_list l). ww_ok a b)
     \<and> (\<forall>w \<in> set (write_list l). \<forall>r \<in> set (read_list l). wr_ok w r)"

definition thr_live :: "THR_LOCK \<Rightarrow> bool" where
  "thr_live l \<longleftrightarrow>
     (write_list l = [] \<and> read_list l = [] \<longrightarrow> read_wait l = [] \<and> write_wait l = [])
     \<and> (write_list l = [] \<and> write_wait l = [] \<longrightarrow> read_wait l = [])"

definition thr_inv :: "THR_LOCK \<Rightarrow> bool" where
  "thr_inv l \<longleftrightarrow> thr_safe l \<and> thr_live l"

lemma write_type_simps:
  assumes "is_write t"
  shows "t \<le> TL_WRITE_CONCURRENT_INSERT \<longleftrightarrow> t = TL_WRITE_ALLOW_WRITE \<or> t = TL_WRITE_CONCURRENT_INSERT"
    "t < TL_WRITE_CONCURRENT_INSERT \<longleftrightarrow> t = TL_WRITE_ALLOW_WRITE"
    "strength t \<le> 6 \<longleftrightarrow> t = TL_WRITE_ALLOW_WRITE" "6 \<le> strength t"
    "strength t \<le> 8 \<longleftrightarrow> t = TL_WRITE_ALLOW_WRITE \<or> t = TL_WRITE_CONCURRENT_INSERT"
    "TL_WRITE_LOW_PRIORITY \<le> t \<longleftrightarrow> t \<noteq> TL_WRITE_ALLOW_WRITE \<and> t \<noteq> TL_WRITE_CONCURRENT_INSERT"
    "\<not> t \<le> TL_READ_NO_INSERT"
  using assms unfolding is_write_def by (cases t; simp add: type_order strength_def)+

lemma strength_simps [simp]:
  "strength TL_WRITE_ALLOW_WRITE = 6" "strength TL_WRITE_CONCURRENT_INSERT = 8"
  by (simp_all add: strength_def)

lemma read_type_simps:
  assumes "is_read t"
  shows "t \<noteq> TL_READ_NO_INSERT \<Longrightarrow> t \<le> TL_READ_HIGH_PRIORITY" "t \<le> TL_READ_NO_INSERT"
  using assms unfolding is_read_def by (cases t; simp add: type_order)+

lemma same_owner_simps [simp]:
  "same_owner a a" "same_owner (d\<lparr>cond := c\<rparr>) b \<longleftrightarrow> same_owner d b"
  "same_owner a (d\<lparr>cond := c\<rparr>) \<longleftrightarrow> same_owner a d"
  by (simp_all add: same_owner_def thr_lock_owner_equal_def)

lemma same_owner_sym: "same_owner a b \<longleftrightarrow> same_owner b a"
  by (auto simp: same_owner_def thr_lock_owner_equal_def)

lemma same_owner_trans: "same_owner a b \<Longrightarrow> same_owner b c \<Longrightarrow> same_owner a c"
  by (simp add: same_owner_def thr_lock_owner_equal_def)

lemma has_old_lock_iff: "has_old_lock ds ow \<longleftrightarrow> (\<exists>d \<in> set ds. thr_lock_owner_equal (owner d) ow)"
  by (induction ds) auto

lemma no_insert_count_simps [simp]:
  "no_insert_count [] = 0" "no_insert_count (a @ b) = no_insert_count a + no_insert_count b"
  "no_insert_count (d # ds) = (if lock_type d = TL_READ_NO_INSERT then 1 else 0) + no_insert_count ds"
  by (simp_all add: no_insert_count_def)

lemma no_insert_count_0: "no_insert_count ds = 0 \<longleftrightarrow> (\<forall>d \<in> set ds. lock_type d \<noteq> TL_READ_NO_INSERT)"
  by (auto simp: no_insert_count_def filter_empty_conv)

lemma no_insert_count_remove1:
  "d \<in> set ds \<Longrightarrow> no_insert_count (remove1 d ds)
     = no_insert_count ds - (if lock_type d = TL_READ_NO_INSERT then 1 else 0)"
  by (induction ds) auto

section \<open>Waking up\<close>

lemma free_reads_eq:
  "free_reads uci ds =
     (let keep = \<lambda>d. uci \<and> lock_type d = TL_READ_NO_INSERT;
          go = map (cond_update (\<lambda>_. False)) (filter (\<lambda>d. \<not> keep d) ds)
      in (go, filter keep ds, no_insert_count go))"
  by (induction ds) (auto simp: Let_def)

lemma free_all_read_locks_simps:
  "read_list (free_all_read_locks uci l) = read_list l @ map (cond_update (\<lambda>_. False))
     (filter (\<lambda>d. \<not> (uci \<and> lock_type d = TL_READ_NO_INSERT)) (read_wait l))"
  "read_wait (free_all_read_locks uci l)
     = filter (\<lambda>d. uci \<and> lock_type d = TL_READ_NO_INSERT) (read_wait l)"
  "write_list (free_all_read_locks uci l) = write_list l"
  "write_wait (free_all_read_locks uci l) = write_wait l"
  "read_no_write_count (free_all_read_locks uci l) = read_no_write_count l
     + no_insert_count (filter (\<lambda>d. \<not> (uci \<and> lock_type d = TL_READ_NO_INSERT)) (read_wait l))"
  by (auto simp: free_all_read_locks_def free_reads_eq Let_def no_insert_count_def filter_map o_def)

lemma free_all_safe:
  assumes "thr_safe l" "write_list l = [] \<or> uci \<and> (\<forall>w \<in> set (write_list l). allows_inserts (lock_type w))"
  shows "thr_safe (free_all_read_locks uci l)"
proof -
  have "wr_ok w r" if "w \<in> set (write_list l)" "r \<in> set (read_wait l)"
    "\<not> (uci \<and> lock_type r = TL_READ_NO_INSERT)" for w r
    using that assms(2) read_type_simps(1) [of "lock_type r"] assms(1)
    by (auto simp: wr_ok_def allows_inserts_def thr_safe_def)
  moreover have "wr_ok w (r\<lparr>cond := c\<rparr>) \<longleftrightarrow> wr_ok w r" for w r c by (simp add: wr_ok_def)
  moreover have "no_insert_count (map (cond_update (\<lambda>_. False)) ds) = no_insert_count ds" for ds
    by (simp add: no_insert_count_def filter_map o_def)
  ultimately show ?thesis
    using assms(1) by (auto simp: thr_safe_def free_all_read_locks_simps)
qed

lemma grant_writes_result:
  assumes "grant_writes e d ds pre = (wr, ww, granted)" "is_write (lock_type d)"
    "\<forall>x \<in> set ds. is_write (lock_type x)"
  shows "\<exists>g. wr = pre @ g \<and> granted \<in> set g \<and> (g = [granted] \<or> (\<forall>x \<in> set g. lock_type x = TL_WRITE_ALLOW_WRITE))
    \<and> (lock_type d = TL_WRITE_ALLOW_WRITE \<longrightarrow> (\<forall>x \<in> set g. lock_type x = TL_WRITE_ALLOW_WRITE))
    \<and> (\<forall>x \<in> set g. is_write (lock_type x)) \<and> set ww \<subseteq> set ds"
  using assms
proof (induction ds arbitrary: d pre)
  case Nil
  then show ?case by (auto simp: Let_def is_write_def start_writer_def split: if_splits)
next
  case (Cons n ns)
  let ?d = "start_writer e d"
  have w: "is_write (lock_type ?d)" using Cons.prems(2) by (simp add: is_write_def start_writer_def)
  show ?case
  proof (cases "lock_type ?d \<noteq> TL_WRITE_ALLOW_WRITE \<or> lock_type n \<noteq> TL_WRITE_ALLOW_WRITE")
    case True
    then have "wr = pre @ [?d]" "ww = n # ns" "granted = ?d" using Cons.prems(1) by (auto simp: Let_def)
    then show ?thesis using w by (auto simp: start_writer_def)
  next
    case False
    then have "grant_writes e n ns (pre @ [?d]) = (wr, ww, granted)" using Cons.prems(1) by (simp add: Let_def)
    from Cons.IH [OF this] Cons.prems(3) obtain g where
      g: "wr = pre @ ?d # g" "granted \<in> set g" "\<forall>x \<in> set g. lock_type x = TL_WRITE_ALLOW_WRITE"
      "\<forall>x \<in> set g. is_write (lock_type x)" "set ww \<subseteq> set ns" using False by auto
    then show ?thesis using g w False by (intro exI [of _ "?d # g"]) auto
  qed
qed

lemma grant_beside_reads_result:
  assumes "grant_beside_reads lt d ds pre = (wr, ww)" "lock_type d = lt"
  shows "\<exists>g. wr = pre @ g \<and> g \<noteq> [] \<and> (\<forall>x \<in> set g. lock_type x = lt)
    \<and> (length g = 1 \<and> owner (hd g) = owner d \<or> lt = TL_WRITE_ALLOW_WRITE) \<and> set ww \<subseteq> set ds"
  using assms
proof (induction ds arbitrary: d pre)
  case (Cons n ns)
  show ?case
  proof (cases "lt = TL_WRITE_ALLOW_WRITE \<and> lock_type n = TL_WRITE_ALLOW_WRITE")
    case True
    then have "grant_beside_reads lt n ns (pre @ [d\<lparr>cond := False\<rparr>]) = (wr, ww)"
      using Cons.prems(1) by simp
    from Cons.IH [OF this] True obtain g where "wr = pre @ d\<lparr>cond := False\<rparr> # g"
      "\<forall>x \<in> set g. lock_type x = lt" "set ww \<subseteq> set ns" by auto
    then show ?thesis using True Cons.prems(2)
      by (intro exI [of _ "d\<lparr>cond := False\<rparr> # g"]) auto
  next
    case False
    then have "wr = pre @ [d\<lparr>cond := False\<rparr>]" "ww = n # ns"
      using Cons.prems(1) by (auto split: if_splits)
    then show ?thesis using Cons.prems(2) by auto
  qed
qed auto

text \<open>Granting writers to a lock that has none.\<close>

lemma grant_safe:
  assumes "thr_safe l" "write_list l = []" "\<forall>x \<in> set g. is_write (lock_type x)"
    "length g = 1 \<or> (\<forall>x \<in> set g. lock_type x = TL_WRITE_ALLOW_WRITE)"
    "read_list l = [] \<or> (\<forall>x \<in> set g. allows_inserts (lock_type x)) \<and> read_no_write_count l = 0"
    "set ww \<subseteq> set (write_wait l)"
  shows "thr_safe (l\<lparr>write_list := g, write_wait := ww\<rparr>)"
proof -
  have "sorted_wrt (\<lambda>a b. strength (lock_type b) \<le> strength (lock_type a)) g"
  proof (cases "length g = 1")
    case True
    then show ?thesis by (cases g) auto
  next
    case False
    then show ?thesis using assms(4) by (auto simp: sorted_wrt_iff_nth_less)
  qed
  moreover have "ww_ok a b" if "a \<in> set g" "b \<in> set g" for a b
    using that assms(4) by (cases g; cases "tl g") (auto simp: ww_ok_def)
  moreover have "wr_ok w r" if "w \<in> set g" "r \<in> set (read_list l)" for w r
  proof -
    have "lock_type r \<noteq> TL_READ_NO_INSERT" "is_read (lock_type r)" "allows_inserts (lock_type w)"
      using that assms(1,5) no_insert_count_0 [of "read_list l"] by (auto simp: thr_safe_def)
    then show ?thesis using read_type_simps(1) by (auto simp: wr_ok_def allows_inserts_def)
  qed
  ultimately show ?thesis using assms by (auto simp: thr_safe_def)
qed

definition free_waiting :: "bool \<Rightarrow> THR_LOCK \<Rightarrow> THR_LOCK" where
  "free_waiting uci l = (if read_wait l \<noteq> [] then free_all_read_locks uci l else l)"

lemma free_waiting_simps:
  "write_list (free_waiting uci l) = write_list l" "write_wait (free_waiting uci l) = write_wait l"
  "read_wait (free_waiting False l) = []"
  "read_list (free_waiting uci l) = [] \<Longrightarrow> read_list l = []"
  "read_list (free_waiting False l) = [] \<longleftrightarrow> read_list l = [] \<and> read_wait l = []"
  by (auto simp: free_waiting_def free_all_read_locks_simps split: if_splits)

lemma free_waiting_safe:
  assumes "thr_safe l" "write_list l = [] \<or> uci \<and> (\<forall>w \<in> set (write_list l). allows_inserts (lock_type w))"
  shows "thr_safe (free_waiting uci l)"
  using free_all_safe [OF assms] assms(1) by (simp add: free_waiting_def)

lemma count_safe: "thr_safe (l\<lparr>write_lock_count := n\<rparr>) \<longleftrightarrow> thr_safe l"
  by (simp add: thr_safe_def)

lemma wake_up_idle_inv:
  assumes "thr_safe l" "write_list l = []" "read_list l = []"
  shows "thr_inv (wake_up_idle e l)"
proof (cases "write_wait l")
  case Nil
  then have "wake_up_idle e l = free_waiting False l" by (simp add: wake_up_idle_def free_waiting_def Let_def)
  then show ?thesis using assms Nil
    by (auto simp: thr_inv_def thr_live_def free_waiting_simps intro: free_waiting_safe)
next
  case (Cons d ds)
  have types: "is_write (lock_type d)" "\<forall>x \<in> set ds. is_write (lock_type x)"
    using assms(1) Cons by (auto simp: thr_safe_def)
  define over where "over = (write_lock_count l > max_write_lock_count e)"
  define l1 where "l1 = l\<lparr>write_lock_count := if over then 0 else u64 (write_lock_count l + 1)\<rparr>"
  have l1: "thr_safe l1" "write_list l1 = []" "read_list l1 = []" "write_wait l1 = d # ds"
    "read_wait l1 = read_wait l" using assms Cons by (simp_all add: l1_def count_safe)
  show ?thesis
  proof (cases "lock_type d \<noteq> TL_WRITE_LOW_PRIORITY \<or> read_wait l = []
      \<or> lock_type (hd (read_wait l)) < TL_READ_HIGH_PRIORITY")
    case False
    then have "wake_up_idle e l = free_waiting False l"
      using Cons by (simp add: wake_up_idle_def free_waiting_def Let_def allows_inserts_def)
    then show ?thesis using assms False
      by (auto simp: thr_inv_def thr_live_def free_waiting_simps intro: free_waiting_safe)
  next
    case go: True
    show ?thesis
    proof (cases "over \<and> read_wait l \<noteq> []")
      case True
      then have "wake_up_idle e l = free_waiting False l1"
        using Cons go by (simp add: wake_up_idle_def free_waiting_def Let_def over_def l1_def)
      then show ?thesis using l1 True
        by (auto simp: thr_inv_def thr_live_def free_waiting_simps intro: free_waiting_safe)
    next
      case False
      obtain wr ww gr where g: "grant_writes e d ds [] = (wr, ww, gr)" by (metis prod_cases3)
      from grant_writes_result [OF this types] have r: "gr \<in> set wr" "\<forall>x \<in> set wr. is_write (lock_type x)"
        "length wr = 1 \<and> wr = [gr] \<or> (\<forall>x \<in> set wr. lock_type x = TL_WRITE_ALLOW_WRITE)" "set ww \<subseteq> set ds"
        by auto
      define l2 where "l2 = l1\<lparr>write_list := wr, write_wait := ww\<rparr>"
      have l2: "thr_safe l2" "write_list l2 = wr" "wr \<noteq> []"
        unfolding l2_def using r l1 by (auto intro!: grant_safe)
      have "wake_up_idle e l = (if lock_type gr \<ge> TL_WRITE_LOW_PRIORITY then l2
          else free_waiting (allows_inserts (lock_type gr)) l2)"
        using Cons go False g assms(2)
        by (auto simp: wake_up_idle_def free_waiting_def Let_def over_def l1_def l2_def)
      moreover have "\<forall>w \<in> set wr. allows_inserts (lock_type w)" "allows_inserts (lock_type gr)"
        if "\<not> lock_type gr \<ge> TL_WRITE_LOW_PRIORITY"
        using that r write_type_simps(6) [of "lock_type gr"] by (auto simp: allows_inserts_def)
      ultimately show ?thesis using l2
        by (auto simp: thr_inv_def thr_live_def free_waiting_simps intro: free_waiting_safe)
    qed
  qed
qed

lemma wake_up_reading_inv:
  assumes "thr_safe l" "write_list l = []" "read_list l \<noteq> []"
  shows "thr_inv (wake_up_reading e l)"
proof (cases "write_wait l")
  case Nil
  then have "wake_up_reading e l = free_waiting False l"
    by (simp add: wake_up_reading_def free_waiting_def Let_def)
  then show ?thesis using assms Nil free_waiting_simps(4) [of False l]
    by (auto simp: thr_inv_def thr_live_def free_waiting_simps intro: free_waiting_safe)
next
  case (Cons d ds)
  have d: "is_write (lock_type d)" using assms(1) Cons by (auto simp: thr_safe_def)
  show ?thesis
  proof (cases "lock_type d \<le> TL_WRITE_CONCURRENT_INSERT
      \<and> (\<not> allows_inserts (lock_type d) \<or> read_no_write_count l = 0)")
    case False
    then have "wake_up_reading e l = l" using Cons by (auto simp: wake_up_reading_def Let_def)
    then show ?thesis using assms Cons by (simp add: thr_inv_def thr_live_def)
  next
    case True
    then have ins: "allows_inserts (lock_type d)" "read_no_write_count l = 0"
      using write_type_simps(1) [OF d] by (auto simp: allows_inserts_def)
    show ?thesis
    proof (cases "lock_type d = TL_WRITE_CONCURRENT_INSERT \<and> call_check_status e d")
      case up: True
      let ?l = "l\<lparr>write_wait := d\<lparr>lock_type := TL_WRITE\<rparr> # ds\<rparr>"
      have "thr_safe ?l" using assms(1) Cons by (auto simp: thr_safe_def is_write_def)
      then have "thr_safe (free_waiting False ?l)" using assms(2) by (intro free_waiting_safe) auto
      moreover have "wake_up_reading e l = free_waiting False ?l"
        using True up Cons by (simp add: wake_up_reading_def free_waiting_def Let_def)
      ultimately show ?thesis using assms(3)
        by (simp add: thr_inv_def thr_live_def free_waiting_simps)
    next
      case False
      obtain wr ww where g: "grant_beside_reads (lock_type d) d ds [] = (wr, ww)"
        by (cases "grant_beside_reads (lock_type d) d ds []")
      from grant_beside_reads_result [OF this refl] have r: "wr \<noteq> []" "\<forall>x \<in> set wr. lock_type x = lock_type d"
        "length wr = 1 \<or> lock_type d = TL_WRITE_ALLOW_WRITE" "set ww \<subseteq> set ds" by auto
      let ?l = "l\<lparr>write_list := wr, write_wait := ww\<rparr>"
      have "thr_safe ?l" using r d ins Cons by (intro grant_safe [OF assms(1,2)]) auto
      then have "thr_safe (free_waiting True ?l)" using r(2) ins(1) by (intro free_waiting_safe) auto
      moreover have "wake_up_reading e l = free_waiting True ?l"
        using True False Cons g ins(1) assms(2) by (auto simp: wake_up_reading_def free_waiting_def Let_def)
      ultimately show ?thesis using r(1)
        by (simp add: thr_inv_def thr_live_def free_waiting_simps)
    qed
  qed
qed

lemma wake_up_waiters_inv: "thr_safe l \<Longrightarrow> thr_inv (wake_up_waiters e l)"
  using wake_up_idle_inv [of l e] wake_up_reading_inv [of l e]
  by (auto simp: wake_up_waiters_def) (simp add: thr_inv_def thr_live_def)

section \<open>The operations\<close>

lemma sorted_wrt_remove1: "sorted_wrt R xs \<Longrightarrow> sorted_wrt R (remove1 x xs)"
  using set_remove1_subset [of x] by (induction xs) fastforce+

lemma thr_unlock_inv:
  assumes "thr_inv l" "d \<in> set (read_list l) \<union> set (write_list l)"
  shows "thr_inv (thr_unlock e d l)"
proof -
  have s: "thr_safe l" using assms(1) by (simp add: thr_inv_def)
  have sub: "set (remove1 d xs) \<subseteq> set xs" for xs by (rule set_remove1_subset)
  show ?thesis
  proof (cases "lock_type d \<le> TL_READ_NO_INSERT")
    case True
    then have "d \<in> set (read_list l)"
      using assms(2) s write_type_simps(7) by (auto simp: thr_safe_def)
    then have "thr_safe (l\<lparr>read_list := remove1 d (read_list l), read_no_write_count :=
        read_no_write_count l - (if lock_type d = TL_READ_NO_INSERT then 1 else 0)\<rparr>)"
      using s sub by (force simp: thr_safe_def no_insert_count_remove1)
    then show ?thesis unfolding thr_unlock_def using True by (simp add: wake_up_waiters_inv)
  next
    case False
    have "thr_safe (l\<lparr>write_list := remove1 d (write_list l)\<rparr>)"
      using s sub by (force simp: thr_safe_def sorted_wrt_remove1)
    then show ?thesis unfolding thr_unlock_def using False by (simp add: wake_up_waiters_inv)
  qed
qed

lemma shrink_waiting_safe:
  assumes "thr_safe l" "set rw \<subseteq> set (read_wait l)" "set ww \<subseteq> set (write_wait l)"
  shows "thr_safe (l\<lparr>read_wait := rw, write_wait := ww\<rparr>)"
  using assms by (auto simp: thr_safe_def)

lemma wait_for_lock_end_inv:
  assumes "thr_inv l"
  shows "thr_inv (snd (wait_for_lock_end e t d l))"
proof -
  have "thr_safe (l\<lparr>read_wait := remove1 d (read_wait l)\<rparr>)" "thr_safe (l\<lparr>write_wait := remove1 d (write_wait l)\<rparr>)"
    using assms shrink_waiting_safe [of l "remove1 d (read_wait l)" "write_wait l"]
      shrink_waiting_safe [of l "read_wait l" "remove1 d (write_wait l)"]
    by (simp_all add: thr_inv_def set_remove1_subset)
  then show ?thesis using assms by (simp add: wait_for_lock_end_def wake_up_waiters_inv Let_def)
qed

lemma thr_abort_inv: "thr_inv l \<Longrightarrow> thr_inv (thr_abort_locks_for_thread e tid l)"
  unfolding thr_abort_locks_for_thread_def thr_inv_def [of l]
  by (intro wake_up_waiters_inv shrink_waiting_safe) auto

text \<open>
  What the callers of \<open>thr_lock\<close> keep to: lock types that are not reserved for the
  parser, and for a table a thread already has write locked, no stronger write lock than
  those it has; the type counts that the request ends up with where concurrent inserts
  are not supported.
\<close>

definition effective_type :: "thr_env \<Rightarrow> thr_lock_type \<Rightarrow> thr_lock_type" where
  "effective_type e t =
     (if t = TL_WRITE_CONCURRENT_INSERT \<and> check_status e = None
      then thr_upgraded_concurrent_insert_lock e else t)"

definition request_ok :: "thr_env \<Rightarrow> thr_lock_info \<Rightarrow> thr_lock_type \<Rightarrow> THR_LOCK \<Rightarrow> bool" where
  "request_ok e ow t l \<longleftrightarrow>
     (is_read t \<or> is_write t)
     \<and> (is_write t \<longrightarrow> (\<forall>w \<in> set (write_list l). thr_lock_owner_equal (owner w) ow
          \<longrightarrow> strength (effective_type e t) \<le> strength (lock_type w)))"

definition env_ok :: "thr_env \<Rightarrow> bool" where
  "env_ok e \<longleftrightarrow> thr_upgraded_concurrent_insert_lock e \<in> {TL_WRITE, TL_WRITE_LOW_PRIORITY}"

lemma head_strongest:
  assumes "thr_safe l" "write_list l = w # ws" "x \<in> set (write_list l)"
  shows "strength (lock_type x) \<le> strength (lock_type w)"
  using assms by (auto simp: thr_safe_def)

lemma grant_read_inv:
  assumes "thr_inv l" "is_read (lock_type d)" "\<forall>w \<in> set (write_list l). wr_ok w d"
  shows "thr_inv (snd (grant_read d l))"
  using assms by (auto simp: thr_inv_def thr_safe_def thr_live_def grant_read_def)

lemma wait_read_inv:
  assumes "thr_inv l" "is_read (lock_type d)" "write_list l \<noteq> [] \<or> write_wait l \<noteq> []"
  shows "thr_inv (snd (wait_read d l))"
  using assms by (auto simp: thr_inv_def thr_safe_def thr_live_def wait_read_def)

lemma thr_lock_read_inv:
  assumes inv: "thr_inv l" and d: "is_read (lock_type d)"
  shows "thr_inv (snd (thr_lock_read d l))"
proof (cases "write_list l")
  case Nil
  then show ?thesis using grant_read_inv [OF inv d] wait_read_inv [OF inv d]
    by (auto simp: thr_lock_read_def)
next
  case (Cons w ws)
  have s: "thr_safe l" using inv by (simp add: thr_inv_def)
  have w: "is_write (lock_type w)" "\<forall>x \<in> set (write_list l). is_write (lock_type x) \<and> ww_ok x w"
    using s Cons by (auto simp: thr_safe_def)
  let ?grant = "thr_lock_owner_equal (owner d) (owner w) \<or> lock_type w < TL_WRITE_CONCURRENT_INSERT
    \<or> lock_type w = TL_WRITE_CONCURRENT_INSERT \<and> lock_type d \<le> TL_READ_HIGH_PRIORITY"
  have "wr_ok x d" if g: ?grant and m: "x \<in> set (write_list l)" for x
  proof -
    note x = w(2) [rule_format, OF m]
    consider "thr_lock_owner_equal (owner d) (owner w)" | "lock_type w = TL_WRITE_ALLOW_WRITE"
      | "lock_type w = TL_WRITE_CONCURRENT_INSERT" "lock_type d \<le> TL_READ_HIGH_PRIORITY"
      using g write_type_simps(2) [OF w(1)] by blast
    then show ?thesis
    proof cases
      case 1
      then have "same_owner w d" by (auto simp: same_owner_def thr_lock_owner_equal_def)
      then show ?thesis using x same_owner_trans [of x w d] by (auto simp: ww_ok_def wr_ok_def)
    next
      case 2
      then show ?thesis using head_strongest [OF s Cons m] x write_type_simps(3) by (simp add: wr_ok_def)
    next
      case 3
      then show ?thesis using head_strongest [OF s Cons m] x write_type_simps(5) by (auto simp: wr_ok_def)
    qed
  qed
  then show ?thesis
    using grant_read_inv [OF inv d] wait_read_inv [OF inv d] Cons inv by (simp add: thr_lock_read_def)
qed

lemma wait_write_inv:
  assumes "thr_inv l" "is_write (lock_type d)" "write_list l \<noteq> [] \<or> write_wait l \<noteq> [] \<or> read_list l \<noteq> []"
  shows "thr_inv (snd (wait_write d l))"
  using assms by (auto simp: thr_inv_def thr_safe_def thr_live_def wait_write_def)

text \<open>A further writer next to the active ones.\<close>

lemma more_writers_inv:
  assumes inv: "thr_inv l" and ne: "write_list l = w # ws" and d: "is_write (lock_type d)"
    and own: "\<forall>x \<in> set (write_list l). same_owner x d \<longrightarrow> strength (lock_type d) \<le> strength (lock_type x)"
    and grant: "lock_type d = TL_WRITE_ALLOW_WRITE \<and> lock_type w = TL_WRITE_ALLOW_WRITE
      \<or> (\<exists>x \<in> set (write_list l). same_owner x d)"
  shows "thr_inv (l\<lparr>write_list := write_list l @ [d]\<rparr>)"
proof -
  have s: "thr_safe l" using inv by (simp add: thr_inv_def)
  have types: "\<forall>x \<in> set (write_list l). is_write (lock_type x)" using s by (auto simp: thr_safe_def)
  have strong: "strength (lock_type d) \<le> strength (lock_type x) \<and> ww_ok x d" if "x \<in> set (write_list l)" for x
  proof (cases "same_owner x d")
    case True
    then show ?thesis using own that by (simp add: ww_ok_def)
  next
    case False
    have "lock_type d = TL_WRITE_ALLOW_WRITE \<and> lock_type x = TL_WRITE_ALLOW_WRITE"
      using grant
    proof
      assume "lock_type d = TL_WRITE_ALLOW_WRITE \<and> lock_type w = TL_WRITE_ALLOW_WRITE"
      then show ?thesis using head_strongest [OF s ne that] write_type_simps(3) types that by simp
    next
      assume "\<exists>y \<in> set (write_list l). same_owner y d"
      then obtain y where y: "y \<in> set (write_list l)" "same_owner y d" by blast
      then have "\<not> same_owner x y" using False same_owner_trans by blast
      moreover have "ww_ok x y" using s that y(1) by (auto simp: thr_safe_def)
      ultimately have "lock_type x = TL_WRITE_ALLOW_WRITE" "lock_type y = TL_WRITE_ALLOW_WRITE"
        by (simp_all add: ww_ok_def)
      then show ?thesis using own y write_type_simps(3) [OF d] by auto
    qed
    then show ?thesis by (simp add: ww_ok_def)
  qed
  have read: "wr_ok d r" if "r \<in> set (read_list l)" for r
    using grant
  proof
    assume "lock_type d = TL_WRITE_ALLOW_WRITE \<and> lock_type w = TL_WRITE_ALLOW_WRITE"
    then show ?thesis by (simp add: wr_ok_def)
  next
    assume "\<exists>y \<in> set (write_list l). same_owner y d"
    then obtain y where y: "y \<in> set (write_list l)" "same_owner y d" by blast
    then have "wr_ok y r" "strength (lock_type d) \<le> strength (lock_type y)"
      using s that own by (auto simp: thr_safe_def)
    then show ?thesis
      using y(2) write_type_simps(3,5) [OF d] same_owner_trans [of d y r] same_owner_sym [of d y]
      by (auto simp: wr_ok_def)
  qed
  show ?thesis using s inv d strong read
    by (auto simp: thr_inv_def thr_safe_def thr_live_def sorted_wrt_append ww_ok_def same_owner_sym)
qed

lemma thr_lock_write_inv:
  assumes inv: "thr_inv l" and t: "is_write (lock_type d)" and e: "env_ok e"
    and req: "\<forall>w \<in> set (write_list l). same_owner w d
      \<longrightarrow> strength (effective_type e (lock_type d)) \<le> strength (lock_type w)"
  shows "thr_inv (snd (thr_lock_write e d l))"
proof -
  define d1 where "d1 = (if lock_type d = TL_WRITE_CONCURRENT_INSERT \<and> check_status e = None
    then d\<lparr>lock_type := thr_upgraded_concurrent_insert_lock e\<rparr> else d)"
  have d1: "is_write (lock_type d1)" "lock_type d1 = effective_type e (lock_type d)" "owner d1 = owner d"
    using t e by (auto simp: d1_def env_ok_def is_write_def effective_type_def)
  have own: "same_owner x d1 \<longleftrightarrow> same_owner x d" for x by (simp add: same_owner_def d1(3))
  show ?thesis
  proof (cases "write_list l")
    case (Cons w ws)
    have old: "has_old_lock (write_list l) (owner d1) \<longleftrightarrow> (\<exists>x \<in> set (write_list l). same_owner x d1)"
      by (simp add: has_old_lock_iff same_owner_def)
    show ?thesis
      using more_writers_inv [OF inv Cons d1(1)] wait_write_inv [OF inv d1(1)] req own d1(2) inv old Cons
      unfolding thr_lock_write_def d1_def [symmetric] Let_def by auto
  next
    case Nil
    define d2 where "d2 = (if lock_type d1 = TL_WRITE_CONCURRENT_INSERT \<and> call_check_status e d1
      then d1\<lparr>lock_type := thr_upgraded_concurrent_insert_lock e\<rparr> else d1)"
    have d2: "is_write (lock_type d2)" using d1 e by (auto simp: d2_def env_ok_def is_write_def)
    have safe: "thr_safe l" using inv by (simp add: thr_inv_def)
    have "thr_inv (l\<lparr>write_list := [d2]\<rparr>)" if "write_wait l = []" "read_list l = []
      \<or> lock_type d2 \<le> TL_WRITE_CONCURRENT_INSERT \<and> (\<not> allows_inserts (lock_type d2) \<or> read_no_write_count l = 0)"
    proof -
      have "read_list l = [] \<or> allows_inserts (lock_type d2) \<and> read_no_write_count l = 0"
        using that(2) write_type_simps(1) [OF d2] by (auto simp: allows_inserts_def)
      then have "thr_safe (l\<lparr>write_list := [d2], write_wait := []\<rparr>)"
        using d2 by (intro grant_safe [OF safe Nil]) auto
      then show ?thesis using that(1) by (simp add: thr_inv_def thr_live_def thr_safe_def)
    qed
    then show ?thesis
      using Nil wait_write_inv [OF inv d1(1)] wait_write_inv [OF inv d2]
      unfolding thr_lock_write_def d1_def [symmetric] Let_def d2_def [symmetric] by auto
  qed
qed

lemma thr_lock_inv:
  assumes "thr_inv l" "env_ok e" "request_ok e ow t l"
  shows "thr_inv (snd (thr_lock e addr ow t l))"
proof (cases "t \<le> TL_READ_NO_INSERT")
  case True
  then have "is_read t" using assms(3) write_type_simps(7) [of t] by (auto simp: request_ok_def)
  then show ?thesis using thr_lock_read_inv [OF assms(1)] True by (simp add: thr_lock_def)
next
  case False
  then have "is_write t" using assms(3) read_type_simps(2) [of t] by (auto simp: request_ok_def)
  then show ?thesis using thr_lock_write_inv [OF assms(1) _ assms(2)] assms(3) False
    by (simp add: thr_lock_def request_ok_def same_owner_def)
qed

section \<open>All sequences of operations\<close>

inductive thr_step :: "thr_env \<Rightarrow> THR_LOCK \<Rightarrow> THR_LOCK \<Rightarrow> bool" for e :: thr_env where
  step_lock: "request_ok e ow t l \<Longrightarrow> thr_lock e addr ow t l = (r, l') \<Longrightarrow> thr_step e l l'"
| step_unlock: "d \<in> set (read_list l) \<union> set (write_list l) \<Longrightarrow> thr_step e l (thr_unlock e d l)"
| step_wait_end: "d \<in> set (read_wait l) \<union> set (write_wait l) \<Longrightarrow>
    wait_for_lock_end e timed_out d l = (r, l') \<Longrightarrow> thr_step e l l'"
| step_abort: "thr_step e l (thr_abort_locks_for_thread e tid l)"

lemma thr_step_inv:
  assumes "thr_inv l" "env_ok e" "thr_step e l l'"
  shows "thr_inv l'"
  using assms(3)
proof (cases rule: thr_step.cases)
  case (step_lock ow t addr r)
  then show ?thesis using thr_lock_inv [OF assms(1,2) step_lock(1), of addr] by simp
next
  case (step_unlock d)
  then show ?thesis using thr_unlock_inv [OF assms(1)] by simp
next
  case (step_wait_end d timed_out r)
  then show ?thesis using wait_for_lock_end_inv [OF assms(1), of e timed_out d] by simp
next
  case (step_abort tid)
  then show ?thesis using thr_abort_inv [OF assms(1)] by simp
qed

lemma thr_init_inv: "thr_inv thr_lock_init"
  by (simp add: thr_inv_def thr_safe_def thr_live_def thr_lock_init_def)

interpretation thr_sys: transition_system "\<lambda>l. l = thr_lock_init" "thr_step e" "\<lambda>l. env_ok e \<longrightarrow> thr_inv l"
  for e
  by unfold_locales (auto simp: thr_init_inv intro: thr_step_inv)

abbreviation thr_reach :: "thr_env \<Rightarrow> THR_LOCK \<Rightarrow> bool" where
  "thr_reach e \<equiv> reach (\<lambda>l. l = thr_lock_init) (thr_step e)"

text \<open>C12. Mutual exclusion: in every state reached by any sequence of requests, releases, timeouts
  and aborts, two write locks in use belong to one thread or both allow other writers; a
  write lock and a read lock in use belong to one thread, or the write lock allows writers, or
  it is a concurrent insert and the reader does not forbid inserts; and the counter of
  the readers that forbid inserts is exact.\<close>

theorem thr_lock_mutual_exclusion:
  assumes "env_ok e" "thr_reach e l"
  shows "(\<forall>a \<in> set (write_list l). \<forall>b \<in> set (write_list l). same_owner a b
      \<or> lock_type a = TL_WRITE_ALLOW_WRITE \<and> lock_type b = TL_WRITE_ALLOW_WRITE)
    \<and> (\<forall>w \<in> set (write_list l). \<forall>r \<in> set (read_list l). same_owner w r
      \<or> lock_type w = TL_WRITE_ALLOW_WRITE
      \<or> lock_type w = TL_WRITE_CONCURRENT_INSERT \<and> lock_type r \<le> TL_READ_HIGH_PRIORITY)
    \<and> read_no_write_count l = no_insert_count (read_list l)"
  using thr_sys.reach_inv [OF assms(2)] assms(1)
  by (simp add: thr_inv_def thr_safe_def ww_ok_def wr_ok_def)

text \<open>A writer that has the lock and a reader of another thread that waits for it.\<close>

definition sample_thr_env :: thr_env where
  "sample_thr_env = \<lparr>check_status = None, thr_upgraded_concurrent_insert_lock = TL_WRITE,
     max_write_lock_count = 2 ^ 64 - 1\<rparr>"

definition sample_thr_lock :: THR_LOCK where
  "sample_thr_lock = snd (thr_lock sample_thr_env 1 (thr_lock_info_init 11 1) TL_READ
     (snd (thr_lock sample_thr_env 0 (thr_lock_info_init 10 0) TL_WRITE thr_lock_init)))"

lemma sample_thr_reach: "thr_reach sample_thr_env sample_thr_lock"
proof -
  have "request_ok sample_thr_env ow TL_WRITE thr_lock_init" "request_ok sample_thr_env ow TL_READ l" for ow l
    by (simp_all add: request_ok_def is_write_def is_read_def thr_lock_init_def type_order)
  note ok = this
  let ?l = "snd (thr_lock sample_thr_env 0 (thr_lock_info_init 10 0) TL_WRITE thr_lock_init)"
  have "thr_reach sample_thr_env thr_lock_init" by (simp add: reach_init)
  moreover have "thr_step sample_thr_env thr_lock_init ?l"
    using ok(1) by (rule step_lock) (rule prod.collapse [symmetric])
  ultimately have "thr_reach sample_thr_env ?l" by (rule reach_step)
  moreover have "thr_step sample_thr_env ?l sample_thr_lock"
    unfolding sample_thr_lock_def using ok(2) by (rule step_lock) (rule prod.collapse [symmetric])
  ultimately show ?thesis by (rule reach_step)
qed

lemma sample_thr_lock_eq: "sample_thr_lock = \<lparr>read_wait =
    [\<lparr>data_addr = 1, owner = \<lparr>info_addr = 11, thread_id = 1\<rparr>, lock_type = TL_READ, cond = True\<rparr>],
  read_list = [], write_wait = [], write_list =
    [\<lparr>data_addr = 0, owner = \<lparr>info_addr = 10, thread_id = 0\<rparr>, lock_type = TL_WRITE, cond = False\<rparr>],
  write_lock_count = 0, read_no_write_count = 0\<rparr>"
  by (simp add: sample_thr_lock_def thr_lock_def thr_lock_write_def thr_lock_read_def thr_lock_init_def
      thr_lock_info_init_def sample_thr_env_def type_order wait_read_def thr_lock_owner_equal_def)

lemma sample_env_ok: "env_ok sample_thr_env"
  by (simp add: env_ok_def sample_thr_env_def)

theorem thr_lock_mutual_exclusion_witness:
  "length (write_list sample_thr_lock) = 1 \<and> length (read_wait sample_thr_lock) = 1
   \<and> read_no_write_count sample_thr_lock = no_insert_count (read_list sample_thr_lock)"
  using thr_lock_mutual_exclusion [OF sample_env_ok sample_thr_reach]
  by (simp add: sample_thr_lock_eq)

text \<open>C13. No lost wake-up: in every reachable state, when no lock is in use no request waits, and
  when no write lock is in use and no writer waits no reader waits either.\<close>

theorem thr_lock_no_lost_wakeup:
  assumes "env_ok e" "thr_reach e l"
  shows "(write_list l = [] \<and> read_list l = [] \<longrightarrow> read_wait l = [] \<and> write_wait l = [])
    \<and> (write_list l = [] \<and> write_wait l = [] \<longrightarrow> read_wait l = [])"
  using thr_sys.reach_inv [OF assms(2)] assms(1) by (simp add: thr_inv_def thr_live_def)

theorem thr_lock_no_lost_wakeup_witness:
  "thr_unlock sample_thr_env (hd (write_list sample_thr_lock)) sample_thr_lock = \<lparr>read_wait = [],
     read_list = [\<lparr>data_addr = 1, owner = \<lparr>info_addr = 11, thread_id = 1\<rparr>, lock_type = TL_READ, cond = False\<rparr>],
     write_wait = [], write_list = [], write_lock_count = 0, read_no_write_count = 0\<rparr>
   \<and> write_list sample_thr_lock @ read_list sample_thr_lock \<noteq> []"
proof
  show "thr_unlock sample_thr_env (hd (write_list sample_thr_lock)) sample_thr_lock = \<lparr>read_wait = [],
     read_list = [\<lparr>data_addr = 1, owner = \<lparr>info_addr = 11, thread_id = 1\<rparr>, lock_type = TL_READ, cond = False\<rparr>],
     write_wait = [], write_list = [], write_lock_count = 0, read_no_write_count = 0\<rparr>"
    by (simp add: sample_thr_lock_eq thr_unlock_def wake_up_waiters_def wake_up_idle_def
        free_all_read_locks_def type_order)
  have "read_wait sample_thr_lock \<noteq> []" by (simp add: sample_thr_lock_eq)
  then show "write_list sample_thr_lock @ read_list sample_thr_lock \<noteq> []"
    using thr_lock_no_lost_wakeup [OF sample_env_ok sample_thr_reach] by blast
qed

section \<open>Lock order\<close>

definition lock_key :: "lock_request \<Rightarrow> int" where
  "lock_key a = fst a - u32 (type_num (snd a))"

lemma sort_shift_correct:
  "mset (sort_shift x ps) = add_mset x (mset ps)"
  "sorted_wrt (\<lambda>a b. lock_key b \<le> lock_key a) ps \<Longrightarrow> sorted_wrt (\<lambda>a b. lock_key b \<le> lock_key a) (sort_shift x ps)"
proof -
  show m: "mset (sort_shift x ps) = add_mset x (mset ps)" for ps by (induction ps) auto
  have set: "set (sort_shift x ps) = insert x (set ps)" for ps
    using arg_cong [OF m [of ps], of set_mset] by simp
  show "sorted_wrt (\<lambda>a b. lock_key b \<le> lock_key a) ps \<Longrightarrow>
    sorted_wrt (\<lambda>a b. lock_key b \<le> lock_key a) (sort_shift x ps)"
    by (induction ps) (auto simp: set LOCK_CMP_def lock_key_def [symmetric])
qed

lemma sort_locks_correct:
  "mset (sort_locks xs) = mset xs" "sorted_wrt (\<lambda>a b. lock_key a \<le> lock_key b) (sort_locks xs)"
proof -
  have "mset (foldl (\<lambda>s t. sort_shift t s) ps xs) = mset ps + mset xs" for ps
    by (induction xs arbitrary: ps) (auto simp: sort_shift_correct)
  then show "mset (sort_locks xs) = mset xs" by (simp add: sort_locks_def)
  have "sorted_wrt (\<lambda>a b. lock_key b \<le> lock_key a) ps \<Longrightarrow>
    sorted_wrt (\<lambda>a b. lock_key b \<le> lock_key a) (foldl (\<lambda>s t. sort_shift t s) ps xs)" for ps
    by (induction xs arbitrary: ps) (auto simp: sort_shift_correct)
  then show "sorted_wrt (\<lambda>a b. lock_key a \<le> lock_key b) (sort_locks xs)"
    by (simp add: sort_locks_def sorted_wrt_rev)
qed

lemma type_num_range: "t \<noteq> TL_IGNORE \<Longrightarrow> u32 (type_num t) = type_num t"
  "t \<noteq> TL_IGNORE \<Longrightarrow> 0 \<le> type_num t" "type_num t \<le> 12"
  by (cases t; simp add: u32_def)+

text \<open>C36. Sorting a request for several tables rearranges it so that the locks come in the order
  of their addresses, the same for all threads, and the requests for one lock from the
  strongest to the weakest; addresses of different locks are at least 14 bytes apart, which
  the size of the lock structure ensures, and no request has the type \<open>TL_IGNORE\<close>, which
  converts to a large number.\<close>

theorem sort_locks_order:
  assumes "\<forall>a \<in> set xs. \<forall>b \<in> set xs. fst a \<noteq> fst b \<longrightarrow> 14 \<le> \<bar>fst a - fst b\<bar>"
    "TL_IGNORE \<notin> snd ` set xs"
  shows "mset (sort_locks xs) = mset xs
    \<and> sorted_wrt (\<lambda>a b. fst a < fst b \<or> fst a = fst b \<and> snd b \<le> snd a) (sort_locks xs)"
proof -
  have set: "set (sort_locks xs) = set xs" by (metis sort_locks_correct(1) set_mset_mset)
  have t: "snd a \<noteq> TL_IGNORE" if "a \<in> set (sort_locks xs)" for a
    using assms(2) that unfolding set by (metis imageI)
  have "fst a < fst b \<or> fst a = fst b \<and> snd b \<le> snd a"
    if "a \<in> set (sort_locks xs)" "b \<in> set (sort_locks xs)" "lock_key a \<le> lock_key b" for a b
  proof (cases "fst a = fst b")
    case True
    then show ?thesis using that(3) t [OF that(1)] t [OF that(2)]
      by (simp add: lock_key_def type_order type_num_range(1))
  next
    case False
    have "14 \<le> \<bar>fst a - fst b\<bar>" using False that(1,2) assms(1) set by simp
    moreover have "fst a - fst b \<le> 13"
      using that(3) type_num_range(1,2) [OF t [OF that(1)]] type_num_range(1,2) [OF t [OF that(2)]]
        type_num_range(3) [of "snd a"] by (simp add: lock_key_def)
    ultimately show ?thesis by linarith
  qed
  then have "sorted_wrt (\<lambda>a b. fst a < fst b \<or> fst a = fst b \<and> snd b \<le> snd a) (sort_locks xs)"
    by (rule sorted_wrt_mono_rel [OF _ sort_locks_correct(2)])
  then show ?thesis using sort_locks_correct(1) by simp
qed

theorem sort_locks_order_witness:
  "sort_locks [(4096, TL_READ), (1024, TL_READ), (4096, TL_WRITE)]
     = [(1024, TL_READ), (4096, TL_WRITE), (4096, TL_READ)]
   \<and> sorted_wrt (\<lambda>a b. fst a < fst b \<or> fst a = fst b \<and> snd b \<le> snd a)
       (sort_locks [(4096, TL_READ), (1024, TL_READ), (4096, TL_WRITE)])"
  using sort_locks_order [of "[(4096, TL_READ), (1024, TL_READ), (4096, TL_WRITE)]"]
  by (simp add: sort_locks_def LOCK_CMP_def type_order u32_def)

end
