(* ===== verification/Calendar.thy ===== *)
theory Calendar
  imports Prelude
begin

text \<open>
  The calendar of \<open>mysys/my_time.cc\<close>: day numbers (\<open>calc_daynr\<close>,
  \<open>get_date_from_daynr\<close>), days of the week, week numbers (\<open>calc_week\<close>) and
  periods of months. Years, months and days are \<open>unsigned int\<close> in the source; an
  expression of type \<open>int\<close> or \<open>long\<close> that would overflow is undefined there and is
  not wrapped here.
\<close>

section \<open>Operations\<close>

definition YY_PART_YEAR :: int where "YY_PART_YEAR = 70"
definition MAX_DAY_NUMBER :: int where "MAX_DAY_NUMBER = 3652424"

definition calc_days_in_year :: "int \<Rightarrow> int" where
  "calc_days_in_year year =
     (if year mod 4 = 0 \<and> (year mod 100 \<noteq> 0 \<or> year mod 400 = 0 \<and> year \<noteq> 0) then 366 else 365)"

definition days_in_month :: "int list" where
  "days_in_month = [31, 28, 31, 30, 31, 30, 31, 31, 30, 31, 30, 31, 0]"

definition year_2000_handling :: "int \<Rightarrow> int" where
  "year_2000_handling year =
     (let year = u32 (year + 1900) in if year < 1900 + YY_PART_YEAR then u32 (year + 100) else year)"

definition calc_daynr :: "int \<Rightarrow> int \<Rightarrow> int \<Rightarrow> int" where
  "calc_daynr year month day =
     (let y = s32 year in
      if y = 0 \<and> month = 0 then 0
      else
        let delsum = 365 * y + 31 * (s32 month - 1) + s32 day;
            (y, delsum) = (if month \<le> 2 then (y - 1, delsum)
                           else (y, delsum - (s32 month * 4 + 23) sdiv 10));
            temp = ((y sdiv 100 + 1) * 3) sdiv 4
        in delsum + y sdiv 4 - temp)"

text \<open>The loop over the years, which counts the day in the year down.\<close>

function year_loop :: "int \<Rightarrow> int \<Rightarrow> int \<times> int" where
  "year_loop year day_of_year =
     (if day_of_year > calc_days_in_year year
      then year_loop (u32 (year + 1)) (day_of_year - calc_days_in_year year)
      else (year, day_of_year))"
  by pat_completeness auto

termination
  by (relation "measure (\<lambda>(y, d). nat d)") (auto simp: calc_days_in_year_def)

declare year_loop.simps [simp del]

text \<open>
  The loop over the months; it ends within the table for a day of a year that was reduced by
  the leap day.
\<close>

fun month_loop :: "int list \<Rightarrow> int \<Rightarrow> int \<Rightarrow> int \<times> int" where
  "month_loop [] month day_of_year = (month, day_of_year)"
| "month_loop (m # ms) month day_of_year =
     (if day_of_year > m then month_loop ms (month + 1) (day_of_year - m) else (month, day_of_year))"

definition get_date_from_daynr :: "int \<Rightarrow> int \<times> int \<times> int" where
  "get_date_from_daynr daynr =
     (if daynr \<le> 365 \<or> daynr \<ge> 3652500 then (0, 0, 0)
      else
        let year = u32 (daynr * 100 sdiv 36525);
            temp = ((u32 (year - 1) div 100 + 1) * 3) div 4;
            day_of_year = u32 (u32 (daynr - year * 365) - u32 (year - 1) div 4 + temp);
            (year, day_of_year) = year_loop year day_of_year;
            (leap_day, day_of_year) =
              (if calc_days_in_year year = 366 \<and> day_of_year > 31 + 28
               then (if day_of_year - 1 = 31 + 28 then 1 else 0, day_of_year - 1)
               else (0, day_of_year));
            (month, day) = month_loop days_in_month 1 day_of_year
        in (year, month, day + leap_day))"

definition calc_weekday :: "int \<Rightarrow> bool \<Rightarrow> int" where
  "calc_weekday daynr sunday_first_day_of_week =
     (daynr + 5 + (if sunday_first_day_of_week then 1 else 0)) smod 7"

definition WEEK_MONDAY_FIRST :: int where "WEEK_MONDAY_FIRST = 1"
definition WEEK_YEAR :: int where "WEEK_YEAR = 2"
definition WEEK_FIRST_WEEKDAY :: int where "WEEK_FIRST_WEEKDAY = 4"

text \<open>
  The week and the year it belongs to. Once a date is found to be in the first days of its
  year, the week is counted from the year before, and \<open>week_year\<close> is set.
\<close>

definition calc_week :: "int \<Rightarrow> int \<Rightarrow> int \<Rightarrow> int \<Rightarrow> int \<times> int" where
  "calc_week y m d week_behaviour =
     (let daynr = calc_daynr y m d;
          first_daynr = calc_daynr y 1 1;
          monday_first = has_flag week_behaviour WEEK_MONDAY_FIRST;
          week_year = has_flag week_behaviour WEEK_YEAR;
          first_weekday = has_flag week_behaviour WEEK_FIRST_WEEKDAY;
          weekday = calc_weekday first_daynr (\<not> monday_first);
          late = (\<lambda>w. first_weekday \<and> w \<noteq> 0 \<or> \<not> first_weekday \<and> w \<ge> 4) in
      if m = 1 \<and> d \<le> u32 (7 - weekday) \<and> \<not> week_year \<and> late weekday then (0, y)
      else
        let early = (m = 1 \<and> d \<le> u32 (7 - weekday));
            year = (if early then u32 (y - 1) else y);
            week_year = (week_year \<or> early);
            first_daynr = (if early then u64 (first_daynr - calc_days_in_year year) else first_daynr);
            weekday = (if early then (weekday + 53 * 7 - calc_days_in_year year) mod 7 else weekday);
            days = u32 (if late weekday then u64 (daynr - u64 (first_daynr + (7 - weekday)))
                        else u64 (daynr - u64 (first_daynr - weekday))) in
        if week_year \<and> days \<ge> 52 * 7 then
          let weekday = (weekday + calc_days_in_year year) mod 7 in
          if \<not> late weekday then (1, u32 (year + 1)) else (days div 7 + 1, year)
        else (days div 7 + 1, year))"

definition valid_period :: "int \<Rightarrow> bool" where
  "valid_period period =
     (if period \<le> 0 then False else if period smod 100 = 0 then False else \<not> period smod 100 > 12)"

definition convert_period_to_month :: "int \<Rightarrow> int" where
  "convert_period_to_month period =
     (if period = 0 then 0
      else let a = period div 100;
               a = (if a < YY_PART_YEAR then a + 2000 else if a < 100 then a + 1900 else a);
               b = period mod 100
           in u64 (a * 12 + b - 1))"

definition convert_month_to_period :: "int \<Rightarrow> int" where
  "convert_month_to_period month =
     (if month = 0 then 0
      else let year = month div 12;
               year = (if year < 100 then year + (if year < YY_PART_YEAR then 2000 else 1900) else year)
           in u64 (year * 100 + month mod 12 + 1))"

section \<open>Day numbers\<close>

text \<open>The days of a month, the days of a year before a month, and the dates.\<close>

definition month_length :: "int \<Rightarrow> int \<Rightarrow> int" where
  "month_length y m =
     days_in_month ! nat (m - 1) + (if m = 2 \<and> calc_days_in_year y = 366 then 1 else 0)"

definition month_start :: "int \<Rightarrow> int \<Rightarrow> int" where
  "month_start y m = (\<Sum>k \<leftarrow> [1..m - 1]. month_length y k)"

definition valid_date :: "int \<Rightarrow> int \<Rightarrow> int \<Rightarrow> bool" where
  "valid_date y m d \<longleftrightarrow> 1 \<le> m \<and> m \<le> 12 \<and> 1 \<le> d \<and> d \<le> month_length y m"

abbreviation year_start :: "int \<Rightarrow> int" where
  "year_start y \<equiv> calc_daynr y 1 1"

lemma month_cases:
  assumes "1 \<le> m" "m \<le> (12::int)"
  shows "m \<in> {1, 2, 3, 4, 5, 6, 7, 8, 9, 10, 11, 12}"
proof -
  have "m \<in> set [1..12]" using assms by simp
  moreover have "[1..12] = [1, 2, 3, 4, 5, 6, 7, 8, 9, 10, 11, 12::int]" by (simp add: upto.simps)
  ultimately show ?thesis by (simp only: list.set)
qed

lemma days_cases: "calc_days_in_year y = 365 \<or> calc_days_in_year y = 366"
  by (simp add: calc_days_in_year_def)

lemma month_length_simps [simp]:
  "month_length y 1 = 31" "month_length y 2 = calc_days_in_year y - 337" "month_length y 3 = 31"
  "month_length y 4 = 30" "month_length y 5 = 31" "month_length y 6 = 30" "month_length y 7 = 31"
  "month_length y 8 = 31" "month_length y 9 = 30" "month_length y 10 = 31" "month_length y 11 = 30"
  "month_length y 12 = 31"
  using days_cases [of y] by (auto simp: month_length_def days_in_month_def numeral_2_eq_2)

lemma month_start_simps:
  "month_start y 1 = 0" "month_start y 2 = 31" "month_start y 3 = calc_days_in_year y - 306"
  "month_start y 4 = calc_days_in_year y - 275" "month_start y 5 = calc_days_in_year y - 245"
  "month_start y 6 = calc_days_in_year y - 214" "month_start y 7 = calc_days_in_year y - 184"
  "month_start y 8 = calc_days_in_year y - 153" "month_start y 9 = calc_days_in_year y - 122"
  "month_start y 10 = calc_days_in_year y - 92" "month_start y 11 = calc_days_in_year y - 61"
  "month_start y 12 = calc_days_in_year y - 31" "month_start y 13 = calc_days_in_year y"
  by (simp_all add: month_start_def upto.simps)

lemma div_pred: "0 < k \<Longrightarrow> (y - 1) div k = (if y mod k = 0 then y div k - 1 else y div (k::int))"
proof -
  assume k: "0 < k"
  have y: "y = k * (y div k) + y mod k" by simp
  show ?thesis
  proof (cases "y mod k = 0")
    case True
    then have "y - 1 = k * (y div k - 1) + (k - 1)" using y by (simp add: algebra_simps)
    then have "(y - 1) div k = y div k - 1 + (k - 1) div k"
      by (metis div_mult_self4 k less_irrefl)
    then show ?thesis using True k by simp
  next
    case False
    then have "0 \<le> y mod k - 1" "y mod k - 1 < k" using k pos_mod_sign [of k y] pos_mod_bound [of k y]
      by linarith+
    moreover have "y - 1 = k * (y div k) + (y mod k - 1)" using y by simp
    ultimately have "(y - 1) div k = y div k + (y mod k - 1) div k"
      by (metis div_mult_self4 k less_irrefl)
    then show ?thesis using False \<open>0 \<le> y mod k - 1\<close> \<open>y mod k - 1 < k\<close> by simp
  qed
qed

text \<open>The leap days up to a year, and \<open>calc_daynr\<close> without the truncation of negative years.\<close>

definition leap_days :: "int \<Rightarrow> int" where
  "leap_days y = y div 4 - (y div 100 + 1) * 3 div 4"

lemma calc_daynr_eq:
  assumes "0 \<le> y" "y < 2 ^ 20" "1 \<le> m" "m \<le> 12" "0 \<le> d" "d < 2 ^ 20"
  shows "calc_daynr y m d = 365 * y + 31 * (m - 1) + d
    + (if m \<le> 2 then if y = 0 then 0 else leap_days (y - 1)
       else leap_days y - (m * 4 + 23) div 10)"
proof -
  have s: "s32 y = y" "s32 m = m" "s32 d = d" using assms by (auto simp: s32_id)
  have "(m * 4 + 23) sdiv 10 = (m * 4 + 23) div 10" using assms by (simp add: sdiv_nonneg)
  moreover have "z sdiv 4 - (z sdiv 100 + 1) * 3 sdiv 4 = leap_days z" if "0 \<le> z" for z
    using that by (simp add: leap_days_def sdiv_nonneg pos_imp_zdiv_nonneg_iff)
  note this [of y] this [of "y - 1"]
  moreover have "(-1) sdiv (100::int) = 0" "(-1) sdiv (4::int) = 0" "(3::int) sdiv 4 = 0" by code_simp+
  ultimately show ?thesis using assms(1,3) by (auto simp: calc_daynr_def s Let_def algebra_simps)
qed

lemma mod_parts: "(y::int) mod 100 = 0 \<Longrightarrow> y mod 400 = 0 \<longleftrightarrow> (y div 100) mod 4 = 0"
proof -
  assume "y mod 100 = 0"
  then have "y = 100 * (y div 100)" by (metis add.right_neutral mult_div_mod_eq)
  then have "y mod 400 = 100 * ((y div 100) mod 4)" using mult_mod_right [of 100 "y div 100" 4] by simp
  then show ?thesis by simp
qed

lemma three_quarters: "(k + 1) * 3 div 4 = k * 3 div 4 + (if k mod 4 = 0 then 0 else 1)" for k :: int
proof -
  define q r where "q = k div 4" and "r = k mod 4"
  then have k: "k = 4 * q + r" and r: "r \<in> {0, 1, 2, 3}" by auto
  have "(4 * q + r) * 3 = r * 3 + (3 * q) * 4" "(4 * q + r + 1) * 3 = (r + 1) * 3 + (3 * q) * 4"
    by simp_all
  then have "k * 3 div 4 = 3 * q + r * 3 div 4" "(k + 1) * 3 div 4 = 3 * q + (r + 1) * 3 div 4"
    unfolding k by (simp_all only: div_mult_self1 zero_neq_numeral [symmetric] not_False_eq_True)
  then show ?thesis using r unfolding r_def [symmetric] by (elim insertE emptyE) simp_all
qed

text \<open>A year has as many days as the number of its first day differs from the next one's.\<close>

lemma leap_days_step:
  assumes "1 \<le> y"
  shows "leap_days y = leap_days (y - 1) + calc_days_in_year y - 365"
proof (cases "y mod 100 = 0")
  case True
  then have d: "y mod 4 = 0" using mod_mod_cancel [of 4 100 y] by simp
  then have q: "(y - 1) div 100 = y div 100 - 1" "(y - 1) div 4 = y div 4 - 1"
    using True by (simp_all only: div_pred zero_less_numeral refl if_True)
  have "leap_days (y - 1) = y div 4 - 1 - y div 100 * 3 div 4"
    unfolding leap_days_def q by (simp only: diff_add_cancel)
  moreover have "leap_days y = y div 4 - y div 100 * 3 div 4 - (if y mod 400 = 0 then 0 else 1)"
    unfolding leap_days_def three_quarters mod_parts [OF True] by (simp only: diff_diff_eq)
  moreover have "calc_days_in_year y = (if y mod 400 = 0 then 366 else 365)"
    using True d assms by (simp add: calc_days_in_year_def)
  ultimately show ?thesis by (simp only: split: if_splits) simp_all
next
  case False
  then have q: "(y - 1) div 100 = y div 100" by (simp only: div_pred zero_less_numeral if_False)
  have "(y - 1) div 4 = y div 4 - (if y mod 4 = 0 then 1 else 0)"
    by (simp only: div_pred zero_less_numeral split: if_splits) simp
  moreover have "calc_days_in_year y = 365 + (if y mod 4 = 0 then 1 else 0)"
    using False by (simp only: calc_days_in_year_def) simp
  ultimately show ?thesis unfolding leap_days_def q by (simp only: split: if_splits)
qed

lemma year_start_eq:
  assumes "0 \<le> y" "y < 2 ^ 20"
  shows "year_start y = 365 * y + 1 + (if y = 0 then 0 else leap_days (y - 1))"
  using calc_daynr_eq [OF assms, of 1 1] by simp

lemma leap_days_0: "leap_days 0 = 0"
  by (simp add: leap_days_def)

lemma days_in_year_0: "calc_days_in_year 0 = 365"
  by (simp add: calc_days_in_year_def)

lemma year_start_Suc:
  assumes "0 \<le> y" "y + 1 < 2 ^ 20"
  shows "year_start (y + 1) = year_start y + calc_days_in_year y"
  using assms leap_days_step [of y]
  by (cases "y = 0") (simp_all add: year_start_eq leap_days_0 days_in_year_0)

lemma calc_daynr_month:
  assumes "0 \<le> y" "y < 2 ^ 20" "1 \<le> m" "m \<le> 12" "0 \<le> d" "d < 2 ^ 20"
  shows "calc_daynr y m d = year_start y + month_start y m + d - 1"
proof -
  have l: "leap_days y = (if y = 0 then 0 else leap_days (y - 1)) + calc_days_in_year y - 365"
    using assms(1) leap_days_step [of y] by (cases "y = 0") (simp_all add: leap_days_0 days_in_year_0)
  show ?thesis
    using month_cases [OF assms(3,4)]
    unfolding calc_daynr_eq [OF assms] year_start_eq [OF assms(1,2)] l
    by (elim insertE emptyE) (simp_all add: month_start_simps)
qed

section \<open>From day numbers to dates\<close>

lemma year_start_mono:
  assumes "0 \<le> a" "a \<le> b" "b < 2 ^ 20"
  shows "year_start a + 365 * (b - a) \<le> year_start b"
proof -
  have "leap_days (a - 1) \<le> leap_days (b - 1)" if "1 \<le> a" "a \<le> b" for a b
    using that(2,1)
  proof (induction b rule: int_ge_induct)
    case (step i)
    then show ?case using leap_days_step [of i] days_cases [of i] by auto
  qed simp
  note m = this [of a b] this [of 1 b]
  show ?thesis using assms m by (auto simp: year_start_eq leap_days_0 algebra_simps)
qed

lemma year_of_day_unique:
  assumes "0 \<le> a" "0 \<le> b" "a + 1 < 2 ^ 20" "b + 1 < 2 ^ 20"
    and "year_start a \<le> n" "n < year_start (a + 1)" "year_start b \<le> n" "n < year_start (b + 1)"
  shows "a = b"
proof (rule ccontr)
  assume "a \<noteq> b"
  then consider "a + 1 \<le> b" | "b + 1 \<le> a" by linarith
  then show False
    using year_start_mono [of "a + 1" b] year_start_mono [of "b + 1" a] assms by cases auto
qed

text \<open>The loop over the years ends in the year of the day.\<close>

lemma year_loop_correct:
  assumes "0 \<le> y" "y + d < 2 ^ 20" "1 \<le> d"
  shows "\<exists>y' d'. year_loop y d = (y', d') \<and> y \<le> y' \<and> y' + d' \<le> y + d \<and> 1 \<le> d' \<and> d' \<le> calc_days_in_year y'
    \<and> year_start y' + d' = year_start y + d"
  using assms
proof (induction y d rule: year_loop.induct)
  case (1 y d)
  show ?case
  proof (cases "d > calc_days_in_year y")
    case True
    have u: "u32 (y + 1) = y + 1" using 1(2,3,4) by (simp add: u32_id)
    have "365 \<le> calc_days_in_year y" using days_cases [of y] by auto
    then have "0 \<le> y + 1" "y + 1 + (d - calc_days_in_year y) < 2 ^ 20" "1 \<le> d - calc_days_in_year y"
      using 1(2,3) True by linarith+
    from 1(1) [OF True, unfolded u, OF this] obtain y' d' where
      r: "year_loop (y + 1) (d - calc_days_in_year y) = (y', d')" "y + 1 \<le> y'"
      "y' + d' \<le> y + 1 + (d - calc_days_in_year y)" "1 \<le> d'" "d' \<le> calc_days_in_year y'"
      "year_start y' + d' = year_start (y + 1) + (d - calc_days_in_year y)" by blast
    have "year_start (y + 1) = year_start y + calc_days_in_year y"
      by (rule year_start_Suc) (use 1(2,3,4) in linarith)+
    moreover have "year_loop y d = (y', d')" using True r(1) u by (simp add: year_loop.simps [of y d])
    ultimately show ?thesis using r \<open>365 \<le> calc_days_in_year y\<close> by auto
  qed (use 1 in \<open>simp add: year_loop.simps [of y d]\<close>)
qed

text \<open>The loop over the months, with the leap day taken out before, finds the month.\<close>

definition split_day :: "int \<Rightarrow> int \<Rightarrow> int \<times> int" where
  "split_day y d =
     (let (leap_day, d) = (if calc_days_in_year y = 366 \<and> d > 31 + 28
               then (if d - 1 = 31 + 28 then 1 else 0, d - 1) else (0, d));
          (m, d) = month_loop days_in_month 1 d
      in (m, d + leap_day))"

lemma split_day_correct:
  assumes "1 \<le> m" "m \<le> 12" "1 \<le> d" "d \<le> month_length y m"
  shows "split_day y (month_start y m + d) = (m, d)"
  using month_cases [OF assms(1,2)] days_cases [of y] assms(3,4)
  by (elim insertE emptyE disjE)
    (auto simp: split_day_def days_in_month_def month_start_simps Let_def)

lemma month_exists:
  assumes "1 \<le> d" "d \<le> calc_days_in_year y"
  shows "\<exists>m e. 1 \<le> m \<and> m \<le> 12 \<and> 1 \<le> e \<and> e \<le> month_length y m \<and> d = month_start y m + e"
proof -
  define P where "P m \<longleftrightarrow> d \<le> month_start y (m + 1)" for m
  have st: "month_start y (m + 1) = month_start y m + month_length y m" if "1 \<le> m" "m \<le> 12" for m
    using month_cases [OF that] by (elim insertE emptyE) (simp_all add: month_start_simps)
  have "P (int 12)" using assms by (simp add: P_def month_start_simps)
  define k where "k = (LEAST k. P (int k))"
  have k: "P (int k)" "k \<le> 12" "\<And>j. j < k \<Longrightarrow> \<not> P (int j)"
    unfolding k_def using \<open>P (int 12)\<close> LeastI [of "\<lambda>k. P (int k)"] Least_le [of "\<lambda>k. P (int k)"]
      not_less_Least [of _ "\<lambda>k. P (int k)"] by blast+
  have "\<not> P (int 0)" using assms(1) by (simp add: P_def month_start_simps)
  then have "k \<noteq> 0" using k(1) by metis
  then have "\<not> P (int (k - 1))" by (intro k(3)) simp
  then have "month_start y (int k) < d" using \<open>k \<noteq> 0\<close> by (simp add: P_def of_nat_diff)
  moreover have "d \<le> month_start y (int k) + month_length y (int k)"
    using k(1,2) st [of "int k"] \<open>k \<noteq> 0\<close> by (simp add: P_def)
  ultimately show ?thesis using k(2) \<open>k \<noteq> 0\<close>
    by (intro exI [of _ "int k"] exI [of _ "d - month_start y (int k)"]) auto
qed

lemma first_year_estimate:
  assumes "365 < n" "n < 3652500"
  defines "y \<equiv> n * 100 div 36525"
  shows "1 \<le> y" "y \<le> 9999" "year_start y \<le> n" "n - year_start y \<le> 3000"
proof -
  have y: "36525 * y \<le> n * 100" "n * 100 < 36525 * (y + 1)" unfolding y_def by simp_all
  show b: "1 \<le> y" using y(2) assms(1) by simp
  show "y \<le> 9999" using y(1) assms(2) by simp
  note b = b this
  define q t where "q = (y - 1) div 4" and "t = ((y - 1) div 100 + 1) * 3 div 4"
  have "4 * q \<le> y - 1" "0 \<le> t" unfolding q_def t_def using b by (simp_all add: pos_imp_zdiv_nonneg_iff)
  moreover have "year_start y = 365 * y + 1 + (q - t)"
    using b by (simp add: year_start_eq leap_days_def q_def t_def)
  ultimately show "year_start y \<le> n" using y by linarith
  have "year_start 0 + 365 * y \<le> year_start y" using year_start_mono [of 0 y] b by simp
  then show "n - year_start y \<le> 3000" using y b by (simp add: year_start_eq)
qed

lemma get_date_from_daynr_eq:
  assumes "365 < n" "n < 3652500"
  shows "get_date_from_daynr n =
    (let y = n * 100 div 36525; (y', d) = year_loop y (n - year_start y + 1); (m, e) = split_day y' d
     in (y', m, e))"
proof -
  define y where "y = n * 100 div 36525"
  note e = first_year_estimate [OF assms, folded y_def]
  have sd: "n * 100 sdiv 36525 = y" using assms by (simp add: y_def sdiv_nonneg)
  have u: "u32 y = y" "u32 (y - 1) = y - 1" using e by (simp_all add: u32_id)
  have ys: "year_start y = 365 * y + 1 + leap_days (y - 1)" using e by (simp add: year_start_eq)
  have "u32 (u32 (n - y * 365) - (y - 1) div 4 + ((y - 1) div 100 + 1) * 3 div 4)
      = u32 (n - y * 365 - (y - 1) div 4 + ((y - 1) div 100 + 1) * 3 div 4)"
    unfolding u32_def by (metis mod_add_left_eq mod_diff_left_eq)
  also have "n - y * 365 - (y - 1) div 4 + ((y - 1) div 100 + 1) * 3 div 4 = n - year_start y + 1"
    unfolding ys leap_days_def by (simp only: algebra_simps)
  also have "u32 (n - year_start y + 1) = n - year_start y + 1" using e by (simp add: u32_id)
  finally have d: "u32 (u32 (n - y * 365) - (y - 1) div 4 + ((y - 1) div 100 + 1) * 3 div 4)
    = n - year_start y + 1" .
  show ?thesis using assms
    unfolding get_date_from_daynr_def sd u Let_def d y_def [symmetric] split_day_def
    by (simp only: split: prod.splits if_splits) auto
qed

text \<open>
  The two conversions are inverse: day numbers from 366 to the end of the calendar are the
  dates from the year 1 on.
\<close>

lemma get_date_correct:
  assumes "365 < n" "n < 3652500"
  obtains y m d where "get_date_from_daynr n = (y, m, d)" "1 \<le> y" "y \<le> 13000" "valid_date y m d"
    "calc_daynr y m d = n"
proof -
  define y where "y = n * 100 div 36525"
  note e = first_year_estimate [OF assms, folded y_def]
  have pre: "0 \<le> y" "y + (n - year_start y + 1) < 2 ^ 20" "1 \<le> n - year_start y + 1" using e by simp_all
  from year_loop_correct [OF pre] obtain y' d' where
    l: "year_loop y (n - year_start y + 1) = (y', d')" "y \<le> y'" "y' + d' \<le> y + (n - year_start y + 1)"
    "1 \<le> d'" "d' \<le> calc_days_in_year y'" "year_start y' + d' = year_start y + (n - year_start y + 1)"
    by blast
  from month_exists [OF l(4,5)] obtain m d where
    m: "1 \<le> m" "m \<le> 12" "1 \<le> d" "d \<le> month_length y' m" "d' = month_start y' m + d" by blast
  have g: "get_date_from_daynr n = (y', m, d)"
    using get_date_from_daynr_eq [OF assms] split_day_correct [OF m(1-4)] l(1) m(5) by (simp add: y_def)
  have b: "1 \<le> y'" "y' \<le> 13000" using e l(2-4) by linarith+
  have "month_length y' m \<le> 31"
    using month_cases [OF m(1,2)] days_cases [of y'] by (elim insertE emptyE) auto
  then have "calc_daynr y' m d = year_start y' + month_start y' m + d - 1"
    using calc_daynr_month [of y' m d] b m by simp
  then have "calc_daynr y' m d = n" using l(6) m(5) by simp
  then show ?thesis using that g b m by (simp add: valid_date_def)
qed

lemma valid_date_in_year:
  assumes "0 \<le> y" "y < 2 ^ 20" "valid_date y m d"
  shows "calc_daynr y m d = year_start y + month_start y m + d - 1"
    and "0 \<le> month_start y m" "month_start y m + d \<le> calc_days_in_year y"
proof -
  have m: "1 \<le> m" "m \<le> 12" "1 \<le> d" "d \<le> month_length y m" using assms(3) by (simp_all add: valid_date_def)
  have "month_length y m \<le> 31"
    using month_cases [OF m(1,2)] days_cases [of y] by (elim insertE emptyE) auto
  then show "calc_daynr y m d = year_start y + month_start y m + d - 1"
    using calc_daynr_month [OF assms(1,2) m(1,2), of d] m(3,4) by simp
  show "0 \<le> month_start y m" "month_start y m + d \<le> calc_days_in_year y"
    using month_cases [OF m(1,2)] m(3,4) days_cases [of y]
    by (elim insertE emptyE; auto simp: month_start_simps)+
qed

lemma valid_date_year:
  assumes "0 \<le> y" "y + 1 < 2 ^ 20" "valid_date y m d"
  shows "year_start y \<le> calc_daynr y m d" "calc_daynr y m d < year_start (y + 1)"
  using valid_date_in_year [OF assms(1) _ assms(3)] assms year_start_Suc [OF assms(1,2)]
  by (simp_all add: valid_date_def)

lemma month_start_less:
  assumes "1 \<le> m" "m < m'" "m' \<le> 12" "d \<le> month_length y m" "1 \<le> d'"
  shows "month_start y m + d < month_start y m' + d'"
proof -
  have st: "month_start y (k + 1) = month_start y k + month_length y k" "0 \<le> month_length y k"
    if "1 \<le> k" "k \<le> 12" for k
    using month_cases [OF that] days_cases [of y]
    by (elim insertE emptyE; auto simp: month_start_simps)+
  have "m + 1 \<le> m'" using assms by simp
  then have "month_start y (m + 1) \<le> month_start y m'" using assms(1,3)
  proof (induction m' rule: int_ge_induct)
    case (step i)
    then show ?case using st [of i] by simp
  qed simp
  then show ?thesis using assms st [of m] by simp
qed

lemma calc_daynr_less:
  assumes "0 \<le> y" "y' + 1 < 2 ^ 20" "valid_date y m d" "valid_date y' m' d'"
    and "y < y' \<or> y = y' \<and> (m < m' \<or> m = m' \<and> d < d')"
  shows "calc_daynr y m d < calc_daynr y' m' d'"
proof (cases "y = y'")
  case True
  then show ?thesis
    using assms valid_date_in_year(1) [of y m d] valid_date_in_year(1) [of y m' d']
      month_start_less [of m m' d y d'] by (auto simp: valid_date_def)
next
  case False
  then have "y + 1 \<le> y'" using assms(5) by simp
  then show ?thesis
    using assms year_start_mono [of "y + 1" y'] valid_date_year [of y m d] valid_date_year [of y' m' d']
    by simp
qed

lemma calc_daynr_less_iff:
  assumes "0 \<le> y" "y \<le> 13000" "valid_date y m d" "0 \<le> y'" "y' \<le> 13000" "valid_date y' m' d'"
  shows "calc_daynr y m d < calc_daynr y' m' d' \<longleftrightarrow> y < y' \<or> y = y' \<and> (m < m' \<or> m = m' \<and> d < d')"
proof
  assume l: "calc_daynr y m d < calc_daynr y' m' d'"
  then have "\<not> (y' < y \<or> y' = y \<and> (m' < m \<or> m' = m \<and> d' < d))"
    using calc_daynr_less [of y' y m' d' m d] assms by auto
  moreover have "\<not> (y = y' \<and> m = m' \<and> d = d')" using l by auto
  ultimately show "y < y' \<or> y = y' \<and> (m < m' \<or> m = m' \<and> d < d')" by auto
qed (use calc_daynr_less [of y y' m d m' d'] assms in auto)

lemma calc_daynr_inj:
  assumes "0 \<le> y" "y \<le> 13000" "valid_date y m d" "0 \<le> y'" "y' \<le> 13000" "valid_date y' m' d'"
    and "calc_daynr y m d = calc_daynr y' m' d'"
  shows "(y, m, d) = (y', m', d')"
  using calc_daynr_less_iff [OF assms(1-6)] calc_daynr_less_iff [OF assms(4-6) assms(1-3)] assms(7) by auto

lemma calendar_ends: "year_start 0 = 1" "year_start 1 = 366" "year_start 10000 = MAX_DAY_NUMBER + 1"
  by (simp_all add: year_start_eq leap_days_def MAX_DAY_NUMBER_def)

lemma calc_daynr_range:
  assumes "1 \<le> y" "y \<le> 9999" "valid_date y m d"
  shows "366 \<le> calc_daynr y m d" "calc_daynr y m d \<le> MAX_DAY_NUMBER"
  using valid_date_year [of y m d] year_start_mono [of 1 y] year_start_mono [of "y + 1" 10000]
    calendar_ends assms by simp_all

lemma get_date_valid:
  assumes "366 \<le> n" "n \<le> MAX_DAY_NUMBER"
  obtains y m d where "get_date_from_daynr n = (y, m, d)" "1 \<le> y" "y \<le> 9999" "valid_date y m d"
    "calc_daynr y m d = n"
proof -
  obtain y m d where r: "get_date_from_daynr n = (y, m, d)" "1 \<le> y" "y \<le> 13000" "valid_date y m d"
    "calc_daynr y m d = n"
    by (rule get_date_correct [of n]) (use assms in \<open>simp_all add: MAX_DAY_NUMBER_def\<close>)
  have "y \<le> 9999"
  proof (rule ccontr)
    assume "\<not> y \<le> 9999"
    then show False
      using year_start_mono [of 10000 y] valid_date_year [of y m d] calendar_ends r assms by simp
  qed
  then show ?thesis using that r by blast
qed

lemma get_date_calc_daynr:
  assumes "1 \<le> y" "y \<le> 9999" "valid_date y m d"
  shows "get_date_from_daynr (calc_daynr y m d) = (y, m, d)"
proof -
  obtain a b c where r: "get_date_from_daynr (calc_daynr y m d) = (a, b, c)" "1 \<le> a" "a \<le> 9999"
    "valid_date a b c" "calc_daynr a b c = calc_daynr y m d"
    by (rule get_date_valid [OF calc_daynr_range [OF assms]])
  then show ?thesis using calc_daynr_inj [of a b c y m d] assms by simp
qed

text \<open>C22. Calendar: from the year 1 to 9999, dates and day numbers from 366 to
  \<open>MAX_DAY_NUMBER\<close> correspond one to one under \<open>calc_daynr\<close> and
  \<open>get_date_from_daynr\<close>, and later dates have greater numbers. A valid date is one whose month
  and day exist in its year.\<close>

theorem calendar_correspondence:
  "(1 \<le> y \<and> y \<le> 9999 \<and> valid_date y m d \<longrightarrow>
      366 \<le> calc_daynr y m d \<and> calc_daynr y m d \<le> MAX_DAY_NUMBER
      \<and> get_date_from_daynr (calc_daynr y m d) = (y, m, d))
   \<and> (366 \<le> n \<and> n \<le> MAX_DAY_NUMBER \<longrightarrow>
      (case get_date_from_daynr n of (y, m, d) \<Rightarrow>
         1 \<le> y \<and> y \<le> 9999 \<and> valid_date y m d \<and> calc_daynr y m d = n))
   \<and> (1 \<le> y \<and> y \<le> 9999 \<and> valid_date y m d \<and> 1 \<le> y' \<and> y' \<le> 9999 \<and> valid_date y' m' d' \<longrightarrow>
      calc_daynr y m d < calc_daynr y' m' d' \<longleftrightarrow> y < y' \<or> y = y' \<and> (m < m' \<or> m = m' \<and> d < d'))"
proof (intro conjI impI)
  assume "366 \<le> n \<and> n \<le> MAX_DAY_NUMBER"
  then obtain a b c where "get_date_from_daynr n = (a, b, c)" "1 \<le> a" "a \<le> 9999" "valid_date a b c"
    "calc_daynr a b c = n"
    by (elim conjE get_date_valid)
  then show "case get_date_from_daynr n of (y, m, d) \<Rightarrow>
      1 \<le> y \<and> y \<le> 9999 \<and> valid_date y m d \<and> calc_daynr y m d = n" by simp
qed (simp_all add: calc_daynr_range get_date_calc_daynr calc_daynr_less_iff)

theorem calendar_correspondence_witness:
  "valid_date 2024 2 29 \<and> calc_daynr 2024 2 29 = 739310
   \<and> get_date_from_daynr (calc_daynr 2024 2 29) = (2024, 2, 29)"
proof -
  have v: "valid_date 2024 2 29" by (simp add: valid_date_def calc_days_in_year_def)
  have "calc_daynr 2024 2 29 = 739310" by (simp add: calc_daynr_eq leap_days_def)
  then show ?thesis using calendar_correspondence [of 2024 2 29] v by simp
qed

section \<open>Weeks\<close>

text \<open>
  Whether the week of the first day of a year, which falls on weekday \<open>w\<close>, still belongs to
  the year before, and the day on which week 1 starts.
\<close>

definition week_late :: "int \<Rightarrow> int \<Rightarrow> bool" where
  "week_late wb w \<longleftrightarrow> (if has_flag wb WEEK_FIRST_WEEKDAY then w \<noteq> 0 else w \<ge> 4)"

definition week_from :: "int \<Rightarrow> int \<Rightarrow> int \<Rightarrow> int" where
  "week_from wb f w = (if week_late wb w then f + 7 - w else f - w)"

definition year_weekday :: "int \<Rightarrow> int \<Rightarrow> int" where
  "year_weekday wb y = calc_weekday (year_start y) (\<not> has_flag wb WEEK_MONDAY_FIRST)"

definition week_one :: "int \<Rightarrow> int \<Rightarrow> int" where
  "week_one wb y = week_from wb (year_start y) (year_weekday wb y)"

lemma calc_weekday_mod:
  "0 \<le> n \<Longrightarrow> calc_weekday n sf = (n + 5 + (if sf then 1 else 0)) mod 7"
  by (simp add: calc_weekday_def smod_nonneg)

lemma calc_weekday_range: "0 \<le> n \<Longrightarrow> 0 \<le> calc_weekday n sf \<and> calc_weekday n sf \<le> 6"
  using pos_mod_bound [of 7 "n + 5 + (if sf then 1 else 0)"] by (simp add: calc_weekday_mod)

lemma calc_weekday_add:
  "0 \<le> n \<Longrightarrow> 0 \<le> n + k \<Longrightarrow> calc_weekday (n + k) sf = (calc_weekday n sf + k) mod 7"
  by (simp add: calc_weekday_mod mod_simps algebra_simps)

text \<open>Week 1 of the next year starts 52 or 53 weeks later, and 52 when it starts in the old year.\<close>

lemma week_from_shift:
  assumes "0 \<le> w" "w \<le> 6" "D = 365 \<or> D = 366"
  shows "week_from wb (F + D) ((w + D) mod 7) - week_from wb F w \<in> {364, 371}
    \<and> (\<not> week_late wb ((w + D) mod 7) \<longrightarrow> week_from wb (F + D) ((w + D) mod 7) = week_from wb F w + 364)"
proof -
  have "w = 0 \<or> w = 1 \<or> w = 2 \<or> w = 3 \<or> w = 4 \<or> w = 5 \<or> w = 6" using assms(1,2) by auto
  then show ?thesis
    using assms(3) by (elim disjE; cases "has_flag wb WEEK_FIRST_WEEKDAY")
      (simp_all add: week_from_def week_late_def)
qed

lemma year_start_pos: "0 \<le> y \<Longrightarrow> y < 2 ^ 20 \<Longrightarrow> 1 \<le> year_start y"
  using year_start_mono [of 0 y] calendar_ends by simp

lemma year_weekday_range:
  "0 \<le> y \<Longrightarrow> y < 2 ^ 20 \<Longrightarrow> 0 \<le> year_weekday wb y" "0 \<le> y \<Longrightarrow> y < 2 ^ 20 \<Longrightarrow> year_weekday wb y \<le> 6"
  using year_start_pos [of y] calc_weekday_range [of "year_start y"] by (simp_all add: year_weekday_def)

lemma year_weekday_Suc:
  "0 \<le> y \<Longrightarrow> y + 1 < 2 ^ 20 \<Longrightarrow> year_weekday wb (y + 1) = (year_weekday wb y + calc_days_in_year y) mod 7"
  using days_cases [of y] year_start_pos [of y]
  by (simp add: year_weekday_def year_start_Suc, subst calc_weekday_add) auto

lemma week_one_step:
  assumes "0 \<le> y" "y + 1 < 2 ^ 20"
  shows "week_one wb (y + 1) - week_one wb y \<in> {364, 371}
    \<and> (\<not> week_late wb (year_weekday wb (y + 1)) \<longrightarrow> week_one wb (y + 1) = week_one wb y + 364)"
  unfolding week_one_def year_weekday_Suc [OF assms] year_start_Suc [OF assms]
  using assms year_weekday_range [of y wb] by (intro week_from_shift days_cases) simp_all

lemma week_one_near:
  assumes "0 \<le> y" "y < 2 ^ 20"
  shows "year_start y - 6 \<le> week_one wb y" "week_one wb y \<le> year_start y + 6"
  using year_weekday_range [OF assms, of wb]
  by (auto simp: week_one_def week_from_def week_late_def)

lemma week_one_before:
  fixes wb :: int
  assumes "1 \<le> y" "y \<le> 9999" "valid_date y m d" and n: "n = calc_daynr y m d"
  defines "early \<equiv> m = 1 \<and> d \<le> 7 - year_weekday wb y"
  shows "early \<Longrightarrow> week_one wb (y - 1) \<le> n \<and> n - week_one wb (y - 1) < 800"
    and "\<not> early \<Longrightarrow> week_one wb y \<le> n \<and> n - week_one wb y < 800"
proof -
  have n': "n = year_start y + month_start y m + d - 1" "year_start y \<le> n" "n < year_start (y + 1)"
    unfolding n using valid_date_in_year [OF _ _ assms(3)] valid_date_year [OF _ _ assms(3)] assms(1,2) by simp_all
  have D: "year_start (y + 1) \<le> year_start y + 366" "year_start (y - 1) + 365 \<le> year_start y"
    "year_start y \<le> year_start (y - 1) + 366"
    using year_start_Suc [of y] year_start_Suc [of "y - 1"] days_cases [of y] days_cases [of "y - 1"] assms(1,2)
    by auto
  have near: "year_start y - 6 \<le> week_one wb y" "year_start (y - 1) - 6 \<le> week_one wb (y - 1)"
    "week_one wb (y - 1) \<le> year_start (y - 1) + 6" "week_one wb y \<le> year_start y + 7 - year_weekday wb y"
    using week_one_near [of y wb] week_one_near [of "y - 1" wb] assms(1,2)
    by (simp_all add: week_one_def week_from_def)
  show "week_one wb (y - 1) \<le> n \<and> n - week_one wb (y - 1) < 800"
    using n'(2,3) D near(1-3) by linarith
  assume "\<not> early"
  moreover have "31 \<le> month_start y m" if "m \<noteq> 1"
    using month_start_less [of 1 m 31 y 1] that assms(3) by (simp add: valid_date_def month_start_simps)
  ultimately have "week_one wb y \<le> n"
    using n'(1) near(4) year_weekday_range [of y wb] valid_date_in_year(2) [OF _ _ assms(3)] assms(1-3)
    by (auto simp: valid_date_def early_def)
  then show "week_one wb y \<le> n \<and> n - week_one wb y < 800" using n'(3) D(1) near(1) by linarith
qed

text \<open>\<open>calc_week\<close> without the wrap-around.\<close>

lemma calc_week_eq:
  fixes wb :: int
  assumes "1 \<le> y" "y \<le> 9999" "valid_date y m d"
    and n_def: "n = calc_daynr y m d" and early_def: "early \<longleftrightarrow> m = 1 \<and> d \<le> 7 - year_weekday wb y"
    and y'_eq: "y' = (if early then y - 1 else y)"
  shows "calc_week y m d wb =
    (if early \<and> \<not> has_flag wb WEEK_YEAR \<and> week_late wb (year_weekday wb y) then (0, y)
     else let days = n - week_one wb y' in
       if (has_flag wb WEEK_YEAR \<or> early) \<and> days \<ge> 364 \<and> \<not> week_late wb (year_weekday wb (y' + 1))
       then (1, y' + 1) else (days div 7 + 1, y'))"
proof -
  have w: "0 \<le> year_weekday wb y" "year_weekday wb y \<le> 6" using assms year_weekday_range by simp_all
  have y': "0 \<le> y'" "y' + 1 < 2 ^ 20" "y' \<le> y" using assms by (auto simp: y'_eq)
  have u: "u32 (7 - year_weekday wb y) = 7 - year_weekday wb y" "u32 (y - 1) = y - 1" "u32 (y' + 1) = y' + 1"
    using w assms y' by (simp_all add: u32_id)
  have ys: "year_start y = year_start (y - 1) + calc_days_in_year (y - 1)"
    using year_start_Suc [of "y - 1"] assms by simp
  have "year_start (y - 1) \<le> 3652424"
    using ys valid_date_year [OF _ _ assms(3)] calc_daynr_range [OF assms(1-3)] assms(1,2) days_cases [of "y - 1"]
    by (auto simp: MAX_DAY_NUMBER_def)
  then have f: "u64 (year_start y - calc_days_in_year (y - 1)) = year_start (y - 1)"
    using ys year_start_pos [of "y - 1"] assms(1,2) by (simp add: u64_id)
  have wd: "(year_weekday wb y + 53 * 7 - calc_days_in_year (y - 1)) mod 7 = year_weekday wb (y - 1)"
  proof -
    have "year_weekday wb y = (year_weekday wb (y - 1) + calc_days_in_year (y - 1)) mod 7"
      using year_weekday_Suc [of "y - 1" wb] assms by simp
    then have "(year_weekday wb y + 53 * 7 - calc_days_in_year (y - 1)) mod 7
        = ((year_weekday wb (y - 1) + calc_days_in_year (y - 1)) mod 7 + (371 - calc_days_in_year (y - 1))) mod 7"
      by (simp add: add_diff_eq)
    also have "\<dots> = (year_weekday wb (y - 1) + calc_days_in_year (y - 1) + (371 - calc_days_in_year (y - 1))) mod 7"
      by (rule mod_add_left_eq)
    also have "\<dots> = year_weekday wb (y - 1) mod 7"
      using mod_mult_self1 [of "year_weekday wb (y - 1)" 53 7] by simp
    finally show ?thesis using year_weekday_range [of "y - 1" wb] assms by simp
  qed
  define F W where "F = year_start y'" and "W = year_weekday wb y'"
  have FW: "F = (if early then u64 (year_start y - calc_days_in_year y') else year_start y)"
    "W = (if early then (year_weekday wb y + 53 * 7 - calc_days_in_year y') mod 7 else year_weekday wb y)"
    using f wd by (simp_all add: F_def W_def y'_eq)
  have n: "week_one wb y' \<le> n" "n - week_one wb y' < 800"
    using week_one_before [OF assms(1-3) n_def, of wb, folded early_def] by (auto simp: y'_eq)
  have "u32 (u64 (n - u64 x)) = u32 (n - x)" for x
    unfolding u32_def u64_def by (simp add: mod_mod_cancel mod_diff_right_eq)
  moreover have "week_one wb y' = (if week_late wb W then F + (7 - W) else F - W)"
    by (simp add: week_one_def week_from_def F_def W_def)
  ultimately have "u32 (if week_late wb W then u64 (n - u64 (F + (7 - W))) else u64 (n - u64 (F - W)))
      = u32 (n - week_one wb y')" by simp
  also have "\<dots> = n - week_one wb y'" by (rule u32_id) (use n in simp_all)
  finally have days: "u32 (if week_late wb W then u64 (n - u64 (F + (7 - W))) else u64 (n - u64 (F - W)))
      = n - week_one wb y'" .
  have late: "(first_weekday \<and> x \<noteq> 0 \<or> \<not> first_weekday \<and> x \<ge> 4) = week_late wb x"
    if "first_weekday = has_flag wb WEEK_FIRST_WEEKDAY" for x first_weekday
    using that by (simp add: week_late_def)
  have wS: "(W + calc_days_in_year y') mod 7 = year_weekday wb (y' + 1)"
    using year_weekday_Suc [OF y'(1,2)] by (simp add: W_def)
  show ?thesis
    unfolding calc_week_def year_weekday_def [symmetric] late [OF refl] u(1,2) early_def [symmetric] Let_def
    unfolding n_def [symmetric] y'_eq [symmetric] FW [symmetric] days wS u(3)
    by (auto simp: early_def)
qed

lemma calc_week_cases:
  assumes "1 \<le> y" "y \<le> 9999" "valid_date y m d" and n_def: "n = calc_daynr y m d"
  shows "\<exists>week year. calc_week y m d wb = (week, year)
    \<and> (if has_flag wb WEEK_YEAR
       then week_one wb year \<le> n \<and> n < week_one wb (year + 1) \<and> week = (n - week_one wb year) div 7 + 1
       else year = y \<and> week = (if n < week_one wb y then 0 else (n - week_one wb y) div 7 + 1))"
proof -
  define w where "w = year_weekday wb y"
  define early where "early \<longleftrightarrow> m = 1 \<and> d \<le> 7 - w"
  have w: "0 \<le> w" "w \<le> 6" using assms(1,2) year_weekday_range by (simp_all add: w_def)
  have n: "year_start y \<le> n" "n < year_start (y + 1)" "n = year_start y + month_start y m + d - 1"
    using valid_date_year [OF _ _ assms(3)] valid_date_in_year [OF _ _ assms(3)] assms(1,2) by (simp_all add: n_def)
  have one: "week_one wb y = (if week_late wb w then year_start y + 7 - w else year_start y - w)"
    by (simp add: week_one_def week_from_def w_def)
  have e: "n < year_start y + 7 - w" if early
    using that n(3) by (auto simp: early_def month_start_simps)
  note bf = week_one_before [OF assms, of wb, folded early_def [unfolded w_def]]
  note eq = calc_week_eq [OF assms(1-4) early_def [unfolded w_def] refl]
  have st: "week_one wb y + 364 \<le> week_one wb (y + 1)" using week_one_step [of y wb] assms(1,2) by auto
  consider "early" "week_late wb w" | "early" "\<not> week_late wb w" | "\<not> early" by blast
  then show ?thesis
  proof cases
    case 1
    then show ?thesis using bf(1) eq e one by (auto simp: w_def Let_def)
  next
    case 2
    have "week_one wb y = week_one wb (y - 1) + 364"
      using week_one_step [of "y - 1" wb] 2 assms(1,2) by (simp add: w_def)
    moreover have "week_one wb y \<le> n" "n < week_one wb y + 7" using 2 one n(1) e w by simp_all
    ultimately show ?thesis using eq 2 st by (simp add: w_def)
  next
    case 3
    then have b: "week_one wb y \<le> n" using bf by simp
    show ?thesis
    proof (cases "has_flag wb WEEK_YEAR \<and> n - week_one wb y \<ge> 364 \<and> \<not> week_late wb (year_weekday wb (y + 1))")
      case True
      then have "week_one wb (y + 1) = week_one wb y + 364"
        using week_one_step [of y wb] assms(1,2) by simp
      moreover have "n < week_one wb (y + 1) + 7" using week_one_near [of "y + 1" wb] n(2) assms(1,2) by simp
      moreover have "week_one wb (y + 1) + 364 \<le> week_one wb (y + 1 + 1)"
        using week_one_step [of "y + 1" wb] assms(1,2) by auto
      ultimately show ?thesis using eq 3 True by simp
    next
      case False
      then have "calc_week y m d wb = ((n - week_one wb y) div 7 + 1, y)" using eq 3 by auto
      moreover have "n < week_one wb (y + 1)" if "has_flag wb WEEK_YEAR"
        using False that st n(2) year_weekday_range [of "y + 1" wb] assms(1,2)
        by (auto simp: week_one_def week_from_def)
      ultimately show ?thesis using b by simp
    qed
  qed
qed

lemma week_one_place:
  fixes wb :: int
  assumes "0 \<le> y" "y < 2 ^ 20"
  defines "f \<equiv> year_start y"
  shows "7 \<le> f \<Longrightarrow> calc_weekday (week_one wb y) (\<not> has_flag wb WEEK_MONDAY_FIRST) = 0"
    and "if has_flag wb WEEK_FIRST_WEEKDAY then f \<le> week_one wb y \<and> week_one wb y \<le> f + 6
         else f - 3 \<le> week_one wb y \<and> week_one wb y \<le> f + 3"
proof -
  define w where "w = year_weekday wb y"
  have w: "0 \<le> w" "w \<le> 6" using year_weekday_range [OF assms(1,2)] by (simp_all add: w_def)
  have o: "week_one wb y = f + (if week_late wb w then 7 - w else - w)"
    by (simp add: week_one_def week_from_def w_def f_def)
  show "calc_weekday (week_one wb y) (\<not> has_flag wb WEEK_MONDAY_FIRST) = 0" if "7 \<le> f"
  proof -
    have "calc_weekday (week_one wb y) (\<not> has_flag wb WEEK_MONDAY_FIRST)
        = (w + (if week_late wb w then 7 - w else - w)) mod 7"
      unfolding o using that w by (subst calc_weekday_add) (auto simp: w_def f_def year_weekday_def)
    then show ?thesis by simp
  qed
  show "if has_flag wb WEEK_FIRST_WEEKDAY then f \<le> week_one wb y \<and> week_one wb y \<le> f + 6
         else f - 3 \<le> week_one wb y \<and> week_one wb y \<le> f + 3"
    using w by (auto simp: o week_late_def)
qed

text \<open>C29. Week numbers: week 1 of a year starts on the first day of a week (Monday or Sunday,
  by the mode); it is the first such day of the year, or the one whose week has at least
  four days in the year, as in ISO 8601. With \<open>WEEK_YEAR\<close> the result is the year and the week
  of that year that the date is in. Otherwise the year is that of the date, and the days before
  week 1 are in week 0. The weekdays are those of the calendar: the first of January 1970 is a Thursday.\<close>

theorem calc_week_correct:
  assumes "1 \<le> y" "y \<le> 9999" "valid_date y m d"
  shows "\<exists>week year. calc_week y m d wb = (week, year)
    \<and> (if has_flag wb WEEK_YEAR
       then week_one wb year \<le> calc_daynr y m d \<and> calc_daynr y m d < week_one wb (year + 1)
         \<and> week = (calc_daynr y m d - week_one wb year) div 7 + 1
       else year = y \<and> week = (if calc_daynr y m d < week_one wb y then 0
         else (calc_daynr y m d - week_one wb y) div 7 + 1))
    \<and> calc_weekday (week_one wb y) (\<not> has_flag wb WEEK_MONDAY_FIRST) = 0
    \<and> (if has_flag wb WEEK_FIRST_WEEKDAY
       then calc_daynr y 1 1 \<le> week_one wb y \<and> week_one wb y \<le> calc_daynr y 1 7
       else calc_daynr y 1 1 - 3 \<le> week_one wb y \<and> week_one wb y \<le> calc_daynr y 1 4)
    \<and> calc_weekday (calc_daynr 1970 1 1) False = 3 \<and> calc_weekday (calc_daynr 1970 1 1) True = 4"
proof -
  have thursday: "calc_weekday (calc_daynr 1970 1 1) False = 3 \<and> calc_weekday (calc_daynr 1970 1 1) True = 4"
    by code_simp
  have "366 \<le> year_start y" using year_start_mono [of 1 y] calendar_ends assms by simp
  then have p: "calc_weekday (week_one wb y) (\<not> has_flag wb WEEK_MONDAY_FIRST) = 0"
    using week_one_place(1) [of y wb] assms(1,2) by simp
  have "calc_daynr y 1 7 = year_start y + 6" "calc_daynr y 1 4 = year_start y + 3"
    using calc_daynr_month [of y 1 7] calc_daynr_month [of y 1 4] assms(1,2)
    by (simp_all add: month_start_simps)
  then have q: "if has_flag wb WEEK_FIRST_WEEKDAY
      then calc_daynr y 1 1 \<le> week_one wb y \<and> week_one wb y \<le> calc_daynr y 1 7
      else calc_daynr y 1 1 - 3 \<le> week_one wb y \<and> week_one wb y \<le> calc_daynr y 1 4"
    using week_one_place(2) [of y wb] assms(1,2) by simp
  show ?thesis using calc_week_cases [OF assms refl, of wb] p q thursday by blast
qed

theorem calc_week_correct_witness:
  "calc_week 2024 12 31 3 = (1, 2025) \<and> week_one 3 2025 \<le> calc_daynr 2024 12 31"
proof -
  have "calc_week 2024 12 31 3 = (1, 2025)" by code_simp
  moreover have "has_flag 3 WEEK_YEAR" by code_simp
  moreover have "valid_date 2024 12 31" by (simp add: valid_date_def)
  ultimately show ?thesis using calc_week_correct [of 2024 12 31 3] by simp
qed

end
