(* ===== verification/Temporal.thy ===== *)
theory Temporal
  imports Calendar Byteorder
begin

unbundle bit_operations_syntax

text \<open>
  Temporal values: the structure \<open>MYSQL_TIME\<close> of \<open>include/mysql_time.h\<close>, the range
  checks of \<open>mysys/my_time.cc\<close>, the packed numbers that times, dates and datetimes are
  compared by in memory, and the bytes they are stored as. An output parameter is a result;
  a warning vector is passed in and out.
\<close>

section \<open>Values\<close>

datatype enum_mysql_timestamp_type =
  MYSQL_TIMESTAMP_NONE | MYSQL_TIMESTAMP_ERROR | MYSQL_TIMESTAMP_DATE | MYSQL_TIMESTAMP_DATETIME
| MYSQL_TIMESTAMP_TIME | MYSQL_TIMESTAMP_DATETIME_TZ

record MYSQL_TIME =
  year :: int
  month :: int
  day :: int
  hour :: int
  minute :: int
  second :: int
  second_part :: int
  neg :: bool
  time_type :: enum_mysql_timestamp_type
  time_zone_displacement :: int

definition TIME_FUZZY_DATE :: int where "TIME_FUZZY_DATE = 1"
definition TIME_NO_ZERO_IN_DATE :: int where "TIME_NO_ZERO_IN_DATE = 16"
definition TIME_NO_ZERO_DATE :: int where "TIME_NO_ZERO_DATE = 32"
definition TIME_INVALID_DATES :: int where "TIME_INVALID_DATES = 64"

definition MYSQL_TIME_WARN_TRUNCATED :: int where "MYSQL_TIME_WARN_TRUNCATED = 1"
definition MYSQL_TIME_WARN_OUT_OF_RANGE :: int where "MYSQL_TIME_WARN_OUT_OF_RANGE = 2"
definition MYSQL_TIME_WARN_ZERO_DATE :: int where "MYSQL_TIME_WARN_ZERO_DATE = 8"
definition MYSQL_TIME_WARN_ZERO_IN_DATE :: int where "MYSQL_TIME_WARN_ZERO_IN_DATE = 32"
definition MYSQL_TIME_WARN_DATETIME_OVERFLOW :: int where "MYSQL_TIME_WARN_DATETIME_OVERFLOW = 64"

definition TIME_MAX_HOUR :: int where "TIME_MAX_HOUR = 838"
definition TIME_MAX_MINUTE :: int where "TIME_MAX_MINUTE = 59"
definition TIME_MAX_SECOND :: int where "TIME_MAX_SECOND = 59"

definition set_zero_time :: "enum_mysql_timestamp_type \<Rightarrow> MYSQL_TIME" where
  "set_zero_time t =
     \<lparr>year = 0, month = 0, day = 0, hour = 0, minute = 0, second = 0, second_part = 0, neg = False,
      time_type = t, time_zone_displacement = 0\<rparr>"

definition set_max_hhmmss :: "MYSQL_TIME \<Rightarrow> MYSQL_TIME" where
  "set_max_hhmmss tm = tm\<lparr>hour := TIME_MAX_HOUR, minute := TIME_MAX_MINUTE, second := TIME_MAX_SECOND\<rparr>"

definition set_max_time :: "bool \<Rightarrow> MYSQL_TIME" where
  "set_max_time ng = (set_max_hhmmss (set_zero_time MYSQL_TIMESTAMP_TIME))\<lparr>neg := ng\<rparr>"

definition non_zero_date :: "MYSQL_TIME \<Rightarrow> bool" where
  "non_zero_date t \<longleftrightarrow> year t \<noteq> 0 \<or> month t \<noteq> 0 \<or> day t \<noteq> 0"

definition non_zero_time :: "MYSQL_TIME \<Rightarrow> bool" where
  "non_zero_time t \<longleftrightarrow> hour t \<noteq> 0 \<or> minute t \<noteq> 0 \<or> second t \<noteq> 0 \<or> second_part t \<noteq> 0"

definition check_fuzzy_date :: "MYSQL_TIME \<Rightarrow> int \<Rightarrow> bool" where
  "check_fuzzy_date t fuzzydate \<longleftrightarrow> \<not> has_flag fuzzydate TIME_FUZZY_DATE \<and> (month t = 0 \<or> day t = 0)"

definition datetime_to_time :: "MYSQL_TIME \<Rightarrow> MYSQL_TIME" where
  "datetime_to_time t = t\<lparr>year := 0, month := 0, day := 0, time_type := MYSQL_TIMESTAMP_TIME\<rparr>"

definition datetime_to_date :: "MYSQL_TIME \<Rightarrow> MYSQL_TIME" where
  "datetime_to_date t =
     t\<lparr>hour := 0, minute := 0, second := 0, second_part := 0, time_type := MYSQL_TIMESTAMP_DATE\<rparr>"

definition date_to_datetime :: "MYSQL_TIME \<Rightarrow> MYSQL_TIME" where
  "date_to_datetime t = t\<lparr>time_type := MYSQL_TIMESTAMP_DATETIME\<rparr>"

text \<open>Whether the date is refused, and \<open>was_cut\<close>.\<close>

definition check_date :: "MYSQL_TIME \<Rightarrow> bool \<Rightarrow> int \<Rightarrow> int \<Rightarrow> bool \<times> int" where
  "check_date t not_zero_date flags was_cut =
     (if not_zero_date then
        if (has_flag flags TIME_NO_ZERO_IN_DATE \<or> \<not> has_flag flags TIME_FUZZY_DATE)
           \<and> (month t = 0 \<or> day t = 0)
        then (True, MYSQL_TIME_WARN_ZERO_IN_DATE)
        else if \<not> has_flag flags TIME_INVALID_DATES \<and> month t \<noteq> 0
                \<and> day t > days_in_month ! nat (month t - 1)
                \<and> (month t \<noteq> 2 \<or> calc_days_in_year (year t) \<noteq> 366 \<or> day t \<noteq> 29)
        then (True, MYSQL_TIME_WARN_OUT_OF_RANGE)
        else (False, was_cut)
      else if has_flag flags TIME_NO_ZERO_DATE then (True, MYSQL_TIME_WARN_ZERO_DATE)
      else (False, was_cut))"

definition check_time_mmssff_range :: "MYSQL_TIME \<Rightarrow> bool" where
  "check_time_mmssff_range t \<longleftrightarrow> minute t \<ge> 60 \<or> second t \<ge> 60 \<or> second_part t > 999999"

definition check_time_range_quick :: "MYSQL_TIME \<Rightarrow> bool" where
  "check_time_range_quick t =
     (let hours = hour t + 24 * day t in
      if hours \<le> TIME_MAX_HOUR
         \<and> (hours \<noteq> TIME_MAX_HOUR \<or> minute t \<noteq> TIME_MAX_MINUTE \<or> second t \<noteq> TIME_MAX_SECOND
            \<or> second_part t = 0)
      then False else True)"

definition check_datetime_range :: "MYSQL_TIME \<Rightarrow> bool" where
  "check_datetime_range t \<longleftrightarrow>
     year t > 9999 \<or> month t > 12 \<or> day t > 31 \<or> minute t > 59 \<or> second t > 59 \<or> second_part t > 999999
     \<or> hour t > (if time_type t = MYSQL_TIMESTAMP_TIME then TIME_MAX_HOUR else 23)"

definition adjust_time_range :: "MYSQL_TIME \<Rightarrow> int \<Rightarrow> MYSQL_TIME \<times> int" where
  "adjust_time_range t warning =
     (if check_time_range_quick t
      then (set_max_hhmmss (t\<lparr>day := 0, second_part := 0\<rparr>), warning OR MYSQL_TIME_WARN_OUT_OF_RANGE)
      else (t, warning))"

section \<open>Packed numbers\<close>

definition my_packed_time_get_int_part :: "int \<Rightarrow> int" where
  "my_packed_time_get_int_part i = drop_bit 24 i"

definition my_packed_time_get_frac_part :: "int \<Rightarrow> int" where
  "my_packed_time_get_frac_part i = i smod 2 ^ 24"

definition my_packed_time_make :: "int \<Rightarrow> int \<Rightarrow> int" where
  "my_packed_time_make i f = s64 (u64 (push_bit 24 (u64 i)) + f)"

definition my_packed_time_make_int :: "int \<Rightarrow> int" where
  "my_packed_time_make_int i = s64 (u64 (push_bit 24 (u64 i)))"

definition TIME_to_longlong_time_packed :: "MYSQL_TIME \<Rightarrow> int" where
  "TIME_to_longlong_time_packed t =
     (let hms = u32 (push_bit 12 (u32 ((if month t \<noteq> 0 then 0 else u32 (day t * 24)) + hour t)))
                OR u32 (push_bit 6 (minute t)) OR second t;
          tmp = my_packed_time_make hms (second_part t)
      in if neg t then - tmp else tmp)"

definition TIME_from_longlong_time_packed :: "int \<Rightarrow> MYSQL_TIME \<Rightarrow> MYSQL_TIME" where
  "TIME_from_longlong_time_packed tmp t =
     (let ng = (tmp < 0); tmp = (if ng then - tmp else tmp);
          hms = my_packed_time_get_int_part tmp
      in t\<lparr>neg := ng, year := 0, month := 0, day := 0,
           hour := u32 (drop_bit 12 hms) mod 2 ^ 10,
           minute := u32 (drop_bit 6 hms) mod 2 ^ 6,
           second := u32 hms mod 2 ^ 6,
           second_part := my_packed_time_get_frac_part tmp,
           time_type := MYSQL_TIMESTAMP_TIME\<rparr>)"

definition TIME_to_longlong_datetime_packed :: "MYSQL_TIME \<Rightarrow> int" where
  "TIME_to_longlong_datetime_packed t =
     (let ymd = u32 (push_bit 5 (u32 (year t * 13 + month t))) OR day t;
          hms = u32 (push_bit 12 (hour t)) OR u32 (push_bit 6 (minute t)) OR second t;
          tmp = my_packed_time_make (push_bit 17 ymd OR hms) (second_part t)
      in if neg t then - tmp else tmp)"

definition TIME_to_longlong_date_packed :: "MYSQL_TIME \<Rightarrow> int" where
  "TIME_to_longlong_date_packed t =
     (let ymd = u32 (push_bit 5 (u32 (year t * 13 + month t))) OR day t
      in my_packed_time_make_int (push_bit 17 ymd))"

definition year_to_longlong_datetime_packed :: "int \<Rightarrow> int" where
  "year_to_longlong_datetime_packed yr =
     (let ymd = push_bit 5 (yr * 13) in my_packed_time_make_int (push_bit 17 ymd))"

definition TIME_from_longlong_datetime_packed :: "int \<Rightarrow> MYSQL_TIME \<Rightarrow> MYSQL_TIME" where
  "TIME_from_longlong_datetime_packed tmp t =
     (let ng = (tmp < 0); tmp = (if ng then - tmp else tmp);
          frac = my_packed_time_get_frac_part tmp;
          ymdhms = my_packed_time_get_int_part tmp;
          ymd = drop_bit 17 ymdhms;
          ym = drop_bit 5 ymd;
          hms = ymdhms smod 2 ^ 17
      in t\<lparr>neg := ng, second_part := frac,
           day := ymd smod 2 ^ 5, month := ym smod 13, year := u32 (ym sdiv 13),
           second := hms smod 2 ^ 6, minute := drop_bit 6 hms smod 2 ^ 6, hour := u32 (drop_bit 12 hms),
           time_type := MYSQL_TIMESTAMP_DATETIME, time_zone_displacement := 0\<rparr>)"

definition TIME_from_longlong_date_packed :: "int \<Rightarrow> MYSQL_TIME \<Rightarrow> MYSQL_TIME" where
  "TIME_from_longlong_date_packed tmp t =
     (TIME_from_longlong_datetime_packed tmp t)\<lparr>time_type := MYSQL_TIMESTAMP_DATE\<rparr>"

text \<open>
  By the type of the value. A datetime with a time zone is not expected here: the assertion
  says so, and without assertions the case falls through to the next one.
\<close>

definition TIME_to_longlong_packed :: "MYSQL_TIME \<Rightarrow> int" where
  "TIME_to_longlong_packed t =
     (case time_type t of
        MYSQL_TIMESTAMP_DATE \<Rightarrow> TIME_to_longlong_date_packed t
      | MYSQL_TIMESTAMP_DATETIME_TZ \<Rightarrow> TIME_to_longlong_datetime_packed t
      | MYSQL_TIMESTAMP_DATETIME \<Rightarrow> TIME_to_longlong_datetime_packed t
      | MYSQL_TIMESTAMP_TIME \<Rightarrow> TIME_to_longlong_time_packed t
      | MYSQL_TIMESTAMP_NONE \<Rightarrow> 0
      | MYSQL_TIMESTAMP_ERROR \<Rightarrow> 0)"

datatype enum_field_types =
  MYSQL_TYPE_DECIMAL | MYSQL_TYPE_TINY | MYSQL_TYPE_SHORT | MYSQL_TYPE_LONG | MYSQL_TYPE_FLOAT
| MYSQL_TYPE_DOUBLE | MYSQL_TYPE_NULL | MYSQL_TYPE_TIMESTAMP | MYSQL_TYPE_LONGLONG | MYSQL_TYPE_INT24
| MYSQL_TYPE_DATE | MYSQL_TYPE_TIME | MYSQL_TYPE_DATETIME | MYSQL_TYPE_YEAR | MYSQL_TYPE_NEWDATE
| MYSQL_TYPE_VARCHAR | MYSQL_TYPE_BIT | MYSQL_TYPE_TIMESTAMP2 | MYSQL_TYPE_DATETIME2 | MYSQL_TYPE_TIME2
| MYSQL_TYPE_TYPED_ARRAY | MYSQL_TYPE_INVALID | MYSQL_TYPE_BOOL | MYSQL_TYPE_JSON
| MYSQL_TYPE_NEWDECIMAL | MYSQL_TYPE_ENUM | MYSQL_TYPE_SET | MYSQL_TYPE_TINY_BLOB
| MYSQL_TYPE_MEDIUM_BLOB | MYSQL_TYPE_LONG_BLOB | MYSQL_TYPE_BLOB | MYSQL_TYPE_VAR_STRING
| MYSQL_TYPE_STRING | MYSQL_TYPE_GEOMETRY

text \<open>The overloads that are given the type of a field.\<close>

definition TIME_to_longlong_packed_type :: "MYSQL_TIME \<Rightarrow> enum_field_types \<Rightarrow> int" where
  "TIME_to_longlong_packed_type t type =
     (case type of
        MYSQL_TYPE_TIME \<Rightarrow> TIME_to_longlong_time_packed t
      | MYSQL_TYPE_DATETIME \<Rightarrow> TIME_to_longlong_datetime_packed t
      | MYSQL_TYPE_TIMESTAMP \<Rightarrow> TIME_to_longlong_datetime_packed t
      | MYSQL_TYPE_DATE \<Rightarrow> TIME_to_longlong_date_packed t
      | _ \<Rightarrow> TIME_to_longlong_packed t)"

definition TIME_from_longlong_packed :: "enum_field_types \<Rightarrow> int \<Rightarrow> MYSQL_TIME \<Rightarrow> MYSQL_TIME" where
  "TIME_from_longlong_packed type packed_value t =
     (case type of
        MYSQL_TYPE_TIME \<Rightarrow> TIME_from_longlong_time_packed packed_value t
      | MYSQL_TYPE_DATE \<Rightarrow> TIME_from_longlong_date_packed packed_value t
      | MYSQL_TYPE_DATETIME \<Rightarrow> TIME_from_longlong_datetime_packed packed_value t
      | MYSQL_TYPE_TIMESTAMP \<Rightarrow> TIME_from_longlong_datetime_packed packed_value t
      | _ \<Rightarrow> set_zero_time MYSQL_TIMESTAMP_ERROR)"

section \<open>Decimal numbers\<close>

definition TIME_to_ulonglong_datetime :: "MYSQL_TIME \<Rightarrow> int" where
  "TIME_to_ulonglong_datetime t =
     u64 (u64 (year t * 10000 + month t * 100 + day t) * 1000000
          + u64 (hour t * 10000 + minute t * 100 + second t))"

definition TIME_to_ulonglong_date :: "MYSQL_TIME \<Rightarrow> int" where
  "TIME_to_ulonglong_date t = u64 (year t * 10000 + month t * 100 + day t)"

definition TIME_to_ulonglong_time :: "MYSQL_TIME \<Rightarrow> int" where
  "TIME_to_ulonglong_time t = u64 (hour t * 10000 + minute t * 100 + second t)"

definition TIME_to_ulonglong :: "MYSQL_TIME \<Rightarrow> int" where
  "TIME_to_ulonglong t =
     (case time_type t of
        MYSQL_TIMESTAMP_DATETIME \<Rightarrow> TIME_to_ulonglong_datetime t
      | MYSQL_TIMESTAMP_DATE \<Rightarrow> TIME_to_ulonglong_date t
      | MYSQL_TIMESTAMP_TIME \<Rightarrow> TIME_to_ulonglong_time t
      | _ \<Rightarrow> 0)"

definition TIME_set_yymmdd :: "MYSQL_TIME \<Rightarrow> int \<Rightarrow> MYSQL_TIME" where
  "TIME_set_yymmdd t yymmdd =
     t\<lparr>day := yymmdd mod 100, month := yymmdd div 100 mod 100, year := yymmdd div 10000\<rparr>"

definition TIME_set_hhmmss :: "MYSQL_TIME \<Rightarrow> int \<Rightarrow> MYSQL_TIME" where
  "TIME_set_hhmmss t hhmmss =
     t\<lparr>second := hhmmss mod 100, minute := hhmmss div 100 mod 100, hour := hhmmss div 10000\<rparr>"

text \<open>The unpacked number of a packed value; the fields that are not set stay as they are.\<close>

definition longlong_from_datetime_packed :: "enum_field_types \<Rightarrow> int \<Rightarrow> MYSQL_TIME \<Rightarrow> int" where
  "longlong_from_datetime_packed type packed_value t =
     (case type of
        MYSQL_TYPE_TIME \<Rightarrow> s64 (TIME_to_ulonglong_time (TIME_from_longlong_time_packed packed_value t))
      | MYSQL_TYPE_DATE \<Rightarrow> s64 (TIME_to_ulonglong_date (TIME_from_longlong_date_packed packed_value t))
      | MYSQL_TYPE_DATETIME \<Rightarrow>
          s64 (TIME_to_ulonglong_datetime (TIME_from_longlong_datetime_packed packed_value t))
      | MYSQL_TYPE_TIMESTAMP \<Rightarrow>
          s64 (TIME_to_ulonglong_datetime (TIME_from_longlong_datetime_packed packed_value t))
      | _ \<Rightarrow> 0)"

definition my_time_compare :: "MYSQL_TIME \<Rightarrow> MYSQL_TIME \<Rightarrow> int" where
  "my_time_compare a b =
     (let a_t = TIME_to_ulonglong_datetime a; b_t = TIME_to_ulonglong_datetime b in
      if a_t < b_t then -1 else if a_t > b_t then 1
      else if second_part a < second_part b then -1 else if second_part a > second_part b then 1
      else 0)"

section \<open>Stored bytes\<close>

definition TIMEF_OFS :: int where "TIMEF_OFS = 0x800000000000"
definition TIMEF_INT_OFS :: int where "TIMEF_INT_OFS = 0x800000"
definition DATETIMEF_INT_OFS :: int where "DATETIMEF_INT_OFS = 0x8000000000"

definition my_time_packed_to_binary :: "int \<Rightarrow> nat \<Rightarrow> bytes" where
  "my_time_packed_to_binary nr dec =
     (let i = TIMEF_INT_OFS + my_packed_time_get_int_part nr; f = my_packed_time_get_frac_part nr in
      if dec = 1 \<or> dec = 2 then mi_int3store i @ [u8 (f sdiv 10000)]
      else if dec = 4 \<or> dec = 3 then mi_int3store i @ mi_int2store (f sdiv 100)
      else if dec = 5 \<or> dec = 6 then mi_int6store (nr + TIMEF_OFS)
      else mi_int3store i)"

text \<open>
  Negative times are stored with the fraction counted up from the next lower second, so the
  bytes order like the times; reading moves to the next second and counts down.
\<close>

definition my_time_packed_from_binary :: "bytes \<Rightarrow> nat \<Rightarrow> int" where
  "my_time_packed_from_binary ptr dec =
     (let intpart = mi_uint3korr ptr - TIMEF_INT_OFS in
      if dec = 1 \<or> dec = 2 then
        let frac = ptr ! 3;
            (intpart, frac) = (if intpart < 0 \<and> frac \<noteq> 0 then (intpart + 1, frac - 0x100) else (intpart, frac))
        in my_packed_time_make intpart (frac * 10000)
      else if dec = 3 \<or> dec = 4 then
        let frac = mi_uint2korr (drop 3 ptr);
            (intpart, frac) = (if intpart < 0 \<and> frac \<noteq> 0 then (intpart + 1, frac - 0x10000) else (intpart, frac))
        in my_packed_time_make intpart (frac * 100)
      else if dec = 5 \<or> dec = 6 then s64 (mi_uint6korr ptr) - TIMEF_OFS
      else my_packed_time_make_int intpart)"

definition my_datetime_packed_from_binary :: "bytes \<Rightarrow> nat \<Rightarrow> int" where
  "my_datetime_packed_from_binary ptr dec =
     (let intpart = mi_uint5korr ptr - DATETIMEF_INT_OFS in
      if dec = 1 \<or> dec = 2 then my_packed_time_make intpart (s8 (ptr ! 5) * 10000)
      else if dec = 3 \<or> dec = 4 then my_packed_time_make intpart (mi_sint2korr (drop 5 ptr) * 100)
      else if dec = 5 \<or> dec = 6 then my_packed_time_make intpart (mi_sint3korr (drop 5 ptr))
      else my_packed_time_make_int intpart)"

definition my_datetime_packed_to_binary :: "int \<Rightarrow> nat \<Rightarrow> bytes" where
  "my_datetime_packed_to_binary nr dec =
     (let i = mi_int5store (my_packed_time_get_int_part nr + DATETIMEF_INT_OFS);
          f = my_packed_time_get_frac_part nr in
      if dec = 1 \<or> dec = 2 then i @ [u8 (f sdiv 10000)]
      else if dec = 3 \<or> dec = 4 then i @ mi_int2store (f sdiv 100)
      else if dec = 5 \<or> dec = 6 then i @ mi_int3store f
      else i)"

record my_timeval =
  m_tv_sec :: int
  m_tv_usec :: int

definition my_timestamp_from_binary :: "bytes \<Rightarrow> nat \<Rightarrow> my_timeval" where
  "my_timestamp_from_binary ptr dec =
     \<lparr>m_tv_sec = mi_uint4korr ptr,
      m_tv_usec =
        if dec = 1 \<or> dec = 2 then ptr ! 4 * 10000
        else if dec = 3 \<or> dec = 4 then mi_sint2korr (drop 4 ptr) * 100
        else if dec = 5 \<or> dec = 6 then mi_sint3korr (drop 4 ptr)
        else 0\<rparr>"

definition my_timestamp_to_binary :: "my_timeval \<Rightarrow> nat \<Rightarrow> bytes" where
  "my_timestamp_to_binary tm dec =
     (let i = mi_int4store (m_tv_sec tm); f = m_tv_usec tm in
      if dec = 1 \<or> dec = 2 then i @ [u8 (f sdiv 10000)]
      else if dec = 3 \<or> dec = 4 then i @ mi_int2store (f sdiv 100)
      else if dec = 5 \<or> dec = 6 then i @ mi_int3store f
      else i)"

definition my_date_to_binary :: "MYSQL_TIME \<Rightarrow> bytes" where
  "my_date_to_binary t = int3store (u32 (day t + month t * 32 + year t * 16 * 32))"

end
