(* ===== verification/Temporal_Packed.thy ===== *)
theory Temporal_Packed
  imports Temporal
begin

text \<open>
  Packed temporal values: packing and unpacking are inverse, packed numbers order like the
  values, and so do the stored bytes under \<open>memcmp\<close>.
\<close>

section \<open>Bits and digits\<close>

lemma or_push_bit:
  fixes a b :: int
  assumes "0 \<le> b" "b < 2 ^ n"
  shows "push_bit n a OR b = a * 2 ^ n + b"
proof -
  have "\<not> bit b k" if "n \<le> k" for k
  proof -
    have "take_bit n b = b" using assms by (simp add: take_bit_int_eq_self)
    then show ?thesis using that by (metis bit_take_bit_iff leD)
  qed
  then have "push_bit n a AND b = 0" by (auto simp: bit_eq_iff bit_simps)
  then show ?thesis by (simp add: disjunctive_add_eq_or [symmetric] push_bit_eq_mult)
qed

lemma div_mod_digit:
  fixes a b k :: int
  assumes "0 \<le> b" "b < k"
  shows "(a * k + b) div k = a" "(a * k + b) mod k = b"
proof -
  have "k \<noteq> 0" using assms by simp
  then show "(a * k + b) div k = a" "(a * k + b) mod k = b" using assms by (simp_all add: add.commute)
qed

lemma digits_less:
  fixes a b a' b' k :: int
  assumes "0 \<le> b" "b < k" "0 \<le> b'" "b' < k"
  shows "a * k + b < a' * k + b' \<longleftrightarrow> a < a' \<or> a = a' \<and> b < b'"
proof -
  have "0 < k" using assms by simp
  then show ?thesis
    using digit_compare [of a a' b' b k] digit_compare [of a' a b b' k] assms
    by (cases a a' rule: linorder_cases) auto
qed

lemma digits_bound:
  fixes a b A k :: int
  assumes "0 \<le> a" "a < A" "0 \<le> b" "b < k"
  shows "0 \<le> a * k + b" "a * k + b < A * k"
proof -
  have "0 < k" using assms by simp
  have "(a + 1) * k \<le> A * k" using assms \<open>0 < k\<close> by (intro mult_right_mono) auto
  then show "a * k + b < A * k" using assms by (simp add: distrib_right)
  show "0 \<le> a * k + b" using assms \<open>0 < k\<close> by simp
qed

section \<open>Packing\<close>

text \<open>The unsigned fields of a value, and the values the range check accepts.\<close>

definition mt_unsigned :: "MYSQL_TIME \<Rightarrow> bool" where
  "mt_unsigned t \<longleftrightarrow> 0 \<le> year t \<and> 0 \<le> month t \<and> 0 \<le> day t \<and> 0 \<le> hour t \<and> 0 \<le> minute t
     \<and> 0 \<le> second t \<and> 0 \<le> second_part t"

definition hms_value :: "MYSQL_TIME \<Rightarrow> int" where
  "hms_value t = (hour t * 2 ^ 6 + minute t) * 2 ^ 6 + second t"

definition ymd_value :: "MYSQL_TIME \<Rightarrow> int" where
  "ymd_value t = (year t * 13 + month t) * 2 ^ 5 + day t"

definition datetime_value :: "MYSQL_TIME \<Rightarrow> int" where
  "datetime_value t = (ymd_value t * 2 ^ 17 + hms_value t) * 2 ^ 24 + second_part t"

definition time_value :: "MYSQL_TIME \<Rightarrow> int" where
  "time_value t = hms_value t * 2 ^ 24 + second_part t"

lemma hms_pack:
  assumes "0 \<le> h" "h < 2 ^ 16" "0 \<le> m" "m < 64" "0 \<le> s" "s < 64"
  shows "u32 (push_bit 12 h) OR u32 (push_bit 6 m) OR s = (h * 2 ^ 6 + m) * 2 ^ 6 + s"
proof -
  have e: "push_bit 6 m OR s = m * 2 ^ 6 + s" "push_bit 12 h OR (m * 2 ^ 6 + s) = h * 2 ^ 12 + (m * 2 ^ 6 + s)"
    using assms by (intro or_push_bit; simp)+
  have "u32 (push_bit 12 h) = push_bit 12 h" "u32 (push_bit 6 m) = push_bit 6 m"
    using assms by (simp_all add: push_bit_eq_mult u32_id)
  then show ?thesis using e by (simp add: or.assoc)
qed

lemma make_eq:
  assumes "- (2 ^ 38) \<le> i" "i < 2 ^ 39" "- (2 ^ 24) < f" "f < 2 ^ 24"
  shows "my_packed_time_make i f = i * 2 ^ 24 + f" "my_packed_time_make_int i = i * 2 ^ 24"
proof -
  have s: "s64 (u64 x + f) = s64 (x + f)" for x f
    unfolding s64_def u64_def by (simp add: mod_simps add.assoc)
  have "u64 (push_bit 24 (u64 i)) = u64 (i * 2 ^ 24)"
    unfolding u64_def push_bit_eq_mult by (simp add: mod_simps)
  moreover have "s64 (i * 2 ^ 24 + f) = i * 2 ^ 24 + f" if "f < 2 ^ 24" "- (2 ^ 24) < f" for f
    using assms(1,2) that by (intro s64_id) simp_all
  note this [of f] this [of 0]
  ultimately show "my_packed_time_make i f = i * 2 ^ 24 + f" "my_packed_time_make_int i = i * 2 ^ 24"
    using assms(3,4) s [of _ 0] by (simp_all add: my_packed_time_make_def my_packed_time_make_int_def s)
qed

lemma datetime_fields:
  assumes "mt_unsigned t" "\<not> check_datetime_range t"
  shows "0 \<le> hms_value t" "hms_value t < 839 * 4096" "0 \<le> ymd_value t" "ymd_value t < 2 ^ 22"
    "0 \<le> second_part t" "second_part t < 2 ^ 24"
    "time_type t \<noteq> MYSQL_TIMESTAMP_TIME \<Longrightarrow> hms_value t < 2 ^ 17"
  using assms by (auto simp: mt_unsigned_def check_datetime_range_def hms_value_def ymd_value_def
      TIME_MAX_HOUR_def split: if_splits)

lemma ymd_pack:
  assumes "mt_unsigned t" "\<not> check_datetime_range t"
  shows "u32 (push_bit 5 (u32 (year t * 13 + month t))) OR day t = ymd_value t"
proof -
  have u: "u32 (year t * 13 + month t) = year t * 13 + month t"
    "u32 (push_bit 5 (year t * 13 + month t)) = push_bit 5 (year t * 13 + month t)"
    using assms by (auto simp: mt_unsigned_def check_datetime_range_def push_bit_eq_mult u32_id)
  have "push_bit 5 (year t * 13 + month t) OR day t = (year t * 13 + month t) * 2 ^ 5 + day t"
    using assms by (intro or_push_bit) (auto simp: mt_unsigned_def check_datetime_range_def)
  then show ?thesis using u by (simp add: ymd_value_def)
qed

lemma datetime_packed_eq:
  assumes "mt_unsigned t" "\<not> check_datetime_range t" "time_type t \<noteq> MYSQL_TIMESTAMP_TIME"
  shows "TIME_to_longlong_datetime_packed t = (if neg t then - datetime_value t else datetime_value t)"
    and "TIME_to_longlong_date_packed t = ymd_value t * 2 ^ 41"
proof -
  note f = datetime_fields [OF assms(1,2)]
  have h: "u32 (push_bit 12 (hour t)) OR u32 (push_bit 6 (minute t)) OR second t = hms_value t"
    unfolding hms_value_def using assms
    by (intro hms_pack) (auto simp: mt_unsigned_def check_datetime_range_def)
  have p: "push_bit 17 (ymd_value t) OR hms_value t = ymd_value t * 2 ^ 17 + hms_value t"
    using f assms(3) by (intro or_push_bit) simp_all
  have b: "- (2 ^ 38) \<le> ymd_value t * 2 ^ 17 + hms_value t" "ymd_value t * 2 ^ 17 + hms_value t < 2 ^ 39"
    using f assms(3) by simp_all
  show "TIME_to_longlong_datetime_packed t = (if neg t then - datetime_value t else datetime_value t)"
    unfolding TIME_to_longlong_datetime_packed_def ymd_pack [OF assms(1,2)] h p Let_def
    using make_eq(1) [OF b, of "second_part t"] f(5,6) by (simp add: datetime_value_def)
  have c: "- (2 ^ 38) \<le> push_bit 17 (ymd_value t)" "push_bit 17 (ymd_value t) < 2 ^ 39"
    using f by (simp_all add: push_bit_eq_mult)
  show "TIME_to_longlong_date_packed t = ymd_value t * 2 ^ 41"
    unfolding TIME_to_longlong_date_packed_def ymd_pack [OF assms(1,2)] Let_def
    using make_eq(2) [OF c, of 0] by (simp add: push_bit_eq_mult)
qed

lemma time_packed_eq:
  assumes "mt_unsigned t" "\<not> check_datetime_range t" "month t = 0" "day t = 0"
  shows "TIME_to_longlong_time_packed t = (if neg t then - time_value t else time_value t)"
proof -
  note f = datetime_fields [OF assms(1,2)]
  have u: "u32 ((if month t \<noteq> 0 then 0 else u32 (day t * 24)) + hour t) = hour t"
    using assms by (auto simp: mt_unsigned_def check_datetime_range_def TIME_MAX_HOUR_def u32_def split: if_splits)
  have h: "u32 (push_bit 12 (hour t)) OR u32 (push_bit 6 (minute t)) OR second t = hms_value t"
    unfolding hms_value_def using assms
    by (intro hms_pack) (auto simp: mt_unsigned_def check_datetime_range_def TIME_MAX_HOUR_def split: if_splits)
  show ?thesis
    unfolding TIME_to_longlong_time_packed_def u h Let_def
    using make_eq(1) [of "hms_value t" "second_part t"] f by (simp add: time_value_def)
qed

section \<open>Unpacking\<close>

lemma drop_bit_div: "drop_bit n (x::int) = x div 2 ^ n"
  by (rule drop_bit_eq_div)

lemma unpack_hms:
  assumes "0 \<le> m" "m < 2 ^ 6" "0 \<le> s" "s < (2 ^ 6::int)"
  shows "((h * 2 ^ 6 + m) * 2 ^ 6 + s) div 2 ^ 12 = h"
    "((h * 2 ^ 6 + m) * 2 ^ 6 + s) div 2 ^ 6 mod 2 ^ 6 = m" "((h * 2 ^ 6 + m) * 2 ^ 6 + s) mod 2 ^ 6 = s"
proof -
  have "x div 2 ^ 12 = x div 2 ^ 6 div 2 ^ 6" for x :: int
    using zdiv_zmult2_eq [of "2 ^ 6" x "2 ^ 6"] by simp
  then show "((h * 2 ^ 6 + m) * 2 ^ 6 + s) div 2 ^ 12 = h"
    using assms by (simp only: div_mod_digit)
  show "((h * 2 ^ 6 + m) * 2 ^ 6 + s) div 2 ^ 6 mod 2 ^ 6 = m" "((h * 2 ^ 6 + m) * 2 ^ 6 + s) mod 2 ^ 6 = s"
    using assms by (simp_all only: div_mod_digit)
qed

lemma unpack_datetime:
  assumes "mt_unsigned t" "\<not> check_datetime_range t" "time_type t \<noteq> MYSQL_TIMESTAMP_TIME"
  shows "TIME_from_longlong_datetime_packed (if ng then - datetime_value t else datetime_value t) t' =
    t'\<lparr>neg := ng \<and> datetime_value t \<noteq> 0, second_part := second_part t, day := day t, month := month t,
      year := year t, second := second t, minute := minute t, hour := hour t,
      time_type := MYSQL_TIMESTAMP_DATETIME, time_zone_displacement := 0\<rparr>"
proof -
  note f = datetime_fields [OF assms(1,2)]
  define v where "v = datetime_value t"
  have v0: "0 \<le> v" using f by (simp add: v_def datetime_value_def)
  have v: "v div 2 ^ 24 = ymd_value t * 2 ^ 17 + hms_value t" "v mod 2 ^ 24 = second_part t"
    unfolding v_def datetime_value_def using f by (simp_all only: div_mod_digit)
  have yh: "(ymd_value t * 2 ^ 17 + hms_value t) div 2 ^ 17 = ymd_value t"
    "(ymd_value t * 2 ^ 17 + hms_value t) mod 2 ^ 17 = hms_value t"
    using f(1) f(7) [OF assms(3)] by (simp_all only: div_mod_digit)
  have fl: "0 \<le> day t" "day t < 2 ^ 5" "0 \<le> month t" "month t < 13" "0 \<le> year t" "year t < 2 ^ 32"
    "0 \<le> hour t" "hour t < 2 ^ 32" "0 \<le> minute t" "minute t < 2 ^ 6" "0 \<le> second t" "second t < 2 ^ 6"
    using assms by (auto simp: mt_unsigned_def check_datetime_range_def)
  have ymd: "ymd_value t div 2 ^ 5 = year t * 13 + month t" "ymd_value t mod 2 ^ 5 = day t"
    "(year t * 13 + month t) div 13 = year t" "(year t * 13 + month t) mod 13 = month t"
    unfolding ymd_value_def using fl by (simp_all only: div_mod_digit)
  note hms = unpack_hms [OF fl(9-12), of "hour t", folded hms_value_def]
  have nn: "0 \<le> year t * 13 + month t" "0 \<le> hms_value t div 2 ^ 6" "0 \<le> ymd_value t * 2 ^ 17 + hms_value t"
    using fl f by (simp_all add: pos_imp_zdiv_nonneg_iff)
  have sign: "((if ng then - v else v) < 0) = (ng \<and> v \<noteq> 0)"
    "(if ng \<and> v \<noteq> 0 then - (if ng then - v else v) else if ng then - v else v) = v"
    using v0 by auto
  have sm: "v smod 2 ^ 24 = second_part t" "(ymd_value t * 2 ^ 17 + hms_value t) smod 2 ^ 17 = hms_value t"
    "ymd_value t smod 2 ^ 5 = day t" "(year t * 13 + month t) smod 13 = month t"
    "(year t * 13 + month t) sdiv 13 = year t" "hms_value t smod 2 ^ 6 = second t"
    "hms_value t div 2 ^ 6 smod 2 ^ 6 = minute t"
    using v0 v(2) yh(2) ymd hms f nn by (simp_all only: smod_nonneg sdiv_nonneg zero_le_power zero_le_numeral)
  have u: "u32 (year t) = year t" "u32 (hour t) = hour t" using fl by (simp_all add: u32_id)
  show ?thesis
    unfolding TIME_from_longlong_datetime_packed_def Let_def my_packed_time_get_frac_part_def
      my_packed_time_get_int_part_def drop_bit_div v_def [symmetric] sign v(1) yh(1) sm ymd(1) hms(1) u ..
qed

lemma unpack_time:
  assumes "mt_unsigned t" "\<not> check_datetime_range t"
  shows "TIME_from_longlong_time_packed (if ng then - time_value t else time_value t) t' =
    t'\<lparr>neg := ng \<and> time_value t \<noteq> 0, year := 0, month := 0, day := 0, hour := hour t, minute := minute t,
      second := second t, second_part := second_part t, time_type := MYSQL_TIMESTAMP_TIME\<rparr>"
proof -
  note f = datetime_fields [OF assms(1,2)]
  define v where "v = time_value t"
  have v0: "0 \<le> v" using f by (simp add: v_def time_value_def)
  have v: "v div 2 ^ 24 = hms_value t" "v mod 2 ^ 24 = second_part t"
    unfolding v_def time_value_def using f by (simp_all only: div_mod_digit)
  have fl: "0 \<le> hour t" "hour t < 2 ^ 10" "0 \<le> minute t" "minute t < 2 ^ 6" "0 \<le> second t" "second t < 2 ^ 6"
    using assms by (auto simp: mt_unsigned_def check_datetime_range_def TIME_MAX_HOUR_def split: if_splits)
  note hms = unpack_hms [OF fl(3-6), of "hour t", folded hms_value_def]
  have d: "0 \<le> hms_value t div 2 ^ 6" "hms_value t div 2 ^ 6 < 2 ^ 32" using f(1,2) by simp_all
  have u: "u32 (hms_value t) = hms_value t" "u32 (hms_value t div 2 ^ 6) = hms_value t div 2 ^ 6"
    "u32 (hour t) = hour t" "hour t mod 2 ^ 10 = hour t"
    using d f(1,2) fl(1,2) by (simp_all only: u32_id mod_pos_pos_trivial) (simp_all add: u32_id)
  have sign: "((if ng then - v else v) < 0) = (ng \<and> v \<noteq> 0)"
    "(if ng \<and> v \<noteq> 0 then - (if ng then - v else v) else if ng then - v else v) = v"
    using v0 by auto
  have sm: "v smod 2 ^ 24 = second_part t" using v0 v(2) by (simp only: smod_nonneg zero_le_power zero_le_numeral)
  show ?thesis
    unfolding TIME_from_longlong_time_packed_def Let_def my_packed_time_get_frac_part_def
      my_packed_time_get_int_part_def drop_bit_div v_def [symmetric] sign v(1) sm hms(1) u hms ..
qed

text \<open>Values of a field type: what its packed form can hold.\<close>

definition packable :: "enum_field_types \<Rightarrow> MYSQL_TIME \<Rightarrow> bool" where
  "packable type t \<longleftrightarrow> mt_unsigned t \<and> \<not> check_datetime_range t \<and> (neg t \<longrightarrow> non_zero_date t \<or> non_zero_time t)
     \<and> time_zone_displacement t = 0 \<and>
     (case type of
        MYSQL_TYPE_TIME \<Rightarrow> time_type t = MYSQL_TIMESTAMP_TIME \<and> \<not> non_zero_date t
      | MYSQL_TYPE_DATE \<Rightarrow> time_type t = MYSQL_TIMESTAMP_DATE \<and> \<not> non_zero_time t \<and> \<not> neg t
      | MYSQL_TYPE_DATETIME \<Rightarrow> time_type t = MYSQL_TIMESTAMP_DATETIME
      | MYSQL_TYPE_TIMESTAMP \<Rightarrow> time_type t = MYSQL_TIMESTAMP_DATETIME
      | _ \<Rightarrow> False)"

lemma value_zero:
  assumes "mt_unsigned t"
  shows "datetime_value t = 0 \<longleftrightarrow> \<not> non_zero_date t \<and> \<not> non_zero_time t"
    and "time_value t = 0 \<longleftrightarrow> \<not> non_zero_time t"
  using assms by (auto simp: mt_unsigned_def datetime_value_def time_value_def ymd_value_def hms_value_def
      non_zero_date_def non_zero_time_def)

lemma packable_cases:
  assumes "packable type t"
  shows "mt_unsigned t" "\<not> check_datetime_range t" "neg t \<Longrightarrow> non_zero_date t \<or> non_zero_time t"
    "time_zone_displacement t = 0"
    and "type = MYSQL_TYPE_TIME \<and> time_type t = MYSQL_TIMESTAMP_TIME \<and> \<not> non_zero_date t
      \<or> type = MYSQL_TYPE_DATE \<and> time_type t = MYSQL_TIMESTAMP_DATE \<and> \<not> non_zero_time t \<and> \<not> neg t
      \<or> (type = MYSQL_TYPE_DATETIME \<or> type = MYSQL_TYPE_TIMESTAMP) \<and> time_type t = MYSQL_TIMESTAMP_DATETIME"
  using assms by (auto simp: packable_def split: enum_field_types.splits)

lemma date_value: "\<not> non_zero_time t \<Longrightarrow> ymd_value t * 2 ^ 41 = datetime_value t"
  by (simp add: non_zero_time_def datetime_value_def hms_value_def)

text \<open>C28. Packed values: a date, datetime or timestamp that is in range is the same after
  packing and unpacking, whatever the structure it is unpacked into held before. So is a time, except
  for one field: unpacking a time does not write the displacement of the time zone, which stays what it was
  in the structure unpacked into.\<close>

theorem packed_roundtrip:
  assumes "packable type t"
  shows "TIME_from_longlong_packed type (TIME_to_longlong_packed_type t type) t' =
    (if type = MYSQL_TYPE_TIME then t\<lparr>time_zone_displacement := time_zone_displacement t'\<rparr> else t)"
proof -
  note c = packable_cases [OF assms]
  note z = value_zero [OF c(1)]
  from c(5) consider (time) "type = MYSQL_TYPE_TIME" "time_type t = MYSQL_TIMESTAMP_TIME" "\<not> non_zero_date t"
    | (date) "type = MYSQL_TYPE_DATE" "time_type t = MYSQL_TIMESTAMP_DATE" "\<not> non_zero_time t" "\<not> neg t"
    | (datetime) "type = MYSQL_TYPE_DATETIME \<or> type = MYSQL_TYPE_TIMESTAMP" "time_type t = MYSQL_TIMESTAMP_DATETIME"
    by blast
  then show ?thesis
  proof cases
    case time
    then have "TIME_to_longlong_time_packed t = (if neg t then - time_value t else time_value t)"
      using time_packed_eq [OF c(1,2)] by (simp add: non_zero_date_def)
    then show ?thesis
      using time z(2) c(3,4) unpack_time [OF c(1,2), of "neg t" t']
      by (auto simp: TIME_from_longlong_packed_def TIME_to_longlong_packed_type_def non_zero_date_def
          intro!: MYSQL_TIME.equality)
  next
    case date
    then have "TIME_to_longlong_date_packed t = datetime_value t"
      using datetime_packed_eq(2) [OF c(1,2)] date_value [OF date(3)] by simp
    then show ?thesis
      using date c(4) unpack_datetime [OF c(1,2), of False t']
      by (auto simp: TIME_from_longlong_packed_def TIME_to_longlong_packed_type_def
          TIME_from_longlong_date_packed_def intro!: MYSQL_TIME.equality)
  next
    case datetime
    then show ?thesis
      using z(1) c(3,4) unpack_datetime [OF c(1,2), of "neg t" t'] datetime_packed_eq(1) [OF c(1,2)]
      by (auto simp: TIME_from_longlong_packed_def TIME_to_longlong_packed_type_def
          intro!: MYSQL_TIME.equality)
  qed
qed

definition sample_time :: MYSQL_TIME where
  "sample_time = \<lparr>year = 0, month = 0, day = 0, hour = 838, minute = 59, second = 58, second_part = 123456,
     neg = True, time_type = MYSQL_TIMESTAMP_TIME, time_zone_displacement = 0\<rparr>"

definition sample_datetime :: MYSQL_TIME where
  "sample_datetime = \<lparr>year = 2024, month = 2, day = 29, hour = 23, minute = 59, second = 59, second_part = 999999,
     neg = False, time_type = MYSQL_TIMESTAMP_DATETIME, time_zone_displacement = 0\<rparr>"

lemmas sample_temporal_defs = sample_time_def sample_datetime_def packable_def mt_unsigned_def
  check_datetime_range_def non_zero_date_def non_zero_time_def TIME_MAX_HOUR_def

theorem packed_roundtrip_witness:
  "TIME_to_longlong_packed_type sample_time MYSQL_TYPE_TIME = - 57651245474368
   \<and> TIME_from_longlong_packed MYSQL_TYPE_TIME (TIME_to_longlong_packed_type sample_time MYSQL_TYPE_TIME)
       (sample_datetime\<lparr>time_zone_displacement := 3600\<rparr>) = sample_time\<lparr>time_zone_displacement := 3600\<rparr>
   \<and> TIME_from_longlong_packed MYSQL_TYPE_DATETIME (TIME_to_longlong_packed_type sample_datetime MYSQL_TYPE_DATETIME)
       sample_time = sample_datetime"
proof -
  have "packable MYSQL_TYPE_TIME sample_time" "packable MYSQL_TYPE_DATETIME sample_datetime"
    by (simp_all add: sample_temporal_defs)
  moreover have "TIME_to_longlong_packed_type sample_time MYSQL_TYPE_TIME = - 57651245474368" by code_simp
  ultimately show ?thesis
    using packed_roundtrip [of MYSQL_TYPE_TIME sample_time "sample_datetime\<lparr>time_zone_displacement := 3600\<rparr>"]
      packed_roundtrip [of MYSQL_TYPE_DATETIME sample_datetime sample_time] by simp
qed

section \<open>Order\<close>

text \<open>Numbers with three digits order like their digits, whatever the bases.\<close>

lemma digits_eq:
  fixes a b a' b' k :: int
  assumes "0 \<le> b" "b < k" "0 \<le> b'" "b' < k"
  shows "a * k + b = a' * k + b' \<longleftrightarrow> a = a' \<and> b = b'"
  using div_mod_digit [OF assms(1,2), of a] div_mod_digit [OF assms(3,4), of a'] by metis

lemma digits3_less:
  fixes a b c a' b' c' k l :: int
  assumes "0 \<le> b" "b < k" "0 \<le> b'" "b' < k" "0 \<le> c" "c < l" "0 \<le> c'" "c' < l"
  shows "(a * k + b) * l + c < (a' * k + b') * l + c' \<longleftrightarrow> a < a' \<or> a = a' \<and> (b < b' \<or> b = b' \<and> c < c')"
    and "(a * k + b) * l + c = (a' * k + b') * l + c' \<longleftrightarrow> a = a' \<and> b = b' \<and> c = c'"
  unfolding digits_less [OF assms(5-8)] digits_less [OF assms(1-4)] digits_eq [OF assms(5-8)] digits_eq [OF assms(1-4)]
  by auto

definition hms_seconds :: "MYSQL_TIME \<Rightarrow> int" where
  "hms_seconds t = (hour t * 60 + minute t) * 60 + second t"

text \<open>A time as a number of microseconds.\<close>

definition time_usec :: "MYSQL_TIME \<Rightarrow> int" where
  "time_usec t = (if neg t then -1 else 1) * (hms_seconds t * 1000000 + second_part t)"

lemma in_range_fields:
  assumes "mt_unsigned t" "\<not> check_datetime_range t"
  shows "0 \<le> year t" "year t < 10000" "0 \<le> month t" "month t < 13" "0 \<le> day t" "day t < 32" "0 \<le> hour t"
    "hour t < 839" "0 \<le> minute t" "minute t < 60" "0 \<le> second t" "second t < 60"
    "0 \<le> second_part t" "second_part t < 1000000"
  using assms by (auto simp: mt_unsigned_def check_datetime_range_def TIME_MAX_HOUR_def split: if_splits)

lemma hms_less:
  assumes "mt_unsigned a" "\<not> check_datetime_range a" "mt_unsigned b" "\<not> check_datetime_range b"
  shows "hms_value a < hms_value b \<longleftrightarrow> hms_seconds a < hms_seconds b"
    and "hms_value a = hms_value b \<longleftrightarrow> hms_seconds a = hms_seconds b"
proof -
  note f = in_range_fields [OF assms(1,2)] in_range_fields [OF assms(3,4)]
  show "hms_value a < hms_value b \<longleftrightarrow> hms_seconds a < hms_seconds b"
    unfolding hms_value_def hms_seconds_def by (subst (1 2) digits3_less) (use f in simp_all)
  show "hms_value a = hms_value b \<longleftrightarrow> hms_seconds a = hms_seconds b"
    unfolding hms_value_def hms_seconds_def by (subst (1 2) digits3_less) (use f in simp_all)
qed

lemma time_value_less:
  assumes "mt_unsigned a" "\<not> check_datetime_range a" "mt_unsigned b" "\<not> check_datetime_range b"
  shows "time_value a < time_value b \<longleftrightarrow>
    hms_seconds a * 1000000 + second_part a < hms_seconds b * 1000000 + second_part b"
proof -
  note f = in_range_fields [OF assms(1,2)] in_range_fields [OF assms(3,4)]
  show ?thesis unfolding time_value_def
    by (subst (1 2) digits_less) (use f hms_less [OF assms] in simp_all)
qed

lemma datetime_value_less:
  assumes "mt_unsigned a" "\<not> check_datetime_range a" "mt_unsigned b" "\<not> check_datetime_range b"
    and "time_type a \<noteq> MYSQL_TIMESTAMP_TIME" "time_type b \<noteq> MYSQL_TIMESTAMP_TIME"
  shows "datetime_value a < datetime_value b \<longleftrightarrow> my_time_compare a b = -1"
    and "datetime_value a = datetime_value b \<longleftrightarrow> my_time_compare a b = 0"
proof -
  note f = in_range_fields [OF assms(1,2)] in_range_fields [OF assms(3,4)]
  note g = datetime_fields [OF assms(1,2)] datetime_fields [OF assms(3,4)]
  define ymd where "ymd t = (year t * 100 + month t) * 100 + day t" for t :: MYSQL_TIME
  define hms where "hms t = (hour t * 100 + minute t) * 100 + second t" for t :: MYSQL_TIME
  have h: "0 \<le> hms t" "hms t < 1000000" "0 \<le> ymd t" "ymd t < 2 ^ 40"
    if "mt_unsigned t" "\<not> check_datetime_range t" "time_type t \<noteq> MYSQL_TIMESTAMP_TIME" for t
    using that by (auto simp: mt_unsigned_def check_datetime_range_def hms_def ymd_def)
  have u: "TIME_to_ulonglong_datetime t = ymd t * 1000000 + hms t"
    if "mt_unsigned t" "\<not> check_datetime_range t" "time_type t \<noteq> MYSQL_TIMESTAMP_TIME" for t
  proof -
    have "year t * 10000 + month t * 100 + day t = ymd t" "hour t * 10000 + minute t * 100 + second t = hms t"
      by (simp_all add: ymd_def hms_def)
    then show ?thesis using h [OF that] by (simp add: TIME_to_ulonglong_datetime_def u64_id)
  qed
  have hm: "hms_value a < hms_value b \<longleftrightarrow> hms a < hms b" "hms_value a = hms_value b \<longleftrightarrow> hms a = hms b"
    unfolding hms_value_def hms_def by (subst (1 2) digits3_less; use f in simp)+
  have ym: "ymd_value a < ymd_value b \<longleftrightarrow> ymd a < ymd b" "ymd_value a = ymd_value b \<longleftrightarrow> ymd a = ymd b"
    unfolding ymd_value_def ymd_def by (subst (1 2) digits3_less; use f in simp)+
  have v: "ymd_value a * 2 ^ 17 + hms_value a < ymd_value b * 2 ^ 17 + hms_value b
      \<longleftrightarrow> ymd a * 1000000 + hms a < ymd b * 1000000 + hms b"
    "ymd_value a * 2 ^ 17 + hms_value a = ymd_value b * 2 ^ 17 + hms_value b
      \<longleftrightarrow> ymd a * 1000000 + hms a = ymd b * 1000000 + hms b"
    using g h [of a] h [of b] assms hm ym by (simp_all only: digits_less digits_eq simp_thms)
  show "datetime_value a < datetime_value b \<longleftrightarrow> my_time_compare a b = -1"
    "datetime_value a = datetime_value b \<longleftrightarrow> my_time_compare a b = 0"
    unfolding datetime_value_def digits_less [OF g(5,6) g(12,13)] digits_eq [OF g(5,6) g(12,13)] v
      my_time_compare_def Let_def u [OF assms(1,2,5)] u [OF assms(3,4,6)] by auto
qed

lemma usec_zero:
  assumes "mt_unsigned t"
  shows "hms_seconds t * 1000000 + second_part t = 0 \<longleftrightarrow> \<not> non_zero_time t"
  using assms by (auto simp: mt_unsigned_def hms_seconds_def non_zero_time_def)

lemma time_packed_less:
  assumes "packable MYSQL_TYPE_TIME a" "packable MYSQL_TYPE_TIME b"
  shows "TIME_to_longlong_time_packed a < TIME_to_longlong_time_packed b \<longleftrightarrow> time_usec a < time_usec b"
proof -
  note a = packable_cases [OF assms(1)] and b = packable_cases [OF assms(2)]
  have d: "\<not> non_zero_date a" "\<not> non_zero_date b" using a(5) b(5) by simp_all
  have p: "TIME_to_longlong_time_packed a = (if neg a then - time_value a else time_value a)"
    "TIME_to_longlong_time_packed b = (if neg b then - time_value b else time_value b)"
    using time_packed_eq [OF a(1,2)] time_packed_eq [OF b(1,2)] d by (simp_all add: non_zero_date_def)
  have pos: "0 \<le> time_value t" "0 \<le> hms_seconds t * 1000000 + second_part t"
    "time_value t = 0 \<longleftrightarrow> hms_seconds t * 1000000 + second_part t = 0"
    if "mt_unsigned t" for t
    using that usec_zero [OF that] value_zero(2) [OF that]
    by (simp_all add: mt_unsigned_def time_value_def hms_value_def hms_seconds_def)
  have nz: "neg a \<Longrightarrow> time_value a \<noteq> 0" "neg b \<Longrightarrow> time_value b \<noteq> 0"
    using a(3) b(3) d value_zero(2) [OF a(1)] value_zero(2) [OF b(1)] by blast+
  show ?thesis
    using p nz pos [OF a(1)] pos [OF b(1)] time_value_less [OF a(1,2) b(1,2)] time_value_less [OF b(1,2) a(1,2)]
    by (auto simp: time_usec_def)
qed

text \<open>C27. Order: packed times compare like the numbers of microseconds they stand for, sign
  included; packed dates and datetimes that are not negative compare as
  \<open>my_time_compare\<close> says.\<close>

theorem packed_order:
  assumes "packable type a" "packable type b"
  shows "if type = MYSQL_TYPE_TIME
    then TIME_to_longlong_packed_type a type < TIME_to_longlong_packed_type b type \<longleftrightarrow> time_usec a < time_usec b
    else \<not> neg a \<and> \<not> neg b \<longrightarrow>
      (TIME_to_longlong_packed_type a type < TIME_to_longlong_packed_type b type \<longleftrightarrow> my_time_compare a b = -1)
      \<and> (TIME_to_longlong_packed_type a type = TIME_to_longlong_packed_type b type \<longleftrightarrow> my_time_compare a b = 0)"
proof (cases "type = MYSQL_TYPE_TIME")
  case True
  then show ?thesis using time_packed_less assms by (simp add: TIME_to_longlong_packed_type_def)
next
  case False
  note a = packable_cases [OF assms(1)] and b = packable_cases [OF assms(2)]
  have t: "time_type a \<noteq> MYSQL_TIMESTAMP_TIME" "time_type b \<noteq> MYSQL_TIMESTAMP_TIME"
    using a(5) b(5) False by auto
  have p: "TIME_to_longlong_packed_type x type = datetime_value x"
    if "packable type x" "\<not> neg x" "time_type x \<noteq> MYSQL_TIMESTAMP_TIME" for x
    using packable_cases [OF that(1)] that datetime_packed_eq [of x] date_value [of x]
    by (auto simp: TIME_to_longlong_packed_type_def)
  show ?thesis
    using False p [OF assms(1) _ t(1)] p [OF assms(2) _ t(2)] datetime_value_less [OF a(1,2) b(1,2) t] by auto
qed

theorem packed_order_witness:
  "TIME_to_longlong_packed_type sample_time MYSQL_TYPE_TIME
     < TIME_to_longlong_packed_type (sample_time\<lparr>second_part := 123455\<rparr>) MYSQL_TYPE_TIME
   \<and> time_usec sample_time = - 3020398123456"
proof -
  have p: "packable MYSQL_TYPE_TIME sample_time" "packable MYSQL_TYPE_TIME (sample_time\<lparr>second_part := 123455\<rparr>)"
    by (simp_all add: sample_temporal_defs)
  have "time_usec sample_time = - 3020398123456" "time_usec (sample_time\<lparr>second_part := 123455\<rparr>) = - 3020398123455"
    by (simp_all add: time_usec_def hms_seconds_def sample_time_def)
  then show ?thesis using packed_order [OF p] by simp
qed

end
