(* ===== verification/Temporal_Stored.thy ===== *)
theory Temporal_Stored
  imports Temporal_Packed
begin

text \<open>
  Temporal values as they are stored: what is read back is what was written, and the bytes
  order under \<open>memcmp\<close> like the packed numbers, negative times included.
\<close>

text \<open>
  A packed number that a field with \<open>dec\<close> decimals can hold: its fraction has been
  rounded to that precision before.
\<close>

definition storable :: "nat \<Rightarrow> int \<Rightarrow> bool" where
  "storable dec nr \<longleftrightarrow> \<bar>nr\<bar> mod 2 ^ 24 < 1000000 \<and> 10 ^ (6 - dec) dvd \<bar>nr\<bar> mod 2 ^ 24"

text \<open>The unit a stored fraction counts in, and its number of bytes.\<close>

definition frac_unit :: "nat \<Rightarrow> int" where
  "frac_unit dec = (if dec = 0 then 1000000 else if dec \<le> 2 then 10000 else if dec \<le> 4 then 100 else 1)"

definition frac_bytes :: "nat \<Rightarrow> nat" where
  "frac_bytes dec = (dec + 1) div 2"

lemma dec_cases: "dec \<le> 6 \<Longrightarrow> dec = 0 \<or> dec = 1 \<or> dec = 2 \<or> dec = 3 \<or> dec = 4 \<or> dec = 5 \<or> dec = (6::nat)"
  by linarith

lemma storable_parts:
  assumes "storable dec nr" "dec \<le> 6"
  obtains h k where "\<bar>nr\<bar> = h * 2 ^ 24 + k * frac_unit dec" "0 \<le> h" "0 \<le> k" "k * frac_unit dec < 1000000"
proof -
  define f where "f = \<bar>nr\<bar> mod 2 ^ 24"
  have "frac_unit dec dvd 10 ^ (6 - dec)" using dec_cases [OF assms(2)] by (elim disjE) (simp_all add: frac_unit_def)
  then have "frac_unit dec dvd f" using assms(1) unfolding storable_def f_def by (blast intro: dvd_trans)
  then obtain k where k: "f = k * frac_unit dec" by (auto simp: dvd_def mult.commute)
  have "0 \<le> f" "f < 1000000" using assms(1) by (simp_all add: f_def storable_def)
  moreover have "0 < frac_unit dec" by (simp add: frac_unit_def)
  ultimately have "0 \<le> k" using k by (simp add: zero_le_mult_iff)
  moreover have "\<bar>nr\<bar> = \<bar>nr\<bar> div 2 ^ 24 * 2 ^ 24 + f" by (simp add: f_def)
  moreover have "0 \<le> \<bar>nr\<bar> div 2 ^ 24" by (simp add: pos_imp_zdiv_nonneg_iff)
  ultimately show ?thesis using that k \<open>f < 1000000\<close> by metis
qed

text \<open>The two parts of a packed number.\<close>

lemma packed_parts_pos:
  assumes "0 \<le> f" "f < 2 ^ 24" "0 \<le> h"
  shows "my_packed_time_get_int_part (h * 2 ^ 24 + f) = h" "my_packed_time_get_frac_part (h * 2 ^ 24 + f) = f"
proof -
  note d = div_mod_digit [OF assms(1,2), of h]
  show "my_packed_time_get_int_part (h * 2 ^ 24 + f) = h"
    unfolding my_packed_time_get_int_part_def drop_bit_div by (rule d)
  have "0 \<le> h * 2 ^ 24 + f" using assms by simp
  then have "(h * 2 ^ 24 + f) smod 2 ^ 24 = (h * 2 ^ 24 + f) mod 2 ^ 24" by (simp only: smod_nonneg zero_le_power zero_le_numeral)
  then show "my_packed_time_get_frac_part (h * 2 ^ 24 + f) = f"
    unfolding my_packed_time_get_frac_part_def using d(2) by (rule trans)
qed

lemma packed_parts_neg:
  assumes "0 \<le> f" "f < 2 ^ 24" "0 \<le> h"
  shows "my_packed_time_get_int_part (- (h * 2 ^ 24 + f)) = (if f = 0 then - h else - h - 1)"
    "my_packed_time_get_frac_part (- (h * 2 ^ 24 + f)) = - f"
proof -
  have "- (h * 2 ^ 24 + f) = (if f = 0 then (- h) * 2 ^ 24 + 0 else (- h - 1) * 2 ^ 24 + (2 ^ 24 - f))"
    by (simp add: algebra_simps)
  then show "my_packed_time_get_int_part (- (h * 2 ^ 24 + f)) = (if f = 0 then - h else - h - 1)"
    using div_mod_digit(1) [of 0 "2 ^ 24" "- h"] div_mod_digit(1) [of "2 ^ 24 - f" "2 ^ 24" "- h - 1"] assms
    unfolding my_packed_time_get_int_part_def drop_bit_div by (simp only: split: if_splits) simp_all
  have "my_packed_time_get_frac_part (- x) = - my_packed_time_get_frac_part x" for x
    unfolding my_packed_time_get_frac_part_def by (simp add: signed_modulo_int_def signed_divide_int_def sgn_minus)
  then show "my_packed_time_get_frac_part (- (h * 2 ^ 24 + f)) = - f"
    using packed_parts_pos(2) [OF assms] by (simp only:)
qed

text \<open>
  The integer part and the fraction that are stored, for a number with the absolute value
  \<open>h * 2 ^ 24 + k * unit\<close>; \<open>base\<close> is one more than the largest stored fraction.
\<close>

lemma stored_parts:
  fixes h k U B :: int
  assumes "nr = h * 2 ^ 24 + k * U \<or> nr = - (h * 2 ^ 24 + k * U)"
    and "0 \<le> h" "0 \<le> k" "k < B" "0 < U" "k * U < 2 ^ 24"
  defines "i \<equiv> my_packed_time_get_int_part nr" and "q \<equiv> my_packed_time_get_frac_part nr sdiv U"
  shows "nr = h * 2 ^ 24 + k * U \<Longrightarrow> i = h \<and> q mod B = k"
    and "nr = - (h * 2 ^ 24 + k * U) \<Longrightarrow> k = 0 \<Longrightarrow> i = - h \<and> q mod B = 0"
    and "nr = - (h * 2 ^ 24 + k * U) \<Longrightarrow> k \<noteq> 0 \<Longrightarrow> i = - h - 1 \<and> q mod B = B - k"
proof -
  have f: "0 \<le> k * U" using assms by simp
  have d: "(k * U) sdiv U = k" "(- (k * U)) sdiv U = - k"
  proof -
    show p: "(k * U) sdiv U = k" using assms(3,5) by (simp add: sdiv_nonneg)
    then show "(- (k * U)) sdiv U = - k" by (simp add: signed_divide_int_def sgn_minus)
  qed
  note pos = packed_parts_pos [OF f assms(6,2)] and neg = packed_parts_neg [OF f assms(6,2)]
  have B: "k mod B = k" "0 < B" using assms(3,4) by simp_all
  show "i = h \<and> q mod B = k" if "nr = h * 2 ^ 24 + k * U"
    unfolding i_def q_def that pos d using B by simp
  show "i = - h \<and> q mod B = 0" if "nr = - (h * 2 ^ 24 + k * U)" "k = 0"
    unfolding i_def q_def that(1) neg d using that(2) by simp
  show "i = - h - 1 \<and> q mod B = B - k" if "nr = - (h * 2 ^ 24 + k * U)" "k \<noteq> 0"
  proof -
    have "- k mod B = B - k mod B" using zmod_zminus1_eq_if [of k B] B that(2) by simp
    then show ?thesis unfolding i_def q_def that(1) neg d using B that(2) assms(5) by simp
  qed
qed

lemma be_val_le_bytes: "be_val (rev (le_bytes n x)) = x mod 2 ^ (8 * n)"
  by (simp add: be_val_def le_val_le_bytes power_mult)

lemma be_val_stores:
  "be_val (mi_int2store x) = x mod 2 ^ 16" "be_val (mi_int3store x) = x mod 2 ^ 24"
  "be_val (mi_int4store x) = x mod 2 ^ 32" "be_val (mi_int5store x) = x mod 2 ^ 40"
  "be_val (mi_int6store x) = x mod 2 ^ 48" "be_val [u8 x] = x mod 2 ^ 8"
  unfolding mi_store_be_bytes mi_store_be_bytes_long be_val_le_bytes
  by (simp_all add: be_val_def u8_def)

lemma length_stores [simp]:
  "length (mi_int2store x) = 2" "length (mi_int3store x) = 3" "length (mi_int4store x) = 4"
  "length (mi_int5store x) = 5" "length (mi_int6store x) = 6"
  unfolding mi_store_be_bytes mi_store_be_bytes_long by simp_all

lemma is_bytes_stores [simp]:
  "is_bytes (mi_int2store x)" "is_bytes (mi_int3store x)" "is_bytes (mi_int4store x)"
  "is_bytes (mi_int5store x)" "is_bytes (mi_int6store x)" "0 \<le> u8 x" "u8 x < 256"
  unfolding mi_store_be_bytes mi_store_be_bytes_long by (simp_all add: u8_def)

section \<open>Times\<close>

text \<open>The number that is stored, before the offset that makes it positive is added.\<close>

definition stored_abs :: "nat \<Rightarrow> int \<Rightarrow> int" where
  "stored_abs dec a = a div 2 ^ 24 * 2 ^ (8 * frac_bytes dec) + a mod 2 ^ 24 div frac_unit dec"

definition stored_value :: "nat \<Rightarrow> int \<Rightarrow> int" where
  "stored_value dec nr = (if nr < 0 then - stored_abs dec \<bar>nr\<bar> else stored_abs dec \<bar>nr\<bar>)"

lemma stored_digits:
  assumes "storable dec nr" "dec \<le> 6"
  defines "h \<equiv> \<bar>nr\<bar> div 2 ^ 24" and "k \<equiv> \<bar>nr\<bar> mod 2 ^ 24 div frac_unit dec"
  shows "\<bar>nr\<bar> = h * 2 ^ 24 + k * frac_unit dec" "0 \<le> h" "0 \<le> k" "k < 2 ^ (8 * frac_bytes dec)"
    "k * frac_unit dec < 1000000" "0 < frac_unit dec"
proof -
  obtain h' k' where p: "\<bar>nr\<bar> = h' * 2 ^ 24 + k' * frac_unit dec" "0 \<le> h'" "0 \<le> k'" "k' * frac_unit dec < 1000000"
    by (rule storable_parts [OF assms(1,2)])
  have U: "0 < frac_unit dec" by (simp add: frac_unit_def)
  then have "0 \<le> k' * frac_unit dec" "k' * frac_unit dec < 2 ^ 24" using p(3,4) by simp_all
  note d = div_mod_digit [OF this, of h', folded p(1)]
  have e: "h = h'" "k = k'" unfolding h_def k_def d using U by simp_all
  have "k < 2 ^ (8 * frac_bytes dec)"
    using dec_cases [OF assms(2)] p(3,4) unfolding e
    by (elim disjE) (simp_all add: frac_unit_def frac_bytes_def)
  then show "\<bar>nr\<bar> = h * 2 ^ 24 + k * frac_unit dec" "0 \<le> h" "0 \<le> k" "k < 2 ^ (8 * frac_bytes dec)"
    "k * frac_unit dec < 1000000" "0 < frac_unit dec"
    using p U unfolding e by simp_all
qed

lemma stored_abs_pos:
  assumes "storable dec nr" "dec \<le> 6"
  shows "0 \<le> stored_abs dec \<bar>nr\<bar>" "stored_abs dec \<bar>nr\<bar> = 0 \<longleftrightarrow> nr = 0"
proof -
  define h k where "h = \<bar>nr\<bar> div 2 ^ 24" and "k = \<bar>nr\<bar> mod 2 ^ 24 div frac_unit dec"
  note s = stored_digits [OF assms, folded h_def k_def]
  have e: "stored_abs dec \<bar>nr\<bar> = h * 2 ^ (8 * frac_bytes dec) + k" by (simp add: stored_abs_def h_def k_def)
  have "nr = 0 \<longleftrightarrow> h * 2 ^ 24 + k * frac_unit dec = 0" using s(1) by linarith
  also have "\<dots> \<longleftrightarrow> h = 0 \<and> k = 0" using s(2,3,6) by (simp add: add_nonneg_eq_0_iff)
  finally show "stored_abs dec \<bar>nr\<bar> = 0 \<longleftrightarrow> nr = 0" unfolding e using s(2,3) by (simp add: add_nonneg_eq_0_iff)
  show "0 \<le> stored_abs dec \<bar>nr\<bar>" unfolding e using s(2,3) by simp
qed

lemma stored_abs_less:
  assumes "storable dec x" "storable dec y" "dec \<le> 6"
  shows "stored_abs dec \<bar>x\<bar> < stored_abs dec \<bar>y\<bar> \<longleftrightarrow> \<bar>x\<bar> < \<bar>y\<bar>"
proof -
  define h k h' k' where "h = \<bar>x\<bar> div 2 ^ 24" and "k = \<bar>x\<bar> mod 2 ^ 24 div frac_unit dec"
    and "h' = \<bar>y\<bar> div 2 ^ 24" and "k' = \<bar>y\<bar> mod 2 ^ 24 div frac_unit dec"
  note s = stored_digits [OF assms(1,3), folded h_def k_def]
    and t = stored_digits [OF assms(2,3), folded h'_def k'_def]
  have "\<bar>x\<bar> < \<bar>y\<bar> \<longleftrightarrow> h < h' \<or> h = h' \<and> k * frac_unit dec < k' * frac_unit dec"
    unfolding s(1) t(1) by (rule digits_less) (use s t in simp_all)
  moreover have "stored_abs dec \<bar>x\<bar> < stored_abs dec \<bar>y\<bar> \<longleftrightarrow> h < h' \<or> h = h' \<and> k < k'"
    unfolding stored_abs_def h_def [symmetric] k_def [symmetric] h'_def [symmetric] k'_def [symmetric]
    by (rule digits_less) (use s t in simp_all)
  moreover have "k * frac_unit dec < k' * frac_unit dec \<longleftrightarrow> k < k'" using s(6) by simp
  ultimately show ?thesis by simp
qed

lemma stored_value_less:
  assumes "storable dec a" "storable dec b" "dec \<le> 6"
  shows "stored_value dec a < stored_value dec b \<longleftrightarrow> a < b"
  using stored_abs_pos [OF assms(1,3)] stored_abs_pos [OF assms(2,3)]
    stored_abs_less [OF assms] stored_abs_less [OF assms(2,1,3)]
  unfolding stored_value_def by auto

text \<open>The stored parts make up the stored number, and give the packed number back.\<close>

definition unstore :: "int \<Rightarrow> int \<Rightarrow> int \<Rightarrow> int \<Rightarrow> int" where
  "unstore B U i f = (if i < 0 \<and> f \<noteq> 0 then my_packed_time_make (i + 1) ((f - B) * U)
     else my_packed_time_make i (f * U))"

lemma stored_number:
  assumes "storable dec nr" "dec \<le> 6" "\<bar>nr\<bar> < 2 ^ 46"
  defines "i \<equiv> my_packed_time_get_int_part nr" and "B \<equiv> 2 ^ (8 * frac_bytes dec)"
    and "f \<equiv> my_packed_time_get_frac_part nr sdiv frac_unit dec mod 2 ^ (8 * frac_bytes dec)"
  shows "i * B + f = stored_value dec nr" "- (2 ^ 22) - 1 \<le> i" "i < 2 ^ 22" "unstore B (frac_unit dec) i f = nr"
proof -
  define h k where "h = \<bar>nr\<bar> div 2 ^ 24" and "k = \<bar>nr\<bar> mod 2 ^ 24 div frac_unit dec"
  note s = stored_digits [OF assms(1,2), folded h_def k_def B_def]
  have kU: "0 \<le> k * frac_unit dec" "k * frac_unit dec < 2 ^ 24" using s(3,5,6) by simp_all
  have h: "h < 2 ^ 22" using s(1) kU(1) assms(3) by simp
  have sv: "stored_value dec nr = (if nr < 0 then - (h * B + k) else h * B + k)"
    by (simp add: stored_value_def stored_abs_def h_def k_def B_def)
  have nr: "nr = h * 2 ^ 24 + k * frac_unit dec \<or> nr = - (h * 2 ^ 24 + k * frac_unit dec)" using s(1) by linarith
  note p = stored_parts [OF nr s(2,3,4,6) kU(2), folded i_def f_def [folded B_def]]
  have mk: "my_packed_time_make j g = j * 2 ^ 24 + g" if "\<bar>j\<bar> \<le> 2 ^ 22" "\<bar>g\<bar> < 2 ^ 24" for j g
    using that by (intro make_eq) simp_all
  consider (pos) "0 \<le> nr" "nr = h * 2 ^ 24 + k * frac_unit dec"
    | (whole) "nr < 0" "nr = - (h * 2 ^ 24 + k * frac_unit dec)" "k = 0"
    | (frac) "nr < 0" "nr = - (h * 2 ^ 24 + k * frac_unit dec)" "k \<noteq> 0"
    using s(1) by linarith
  then have "i * B + f = stored_value dec nr \<and> - (2 ^ 22) - 1 \<le> i \<and> i < 2 ^ 22 \<and> unstore B (frac_unit dec) i f = nr"
  proof cases
    case pos
    note r = p(1) [OF pos(2)]
    then have "my_packed_time_make i (f * frac_unit dec) = nr" using mk [of h] s(2) h kU pos(2) by simp
    then show ?thesis using r pos(1) s(2) h sv by (simp add: unstore_def)
  next
    case whole
    note r = p(2) [OF whole(2,3)]
    then have "my_packed_time_make i (f * frac_unit dec) = nr" using mk [of "- h" 0] s(2) h whole(2,3) by simp
    then show ?thesis using r whole s(2) h sv by (simp add: unstore_def)
  next
    case frac
    note r = p(3) [OF frac(2,3)]
    have "(B - k - B) * frac_unit dec = - (k * frac_unit dec)" by simp
    then have "my_packed_time_make (i + 1) ((f - B) * frac_unit dec) = nr"
      using r mk [of "- h" "- (k * frac_unit dec)"] s(2) h kU frac(2) by simp
    moreover have "f \<noteq> 0" "i < 0" using r s(2,4) by simp_all
    ultimately have "unstore B (frac_unit dec) i f = nr" by (simp add: unstore_def)
    moreover have "i * B + f = - (h * B + k)" using r by (simp add: left_diff_distrib)
    ultimately show ?thesis using r frac(1) s(2) h sv by simp
  qed
  then show "i * B + f = stored_value dec nr" "- (2 ^ 22) - 1 \<le> i" "i < 2 ^ 22" "unstore B (frac_unit dec) i f = nr"
    by simp_all
qed

lemma make_int: "my_packed_time_make_int j = my_packed_time_make j 0"
  by (simp add: my_packed_time_make_int_def my_packed_time_make_def)

text \<open>What is stored, as a number with its bytes as digits.\<close>

lemma time_stored:
  assumes "storable dec nr" "dec \<le> 6" "\<bar>nr\<bar> < 2 ^ 46"
  shows "be_val (my_time_packed_to_binary nr dec) = 2 ^ 23 * 2 ^ (8 * frac_bytes dec) + stored_value dec nr"
    and "my_time_packed_from_binary (my_time_packed_to_binary nr dec) dec = nr"
proof -
  define i where "i = my_packed_time_get_int_part nr"
  note n = stored_number [OF assms, folded i_def]
  have i: "(TIMEF_INT_OFS + i) mod 2 ^ 24 = 2 ^ 23 + i" using n(2,3) by (simp add: TIMEF_INT_OFS_def)
  have full: "stored_value dec nr = nr" if "dec = 5 \<or> dec = 6"
  proof -
    have "frac_bytes dec = 3" "frac_unit dec = 1" using that by (auto simp: frac_bytes_def frac_unit_def)
    then have "stored_abs dec a = a" for a by (simp add: stored_abs_def)
    then show ?thesis by (simp add: stored_value_def)
  qed
  from dec_cases [OF assms(2)] consider (0) "dec = 0" | (1) "dec = 1 \<or> dec = 2" | (2) "dec = 3 \<or> dec = 4"
    | (3) "dec = 5 \<or> dec = 6" by blast
  then have "be_val (my_time_packed_to_binary nr dec) = 2 ^ 23 * 2 ^ (8 * frac_bytes dec) + stored_value dec nr
    \<and> my_time_packed_from_binary (my_time_packed_to_binary nr dec) dec = nr"
  proof cases
    case 0
    then show ?thesis using n i
      by (simp add: my_time_packed_to_binary_def my_time_packed_from_binary_def be_val_stores frac_bytes_def
          i_def [symmetric] korr_val unstore_def make_int TIMEF_INT_OFS_def)
  next
    case 1
    then have B: "frac_bytes dec = 1" "frac_unit dec = 10000" by (auto simp: frac_bytes_def frac_unit_def)
    define f where "f = my_packed_time_get_frac_part nr sdiv 10000 mod 2 ^ 8"
    have w: "my_time_packed_to_binary nr dec = mi_int3store (TIMEF_INT_OFS + i) @ [f]"
      using 1 by (auto simp: my_time_packed_to_binary_def Let_def i_def f_def u8_def)
    have "my_time_packed_from_binary (my_time_packed_to_binary nr dec) dec = unstore (2 ^ 8) 10000 i f"
      using 1 i unfolding w
      by (auto simp: my_time_packed_from_binary_def unstore_def nth_append korr_val be_val_stores TIMEF_INT_OFS_def)
    then show ?thesis using n(1,4) i unfolding B w by (simp add: be_val_append be_val_stores f_def)
  next
    case 2
    then have B: "frac_bytes dec = 2" "frac_unit dec = 100" by (auto simp: frac_bytes_def frac_unit_def)
    define q where "q = my_packed_time_get_frac_part nr sdiv 100"
    have w: "my_time_packed_to_binary nr dec = mi_int3store (TIMEF_INT_OFS + i) @ mi_int2store q"
      using 2 by (auto simp: my_time_packed_to_binary_def Let_def i_def q_def)
    have "my_time_packed_from_binary (my_time_packed_to_binary nr dec) dec = unstore (2 ^ 16) 100 i (q mod 2 ^ 16)"
      using 2 i unfolding w
      by (auto simp: my_time_packed_from_binary_def unstore_def korr_val be_val_stores TIMEF_INT_OFS_def)
    then show ?thesis using n(1,4) i unfolding B w by (simp add: be_val_append be_val_stores q_def)
  next
    case 3
    have w: "my_time_packed_to_binary nr dec = mi_int6store (nr + TIMEF_OFS)"
      using 3 by (auto simp: my_time_packed_to_binary_def)
    have m: "(nr + TIMEF_OFS) mod 2 ^ 48 = nr + 2 ^ 47" using assms(3) by (simp add: TIMEF_OFS_def)
    have "my_time_packed_from_binary (mi_int6store (nr + TIMEF_OFS)) dec
        = s64 (mi_uint6korr (mi_int6store (nr + TIMEF_OFS))) - TIMEF_OFS"
      using 3 by (auto simp: my_time_packed_from_binary_def Let_def)
    also have "mi_uint6korr (mi_int6store (nr + TIMEF_OFS)) = nr + 2 ^ 47"
      using korr_val_long [of "mi_int6store (nr + TIMEF_OFS)"] m by (simp add: be_val_stores)
    also have "s64 (nr + 2 ^ 47) - TIMEF_OFS = nr" using assms(3) by (simp add: s64_id TIMEF_OFS_def)
    finally show ?thesis using full [OF 3] m 3 unfolding w by (auto simp: be_val_stores frac_bytes_def)
  qed
  then show "be_val (my_time_packed_to_binary nr dec) = 2 ^ 23 * 2 ^ (8 * frac_bytes dec) + stored_value dec nr"
    "my_time_packed_from_binary (my_time_packed_to_binary nr dec) dec = nr" by simp_all
qed

section \<open>Datetimes and timestamps\<close>

lemma sint2korr_small: "mi_uint2korr bs < 2 ^ 15 \<Longrightarrow> mi_sint2korr bs = mi_uint2korr bs"
  by (simp add: mi_uint2korr_def mi_sint2korr_def Let_def)

lemma sint3korr_small:
  assumes "mi_uint3korr bs < 2 ^ 23" "is_bytes bs" "3 \<le> length bs"
  shows "mi_sint3korr bs = mi_uint3korr bs"
proof -
  have "0 \<le> bs ! 0" "0 \<le> bs ! 1" "0 \<le> bs ! 2"
    using is_bytes_nth [OF assms(2), of 0] is_bytes_nth [OF assms(2), of 1] is_bytes_nth [OF assms(2), of 2] assms(3)
    by linarith+
  then show ?thesis using assms(1) by (simp add: mi_uint3korr_def mi_sint3korr_def s32_id)
qed

text \<open>The fraction that follows the integer part, written and read.\<close>

lemma frac_stored:
  assumes "0 \<le> f" "f < 1000000" "frac_unit dec dvd f" "dec \<le> 6"
  shows "dec = 1 \<or> dec = 2 \<Longrightarrow> f sdiv 10000 mod 2 ^ 8 = f div 10000 \<and> s8 (f div 10000) * 10000 = f
      \<and> is_bytes [f div 10000]"
    and "dec = 3 \<or> dec = 4 \<Longrightarrow> mi_sint2korr (mi_int2store (f sdiv 100)) * 100 = f
      \<and> f sdiv 100 mod 2 ^ 16 = f div 100"
    and "dec = 5 \<or> dec = 6 \<Longrightarrow> mi_sint3korr (mi_int3store f) = f \<and> f mod 2 ^ 24 = f"
proof -
  obtain k where k: "f = k * frac_unit dec" using assms(3) by (auto simp: dvd_def mult.commute)
  show "f sdiv 10000 mod 2 ^ 8 = f div 10000 \<and> s8 (f div 10000) * 10000 = f
      \<and> is_bytes [f div 10000]" if "dec = 1 \<or> dec = 2"
  proof -
    have f: "f = k * 10000" using k that by (auto simp: frac_unit_def)
    then have "f sdiv 10000 mod 2 ^ 8 = k" "f div 10000 = k" "0 \<le> k" "k < 100"
      using assms(1,2) by (simp_all add: sdiv_nonneg)
    then show ?thesis using f by (simp add: s8_id)
  qed
  show "mi_sint2korr (mi_int2store (f sdiv 100)) * 100 = f \<and> f sdiv 100 mod 2 ^ 16 = f div 100"
    if "dec = 3 \<or> dec = 4"
  proof -
    have f: "f = k * 100" using k that by (auto simp: frac_unit_def)
    then have k': "f sdiv 100 = k" "0 \<le> k" "k < 10000" using assms(1,2) by (simp_all add: sdiv_nonneg)
    then have "mi_uint2korr (mi_int2store k) = k" by (simp add: korr_val be_val_stores)
    then show ?thesis using f k' sint2korr_small [of "mi_int2store k"] by simp
  qed
  show "mi_sint3korr (mi_int3store f) = f \<and> f mod 2 ^ 24 = f" if "dec = 5 \<or> dec = 6"
  proof -
    have "mi_uint3korr (mi_int3store f) = f" using assms(1,2) by (simp add: korr_val be_val_stores)
    then show ?thesis using assms(1,2) sint3korr_small [of "mi_int3store f"] by (simp add: is_bytes_stores length_stores)
  qed
qed

lemma datetime_stored:
  assumes "storable dec nr" "dec \<le> 6" "0 \<le> nr" "nr < 2 ^ 63"
  shows "be_val (my_datetime_packed_to_binary nr dec) = 2 ^ 39 * 2 ^ (8 * frac_bytes dec) + stored_value dec nr"
    and "my_datetime_packed_from_binary (my_datetime_packed_to_binary nr dec) dec = nr"
proof -
  define h f where "h = nr div 2 ^ 24" and "f = nr mod 2 ^ 24"
  have nr: "nr = h * 2 ^ 24 + f" by (simp add: h_def f_def)
  have f: "0 \<le> f" "f < 1000000" "frac_unit dec dvd f" "f < 2 ^ 24"
  proof -
    have "frac_unit dec dvd 10 ^ (6 - dec)" using dec_cases [OF assms(2)] by (elim disjE) (simp_all add: frac_unit_def)
    then show "frac_unit dec dvd f" using assms(1,3) unfolding storable_def f_def by (auto intro: dvd_trans)
  qed (use assms(1,3) in \<open>simp_all add: f_def storable_def\<close>)
  have h: "0 \<le> h" "h < 2 ^ 39" using assms(3,4) by (simp_all add: h_def)
  note p = packed_parts_pos [OF f(1,4) h(1), folded nr]
  have i: "(h + DATETIMEF_INT_OFS) mod 2 ^ 40 = 2 ^ 39 + h" "2 ^ 39 + h - DATETIMEF_INT_OFS = h"
    using h by (simp_all add: DATETIMEF_INT_OFS_def)
  have mk: "my_packed_time_make h f = nr" "my_packed_time_make_int h = h * 2 ^ 24"
    using h f nr make_eq [of h f] by simp_all
  have k5: "mi_uint5korr (mi_int5store (h + DATETIMEF_INT_OFS) @ bs) = 2 ^ 39 + h" if "is_bytes bs" for bs
    using korr_val_long(4) [of "mi_int5store (h + DATETIMEF_INT_OFS) @ bs"] that i(1) by (simp add: be_val_stores)
  have sv: "stored_value dec nr = h * 2 ^ (8 * frac_bytes dec) + f div frac_unit dec"
    using assms(3) by (simp add: stored_value_def stored_abs_def h_def f_def)
  note fs = frac_stored [OF f(1-3) assms(2)]
  from dec_cases [OF assms(2)] consider (0) "dec = 0" | (1) "dec = 1 \<or> dec = 2" | (2) "dec = 3 \<or> dec = 4"
    | (3) "dec = 5 \<or> dec = 6" by blast
  then have "be_val (my_datetime_packed_to_binary nr dec) = 2 ^ 39 * 2 ^ (8 * frac_bytes dec) + stored_value dec nr
    \<and> my_datetime_packed_from_binary (my_datetime_packed_to_binary nr dec) dec = nr"
  proof cases
    case 0
    then have "f = 0" using f by (auto simp: frac_unit_def dest: zdvd_imp_le)
    then have B: "frac_bytes dec = 0" "f div frac_unit dec = 0" "h * 2 ^ 24 = nr"
      using 0 nr by (simp_all add: frac_bytes_def)
    have w: "my_datetime_packed_to_binary nr dec = mi_int5store (h + DATETIMEF_INT_OFS)"
      using 0 by (simp add: my_datetime_packed_to_binary_def p)
    show ?thesis using 0 i k5 [of "[]"] mk(2) B(3) unfolding sv B(1,2) w
      by (simp add: my_datetime_packed_from_binary_def be_val_stores)
  next
    case 1
    then have B: "frac_bytes dec = 1" "frac_unit dec = 10000" by (auto simp: frac_bytes_def frac_unit_def)
    have w: "my_datetime_packed_to_binary nr dec = mi_int5store (h + DATETIMEF_INT_OFS) @ [f sdiv 10000 mod 2 ^ 8]"
      using 1 by (auto simp: my_datetime_packed_to_binary_def p u8_def)
    show ?thesis using 1 fs(1) [OF 1] i k5 [of "[f div 10000]"] mk(1) unfolding sv B w
      by (auto simp: my_datetime_packed_from_binary_def nth_append length_stores be_val_append be_val_stores)
  next
    case 2
    then have B: "frac_bytes dec = 2" "frac_unit dec = 100" by (auto simp: frac_bytes_def frac_unit_def)
    have w: "my_datetime_packed_to_binary nr dec = mi_int5store (h + DATETIMEF_INT_OFS) @ mi_int2store (f sdiv 100)"
      using 2 by (auto simp: my_datetime_packed_to_binary_def p)
    show ?thesis using 2 fs(2) [OF 2] i k5 [of "mi_int2store (f sdiv 100)"] mk(1) unfolding sv B w
      by (auto simp: my_datetime_packed_from_binary_def length_stores is_bytes_stores be_val_append be_val_stores)
  next
    case 3
    then have B: "frac_bytes dec = 3" "frac_unit dec = 1" by (auto simp: frac_bytes_def frac_unit_def)
    have w: "my_datetime_packed_to_binary nr dec = mi_int5store (h + DATETIMEF_INT_OFS) @ mi_int3store f"
      using 3 by (auto simp: my_datetime_packed_to_binary_def p)
    show ?thesis using 3 fs(3) [OF 3] i k5 [of "mi_int3store f"] mk(1) unfolding sv B w
      by (auto simp: my_datetime_packed_from_binary_def length_stores is_bytes_stores be_val_append be_val_stores)
  qed
  then show "be_val (my_datetime_packed_to_binary nr dec) = 2 ^ 39 * 2 ^ (8 * frac_bytes dec) + stored_value dec nr"
    "my_datetime_packed_from_binary (my_datetime_packed_to_binary nr dec) dec = nr" by simp_all
qed

text \<open>A timestamp as a number laid out like a packed time: the seconds above the microseconds.\<close>

definition timestamp_of :: "int \<Rightarrow> my_timeval" where
  "timestamp_of nr = \<lparr>m_tv_sec = nr div 2 ^ 24, m_tv_usec = nr mod 2 ^ 24\<rparr>"

lemma timestamp_stored:
  assumes "storable dec nr" "dec \<le> 6" "0 \<le> nr" "nr < 2 ^ 56"
  shows "be_val (my_timestamp_to_binary (timestamp_of nr) dec) = stored_value dec nr
    \<and> my_timestamp_from_binary (my_timestamp_to_binary (timestamp_of nr) dec) dec = timestamp_of nr"
proof -
  define h f where "h = nr div 2 ^ 24" and "f = nr mod 2 ^ 24"
  have f: "0 \<le> f" "f < 1000000" "frac_unit dec dvd f"
  proof -
    have "frac_unit dec dvd 10 ^ (6 - dec)" using dec_cases [OF assms(2)] by (elim disjE) (simp_all add: frac_unit_def)
    then show "frac_unit dec dvd f" using assms(1,3) unfolding storable_def f_def by (auto intro: dvd_trans)
  qed (use assms(1,3) in \<open>simp_all add: f_def storable_def\<close>)
  have i: "h mod 2 ^ 32 = h" using assms(3,4) by (simp add: h_def)
  have t: "timestamp_of nr = \<lparr>m_tv_sec = h, m_tv_usec = f\<rparr>" by (simp add: timestamp_of_def h_def f_def)
  have k4: "mi_uint4korr (mi_int4store h @ bs) = h" if "is_bytes bs" for bs
    using uint4korr_val(2) [of "mi_int4store h @ bs"] that i by (simp add: be_val_stores)
  have sv: "stored_value dec nr = h * 2 ^ (8 * frac_bytes dec) + f div frac_unit dec"
    using assms(3) by (simp add: stored_value_def stored_abs_def h_def f_def)
  note fs = frac_stored [OF f assms(2)] and defs = my_timestamp_to_binary_def my_timestamp_from_binary_def
  from dec_cases [OF assms(2)] consider (0) "dec = 0" | (1) "dec = 1 \<or> dec = 2" | (2) "dec = 3 \<or> dec = 4"
    | (3) "dec = 5 \<or> dec = 6" by blast
  then show ?thesis
  proof cases
    case 0
    then have "f = 0" using f by (auto simp: frac_unit_def dest: zdvd_imp_le)
    then show ?thesis using 0 i k4 [of "[]"] unfolding sv t by (simp add: defs be_val_stores frac_bytes_def)
  next
    case 1
    then have B: "frac_bytes dec = 1" "frac_unit dec = 10000" by (auto simp: frac_bytes_def frac_unit_def)
    have "f div 10000 * 10000 = f" using f(3) B by simp
    then show ?thesis using 1 fs(1) [OF 1] i k4 [of "[f div 10000]"] unfolding sv t B
      by (auto simp: defs u8_def nth_append be_val_append be_val_stores)
  next
    case 2
    then have B: "frac_bytes dec = 2" "frac_unit dec = 100" by (auto simp: frac_bytes_def frac_unit_def)
    show ?thesis using 2 fs(2) [OF 2] i k4 [of "mi_int2store (f sdiv 100)"] unfolding sv t B
      by (auto simp: defs be_val_append be_val_stores)
  next
    case 3
    then have B: "frac_bytes dec = 3" "frac_unit dec = 1" by (auto simp: frac_bytes_def frac_unit_def)
    show ?thesis using 3 fs(3) [OF 3] i k4 [of "mi_int3store f"] unfolding sv t B
      by (auto simp: defs be_val_append be_val_stores)
  qed
qed

lemma stored_shape:
  "length (my_time_packed_to_binary nr dec) = (if dec \<in> {1..6} then 3 + frac_bytes dec else 3)"
  "length (my_datetime_packed_to_binary nr dec) = (if dec \<in> {1..6} then 5 + frac_bytes dec else 5)"
  "length (my_timestamp_to_binary tm dec) = (if dec \<in> {1..6} then 4 + frac_bytes dec else 4)"
  "is_bytes (my_time_packed_to_binary nr dec)" "is_bytes (my_datetime_packed_to_binary nr dec)"
  "is_bytes (my_timestamp_to_binary tm dec)"
  by (auto simp: my_time_packed_to_binary_def my_datetime_packed_to_binary_def my_timestamp_to_binary_def
      Let_def frac_bytes_def)

text \<open>The packed numbers of all times and datetimes are in the ranges that can be stored.\<close>

lemma packed_in_range:
  assumes "mt_unsigned t" "\<not> check_datetime_range t"
  shows "\<not> neg t \<Longrightarrow> time_type t \<noteq> MYSQL_TIMESTAMP_TIME \<Longrightarrow> 0 \<le> TIME_to_longlong_datetime_packed t \<and> TIME_to_longlong_datetime_packed t < 2 ^ 63"
    and "month t = 0 \<Longrightarrow> day t = 0 \<Longrightarrow> \<bar>TIME_to_longlong_time_packed t\<bar> < 2 ^ 46"
proof -
  note f = datetime_fields [OF assms]
  show "0 \<le> TIME_to_longlong_datetime_packed t \<and> TIME_to_longlong_datetime_packed t < 2 ^ 63" if "\<not> neg t" "time_type t \<noteq> MYSQL_TIMESTAMP_TIME"
    using f datetime_packed_eq(1) [OF assms that(2)] that by (simp add: datetime_value_def)
  show "\<bar>TIME_to_longlong_time_packed t\<bar> < 2 ^ 46" if "month t = 0" "day t = 0"
    using f time_packed_eq [OF assms that] by (simp add: time_value_def)
qed

text \<open>C23. The stored bytes of TIME, DATETIME and TIMESTAMP columns of every precision read back as
  the value that was stored, and byte-wise comparison of two of them orders them like the values:
  negative times with a fraction included. The ranges are those of all times up to 838:59:59 in either
  direction, all datetimes up to the end of the year 9999, and all 32-bit timestamps; the packed number
  of every time and datetime that passes the check of its range is in them.
\<close>

theorem stored_bytes_correct:
  assumes "storable dec a" "storable dec b" "dec \<le> 6"
  shows "(\<bar>a\<bar> < 2 ^ 46 \<and> \<bar>b\<bar> < 2 ^ 46 \<longrightarrow>
           my_time_packed_from_binary (my_time_packed_to_binary a dec) dec = a
           \<and> (memcmp (my_time_packed_to_binary a dec) (my_time_packed_to_binary b dec) < 0 \<longleftrightarrow> a < b))
    \<and> (0 \<le> a \<and> a < 2 ^ 63 \<and> 0 \<le> b \<and> b < 2 ^ 63 \<longrightarrow>
           my_datetime_packed_from_binary (my_datetime_packed_to_binary a dec) dec = a
           \<and> (memcmp (my_datetime_packed_to_binary a dec) (my_datetime_packed_to_binary b dec) < 0 \<longleftrightarrow> a < b))
    \<and> (0 \<le> a \<and> a < 2 ^ 56 \<and> 0 \<le> b \<and> b < 2 ^ 56 \<longrightarrow>
           my_timestamp_from_binary (my_timestamp_to_binary (timestamp_of a) dec) dec = timestamp_of a
           \<and> (memcmp (my_timestamp_to_binary (timestamp_of a) dec) (my_timestamp_to_binary (timestamp_of b) dec) < 0
              \<longleftrightarrow> a < b))
    \<and> (mt_unsigned t \<and> \<not> check_datetime_range t \<longrightarrow>
           (\<not> neg t \<and> time_type t \<noteq> MYSQL_TIMESTAMP_TIME \<longrightarrow> 0 \<le> TIME_to_longlong_datetime_packed t \<and> TIME_to_longlong_datetime_packed t < 2 ^ 63)
           \<and> (month t = 0 \<and> day t = 0 \<longrightarrow> \<bar>TIME_to_longlong_time_packed t\<bar> < 2 ^ 46))"
    (is "?time \<and> ?datetime \<and> ?timestamp \<and> ?ranges")
proof (intro conjI)
  show ?ranges using packed_in_range [of t] by blast
  note less = stored_value_less [OF assms]
  note stored = time_stored [OF _ assms(3)] datetime_stored [OF _ assms(3)] timestamp_stored [OF _ assms(3)]
  show ?time using assms(1,2) less by (simp add: memcmp_be_val stored_shape stored)
  show ?datetime using assms(1,2) less by (simp add: memcmp_be_val stored_shape stored)
  show ?timestamp using assms(1,2) less by (simp add: memcmp_be_val stored_shape stored)
qed

theorem stored_bytes_correct_witness:
  "my_time_packed_to_binary (- (3 * 2 ^ 24 + 250000)) 2 = [127, 255, 252, 231]
   \<and> my_time_packed_from_binary [127, 255, 252, 231] 2 = - (3 * 2 ^ 24 + 250000)
   \<and> memcmp (my_time_packed_to_binary (- (3 * 2 ^ 24 + 250000)) 2)
       (my_time_packed_to_binary (- (3 * 2 ^ 24 + 240000)) 2) < 0"
proof -
  have s: "storable 2 (- (3 * 2 ^ 24 + 250000))" "storable 2 (- (3 * 2 ^ 24 + 240000))" by code_simp+
  have b: "my_time_packed_to_binary (- (3 * 2 ^ 24 + 250000)) 2 = [127, 255, 252, 231]" by code_simp
  show ?thesis using stored_bytes_correct [OF s] unfolding b by simp
qed

end
