(* ===== verification/Temporal_Arith.thy ===== *)
theory Temporal_Arith
  imports Temporal_Packed
begin

text \<open>
  Arithmetic on temporal values in \<open>mysys/my_time.cc\<close>: adding an interval
  (\<open>date_add_interval\<close>), differences, rounding and truncation to a number of fractional digits,
  and values read from decimal numbers. A function that changes its argument in place returns
  it; when it fails, the argument may be changed in part, as in the source.
\<close>

section \<open>Intervals\<close>

text \<open>The structure \<open>Interval\<close>; its fields have a prefix, since \<open>MYSQL_TIME\<close> has the names.\<close>

record Interval =
  itv_year :: int
  itv_month :: int
  itv_day :: int
  itv_hour :: int
  itv_minute :: int
  itv_second :: int
  itv_second_part :: int
  itv_neg :: bool

datatype interval_type =
  INTERVAL_YEAR | INTERVAL_QUARTER | INTERVAL_MONTH | INTERVAL_WEEK | INTERVAL_DAY | INTERVAL_HOUR
| INTERVAL_MINUTE | INTERVAL_SECOND | INTERVAL_MICROSECOND | INTERVAL_YEAR_MONTH | INTERVAL_DAY_HOUR
| INTERVAL_DAY_MINUTE | INTERVAL_DAY_SECOND | INTERVAL_HOUR_MINUTE | INTERVAL_HOUR_SECOND
| INTERVAL_MINUTE_SECOND | INTERVAL_DAY_MICROSECOND | INTERVAL_HOUR_MICROSECOND
| INTERVAL_MINUTE_MICROSECOND | INTERVAL_SECOND_MICROSECOND | INTERVAL_LAST

definition itv_sign :: "Interval \<Rightarrow> int" where
  "itv_sign interval = (if itv_neg interval then -1 else 1)"

text \<open>The date of a day number, put into a value.\<close>

definition set_daynr :: "int \<Rightarrow> MYSQL_TIME \<Rightarrow> MYSQL_TIME" where
  "set_daynr daynr t = (case get_date_from_daynr daynr of (y, m, d) \<Rightarrow> t\<lparr>year := y, month := m, day := d\<rparr>)"

text \<open>
  The branches of \<open>date_add_interval\<close>: whether the date is invalid, and the value, changed as
  far as the branch came.
\<close>

definition add_time_interval :: "MYSQL_TIME \<Rightarrow> Interval \<Rightarrow> bool \<times> MYSQL_TIME" where
  "add_time_interval t interval =
     (let sign = itv_sign interval;
          t = t\<lparr>time_type := MYSQL_TIMESTAMP_DATETIME\<rparr>;
          microseconds = s64 (second_part t + sign * itv_second_part interval);
          extra_sec = microseconds sdiv 1000000;
          microseconds = microseconds smod 1000000 in
      if itv_day interval > MAX_DAY_NUMBER \<or> itv_hour interval > MAX_DAY_NUMBER * 24
         \<or> itv_minute interval > MAX_DAY_NUMBER * 24 * 60 \<or> itv_second interval > MAX_DAY_NUMBER * 24 * 60 * 60
      then (True, t)
      else
        let sec = u32 (day t - 1) * 3600 * 24 + hour t * 3600 + minute t * 60 + second t
              + sign * s64 (u64 (itv_day interval * 3600 * 24 + itv_hour interval * 3600
                                 + itv_minute interval * 60 + itv_second interval))
              + extra_sec;
            (microseconds, sec) = (if microseconds < 0 then (microseconds + 1000000, sec - 1) else (microseconds, sec));
            days = sec sdiv (3600 * 24);
            sec = sec - days * 3600 * 24;
            (days, sec) = (if sec < 0 then (days - 1, sec + 3600 * 24) else (days, sec));
            t = t\<lparr>second_part := u32 microseconds, second := u32 (sec smod 60),
                  minute := u32 (sec sdiv 60 smod 60), hour := u32 (sec sdiv 3600)\<rparr>;
            daynr = calc_daynr (year t) (month t) 1 + days in
        if daynr < 0 \<or> daynr > MAX_DAY_NUMBER then (True, t) else (False, set_daynr daynr t))"

definition add_day_interval :: "MYSQL_TIME \<Rightarrow> Interval \<Rightarrow> bool \<times> MYSQL_TIME" where
  "add_day_interval t interval =
     (let period = u64 (calc_daynr (year t) (month t) (day t)) in
      if itv_neg interval then
        if period < itv_day interval then (True, t) else (False, set_daynr (period - itv_day interval) t)
      else
        let sum = u64 (period + itv_day interval) in
        if sum < period then (True, t)
        else if sum > MAX_DAY_NUMBER then (True, t)
        else (False, set_daynr sum t))"

definition add_year_interval :: "MYSQL_TIME \<Rightarrow> Interval \<Rightarrow> bool \<times> MYSQL_TIME" where
  "add_year_interval t interval =
     (if itv_year interval > 10000 then (True, t)
      else
        let t = t\<lparr>year := u32 (year t + itv_sign interval * itv_year interval)\<rparr> in
        if year t \<ge> 10000 then (True, t)
        else if month t = 2 \<and> day t = 29 \<and> calc_days_in_year (year t) \<noteq> 366 then (False, t\<lparr>day := 28\<rparr>)
        else (False, t))"

definition add_month_interval :: "MYSQL_TIME \<Rightarrow> Interval \<Rightarrow> bool \<times> MYSQL_TIME" where
  "add_month_interval t interval =
     (if itv_month interval \<ge> (2 ^ 32 - 1) div 2 then (True, t)
      else if itv_year interval \<ge> (2 ^ 32 - 1) div 12 then (True, t)
      else
        let sign = itv_sign interval;
            period = u64 (year t * 12 + sign * itv_year interval * 12 + month t - 1 + sign * itv_month interval) in
        if period \<ge> 120000 then (True, t)
        else
          let t = t\<lparr>year := period div 12, month := period mod 12 + 1\<rparr>;
              days = days_in_month ! nat (month t - 1) in
          if day t > days then
            (False, t\<lparr>day := if month t = 2 \<and> calc_days_in_year (year t) = 366 then days + 1 else days\<rparr>)
          else (False, t))"

definition date_add_interval :: "MYSQL_TIME \<Rightarrow> interval_type \<Rightarrow> Interval \<Rightarrow> int \<Rightarrow> bool \<times> MYSQL_TIME \<times> int" where
  "date_add_interval t int_type interval warnings =
     (let t = t\<lparr>neg := False\<rparr>;
          finish = (\<lambda>(invalid, t). (invalid, t, if invalid then warnings OR MYSQL_TIME_WARN_DATETIME_OVERFLOW else warnings)) in
      if int_type \<in> {INTERVAL_SECOND, INTERVAL_SECOND_MICROSECOND, INTERVAL_MICROSECOND, INTERVAL_MINUTE,
                     INTERVAL_HOUR, INTERVAL_MINUTE_MICROSECOND, INTERVAL_MINUTE_SECOND,
                     INTERVAL_HOUR_MICROSECOND, INTERVAL_HOUR_SECOND, INTERVAL_HOUR_MINUTE,
                     INTERVAL_DAY_MICROSECOND, INTERVAL_DAY_SECOND, INTERVAL_DAY_MINUTE, INTERVAL_DAY_HOUR}
      then finish (add_time_interval t interval)
      else if int_type \<in> {INTERVAL_DAY, INTERVAL_WEEK} then finish (add_day_interval t interval)
      else if int_type = INTERVAL_YEAR then finish (add_year_interval t interval)
      else if int_type \<in> {INTERVAL_YEAR_MONTH, INTERVAL_QUARTER, INTERVAL_MONTH}
      then finish (add_month_interval t interval)
      else (True, t, warnings))"

section \<open>Differences\<close>

definition SECONDS_IN_24H :: int where "SECONDS_IN_24H = 86400"

text \<open>The sign, the seconds and the microseconds of the difference.\<close>

definition calc_time_diff :: "MYSQL_TIME \<Rightarrow> MYSQL_TIME \<Rightarrow> int \<Rightarrow> bool \<times> int \<times> int" where
  "calc_time_diff a b l_sign =
     (let days =
            (if time_type a = MYSQL_TIMESTAMP_TIME then day a - l_sign * day b
             else
               let days = calc_daynr (year a) (month a) (day a) in
               if time_type b = MYSQL_TIMESTAMP_TIME then days - l_sign * day b
               else days - l_sign * calc_daynr (year b) (month b) (day b));
          microseconds =
            (days * SECONDS_IN_24H + (hour a * 3600 + minute a * 60 + second a)
             - l_sign * (hour b * 3600 + minute b * 60 + second b)) * 1000000
            + second_part a - l_sign * second_part b;
          (microseconds, neg) = (if microseconds < 0 then (- microseconds, True) else (microseconds, False))
      in (neg, microseconds sdiv 1000000, microseconds smod 1000000))"

definition calc_time_from_sec :: "MYSQL_TIME \<Rightarrow> int \<Rightarrow> int \<Rightarrow> MYSQL_TIME" where
  "calc_time_from_sec to seconds microseconds =
     (let t_seconds = seconds smod 3600 in
      to\<lparr>time_type := MYSQL_TIMESTAMP_TIME, year := 0, month := 0, day := 0,
         hour := u32 (seconds sdiv 3600), minute := u32 (t_seconds sdiv 60), second := u32 (t_seconds smod 60),
         second_part := u64 microseconds\<rparr>)"

definition mix_date_and_time :: "MYSQL_TIME \<Rightarrow> MYSQL_TIME \<Rightarrow> MYSQL_TIME" where
  "mix_date_and_time ldate my_time =
     (if \<not> neg my_time \<and> hour my_time < 24 then
        ldate\<lparr>hour := hour my_time, minute := minute my_time, second := second my_time,
              second_part := second_part my_time, time_type := MYSQL_TIMESTAMP_DATETIME\<rparr>
      else
        case calc_time_diff ldate my_time (if neg my_time then 1 else -1) of (ng, seconds, useconds) \<Rightarrow>
          let days = seconds sdiv SECONDS_IN_24H;
              ldate = calc_time_from_sec (ldate\<lparr>neg := ng\<rparr>) (seconds smod SECONDS_IN_24H) useconds
          in (set_daynr days ldate)\<lparr>time_type := MYSQL_TIMESTAMP_DATETIME\<rparr>)"

text \<open>The broken-down time of the C library, as far as it is read.\<close>

record tm =
  tm_sec :: int
  tm_min :: int
  tm_hour :: int
  tm_mday :: int
  tm_mon :: int
  tm_year :: int

definition localtime_to_TIME :: "MYSQL_TIME \<Rightarrow> tm \<Rightarrow> MYSQL_TIME" where
  "localtime_to_TIME to from =
     to\<lparr>neg := False, second_part := 0, year := u32 ((tm_year from + 1900) smod 10000), month := u32 (tm_mon from + 1),
        day := u32 (tm_mday from), hour := u32 (tm_hour from), minute := u32 (tm_min from),
        second := u32 (tm_sec from), time_zone_displacement := 0\<rparr>"

section \<open>Rounding and truncation\<close>

definition DATETIME_MAX_DECIMALS :: nat where "DATETIME_MAX_DECIMALS = 6"

definition log_10_int :: "int list" where
  "log_10_int =
     [1, 10, 100, 1000, 10000, 100000, 1000000, 10000000, 100000000, 1000000000, 10000000000, 100000000000,
      1000000000000, 10000000000000, 100000000000000, 1000000000000000, 10000000000000000,
      100000000000000000, 1000000000000000000, 10000000000000000000]"

definition my_time_fraction_remainder :: "int \<Rightarrow> nat \<Rightarrow> int" where
  "my_time_fraction_remainder nr decimals = nr smod log_10_int ! (DATETIME_MAX_DECIMALS - decimals)"

definition my_time_trunc :: "MYSQL_TIME \<Rightarrow> nat \<Rightarrow> MYSQL_TIME" where
  "my_time_trunc t decimals = t\<lparr>second_part := u64 (second_part t - my_time_fraction_remainder (second_part t) decimals)\<rparr>"

definition my_timeval_trunc :: "my_timeval \<Rightarrow> nat \<Rightarrow> my_timeval" where
  "my_timeval_trunc tv decimals = tv\<lparr>m_tv_usec := m_tv_usec tv - my_time_fraction_remainder (m_tv_usec tv) decimals\<rparr>"

text \<open>The functions below return whether they failed, the value and the warnings.\<close>

definition time_add_nanoseconds_with_truncate :: "MYSQL_TIME \<Rightarrow> int \<Rightarrow> int \<Rightarrow> bool \<times> MYSQL_TIME \<times> int" where
  "time_add_nanoseconds_with_truncate t nanoseconds warnings =
     (False, adjust_time_range (if second_part t = 0 then t\<lparr>second_part := nanoseconds div 1000\<rparr> else t) warnings)"

definition datetime_add_nanoseconds_with_truncate :: "MYSQL_TIME \<Rightarrow> int \<Rightarrow> bool \<times> MYSQL_TIME" where
  "datetime_add_nanoseconds_with_truncate t nanoseconds =
     (False, if second_part t = 0 then t\<lparr>second_part := nanoseconds div 1000\<rparr> else t)"

definition time_add_nanoseconds_with_round :: "MYSQL_TIME \<Rightarrow> int \<Rightarrow> int \<Rightarrow> bool \<times> MYSQL_TIME \<times> int" where
  "time_add_nanoseconds_with_round t nanoseconds warnings =
     (if nanoseconds < 500 then (False, t, warnings)
      else
        let t = t\<lparr>second_part := second_part t + u32 (nanoseconds + 500) div 1000\<rparr>;
            t = (if second_part t < 1000000 then t
                 else
                   let t = t\<lparr>second_part := second_part t mod 1000000\<rparr> in
                   if second t < 59 then t\<lparr>second := second t + 1\<rparr>
                   else
                     let t = t\<lparr>second := 0\<rparr> in
                     if minute t < 59 then t\<lparr>minute := minute t + 1\<rparr>
                     else t\<lparr>minute := 0, hour := u32 (hour t + 1)\<rparr>)
        in (False, adjust_time_range t warnings))"

definition datetime_add_nanoseconds_with_round :: "MYSQL_TIME \<Rightarrow> int \<Rightarrow> int \<Rightarrow> bool \<times> MYSQL_TIME \<times> int" where
  "datetime_add_nanoseconds_with_round t nanoseconds warnings =
     (if nanoseconds < 500 then (False, t, warnings)
      else
        let t = t\<lparr>second_part := second_part t + u32 (nanoseconds + 500) div 1000\<rparr> in
        if second_part t < 1000000 then (False, t, warnings)
        else
          let t = t\<lparr>second_part := second_part t mod 1000000\<rparr>;
              interval = \<lparr>itv_year = 0, itv_month = 0, itv_day = 0, itv_hour = 0, itv_minute = 0,
                          itv_second = 1, itv_second_part = 0, itv_neg = False\<rparr>;
              (bad, warnings) = check_date t (non_zero_date t) (TIME_NO_ZERO_IN_DATE OR TIME_NO_ZERO_DATE) warnings in
          if bad then (True, t, warnings)
          else
            case date_add_interval t INTERVAL_SECOND interval warnings of (failed, t, warnings) \<Rightarrow>
              if failed then (True, t, warnings OR MYSQL_TIME_WARN_OUT_OF_RANGE) else (False, t, warnings))"

definition time_add_nanoseconds_adjust_frac ::
    "MYSQL_TIME \<Rightarrow> int \<Rightarrow> int \<Rightarrow> bool \<Rightarrow> bool \<times> MYSQL_TIME \<times> int" where
  "time_add_nanoseconds_adjust_frac t nanoseconds warnings trunc =
     (if trunc then time_add_nanoseconds_with_truncate t nanoseconds warnings
      else time_add_nanoseconds_with_round t nanoseconds warnings)"

definition datetime_add_nanoseconds_adjust_frac ::
    "MYSQL_TIME \<Rightarrow> int \<Rightarrow> int \<Rightarrow> bool \<Rightarrow> bool \<times> MYSQL_TIME \<times> int" where
  "datetime_add_nanoseconds_adjust_frac t nanoseconds warnings trunc =
     (if trunc then
        case datetime_add_nanoseconds_with_truncate t nanoseconds of (rc, t) \<Rightarrow> (rc, t, warnings)
      else datetime_add_nanoseconds_with_round t nanoseconds warnings)"

definition msec_round_add :: "int list" where
  "msec_round_add = [500000000, 50000000, 5000000, 500000, 50000, 5000, 0]"

definition my_time_adjust_frac :: "MYSQL_TIME \<Rightarrow> nat \<Rightarrow> bool \<Rightarrow> bool \<times> MYSQL_TIME" where
  "my_time_adjust_frac t dec trunc =
     (case time_add_nanoseconds_adjust_frac t (msec_round_add ! dec) 0 trunc of
        (rc, t, warnings) \<Rightarrow> (rc, my_time_trunc t dec))"

definition my_datetime_adjust_frac :: "MYSQL_TIME \<Rightarrow> nat \<Rightarrow> int \<Rightarrow> bool \<Rightarrow> bool \<times> MYSQL_TIME \<times> int" where
  "my_datetime_adjust_frac t dec warnings trunc =
     (case datetime_add_nanoseconds_adjust_frac t (msec_round_add ! dec) warnings trunc of
        (rc, t, warnings) \<Rightarrow> (rc, my_time_trunc t dec, warnings))"

text \<open>The limits with a 64-bit \<open>time_t\<close>.\<close>

definition MYTIME_MAX_VALUE :: int where "MYTIME_MAX_VALUE = 32536771199"
definition MYTIME_MIN_VALUE :: int where "MYTIME_MIN_VALUE = 0"

definition is_time_t_valid_for_timestamp :: "int \<Rightarrow> bool" where
  "is_time_t_valid_for_timestamp x \<longleftrightarrow> x \<le> MYTIME_MAX_VALUE \<and> x \<ge> MYTIME_MIN_VALUE"

definition my_timeval_round :: "my_timeval \<Rightarrow> nat \<Rightarrow> bool \<times> my_timeval" where
  "my_timeval_round tv decimals =
     (let nanoseconds = msec_round_add ! decimals;
          tv = tv\<lparr>m_tv_usec := m_tv_usec tv + u32 (nanoseconds + 500) div 1000\<rparr> in
      if m_tv_usec tv < 1000000 then (False, my_timeval_trunc tv decimals)
      else
        let tv = tv\<lparr>m_tv_usec := 0, m_tv_sec := m_tv_sec tv + 1\<rparr> in
        if \<not> is_time_t_valid_for_timestamp (m_tv_sec tv) then (True, tv\<lparr>m_tv_sec := MYTIME_MAX_VALUE\<rparr>)
        else (False, my_timeval_trunc tv decimals))"

definition TIME_to_ulonglong_datetime_round :: "MYSQL_TIME \<Rightarrow> int \<Rightarrow> int \<times> int" where
  "TIME_to_ulonglong_datetime_round t warnings =
     (if second_part t < 500000 then (TIME_to_ulonglong_datetime t, warnings)
      else if second t < 59 then (u64 (TIME_to_ulonglong_datetime t + 1), warnings)
      else case my_datetime_adjust_frac t 0 warnings False of
             (rc, t, warnings) \<Rightarrow> (TIME_to_ulonglong_datetime t, warnings))"

definition TIME_to_ulonglong_time_round :: "MYSQL_TIME \<Rightarrow> int" where
  "TIME_to_ulonglong_time_round t =
     (if second_part t < 500000 then TIME_to_ulonglong_time t
      else if second t < 59 then u64 (TIME_to_ulonglong_time t + 1)
      else case my_time_adjust_frac t 0 False of (rc, t) \<Rightarrow> TIME_to_ulonglong_time t)"

section \<open>Numbers\<close>

definition TIME_MAX_VALUE :: int where
  "TIME_MAX_VALUE = TIME_MAX_HOUR * 10000 + TIME_MAX_MINUTE * 100 + TIME_MAX_SECOND"

text \<open>
  The first part of \<open>number_to_datetime\<close>: the number completed to fourteen digits with the type
  of the value, the number is out of range (\<open>Inl True\<close>), or it is not a date (\<open>Inl False\<close>).
\<close>

definition complete_number :: "int \<Rightarrow> int \<Rightarrow> bool \<times> enum_mysql_timestamp_type + int \<times> enum_mysql_timestamp_type" where
  "complete_number nr flags =
     (if nr = 0 \<or> nr \<ge> 10000101000000 then
        if nr > 99999999999999 then Inl (True, MYSQL_TIMESTAMP_DATETIME) else Inr (nr, MYSQL_TIMESTAMP_DATETIME)
      else if nr < 101 then Inl (False, MYSQL_TIMESTAMP_DATE)
      else if nr \<le> (YY_PART_YEAR - 1) * 10000 + 1231 then Inr ((nr + 20000000) * 1000000, MYSQL_TIMESTAMP_DATE)
      else if nr < YY_PART_YEAR * 10000 + 101 then Inl (False, MYSQL_TIMESTAMP_DATE)
      else if nr \<le> 991231 then Inr ((nr + 19000000) * 1000000, MYSQL_TIMESTAMP_DATE)
      else if nr < 10000101 \<and> \<not> has_flag flags TIME_FUZZY_DATE then Inl (False, MYSQL_TIMESTAMP_DATE)
      else if nr \<le> 99991231 then Inr (nr * 1000000, MYSQL_TIMESTAMP_DATE)
      else if nr < 101000000 then Inl (False, MYSQL_TIMESTAMP_DATE)
      else if nr \<le> (YY_PART_YEAR - 1) * 10000000000 + 1231235959
      then Inr (nr + 20000000000000, MYSQL_TIMESTAMP_DATETIME)
      else if nr < YY_PART_YEAR * 10000000000 + 101000000 then Inl (False, MYSQL_TIMESTAMP_DATETIME)
      else if nr \<le> 991231235959 then Inr (nr + 19000000000000, MYSQL_TIMESTAMP_DATETIME)
      else Inr (nr, MYSQL_TIMESTAMP_DATETIME))"

text \<open>The result, the value and \<open>was_cut\<close>.\<close>

definition number_to_datetime :: "int \<Rightarrow> int \<Rightarrow> int \<times> MYSQL_TIME \<times> int" where
  "number_to_datetime nr flags =
     (case complete_number nr flags of
        Inl (out_of_range, type) \<Rightarrow>
          (-1, set_zero_time type, if out_of_range then MYSQL_TIME_WARN_OUT_OF_RANGE else MYSQL_TIME_WARN_TRUNCATED)
      | Inr (nr, type) \<Rightarrow>
          let part1 = nr sdiv 1000000; part2 = nr - part1 * 1000000;
              t = (set_zero_time type)
                \<lparr>year := u32 (part1 sdiv 10000), month := u32 (s32 (part1 smod 10000) sdiv 100),
                 day := u32 (s32 (part1 smod 10000) smod 100), hour := u32 (part2 sdiv 10000),
                 minute := u32 (s32 (part2 smod 10000) sdiv 100),
                 second := u32 (s32 (part2 smod 10000) smod 100)\<rparr>;
              (bad, was_cut) = (if check_datetime_range t then (True, 0) else check_date t (nr \<noteq> 0) flags 0) in
          if \<not> bad then (nr, t, was_cut)
          else if nr = 0 \<and> has_flag flags TIME_NO_ZERO_DATE then (-1, t, was_cut)
          else (-1, t, MYSQL_TIME_WARN_TRUNCATED))"

definition number_to_time :: "int \<Rightarrow> MYSQL_TIME \<Rightarrow> int \<Rightarrow> bool \<times> MYSQL_TIME \<times> int" where
  "number_to_time nr t warnings =
     (let too_big = (True, set_max_time False, warnings OR MYSQL_TIME_WARN_OUT_OF_RANGE) in
      if nr > TIME_MAX_VALUE then
        if nr \<ge> 10000000000 then
          case number_to_datetime nr 0 of (res, t, was_cut) \<Rightarrow> if res \<noteq> -1 then (False, t, was_cut) else too_big
        else too_big
      else if nr < - TIME_MAX_VALUE then (True, set_max_time True, warnings OR MYSQL_TIME_WARN_OUT_OF_RANGE)
      else
        let t = t\<lparr>neg := nr < 0\<rparr>; nr = \<bar>nr\<bar> in
        if nr mod 100 \<ge> 60 \<or> nr div 100 mod 100 \<ge> 60
        then (True, set_zero_time MYSQL_TIMESTAMP_TIME, warnings OR MYSQL_TIME_WARN_OUT_OF_RANGE)
        else (False, (TIME_set_hhmmss (t\<lparr>time_type := MYSQL_TIMESTAMP_TIME, year := 0, month := 0, day := 0\<rparr>) nr)
                       \<lparr>second_part := 0\<rparr>, warnings))"

end
