(* ===== verification/Temporal_Text.thy ===== *)
theory Temporal_Text
  imports Temporal_Arith Integer_Text
begin

text \<open>
  Temporal values in text, after \<open>mysys/my_time.cc\<close>: the parsers \<open>str_to_datetime\<close> and
  \<open>str_to_time\<close> and the printers. A position in the text that is parsed is the rest of the text
  from there on, so the end is the empty rest; the text printed is the result of the printers.
\<close>

section \<open>Characters\<close>

text \<open>The character classes of the C locale.\<close>

definition isspace_char :: "char \<Rightarrow> bool" where
  "isspace_char ch \<longleftrightarrow> (let k = of_char ch :: int in 9 \<le> k \<and> k \<le> 13 \<or> k = 32)"

definition isdigit_char :: "char \<Rightarrow> bool" where
  "isdigit_char ch \<longleftrightarrow> (let k = of_char ch :: int in 48 \<le> k \<and> k \<le> 57)"

definition ispunct_char :: "char \<Rightarrow> bool" where
  "ispunct_char ch \<longleftrightarrow>
     (let k = of_char ch :: int in
      33 \<le> k \<and> k \<le> 47 \<or> 58 \<le> k \<and> k \<le> 64 \<or> 91 \<le> k \<and> k \<le> 96 \<or> 123 \<le> k \<and> k \<le> 126)"

section \<open>Status of a conversion\<close>

datatype DEPR_KIND = DP_NONE | DP_WRONG_KIND | DP_WRONG_SPACE | DP_SUPERFLUOUS

record DEPRECATION =
  m_kind :: DEPR_KIND
  m_delim_seen :: char
  m_colon :: bool
  m_position :: int
  m_arg :: string

record MYSQL_TIME_STATUS =
  warnings :: int
  fractional_digits :: nat
  nanoseconds :: int
  m_deprecation :: DEPRECATION

text \<open>A new status; the members of a deprecation that is not set have no meaning.\<close>

definition new_status :: MYSQL_TIME_STATUS where
  "new_status = \<lparr>warnings = 0, fractional_digits = 0, nanoseconds = 0,
     m_deprecation = \<lparr>m_kind = DP_NONE, m_delim_seen = CHR 0x00, m_colon = False, m_position = 0, m_arg = []\<rparr>\<rparr>"

definition set_deprecation :: "DEPR_KIND \<Rightarrow> string \<Rightarrow> string \<Rightarrow> bool \<Rightarrow> MYSQL_TIME_STATUS \<Rightarrow> MYSQL_TIME_STATUS" where
  "set_deprecation kind arg delim colon status =
     (if m_kind (m_deprecation status) = DP_NONE
      then status\<lparr>m_deprecation := \<lparr>m_kind = kind, m_delim_seen = hd delim, m_colon = colon,
             m_position = int (length arg) - int (length delim), m_arg = take 39 arg\<rparr>\<rparr>
      else status)"

text \<open>The assignment operator, which keeps a deprecation that is set.\<close>

definition assign_status :: "MYSQL_TIME_STATUS \<Rightarrow> MYSQL_TIME_STATUS \<Rightarrow> MYSQL_TIME_STATUS" where
  "assign_status a b =
     a\<lparr>warnings := warnings b, fractional_digits := fractional_digits b, nanoseconds := nanoseconds b,
       m_deprecation := if m_kind (m_deprecation a) = DP_NONE then m_deprecation b else m_deprecation a\<rparr>"

definition squelch_deprecation :: "MYSQL_TIME_STATUS \<Rightarrow> MYSQL_TIME_STATUS" where
  "squelch_deprecation status = status\<lparr>m_deprecation := (m_deprecation status)\<lparr>m_kind := DP_NONE\<rparr>\<rparr>"

section \<open>Datetimes\<close>

definition SECS_PER_MIN :: int where "SECS_PER_MIN = 60"
definition MINS_PER_HOUR :: int where "MINS_PER_HOUR = 60"
definition SECS_PER_HOUR :: int where "SECS_PER_HOUR = SECS_PER_MIN * MINS_PER_HOUR"
definition MAX_TIME_ZONE_HOURS :: int where "MAX_TIME_ZONE_HOURS = 14"
definition TIME_DATETIME_ONLY :: int where "TIME_DATETIME_ONLY = 2"
definition TIME_STRICT_COLON :: int where "TIME_STRICT_COLON = 128"
definition MAX_DATE_PARTS :: nat where "MAX_DATE_PARTS = 8"

definition time_zone_displacement_to_seconds :: "string \<Rightarrow> int option" where
  "time_zone_displacement_to_seconds str =
     (if length str < 6 then None
      else
        let sign = (if str ! 0 = CHR ''+'' then 1 else if str ! 0 = CHR ''-'' then -1 else 0) in
        if sign = 0 then None
        else if \<not> (isdigit_char (str ! 1) \<and> isdigit_char (str ! 2)) then None
        else
          let hours = digit_of (str ! 1) * 10 + digit_of (str ! 2) in
          if str ! 3 \<noteq> CHR '':'' then None
          else if \<not> (isdigit_char (str ! 4) \<and> isdigit_char (str ! 5)) then None
          else
            let minutes = digit_of (str ! 4) * 10 + digit_of (str ! 5) in
            if minutes \<ge> MINS_PER_HOUR then None
            else
              let seconds = hours * SECS_PER_HOUR + minutes * SECS_PER_MIN in
              if seconds > MAX_TIME_ZONE_HOURS * SECS_PER_HOUR then None
              else if sign = -1 \<and> hours = 0 \<and> minutes = 0 then None
              else if \<exists>c \<in> set (drop 6 str). \<not> isspace_char c then None
              else Some (seconds * sign))"

text \<open>The loops that skip white space and register it.\<close>

fun skip_spaces :: "string \<Rightarrow> string \<Rightarrow> MYSQL_TIME_STATUS \<Rightarrow> string \<times> MYSQL_TIME_STATUS" where
  "skip_spaces str_arg [] status = ([], status)"
| "skip_spaces str_arg (c # str) status =
     (if isspace_char c then skip_spaces str_arg str (set_deprecation DP_SUPERFLUOUS str_arg (c # str) False status)
      else (c # str, status))"

text \<open>The state of the loop over the parts of a date.\<close>

record date_scan =
  sc_str :: string
  sc_i :: nat
  sc_field_length :: int
  sc_date :: "int list"
  sc_date_len :: "nat list"
  sc_not_zero_date :: int
  sc_last_field_pos :: string
  sc_found_delimiter :: bool
  sc_found_space :: bool
  sc_found_displacement :: bool
  sc_displacement :: int
  sc_status :: MYSQL_TIME_STATUS

text \<open>
  The digits of one part after the first: the rest, the field length and the value, or
  \<open>None\<close> for an impossible part.
\<close>

fun scan_digits :: "bool \<Rightarrow> string \<Rightarrow> int \<Rightarrow> int \<Rightarrow> (string \<times> int \<times> int) option" where
  "scan_digits scan_until_delim [] field_length tmp_value = Some ([], field_length, tmp_value)"
| "scan_digits scan_until_delim (c # str) field_length tmp_value =
     (if isdigit_char c then
        let field_length' = (if scan_until_delim then field_length else u32 (field_length - 1)) in
        if scan_until_delim \<or> field_length' \<noteq> 0 then
          let tmp_value' = tmp_value * 10 + digit_of c in
          if tmp_value' > 999999 then None else scan_digits scan_until_delim str field_length' tmp_value'
        else Some (c # str, field_length', tmp_value)
      else Some (c # str, field_length, tmp_value))"

definition truncated_status :: "MYSQL_TIME_STATUS \<Rightarrow> MYSQL_TIME_STATUS" where
  "truncated_status status = status\<lparr>warnings := MYSQL_TIME_WARN_TRUNCATED\<rparr>"

text \<open>Register one delimiter that is not white space.\<close>

definition check_punct ::
    "bool \<Rightarrow> bool \<Rightarrow> string \<Rightarrow> nat \<Rightarrow> string \<Rightarrow> MYSQL_TIME_STATUS \<Rightarrow> MYSQL_TIME_STATUS" where
  "check_punct is_internal_format short_year str_arg i str status =
     (let allow_hyphen = (i = 0 \<or> i = 1); allow_colon = (i = 3 \<or> i = 4) in
      if \<not> (hd str = CHR ''-'' \<and> allow_hyphen \<or> hd str = CHR '':'' \<and> allow_colon) \<and> i \<noteq> 2 then
        if is_internal_format \<and> short_year then status
        else set_deprecation DP_WRONG_KIND str_arg str (i > 1) status
      else if i = 2 \<and> (hd str \<noteq> CHR ''.'' \<or> \<not> is_internal_format) then
        set_deprecation DP_WRONG_SPACE str_arg str False status
      else status)"

text \<open>
  The delimiters after a part: the rest, whether there was one, whether there was white space, and
  the status; or the status of a white space that is not allowed.
\<close>

fun skip_delims ::
    "bool \<Rightarrow> bool \<Rightarrow> string \<Rightarrow> nat \<Rightarrow> string \<Rightarrow> bool \<Rightarrow> bool \<Rightarrow> MYSQL_TIME_STATUS
     \<Rightarrow> MYSQL_TIME_STATUS + string \<times> bool \<times> bool \<times> MYSQL_TIME_STATUS" where
  "skip_delims is_internal_format short_year str_arg i [] one_delim_seen found_space status =
     Inr ([], one_delim_seen, found_space, status)"
| "skip_delims is_internal_format short_year str_arg i (c # str) one_delim_seen found_space status =
     (if ispunct_char c \<or> isspace_char c then
        let status =
              (if one_delim_seen then set_deprecation DP_SUPERFLUOUS str_arg (c # str) False status else status) in
        if isspace_char c then
          if \<not> (i = 2 \<or> i = 6) then Inl (truncated_status status)
          else
            let status = (if i = 6 then set_deprecation DP_SUPERFLUOUS str_arg (c # str) False status else status);
                status = (if c \<noteq> CHR '' '' then set_deprecation DP_WRONG_SPACE str_arg (c # str) False status else status)
            in skip_delims is_internal_format short_year str_arg i str True True status
        else
          skip_delims is_internal_format short_year str_arg i str True found_space
            (check_punct is_internal_format short_year str_arg i (c # str) status)
      else Inr (c # str, one_delim_seen, found_space, status))"

text \<open>A time zone displacement takes the rest of the text.\<close>

definition take_displacement :: "date_scan \<Rightarrow> MYSQL_TIME_STATUS + date_scan" where
  "take_displacement s =
     (case time_zone_displacement_to_seconds (sc_str s) of
        Some d \<Rightarrow> Inr (s\<lparr>sc_found_displacement := True, sc_displacement := d, sc_str := [], sc_last_field_pos := []\<rparr>)
      | None \<Rightarrow> Inl (truncated_status (sc_status s)))"

definition at_sign :: "string \<Rightarrow> bool" where
  "at_sign str \<longleftrightarrow> str \<noteq> [] \<and> (hd str = CHR ''+'' \<or> hd str = CHR ''-'')"

text \<open>The end of the body of the loop, which reads the delimiters.\<close>

definition after_part :: "bool \<Rightarrow> nat \<Rightarrow> string \<Rightarrow> date_scan \<Rightarrow> MYSQL_TIME_STATUS + date_scan" where
  "after_part is_internal_format year_length str_arg s =
     (case skip_delims is_internal_format (year_length = 2 \<and> sc_date_len s ! 0 = 1) str_arg (sc_i s) (sc_str s) False
             (sc_found_space s) (sc_status s) of
        Inl status \<Rightarrow> Inl status
      | Inr (str, delim, space, status) \<Rightarrow>
          Inr (s\<lparr>sc_str := str, sc_last_field_pos := str, sc_found_delimiter := sc_found_delimiter s \<or> delim,
                 sc_found_space := space, sc_status := status, sc_i := if sc_i s = 6 then 7 else sc_i s\<rparr>))"

text \<open>
  The body of the loop over the parts: the status of a failure, or the state and whether the
  loop goes on.
\<close>

definition scan_part :: "bool \<Rightarrow> nat \<Rightarrow> string \<Rightarrow> date_scan \<Rightarrow> MYSQL_TIME_STATUS + date_scan \<times> bool" where
  "scan_part is_internal_format year_length str_arg s =
     (let i = sc_i s; start = sc_str s; go = map_sum id (\<lambda>s. (s, True)) in
      case scan_digits (\<not> is_internal_format \<and> i \<noteq> 6) (tl start) (sc_field_length s) (digit_of (hd start)) of
        None \<Rightarrow> Inl (truncated_status (sc_status s))
      | Some (str, _, tmp_value) \<Rightarrow>
          let s = s\<lparr>sc_str := str, sc_date_len := (sc_date_len s)[i := length start - length str],
                    sc_date := (sc_date s)[i := tmp_value], sc_not_zero_date := sc_not_zero_date s OR tmp_value,
                    sc_field_length := 2, sc_last_field_pos := str\<rparr> in
          if str = [] then Inr (s\<lparr>sc_i := i + 1\<rparr>, False)
          else if i = 2 \<and> hd str = CHR ''T'' then Inr (s\<lparr>sc_str := tl str\<rparr>, True)
          else if i = 5 then
            if hd str = CHR ''.'' then
              Inr (s\<lparr>sc_str := tl str, sc_last_field_pos := tl str, sc_field_length := 6\<rparr>, True)
            else if isdigit_char (hd str) then Inr (s\<lparr>sc_i := i + 1\<rparr>, False)
            else if at_sign str then go (take_displacement s)
            else Inr (s, True)
          else if i = 6 \<and> at_sign str then
            (case take_displacement s of
               Inl status \<Rightarrow> Inl status
             | Inr s \<Rightarrow> go (after_part is_internal_format year_length str_arg s))
          else go (after_part is_internal_format year_length str_arg s))"

lemma scan_part_i:
  assumes "scan_part fmt yl arg s = Inr (s', b)"
  shows "sc_i s \<le> sc_i s'"
proof -
  have t: "sc_i s2 = sc_i s1" if "take_displacement s1 = Inr s2" for s1 s2
    using that by (auto simp: take_displacement_def split: option.splits)
  have a: "sc_i s1 \<le> sc_i s2" if "after_part fmt yl arg s1 = Inr s2" for s1 s2
    using that by (auto simp: after_part_def split: sum.splits)
  show ?thesis
    using assms by (auto simp: scan_part_def Let_def map_sum_def split: option.splits sum.splits if_splits dest!: a t)
qed

function scan_loop :: "bool \<Rightarrow> nat \<Rightarrow> string \<Rightarrow> date_scan \<Rightarrow> MYSQL_TIME_STATUS + date_scan" where
  "scan_loop is_internal_format year_length str_arg s =
     (if sc_i s < MAX_DATE_PARTS - 1 \<and> sc_str s \<noteq> [] \<and> isdigit_char (hd (sc_str s)) then
        case scan_part is_internal_format year_length str_arg s of
          Inl status \<Rightarrow> Inl status
        | Inr (s, True) \<Rightarrow> scan_loop is_internal_format year_length str_arg (s\<lparr>sc_i := sc_i s + 1\<rparr>)
        | Inr (s, False) \<Rightarrow> Inr s
      else Inr s)"
  by pat_completeness auto

termination
  by (relation "measure (\<lambda>(f, yl, arg, s). MAX_DATE_PARTS - sc_i s)") (auto simp: MAX_DATE_PARTS_def dest!: scan_part_i)

declare scan_loop.simps [simp del]

text \<open>The format without delimiters: whether the text has it, and the length of the year.\<close>

definition first_digits :: "string \<Rightarrow> bool \<times> nat" where
  "first_digits str =
     (let rest = dropWhile (\<lambda>c. isdigit_char c \<or> c = CHR ''T'') str; digits = length str - length rest in
      if rest = [] \<or> hd rest = CHR ''.''
      then (True, if digits = 4 \<or> digits = 8 \<or> digits \<ge> 14 then 4 else 2)
      else (False, 0))"

definition start_scan :: "string \<Rightarrow> int \<Rightarrow> MYSQL_TIME_STATUS \<Rightarrow> date_scan" where
  "start_scan str field_length status =
     \<lparr>sc_str = str, sc_i = 0, sc_field_length = field_length, sc_date = replicate 8 0, sc_date_len = replicate 8 0,
      sc_not_zero_date = 0, sc_last_field_pos = [], sc_found_delimiter = False, sc_found_space = False,
      sc_found_displacement = False, sc_displacement = 0, sc_status = status\<rparr>"

text \<open>The parts that were found, stored; the digits of the fraction are scaled to microseconds.\<close>

definition store_parts :: "bool \<Rightarrow> nat \<Rightarrow> date_scan \<Rightarrow> MYSQL_TIME \<Rightarrow> MYSQL_TIME" where
  "store_parts is_internal_format year_length s l_time =
     (let date = take (sc_i s) (sc_date s) @ replicate (MAX_DATE_PARTS - sc_i s) 0;
          date_len = take (sc_i s) (sc_date_len s) @ replicate (MAX_DATE_PARTS - sc_i s) 0;
          year_length = (if is_internal_format then year_length else date_len ! 0);
          frac = (if date_len ! 6 < 6 then u32 (date ! 6 * log_10_int ! (DATETIME_MAX_DECIMALS - date_len ! 6))
                  else date ! 6);
          l_time = l_time\<lparr>year := date ! 0, month := date ! 1, day := date ! 2, hour := date ! 3, minute := date ! 4,
                      second := date ! 5, second_part := frac, time_zone_displacement := sc_displacement s,
                      neg := False\<rparr>;
          l_time = (if year_length = 2 \<and> sc_not_zero_date s \<noteq> 0
                    then l_time\<lparr>year := year l_time + (if year l_time < YY_PART_YEAR then 2000 else 1900)\<rparr> else l_time)
      in l_time\<lparr>time_type := if sc_i s \<le> 3 then MYSQL_TIMESTAMP_DATE
                  else if sc_found_displacement s then MYSQL_TIMESTAMP_DATETIME_TZ else MYSQL_TIMESTAMP_DATETIME\<rparr>)"

fun trailing_text :: "string \<Rightarrow> string \<Rightarrow> MYSQL_TIME_STATUS \<Rightarrow> MYSQL_TIME_STATUS" where
  "trailing_text str_arg [] status = status"
| "trailing_text str_arg (c # str) status =
     (if \<not> isspace_char c then truncated_status status
      else trailing_text str_arg str (set_deprecation DP_SUPERFLUOUS str_arg (c # str) False status))"

text \<open>What is left after the parts: more digits of the fraction, a displacement, white space.\<close>

definition finish_datetime ::
    "string \<Rightarrow> string \<Rightarrow> MYSQL_TIME \<Rightarrow> MYSQL_TIME_STATUS \<Rightarrow> bool \<times> MYSQL_TIME \<times> MYSQL_TIME_STATUS" where
  "finish_datetime str_arg str l_time status =
     (let (str, status) =
            (if fractional_digits status = 6 \<and> str \<noteq> [] \<and> isdigit_char (hd str)
             then (dropWhile isdigit_char str, status\<lparr>nanoseconds := 100 * digit_of (hd str)\<rparr>) else (str, status)) in
      if at_sign str then
        case time_zone_displacement_to_seconds str of
          None \<Rightarrow> (True, l_time\<lparr>time_type := MYSQL_TIMESTAMP_NONE\<rparr>, truncated_status status)
        | Some d \<Rightarrow>
            (False, l_time\<lparr>time_type := MYSQL_TIMESTAMP_DATETIME_TZ, time_zone_displacement := d\<rparr>, status)
      else (False, l_time, trailing_text str_arg str status))"

definition not_a_datetime :: "MYSQL_TIME \<Rightarrow> MYSQL_TIME_STATUS \<Rightarrow> bool \<times> MYSQL_TIME \<times> MYSQL_TIME_STATUS" where
  "not_a_datetime l_time status = (True, l_time\<lparr>time_type := MYSQL_TIMESTAMP_NONE\<rparr>, truncated_status status)"

definition str_to_datetime ::
    "string \<Rightarrow> MYSQL_TIME \<Rightarrow> int \<Rightarrow> MYSQL_TIME_STATUS \<Rightarrow> bool \<times> MYSQL_TIME \<times> MYSQL_TIME_STATUS" where
  "str_to_datetime str_arg l_time flags status =
     (case skip_spaces str_arg str_arg status of (str, status) \<Rightarrow>
      if str = [] \<or> \<not> isdigit_char (hd str) then not_a_datetime l_time status
      else
        case first_digits str of (is_internal_format, year_length) \<Rightarrow>
        case scan_loop is_internal_format year_length str_arg
               (start_scan str (if is_internal_format then int year_length else 4) status) of
          Inl status \<Rightarrow> (True, l_time\<lparr>time_type := MYSQL_TIMESTAMP_NONE\<rparr>, status)
        | Inr s \<Rightarrow>
            let status = sc_status s; space_at_end = (sc_found_space s \<and> sc_i s = 3 \<and> sc_str s = []) in
            if sc_found_delimiter s \<and> \<not> space_at_end \<and> \<not> sc_found_space s \<and> has_flag flags TIME_DATETIME_ONLY
            then not_a_datetime l_time status
            else if \<not> is_internal_format \<and> sc_date_len s ! 0 = 0 then not_a_datetime l_time status
            else
              let status = (if sc_found_delimiter s \<and> space_at_end
                            then set_deprecation DP_SUPERFLUOUS str_arg [last str_arg] False status else status);
                  l_time = store_parts is_internal_format year_length s l_time;
                  status = status\<lparr>fractional_digits := if sc_i s > 6 then sc_date_len s ! 6 else 0\<rparr>;
                  str = sc_last_field_pos s;
                  failed = (\<lambda>status. (True, set_zero_time MYSQL_TIMESTAMP_ERROR, status)) in
              if sc_i s < 3 \<or> check_datetime_range l_time then
                failed (status\<lparr>warnings := warnings status OR
                  (if sc_not_zero_date s \<noteq> 0 \<or> (\<exists>c \<in> set str. \<not> isspace_char c)
                   then MYSQL_TIME_WARN_TRUNCATED else MYSQL_TIME_WARN_ZERO_DATE)\<rparr>)
              else
                case check_date l_time (sc_not_zero_date s \<noteq> 0) flags (warnings status) of
                  (True, was_cut) \<Rightarrow> failed (status\<lparr>warnings := was_cut\<rparr>)
                | (False, was_cut) \<Rightarrow> finish_datetime str_arg str l_time (status\<lparr>warnings := was_cut\<rparr>))"

section \<open>Times\<close>

text \<open>A number of any length; the value wraps around.\<close>

fun scan_number :: "string \<Rightarrow> int \<Rightarrow> string \<times> int" where
  "scan_number [] val = ([], val)"
| "scan_number (c # str) val =
     (if isdigit_char c then scan_number str (u64 (val * 10 + digit_of c)) else (c # str, val))"

definition time_separator :: char where "time_separator = CHR '':''"

lemma scan_number_length: "scan_number str val = (rest, v) \<Longrightarrow> length rest \<le> length str"
  by (induction str val rule: scan_number.induct) (auto split: if_splits)

text \<open>
  The loop over hours, minutes and seconds: the numbers that were found are added to the list of
  \<open>state\<close> numbers before them.
\<close>

function scan_time_parts :: "int list \<Rightarrow> bool \<Rightarrow> string \<Rightarrow> int list \<times> bool \<times> string" where
  "scan_time_parts date seen_colon str =
     (let str' = fst (scan_number str 0); date = date @ [snd (scan_number str 0)] in
      if length date = 4 \<or> length str' < 2 \<or> hd str' \<noteq> time_separator \<or> \<not> isdigit_char (str' ! 1)
      then (date, seen_colon, str')
      else scan_time_parts date True (tl str'))"
  by pat_completeness auto

termination
proof (relation "measure (\<lambda>(date, seen, str). length str)", goal_cases)
  case (2 date seen_colon str str' date')
  then show ?case using scan_number_length [of str 0 "fst (scan_number str 0)" "snd (scan_number str 0)"]
    by (simp, linarith)
qed simp

declare scan_time_parts.simps [simp del]

text \<open>
  The days, hours, minutes and seconds at the start of the text; with a number before them, which
  counts days when it is followed by white space and a digit. Unset parts are zero.
\<close>

definition time_parts :: "int \<Rightarrow> string \<Rightarrow> string \<Rightarrow> int list \<times> bool \<times> string" where
  "time_parts val end_of_days str =
     (let fill = (\<lambda>date. date @ replicate (4 - length date) 0) in
      if u32 (int (length str)) > 1 \<and> str \<noteq> end_of_days \<and> isdigit_char (hd str) then
        case scan_time_parts [val] False str of (date, seen_colon, str) \<Rightarrow> (fill date, seen_colon, str)
      else if length str > 1 \<and> hd str = time_separator \<and> isdigit_char (str ! 1) then
        case scan_time_parts [0, val] True (tl str) of (date, seen_colon, str) \<Rightarrow> (fill date, seen_colon, str)
      else ([0, val div 10000, val div 100 mod 100, val mod 100], False, str))"

fun scan_fraction :: "string \<Rightarrow> int \<Rightarrow> int \<Rightarrow> char \<Rightarrow> string \<times> int \<times> int \<times> char" where
  "scan_fraction [] field_length val prev = ([], field_length, val, prev)"
| "scan_fraction (c # str) field_length val prev =
     (if isdigit_char c then
        scan_fraction str (field_length - 1) (if field_length > 0 then val * 10 + digit_of c else val) c
      else (c # str, field_length, val, prev))"

text \<open>The fraction: the rest, the microseconds and the status.\<close>

definition time_fraction :: "string \<Rightarrow> MYSQL_TIME_STATUS \<Rightarrow> string \<times> int \<times> MYSQL_TIME_STATUS" where
  "time_fraction str status =
     (if length str \<ge> 2 \<and> hd str = CHR ''.'' \<and> isdigit_char (str ! 1) then
        case scan_fraction (drop 2 str) 5 (digit_of (str ! 1)) (str ! 1) of (str, field_length, val, prev) \<Rightarrow>
          if field_length \<ge> 0 then
            (str, val * log_10_int ! nat field_length, status\<lparr>fractional_digits := nat (6 - field_length)\<rparr>)
          else (str, val, status\<lparr>fractional_digits := 6, nanoseconds := 100 * digit_of prev\<rparr>)
      else if length str = 1 \<and> hd str = CHR ''.'' then (tl str, 0, status)
      else (str, 0, status))"

definition has_exponent :: "string \<Rightarrow> bool" where
  "has_exponent str \<longleftrightarrow>
     length str > 1 \<and> (hd str = CHR ''e'' \<or> hd str = CHR ''E'')
     \<and> (isdigit_char (str ! 1)
        \<or> (str ! 1 = CHR ''-'' \<or> str ! 1 = CHR ''+'') \<and> length str > 2 \<and> isdigit_char (str ! 2))"

text \<open>The text after the time; \<open>start\<close> is the text at the first character of the time.\<close>

fun time_garbage :: "string \<Rightarrow> string \<Rightarrow> string \<Rightarrow> MYSQL_TIME \<Rightarrow> MYSQL_TIME_STATUS
    \<Rightarrow> bool \<times> MYSQL_TIME \<times> MYSQL_TIME_STATUS" where
  "time_garbage str_arg start [] l_time status = (False, l_time, status)"
| "time_garbage str_arg start (c # str) l_time status =
     (if \<not> isspace_char c then
        let status = status\<lparr>warnings := warnings status OR MYSQL_TIME_WARN_TRUNCATED\<rparr> in
        if c # str = start then (True, l_time\<lparr>time_type := MYSQL_TIMESTAMP_NONE\<rparr>, status)
        else (False, l_time, status)
      else time_garbage str_arg start str l_time (set_deprecation DP_SUPERFLUOUS str_arg (c # str) False status))"

text \<open>The second part of \<open>str_to_time\<close>, for a text that is not a full timestamp.\<close>

definition str_to_plain_time ::
    "string \<Rightarrow> string \<Rightarrow> MYSQL_TIME \<Rightarrow> MYSQL_TIME_STATUS \<Rightarrow> int \<Rightarrow> bool \<times> MYSQL_TIME \<times> MYSQL_TIME_STATUS" where
  "str_to_plain_time str_arg start l_time status flags =
     (case scan_number start 0 of (end_of_days, val) \<Rightarrow>
      if val > 2 ^ 32 - 1 then (True, l_time, status)
      else
        let str = dropWhile isspace_char end_of_days;
            spaces = length end_of_days - length str;
            status = (if spaces > 1 \<or> spaces = 1 \<and> str = []
                      then set_deprecation DP_SUPERFLUOUS str_arg end_of_days False status else status) in
        case time_parts val end_of_days str of (date, seen_colon, str) \<Rightarrow>
        case time_fraction str status of (str, frac, status) \<Rightarrow>
          if has_exponent str then (True, l_time, status)
          else if \<exists>d \<in> set (date @ [frac]). d > 2 ^ 32 - 1 then (True, l_time, status)
          else if \<not> seen_colon \<and> has_flag flags TIME_STRICT_COLON then
            (True, set_zero_time MYSQL_TIMESTAMP_DATE, status\<lparr>warnings := warnings status OR MYSQL_TIME_WARN_OUT_OF_RANGE\<rparr>)
          else
            let l_time = l_time\<lparr>year := 0, month := 0, day := 0, hour := u32 (u64 (date ! 1 + date ! 0 * 24)),
                    minute := u32 (date ! 2), second := u32 (date ! 3), second_part := frac,
                    time_type := MYSQL_TIMESTAMP_TIME, time_zone_displacement := 0\<rparr> in
            if check_time_mmssff_range l_time then
              (True, l_time\<lparr>time_type := MYSQL_TIMESTAMP_ERROR\<rparr>,
               status\<lparr>warnings := warnings status OR MYSQL_TIME_WARN_OUT_OF_RANGE\<rparr>)
            else
              case adjust_time_range l_time (warnings status) of (l_time, w) \<Rightarrow>
                time_garbage str_arg start str l_time (status\<lparr>warnings := w\<rparr>))"

definition str_to_time ::
    "string \<Rightarrow> MYSQL_TIME \<Rightarrow> MYSQL_TIME_STATUS \<Rightarrow> int \<Rightarrow> bool \<times> MYSQL_TIME \<times> MYSQL_TIME_STATUS" where
  "str_to_time str_arg l_time status flags =
     (case skip_spaces str_arg str_arg status of (str, status) \<Rightarrow>
      let minus = (str \<noteq> [] \<and> hd str = CHR ''-'');
          l_time = l_time\<lparr>time_type := MYSQL_TIMESTAMP_NONE, neg := minus\<rparr>;
          str = (if minus then tl str else str) in
      if str = [] then (True, l_time, status)
      else if length str \<ge> 12 then
        case str_to_datetime str l_time (TIME_FUZZY_DATE OR TIME_DATETIME_ONLY) new_status of (_, l_time, tmpstatus) \<Rightarrow>
          if time_type l_time \<noteq> MYSQL_TIMESTAMP_NONE then
            let status = assign_status status tmpstatus; error = (time_type l_time = MYSQL_TIMESTAMP_ERROR)
            in (error, l_time, if error then squelch_deprecation status else status)
          else str_to_plain_time str_arg str l_time status flags
      else str_to_plain_time str_arg str l_time status flags)"

section \<open>Printing\<close>

definition format_two_digits :: "int \<Rightarrow> string" where
  "format_two_digits val = write_two_digits (if val < 0 \<or> val \<ge> 100 then 0 else val)"

definition my_useconds_to_str :: "int \<Rightarrow> nat \<Rightarrow> string" where
  "my_useconds_to_str useconds dec =
     CHR ''.'' # write_digits (((\<lambda>u. u div 10) ^^ (DATETIME_MAX_DECIMALS - dec)) (u32 useconds)) dec"

definition my_time_to_str :: "MYSQL_TIME \<Rightarrow> nat \<Rightarrow> string" where
  "my_time_to_str t dec =
     (if neg t then ''-'' else []) @ write_digits (hour t) (max 2 (count_digits (hour t))) @ '':''
     @ format_two_digits (s32 (minute t)) @ '':'' @ format_two_digits (s32 (second t))
     @ (if dec \<noteq> 0 then my_useconds_to_str (second_part t) dec else [])"

definition my_date_to_str :: "MYSQL_TIME \<Rightarrow> string" where
  "my_date_to_str t =
     format_two_digits (s32 (year t div 100)) @ format_two_digits (s32 (year t mod 100)) @ ''-''
     @ format_two_digits (s32 (month t)) @ ''-'' @ format_two_digits (s32 (day t))"

definition TIME_to_datetime_str :: "MYSQL_TIME \<Rightarrow> string" where
  "TIME_to_datetime_str t =
     format_two_digits (s32 (year t div 100)) @ format_two_digits (s32 (year t mod 100)) @ ''-''
     @ format_two_digits (s32 (month t)) @ ''-'' @ format_two_digits (s32 (day t)) @ '' ''
     @ format_two_digits (s32 (hour t)) @ '':'' @ format_two_digits (s32 (minute t)) @ '':''
     @ format_two_digits (s32 (second t))"

text \<open>
  The conversions \<open>%+02i\<close>, a sign and the digits in at least two characters, and \<open>%02i\<close> of
  a number that is not negative, in at least two digits.
\<close>

definition signed_2i :: "int \<Rightarrow> string" where
  "signed_2i v = (if v < 0 then ''-'' else ''+'') @ write_digits \<bar>v\<bar> (count_digits \<bar>v\<bar>)"

definition unsigned_2i :: "int \<Rightarrow> string" where
  "unsigned_2i v = write_digits v (max 2 (count_digits v))"

definition my_datetime_to_str :: "MYSQL_TIME \<Rightarrow> nat \<Rightarrow> string" where
  "my_datetime_to_str t dec =
     TIME_to_datetime_str t @ (if dec \<noteq> 0 then my_useconds_to_str (second_part t) dec else [])
     @ (if time_type t = MYSQL_TIMESTAMP_DATETIME_TZ
        then let tzd = time_zone_displacement t in
             signed_2i (tzd sdiv SECS_PER_HOUR) @ '':'' @ unsigned_2i (\<bar>tzd\<bar> div SECS_PER_MIN mod MINS_PER_HOUR)
        else [])"

definition my_TIME_to_str :: "MYSQL_TIME \<Rightarrow> nat \<Rightarrow> string" where
  "my_TIME_to_str t dec =
     (case time_type t of
        MYSQL_TIMESTAMP_DATETIME \<Rightarrow> my_datetime_to_str t dec
      | MYSQL_TIMESTAMP_DATETIME_TZ \<Rightarrow> my_datetime_to_str t dec
      | MYSQL_TIMESTAMP_DATE \<Rightarrow> my_date_to_str t
      | MYSQL_TIMESTAMP_TIME \<Rightarrow> my_time_to_str t dec
      | MYSQL_TIMESTAMP_NONE \<Rightarrow> []
      | MYSQL_TIMESTAMP_ERROR \<Rightarrow> [])"

definition my_timeval_to_str :: "my_timeval \<Rightarrow> nat \<Rightarrow> string" where
  "my_timeval_to_str tm dec =
     longlong10_to_str (m_tv_sec tm) (-10) @ (if dec \<noteq> 0 then my_useconds_to_str (m_tv_usec tm) dec else [])"

end
