(* ===== verification/Temporal_Arith_Proofs.thy ===== *)
theory Temporal_Arith_Proofs
  imports Temporal_Arith
begin

text \<open>
  Correctness of the arithmetic on temporal values. A datetime stands for a number of microseconds
  (\<open>dt_usec\<close>), counted from day 0 of the calendar; intervals, differences and rounding are
  described on these numbers.
\<close>

section \<open>Datetimes as numbers\<close>

definition valid_datetime :: "MYSQL_TIME \<Rightarrow> bool" where
  "valid_datetime t \<longleftrightarrow>
     1 \<le> year t \<and> year t \<le> 9999 \<and> valid_date (year t) (month t) (day t) \<and> 0 \<le> hour t \<and> hour t < 24
     \<and> 0 \<le> minute t \<and> minute t < 60 \<and> 0 \<le> second t \<and> second t < 60 \<and> 0 \<le> second_part t \<and> second_part t < 1000000"

definition dt_usec :: "MYSQL_TIME \<Rightarrow> int" where
  "dt_usec t = (calc_daynr (year t) (month t) (day t) * 86400 + hms_seconds t) * 1000000 + second_part t"

definition usec_per_day :: int where "usec_per_day = 86400 * 1000000"

lemma hms_bounds:
  assumes "0 \<le> hour t" "hour t < 24" "0 \<le> minute t" "minute t < 60" "0 \<le> second t" "second t < 60"
  shows "0 \<le> hms_seconds t" "hms_seconds t < 86400"
  using assms by (simp_all add: hms_seconds_def)

lemma valid_datetime_day:
  assumes "valid_datetime t"
  shows "1 \<le> day t" "day t \<le> 31" "1 \<le> month t" "month t \<le> 12"
    and "calc_daynr (year t) (month t) (day t) = calc_daynr (year t) (month t) 1 + day t - 1"
    and "366 \<le> calc_daynr (year t) (month t) (day t)" "calc_daynr (year t) (month t) (day t) \<le> MAX_DAY_NUMBER"
proof -
  have v: "1 \<le> year t" "year t \<le> 9999" "valid_date (year t) (month t) (day t)"
    using assms by (simp_all add: valid_datetime_def)
  then show m: "1 \<le> month t" "month t \<le> 12" "1 \<le> day t" by (simp_all add: valid_date_def)
  have "month_length (year t) (month t) \<le> 31"
    using month_cases [OF m(1,2)] days_cases [of "year t"] by (elim insertE emptyE) auto
  then show d: "day t \<le> 31" using v(3) by (simp add: valid_date_def)
  show "calc_daynr (year t) (month t) (day t) = calc_daynr (year t) (month t) 1 + day t - 1"
    using calc_daynr_month [of "year t" "month t" "day t"] calc_daynr_month [of "year t" "month t" 1] v m d by simp
  show "366 \<le> calc_daynr (year t) (month t) (day t)" "calc_daynr (year t) (month t) (day t) \<le> MAX_DAY_NUMBER"
    using calc_daynr_range [OF v] by simp_all
qed

lemma set_daynr_valid:
  assumes "366 \<le> n" "n \<le> MAX_DAY_NUMBER" "0 \<le> hour t" "hour t < 24" "0 \<le> minute t" "minute t < 60" "0 \<le> second t"
    "second t < 60" "0 \<le> second_part t" "second_part t < 1000000"
  shows "valid_datetime (set_daynr n t)" "dt_usec (set_daynr n t) = (n * 86400 + hms_seconds t) * 1000000 + second_part t"
proof -
  obtain y m d where "get_date_from_daynr n = (y, m, d)" "1 \<le> y" "y \<le> 9999" "valid_date y m d" "calc_daynr y m d = n"
    by (rule get_date_valid [OF assms(1,2)])
  then show "valid_datetime (set_daynr n t)" "dt_usec (set_daynr n t) = (n * 86400 + hms_seconds t) * 1000000 + second_part t"
    using assms(3-) by (simp_all add: set_daynr_def valid_datetime_def dt_usec_def hms_seconds_def)
qed

lemma set_daynr_zero: "n \<le> 365 \<Longrightarrow> set_daynr n t = t\<lparr>year := 0, month := 0, day := 0\<rparr>"
  by (simp add: set_daynr_def get_date_from_daynr_def)

section \<open>Division with a sign\<close>

text \<open>The remainder of a signed division moved up to be positive is that of the division that rounds down.\<close>

lemma sdivmod_floor:
  fixes a b :: int
  assumes "0 < b"
  shows "a smod b < 0 \<Longrightarrow> a mod b = a smod b + b \<and> a div b = a sdiv b - 1"
    and "\<not> a smod b < 0 \<Longrightarrow> a mod b = a smod b \<and> a div b = a sdiv b"
proof -
  have e: "a = a sdiv b * b + a smod b" by (rule sdiv_mult_smod_eq [symmetric])
  have l: "\<bar>a smod b\<bar> < b" using assms by (auto simp: signed_modulo_int_def abs_mult sgn_if)
  show "a mod b = a smod b + b \<and> a div b = a sdiv b - 1" if "a smod b < 0"
  proof -
    have "a = b * (a sdiv b - 1) + (a smod b + b)" using e by (simp add: algebra_simps)
    then show ?thesis using that l int_div_pos_eq [of a b "a sdiv b - 1" "a smod b + b"]
        int_mod_pos_eq [of a b "a sdiv b - 1" "a smod b + b"] by simp
  qed
  show "a mod b = a smod b \<and> a div b = a sdiv b" if "\<not> a smod b < 0"
  proof -
    have "a = b * (a sdiv b) + a smod b" using e by (simp add: algebra_simps)
    then show ?thesis using that l int_div_pos_eq [of a b "a sdiv b" "a smod b"]
        int_mod_pos_eq [of a b "a sdiv b" "a smod b"] by simp
  qed
qed

lemma carry_floor:
  fixes a b s :: int
  assumes "0 < b"
  shows "(if a smod b < 0 then (a smod b + b, s + a sdiv b - 1) else (a smod b, s + a sdiv b)) = (a mod b, s + a div b)"
  using sdivmod_floor [OF assms, of a] by (cases "a smod b < 0") simp_all

lemma borrow_floor:
  fixes s :: int
  shows "(if s - s sdiv (3600 * 24) * 3600 * 24 < 0 then (s sdiv (3600 * 24) - 1, s - s sdiv (3600 * 24) * 3600 * 24 + 3600 * 24)
    else (s sdiv (3600 * 24), s - s sdiv (3600 * 24) * 3600 * 24)) = (s div 86400, s mod 86400)"
proof -
  have "s - s sdiv (3600 * 24) * 3600 * 24 = s smod 86400" using minus_sdiv_mult_eq_smod [of s 86400] by simp
  then show ?thesis using sdivmod_floor [of 86400 s] by (cases "s smod 86400 < 0") simp_all
qed

section \<open>Adding intervals of time\<close>

definition itv_unsigned :: "Interval \<Rightarrow> bool" where
  "itv_unsigned i \<longleftrightarrow>
     0 \<le> itv_year i \<and> itv_year i < 2 ^ 64 \<and> 0 \<le> itv_month i \<and> itv_month i < 2 ^ 64 \<and> 0 \<le> itv_day i \<and> itv_day i < 2 ^ 64
     \<and> 0 \<le> itv_hour i \<and> itv_hour i < 2 ^ 64 \<and> 0 \<le> itv_minute i \<and> itv_minute i < 2 ^ 64
     \<and> 0 \<le> itv_second i \<and> itv_second i < 2 ^ 64 \<and> 0 \<le> itv_second_part i \<and> itv_second_part i < 2 ^ 62"

definition itv_seconds :: "Interval \<Rightarrow> int" where
  "itv_seconds i = itv_day i * 3600 * 24 + itv_hour i * 3600 + itv_minute i * 60 + itv_second i"

definition itv_usec :: "Interval \<Rightarrow> int" where
  "itv_usec i = itv_seconds i * 1000000 + itv_second_part i"

definition itv_too_big :: "Interval \<Rightarrow> bool" where
  "itv_too_big i \<longleftrightarrow> itv_day i > MAX_DAY_NUMBER \<or> itv_hour i > MAX_DAY_NUMBER * 24
     \<or> itv_minute i > MAX_DAY_NUMBER * 24 * 60 \<or> itv_second i > MAX_DAY_NUMBER * 24 * 60 * 60"

lemma sign_cases: "itv_sign i = 1 \<or> itv_sign i = -1"
  by (simp add: itv_sign_def)

lemma itv_seconds_bound:
  assumes "itv_unsigned i" "\<not> itv_too_big i"
  shows "0 \<le> itv_seconds i" "itv_seconds i < 2 ^ 62"
  using assms by (auto simp: itv_unsigned_def itv_too_big_def itv_seconds_def MAX_DAY_NUMBER_def)

text \<open>The seconds from the first day of the month on, and the time of day they leave.\<close>

definition set_seconds :: "int \<Rightarrow> int \<Rightarrow> MYSQL_TIME \<Rightarrow> MYSQL_TIME" where
  "set_seconds sec usec t =
     t\<lparr>time_type := MYSQL_TIMESTAMP_DATETIME, second_part := usec, second := sec mod 60, minute := sec div 60 mod 60,
       hour := sec div 3600\<rparr>"

lemma set_seconds_fields:
  assumes "0 \<le> sec" "sec < 86400"
  shows "0 \<le> hour (set_seconds sec usec t)" "hour (set_seconds sec usec t) < 24"
    "0 \<le> minute (set_seconds sec usec t)" "minute (set_seconds sec usec t) < 60"
    "0 \<le> second (set_seconds sec usec t)" "second (set_seconds sec usec t) < 60"
    "hms_seconds (set_seconds sec usec t) = sec" "second_part (set_seconds sec usec t) = usec"
proof -
  have "sec div 3600 = sec div 60 div 60" by simp
  then show "hms_seconds (set_seconds sec usec t) = sec" by (simp add: set_seconds_def hms_seconds_def)
qed (use assms in \<open>simp_all add: set_seconds_def\<close>)

lemma time_type_fields:
  fixes t :: MYSQL_TIME
  shows "year (t\<lparr>time_type := x\<rparr>) = year t" "month (t\<lparr>time_type := x\<rparr>) = month t" "day (t\<lparr>time_type := x\<rparr>) = day t"
    "hour (t\<lparr>time_type := x\<rparr>) = hour t" "minute (t\<lparr>time_type := x\<rparr>) = minute t"
    "second (t\<lparr>time_type := x\<rparr>) = second t" "second_part (t\<lparr>time_type := x\<rparr>) = second_part t"
  by simp_all

lemma add_time_interval_eq:
  assumes "valid_datetime t" "itv_unsigned i"
  defines "A \<equiv> second_part t + itv_sign i * itv_second_part i"
  defines "S \<equiv> (day t - 1) * 86400 + hms_seconds t + itv_sign i * itv_seconds i + A div 1000000"
  defines "n \<equiv> calc_daynr (year t) (month t) 1 + S div 86400"
  shows "add_time_interval t i =
    (if itv_too_big i then (True, t\<lparr>time_type := MYSQL_TIMESTAMP_DATETIME\<rparr>)
     else if n < 0 \<or> n > MAX_DAY_NUMBER then (True, set_seconds (S mod 86400) (A mod 1000000) t)
     else (False, set_daynr n (set_seconds (S mod 86400) (A mod 1000000) t)))"
proof (cases "itv_too_big i")
  case True
  then show ?thesis by (simp add: add_time_interval_def itv_too_big_def Let_def)
next
  case False
  have big: "\<not> (itv_day i > MAX_DAY_NUMBER \<or> itv_hour i > MAX_DAY_NUMBER * 24
     \<or> itv_minute i > MAX_DAY_NUMBER * 24 * 60 \<or> itv_second i > MAX_DAY_NUMBER * 24 * 60 * 60)"
    using False by (simp add: itv_too_big_def)
  note q = borrow_floor [of S] and d = valid_datetime_day [OF assms(1)] and b = itv_seconds_bound [OF assms(2) False]
  have u: "u32 (day t - 1) = day t - 1" using d by (simp add: u32_id)
  have s: "s64 (second_part t + itv_sign i * itv_second_part i) = A"
    using sign_cases [of i] assms(1,2) unfolding A_def
    by (intro s64_id) (auto simp: valid_datetime_def itv_unsigned_def)
  have isec: "s64 (u64 (itv_day i * 3600 * 24 + itv_hour i * 3600 + itv_minute i * 60 + itv_second i)) = itv_seconds i"
    using b unfolding itv_seconds_def [symmetric] by (simp add: s64_id u64_id)
  define S0 where "S0 = (day t - 1) * 86400 + hms_seconds t + itv_sign i * itv_seconds i + A sdiv 1000000"
  have S0: "u32 (day t - 1) * 3600 * 24 + hour t * 3600 + minute t * 60 + second t + itv_sign i * itv_seconds i
      + A sdiv 1000000 = S0"
    by (simp add: S0_def u hms_seconds_def)
  have m: "(if A smod 1000000 < 0 then (A smod 1000000 + 1000000, S0 - 1) else (A smod 1000000, S0)) = (A mod 1000000, S)"
    unfolding S0_def S_def by (rule carry_floor) simp
  have r: "0 \<le> S mod 86400" "S mod 86400 < 86400" "0 \<le> A mod 1000000" "A mod 1000000 < 1000000" by simp_all
  define sec usec where "sec = S mod 86400" and "usec = A mod 1000000"
  have c: "u32 usec = usec" "u32 (sec smod 60) = sec mod 60" "u32 (sec sdiv 60 smod 60) = sec div 60 mod 60"
    "u32 (sec sdiv 3600) = sec div 3600"
    using r by (simp_all add: sec_def [symmetric] usec_def [symmetric] sdiv_nonneg smod_nonneg u32_id
        pos_imp_zdiv_nonneg_iff)
  show ?thesis
    unfolding add_time_interval_def
    apply (simp only: Let_def [of "itv_sign i"] Let_def [of "t\<lparr>time_type := MYSQL_TIMESTAMP_DATETIME\<rparr>"]
        time_type_fields s)
    apply (simp only: Let_def [of A] Let_def [of "A sdiv 1000000"] Let_def [of "A smod 1000000"] if_not_P [OF big]
        isec S0 Let_def [of S0] m)
    apply (simp only: Let_def [of "(A mod 1000000, S)"] prod.case Let_def [of "S sdiv (3600 * 24)"]
        Let_def [of "S - S sdiv (3600 * 24) * 3600 * 24"] q Let_def [of "(S div 86400, S mod 86400)"])
    apply (simp only: sec_def [symmetric] usec_def [symmetric] c n_def Let_def)
    apply (simp add: False set_seconds_def)
    done
qed

text \<open>
  What adding to a datetime leads to when the sum is \<open>moment\<close> microseconds: a valid datetime of
  that number when its day is in the years 1 to 9999. Otherwise the addition fails with the
  overflow warning, or the date is the zero date, if the day is one of the year 0.
\<close>

definition moved_to :: "int \<Rightarrow> int \<Rightarrow> bool \<times> MYSQL_TIME \<times> int \<Rightarrow> bool" where
  "moved_to moment w r \<longleftrightarrow>
     (case r of (failed, t, w') \<Rightarrow>
        let n = moment div usec_per_day in
        if 366 \<le> n \<and> n \<le> MAX_DAY_NUMBER then \<not> failed \<and> w' = w \<and> valid_datetime t \<and> dt_usec t = moment
        else if failed then w' = w OR MYSQL_TIME_WARN_DATETIME_OVERFLOW
        else w' = w \<and> 0 \<le> n \<and> n < 366 \<and> \<not> non_zero_date t)"

lemma usec_split:
  assumes "0 \<le> s" "s < 86400" "0 \<le> u" "u < 1000000"
  shows "((n * 86400 + s) * 1000000 + u) div usec_per_day = n"
proof -
  have "(n * 86400 + s) * 1000000 + u = usec_per_day * n + (s * 1000000 + u)"
    by (simp add: usec_per_day_def algebra_simps)
  moreover have "0 \<le> s * 1000000 + u" "s * 1000000 + u < usec_per_day" using assms by (simp_all add: usec_per_day_def)
  ultimately show ?thesis by (rule int_div_pos_eq)
qed

lemma too_big_outside:
  assumes "366 \<le> n" "n \<le> MAX_DAY_NUMBER" "0 \<le> s" "s < 86400" "0 \<le> u" "u < 1000000" "itv_unsigned i" "itv_too_big i"
  defines "k \<equiv> ((n * 86400 + s) * 1000000 + u + itv_sign i * itv_usec i) div usec_per_day"
  shows "\<not> (366 \<le> k \<and> k \<le> MAX_DAY_NUMBER)"
proof
  assume k: "366 \<le> k \<and> k \<le> MAX_DAY_NUMBER"
  define T where "T = (n * 86400 + s) * 1000000 + u + itv_sign i * itv_usec i"
  have T: "k * usec_per_day \<le> T" "T < (k + 1) * usec_per_day"
    using div_mult_mod_eq [of T usec_per_day] pos_mod_bound [of usec_per_day T] pos_mod_sign [of usec_per_day T]
    unfolding k_def T_def [symmetric] by (simp_all add: usec_per_day_def algebra_simps)
  have "itv_usec i \<ge> (MAX_DAY_NUMBER * 86400) * 1000000"
    using assms(7,8) unfolding itv_usec_def itv_seconds_def itv_unsigned_def itv_too_big_def by auto
  then show False using sign_cases [of i] k T assms(1-6)
    by (auto simp: T_def usec_per_day_def MAX_DAY_NUMBER_def)
qed

lemma add_time_interval_moved:
  assumes "valid_datetime t" "itv_unsigned i"
  shows "moved_to (dt_usec t + itv_sign i * itv_usec i) w
    (case add_time_interval t i of (failed, t) \<Rightarrow>
       (failed, t, if failed then w OR MYSQL_TIME_WARN_DATETIME_OVERFLOW else w))"
proof -
  define A where "A = second_part t + itv_sign i * itv_second_part i"
  define S where "S = (day t - 1) * 86400 + hms_seconds t + itv_sign i * itv_seconds i + A div 1000000"
  define n where "n = calc_daynr (year t) (month t) 1 + S div 86400"
  note e = add_time_interval_eq [OF assms, folded A_def, folded S_def, folded n_def]
  note d = valid_datetime_day [OF assms(1)]
  have h: "0 \<le> hms_seconds t" "hms_seconds t < 86400" "0 \<le> second_part t" "second_part t < 1000000"
    using assms(1) by (simp_all add: valid_datetime_def hms_bounds)
  have r: "0 \<le> S mod 86400" "S mod 86400 < 86400" "0 \<le> A mod 1000000" "A mod 1000000 < 1000000" by simp_all
  have total: "dt_usec t + itv_sign i * itv_usec i = (n * 86400 + S mod 86400) * 1000000 + A mod 1000000"
  proof -
    have "n * 86400 + S mod 86400 = calc_daynr (year t) (month t) 1 * 86400 + S"
      using div_mult_mod_eq [of S 86400] by (simp only: n_def distrib_right add.assoc)
    then have "(n * 86400 + S mod 86400) * 1000000 + A mod 1000000
        = (calc_daynr (year t) (month t) 1 * 86400 + (S - A div 1000000)) * 1000000 + A"
      using div_mult_mod_eq [of A 1000000] by (simp only: algebra_simps)
    then show ?thesis by (simp add: S_def A_def dt_usec_def d(5) itv_usec_def algebra_simps)
  qed
  note k = usec_split [OF r, of n, folded total]
  show ?thesis
  proof (cases "itv_too_big i")
    case True
    then have "\<not> (366 \<le> n \<and> n \<le> MAX_DAY_NUMBER)"
      using too_big_outside [OF d(6,7) h assms(2) True] k by (simp add: dt_usec_def)
    then show ?thesis using True by (simp add: e moved_to_def k)
  next
    case False
    define t' where "t' = set_seconds (S mod 86400) (A mod 1000000) t"
    have v: "valid_datetime (set_daynr n t') \<and> dt_usec (set_daynr n t') = dt_usec t + itv_sign i * itv_usec i"
      if "366 \<le> n" "n \<le> MAX_DAY_NUMBER"
      using set_daynr_valid [OF that] set_seconds_fields [OF r(1,2)] r(3,4) unfolding total t'_def by simp
    have z: "\<not> non_zero_date (set_daynr n t')" if "n < 366"
      using that by (simp add: set_daynr_zero non_zero_date_def)
    show ?thesis using False v z unfolding e moved_to_def Let_def k t'_def by auto
  qed
qed

section \<open>Adding days, months and years\<close>

abbreviation with_warning :: "int \<Rightarrow> bool \<times> MYSQL_TIME \<Rightarrow> bool \<times> MYSQL_TIME \<times> int" where
  "with_warning w \<equiv> \<lambda>(failed, t). (failed, t, if failed then w OR MYSQL_TIME_WARN_DATETIME_OVERFLOW else w)"

lemma add_day_interval_eq:
  assumes "valid_datetime t" "itv_unsigned i"
  defines "n \<equiv> calc_daynr (year t) (month t) (day t) + itv_sign i * itv_day i"
  shows "add_day_interval t i = (if n < 0 \<or> n > MAX_DAY_NUMBER then (True, t) else (False, set_daynr n t))"
proof -
  define p where "p = calc_daynr (year t) (month t) (day t)"
  have p: "366 \<le> p" "p \<le> MAX_DAY_NUMBER" using valid_datetime_day(6,7) [OF assms(1)] by (simp_all add: p_def)
  then have u: "u64 p = p" by (simp add: u64_id MAX_DAY_NUMBER_def)
  have d: "0 \<le> itv_day i" "itv_day i < 2 ^ 64" using assms(2) by (simp_all add: itv_unsigned_def)
  show ?thesis
  proof (cases "itv_neg i")
    case True
    then show ?thesis using p d unfolding n_def p_def [symmetric]
      by (auto simp: add_day_interval_def p_def [symmetric] u itv_sign_def)
  next
    case False
    have s: "u64 (p + itv_day i) = (if p + itv_day i < 2 ^ 64 then p + itv_day i else p + itv_day i - 2 ^ 64)"
    proof (cases "p + itv_day i < 2 ^ 64")
      case False
      then have "(p + itv_day i - 2 ^ 64) mod 2 ^ 64 = p + itv_day i - 2 ^ 64"
        using p d by (intro mod_pos_pos_trivial) (simp_all add: MAX_DAY_NUMBER_def)
      moreover have "(p + itv_day i - 2 ^ 64) mod 2 ^ 64 = (p + itv_day i) mod 2 ^ 64"
        by (simp only: minus_mod_self2)
      ultimately show ?thesis using False by (simp only: u64_def if_False)
    qed (use p d in \<open>simp add: u64_id\<close>)
    have n: "n = p + itv_day i" using False by (simp add: n_def p_def itv_sign_def)
    have "add_day_interval t i = (if u64 (p + itv_day i) < p then (True, t)
        else if u64 (p + itv_day i) > MAX_DAY_NUMBER then (True, t) else (False, set_daynr (u64 (p + itv_day i)) t))"
      using False by (simp add: add_day_interval_def p_def [symmetric] u Let_def)
    then show ?thesis using p d unfolding s n by (auto simp: MAX_DAY_NUMBER_def)
  qed
qed

lemma add_day_interval_moved:
  assumes "valid_datetime t" "itv_unsigned i"
  shows "moved_to (dt_usec t + itv_sign i * itv_day i * usec_per_day) w (with_warning w (add_day_interval t i))"
proof -
  define n where "n = calc_daynr (year t) (month t) (day t) + itv_sign i * itv_day i"
  have h: "0 \<le> hms_seconds t" "hms_seconds t < 86400" "0 \<le> second_part t" "second_part t < 1000000"
    using assms(1) by (simp_all add: valid_datetime_def hms_bounds)
  have e: "dt_usec t + itv_sign i * itv_day i * usec_per_day = (n * 86400 + hms_seconds t) * 1000000 + second_part t"
    by (simp add: n_def dt_usec_def usec_per_day_def algebra_simps)
  have v: "valid_datetime (set_daynr n t) \<and> dt_usec (set_daynr n t) = (n * 86400 + hms_seconds t) * 1000000 + second_part t"
    if "366 \<le> n" "n \<le> MAX_DAY_NUMBER"
    using set_daynr_valid [OF that, of t] assms(1) by (simp add: valid_datetime_def)
  have z: "\<not> non_zero_date (set_daynr n t)" if "n < 366"
    using that by (simp add: set_daynr_zero non_zero_date_def)
  show ?thesis
    using v z unfolding e add_day_interval_eq [OF assms, folded n_def] moved_to_def Let_def usec_split [OF h] by auto
qed

text \<open>A date moved by a number of months, its day cut to the length of the month.\<close>

definition shifted_by :: "int \<Rightarrow> MYSQL_TIME \<Rightarrow> int \<Rightarrow> bool \<times> MYSQL_TIME \<times> int \<Rightarrow> bool" where
  "shifted_by months t w r \<longleftrightarrow>
     (let n = year t * 12 + month t - 1 + months in
      if 0 \<le> n \<and> n < 120000
      then r = (False, t\<lparr>neg := False, year := n div 12, month := n mod 12 + 1,
                         day := min (day t) (month_length (n div 12) (n mod 12 + 1))\<rparr>, w)
      else fst r \<and> snd (snd r) = w OR MYSQL_TIME_WARN_DATETIME_OVERFLOW)"

lemma add_month_interval_shifted:
  assumes "valid_datetime t" "itv_unsigned i" "\<not> neg t"
  shows "shifted_by (itv_sign i * (itv_year i * 12 + itv_month i)) t w (with_warning w (add_month_interval t i))"
proof -
  define n where "n = year t * 12 + month t - 1 + itv_sign i * (itv_year i * 12 + itv_month i)"
  note d = valid_datetime_day [OF assms(1)]
  have y: "1 \<le> year t" "year t \<le> 9999" using assms(1) by (simp_all add: valid_datetime_def)
  have i: "0 \<le> itv_year i" "0 \<le> itv_month i" using assms(2) by (simp_all add: itv_unsigned_def)
  have ng: "t\<lparr>neg := False\<rparr> = t" using assms(3) by (intro MYSQL_TIME.equality) simp_all
  show ?thesis
  proof (cases "itv_month i \<ge> (2 ^ 32 - 1) div 2 \<or> itv_year i \<ge> (2 ^ 32 - 1) div 12")
    case True
    then have "\<not> (0 \<le> n \<and> n < 120000)" using sign_cases [of i] y i d(3,4) by (auto simp: n_def)
    then show ?thesis using True by (auto simp: shifted_by_def n_def [symmetric] add_month_interval_def)
  next
    case False
    have b: "- (2 ^ 63) < n" "n < 2 ^ 63" using False sign_cases [of i] y i d(3,4) by (auto simp: n_def)
    have p: "year t * 12 + itv_sign i * itv_year i * 12 + month t - 1 + itv_sign i * itv_month i = n"
      by (simp add: n_def algebra_simps)
    have ge: "u64 n \<ge> 120000 \<longleftrightarrow> \<not> (0 \<le> n \<and> n < 120000)" and id: "0 \<le> n \<Longrightarrow> u64 n = n"
    proof -
      show id: "u64 n = n" if "0 \<le> n" using that b by (simp add: u64_id)
      have "u64 n = n + 2 ^ 64" if "n < 0"
        using mod_pos_pos_trivial [of "n + 2 ^ 64" "2 ^ 64"] that b by (simp add: u64_def)
      then show "u64 n \<ge> 120000 \<longleftrightarrow> \<not> (0 \<le> n \<and> n < 120000)" using id b by (cases "0 \<le> n") auto
    qed
    define Y M where "Y = n div 12" and "M = n mod 12 + 1"
    have "add_month_interval t i = (if \<not> (0 \<le> n \<and> n < 120000) then (True, t)
        else (False, t\<lparr>year := Y, month := M, day := min (day t) (month_length Y M)\<rparr>))"
      using False ge id
      by (auto simp: add_month_interval_def Let_def p Y_def M_def month_length_def min_def)
    then show ?thesis using ng by (auto simp: shifted_by_def n_def [symmetric] Y_def M_def Let_def)
  qed
qed

lemma year_month_parts:
  assumes "1 \<le> m" "m \<le> (12::int)"
  shows "(y * 12 + m - 1) div 12 = y" "(y * 12 + m - 1) mod 12 + 1 = m"
    "0 \<le> y * 12 + m - 1 \<and> y * 12 + m - 1 < 120000 \<longleftrightarrow> 0 \<le> y \<and> y < 10000"
proof -
  have e: "y * 12 + m - 1 = 12 * y + (m - 1)" by simp
  show "(y * 12 + m - 1) div 12 = y" using int_div_pos_eq [OF e] assms by simp
  show "(y * 12 + m - 1) mod 12 + 1 = m" using int_mod_pos_eq [OF e] assms by simp
  show "0 \<le> y * 12 + m - 1 \<and> y * 12 + m - 1 < 120000 \<longleftrightarrow> 0 \<le> y \<and> y < 10000" using assms by auto
qed

lemma month_length_cut:
  assumes "1 \<le> m" "m \<le> 12" "d \<le> month_length y m"
  shows "min d (month_length y' m) = (if m = 2 \<and> d = 29 \<and> calc_days_in_year y' \<noteq> 366 then 28 else d)"
proof (cases "m = 2")
  case True
  then show ?thesis using assms(3) by (auto simp: month_length_def days_in_month_def min_def split: if_splits)
next
  case False
  then show ?thesis using assms(3) by (simp add: month_length_def)
qed

lemma add_year_interval_shifted:
  assumes "valid_datetime t" "itv_unsigned i" "\<not> neg t"
  shows "shifted_by (itv_sign i * itv_year i * 12) t w (with_warning w (add_year_interval t i))"
proof -
  define y where "y = year t + itv_sign i * itv_year i"
  note d = valid_datetime_day [OF assms(1)]
  have yt: "1 \<le> year t" "year t \<le> 9999" "day t \<le> month_length (year t) (month t)"
    using assms(1) by (simp_all add: valid_datetime_def valid_date_def)
  have i: "0 \<le> itv_year i" using assms(2) by (simp add: itv_unsigned_def)
  have ng: "t\<lparr>neg := False\<rparr> = t" using assms(3) by (intro MYSQL_TIME.equality) simp_all
  have n: "year t * 12 + month t - 1 + itv_sign i * itv_year i * 12 = y * 12 + month t - 1"
    by (simp add: y_def algebra_simps)
  note q = year_month_parts [OF d(3,4), of y]
  have set: "t\<lparr>neg := False, year := y, month := month t, day := k\<rparr> = t\<lparr>year := y, day := k\<rparr>" for k
    using assms(3) by (intro MYSQL_TIME.equality) simp_all
  show ?thesis
  proof (cases "itv_year i > 10000")
    case True
    then have "\<not> (0 \<le> y \<and> y < 10000)" using sign_cases [of i] yt by (auto simp: y_def)
    then show ?thesis using True unfolding shifted_by_def Let_def n q by (simp add: add_year_interval_def)
  next
    case False
    have u: "u32 y = (if 0 \<le> y then y else y + 2 ^ 32)"
      using False sign_cases [of i] yt i mod_pos_pos_trivial [of "y + 2 ^ 32" "2 ^ 32"]
      by (auto simp: u32_def y_def)
    have "add_year_interval t i = (let t' = t\<lparr>year := u32 y\<rparr> in if u32 y \<ge> 10000 then (True, t')
        else (False, t'\<lparr>day := if month t = 2 \<and> day t = 29 \<and> calc_days_in_year (u32 y) \<noteq> 366 then 28 else day t\<rparr>))"
      using False by (simp add: add_year_interval_def y_def [symmetric] Let_def)
    moreover have "- 10000 < y" using False sign_cases [of i] yt i by (auto simp: y_def)
    ultimately show ?thesis using month_length_cut [OF d(3,4) yt(3)]
      unfolding shifted_by_def Let_def n q by (simp add: u set ng)
  qed
qed

definition time_intervals :: "interval_type set" where
  "time_intervals =
     {INTERVAL_SECOND, INTERVAL_SECOND_MICROSECOND, INTERVAL_MICROSECOND, INTERVAL_MINUTE, INTERVAL_HOUR,
      INTERVAL_MINUTE_MICROSECOND, INTERVAL_MINUTE_SECOND, INTERVAL_HOUR_MICROSECOND, INTERVAL_HOUR_SECOND,
      INTERVAL_HOUR_MINUTE, INTERVAL_DAY_MICROSECOND, INTERVAL_DAY_SECOND, INTERVAL_DAY_MINUTE,
      INTERVAL_DAY_HOUR}"

lemma date_add_interval_cases:
  fixes t w i
  defines "t' \<equiv> t\<lparr>neg := False\<rparr>"
  shows "k \<in> time_intervals \<Longrightarrow> date_add_interval t k i w = with_warning w (add_time_interval t' i)"
    and "k = INTERVAL_DAY \<or> k = INTERVAL_WEEK \<Longrightarrow> date_add_interval t k i w = with_warning w (add_day_interval t' i)"
    and "k = INTERVAL_YEAR \<Longrightarrow> date_add_interval t k i w = with_warning w (add_year_interval t' i)"
    and "k = INTERVAL_YEAR_MONTH \<or> k = INTERVAL_QUARTER \<or> k = INTERVAL_MONTH \<Longrightarrow>
      date_add_interval t k i w = with_warning w (add_month_interval t' i)"
  unfolding date_add_interval_def Let_def t'_def time_intervals_def by auto

lemma neg_fields:
  "valid_datetime (t\<lparr>neg := b\<rparr>) = valid_datetime t" "dt_usec (t\<lparr>neg := b\<rparr>) = dt_usec t"
  "shifted_by m (t\<lparr>neg := b\<rparr>) w r = shifted_by m t w r"
  by (simp_all add: valid_datetime_def dt_usec_def hms_seconds_def shifted_by_def)

text \<open>C25. Adding an interval: for a valid datetime of the years 1 to 9999, an interval of days or
  smaller units moves the value by exactly its number of microseconds, and one of months or years by
  its number of months, with the day cut to the length of the month. The fields of the interval are unsigned 64-bit numbers
  of any size, except that the microseconds are below \<open>2 ^ 62\<close> (\<open>itv_unsigned\<close>). A result after the year 9999 or
  before the year 0 fails with the overflow warning. A result in the year 0 is not dated: it
  fails or gives the date 0000-00-00 when days or smaller units are subtracted.\<close>

theorem date_add_interval_correct:
  assumes "valid_datetime t" "itv_unsigned i"
  shows "(k \<in> time_intervals \<longrightarrow> moved_to (dt_usec t + itv_sign i * itv_usec i) w (date_add_interval t k i w))
    \<and> (k = INTERVAL_DAY \<or> k = INTERVAL_WEEK \<longrightarrow>
         moved_to (dt_usec t + itv_sign i * itv_day i * usec_per_day) w (date_add_interval t k i w))
    \<and> (k = INTERVAL_YEAR \<longrightarrow> shifted_by (itv_sign i * itv_year i * 12) t w (date_add_interval t k i w))
    \<and> (k = INTERVAL_YEAR_MONTH \<or> k = INTERVAL_QUARTER \<or> k = INTERVAL_MONTH \<longrightarrow>
         shifted_by (itv_sign i * (itv_year i * 12 + itv_month i)) t w (date_add_interval t k i w))"
proof -
  have v: "valid_datetime (t\<lparr>neg := False\<rparr>)" "\<not> neg (t\<lparr>neg := False\<rparr>)" using assms(1) by (simp_all add: neg_fields)
  show ?thesis
    using add_time_interval_moved [OF v(1) assms(2), of w] add_day_interval_moved [OF v(1) assms(2), of w]
      add_year_interval_shifted [OF v(1) assms(2) v(2), of w] add_month_interval_shifted [OF v(1) assms(2) v(2), of w]
    by (simp add: date_add_interval_cases neg_fields)
qed

definition sample_interval :: Interval where
  "sample_interval = \<lparr>itv_year = 0, itv_month = 0, itv_day = 1, itv_hour = 0, itv_minute = 0, itv_second = 0,
     itv_second_part = 1, itv_neg = False\<rparr>"

theorem date_add_interval_correct_witness:
  "moved_to (dt_usec sample_datetime + 86400000001) 0
     (date_add_interval sample_datetime INTERVAL_DAY_MICROSECOND sample_interval 0)
   \<and> dt_usec sample_datetime = 63876470399999999"
proof -
  have v: "valid_datetime sample_datetime"
    by (simp add: sample_datetime_def valid_datetime_def valid_date_def month_length_def days_in_month_def
        calc_days_in_year_def)
  moreover have "itv_unsigned sample_interval" by (simp add: sample_interval_def itv_unsigned_def)
  moreover have "dt_usec sample_datetime = 63876470399999999" by code_simp
  moreover have "itv_sign sample_interval * itv_usec sample_interval = 86400000001" by code_simp
  moreover have "INTERVAL_DAY_MICROSECOND \<in> time_intervals" by (simp add: time_intervals_def)
  ultimately show ?thesis
    using date_add_interval_correct [of sample_datetime sample_interval INTERVAL_DAY_MICROSECOND 0] by simp
qed

end
