(* ===== verification/Temporal_Rounding.thy ===== *)
theory Temporal_Rounding
  imports Temporal_Arith_Proofs
begin

text \<open>
  Rounding and truncating temporal values to a number of fractional digits, and the values
  read from decimal numbers, described on the microseconds that the values stand for.
\<close>

section \<open>Rounding numbers\<close>

definition frac_step :: "nat \<Rightarrow> int" where
  "frac_step dec = 10 ^ (6 - dec)"

definition trunc_to :: "int \<Rightarrow> int \<Rightarrow> int" where
  "trunc_to u x = x div u * u"

definition round_to :: "int \<Rightarrow> int \<Rightarrow> int" where
  "round_to u x = trunc_to u (x + u div 2)"

lemma precision_cases: "dec \<le> 6 \<Longrightarrow> dec \<in> {0, 1, 2, 3, 4, 5, 6::nat}"
  by auto

lemma frac_step_facts:
  assumes "dec \<le> 6"
  shows "0 < frac_step dec" "frac_step dec dvd 1000000" "log_10_int ! (DATETIME_MAX_DECIMALS - dec) = frac_step dec"
    "u32 (msec_round_add ! dec + 500) div 1000 = frac_step dec div 2" "msec_round_add ! dec div 1000 = frac_step dec div 2"
    "msec_round_add ! dec < 500 \<longleftrightarrow> frac_step dec = 1"
  using precision_cases [OF assms]
  by (elim insertE emptyE; simp add: frac_step_def log_10_int_def DATETIME_MAX_DECIMALS_def msec_round_add_def u32_def)+

lemma trunc_to_sum:
  assumes "u dvd m" "0 < u"
  shows "trunc_to u (s * m + x) = s * m + trunc_to u x"
proof -
  obtain k where k: "m = u * k" using assms(1) by (rule dvdE)
  have "(x + (s * k) * u) div u = s * k + x div u" by (rule div_mult_self1) (use assms(2) in simp)
  moreover have "s * m + x = x + (s * k) * u" using k by (simp add: algebra_simps)
  ultimately show ?thesis unfolding trunc_to_def using k by (simp add: algebra_simps)
qed

lemma trunc_to_bounds:
  assumes "0 < u"
  shows "trunc_to u x \<le> x" "x < trunc_to u x + u" "u dvd trunc_to u x"
proof -
  have "x div u * u + x mod u = x" by simp
  then show "trunc_to u x \<le> x" "x < trunc_to u x + u" "u dvd trunc_to u x"
    using pos_mod_bound [OF assms, of x] pos_mod_sign [OF assms, of x] unfolding trunc_to_def by (linarith, linarith, simp)
qed

lemma trunc_to_mod: "x - x mod u = trunc_to u x"
  by (simp add: trunc_to_def minus_mod_eq_div_mult)

lemma trunc_to_mono: "0 < u \<Longrightarrow> x \<le> y \<Longrightarrow> trunc_to u x \<le> trunc_to u y"
  by (simp add: trunc_to_def zdiv_mono1 mult_right_mono)

lemma trunc_to_dvd: "u dvd x \<Longrightarrow> trunc_to u x = x"
  by (simp add: trunc_to_def)

lemma trunc_to_min:
  assumes "0 < u" "u dvd m"
  shows "trunc_to u (min m x) = min m (trunc_to u x)"
  using trunc_to_mono [OF assms(1), of m x] trunc_to_bounds(1) [OF assms(1), of x] trunc_to_dvd [OF assms(2)]
  by (auto simp: min_def)

lemma trunc_to_small: "0 \<le> x \<Longrightarrow> x < u \<Longrightarrow> trunc_to u x = 0"
  by (simp add: trunc_to_def)

text \<open>Truncating the fraction.\<close>

lemma my_time_trunc_eq:
  assumes "dec \<le> 6" "0 \<le> second_part t" "second_part t < 2 ^ 64"
  shows "my_time_trunc t dec = t\<lparr>second_part := trunc_to (frac_step dec) (second_part t)\<rparr>"
proof -
  note f = frac_step_facts [OF assms(1)]
  have "0 \<le> trunc_to (frac_step dec) (second_part t)"
    using trunc_to_mono [OF f(1) assms(2)] by (simp add: trunc_to_def)
  then have "u64 (trunc_to (frac_step dec) (second_part t)) = trunc_to (frac_step dec) (second_part t)"
    using trunc_to_bounds(1) [OF f(1), of "second_part t"] assms(3) by (simp add: u64_id)
  then show ?thesis using f(1) assms(2)
    by (simp add: my_time_trunc_def my_time_fraction_remainder_def f(3) smod_nonneg trunc_to_mod)
qed

lemma my_timeval_trunc_eq:
  assumes "dec \<le> 6" "0 \<le> m_tv_usec tv"
  shows "my_timeval_trunc tv dec = tv\<lparr>m_tv_usec := trunc_to (frac_step dec) (m_tv_usec tv)\<rparr>"
  using frac_step_facts(1) [OF assms(1)] assms(2)
  by (simp add: my_timeval_trunc_def my_time_fraction_remainder_def frac_step_facts(3) [OF assms(1)] smod_nonneg
      trunc_to_mod)

section \<open>Times\<close>

definition max_time_usec :: int where "max_time_usec = 3020399 * 1000000"

definition abs_usec :: "MYSQL_TIME \<Rightarrow> int" where
  "abs_usec t = hms_seconds t * 1000000 + second_part t"

text \<open>A time of day or a longer time, without a date.\<close>

definition plain_time :: "MYSQL_TIME \<Rightarrow> bool" where
  "plain_time t \<longleftrightarrow> day t = 0 \<and> 0 \<le> hour t \<and> hour t < 2 ^ 31 \<and> 0 \<le> minute t \<and> minute t < 60 \<and> 0 \<le> second t \<and> second t < 60
     \<and> 0 \<le> second_part t \<and> second_part t < 1000000"

lemma check_time_range_quick_iff:
  assumes "plain_time t"
  shows "check_time_range_quick t \<longleftrightarrow> abs_usec t > max_time_usec"
  using assms
  by (auto simp: plain_time_def check_time_range_quick_def Let_def abs_usec_def hms_seconds_def max_time_usec_def
      TIME_MAX_HOUR_def TIME_MAX_MINUTE_def TIME_MAX_SECOND_def)

lemma adjust_time_range_min:
  assumes "plain_time t" "adjust_time_range t w = (t', w')"
  shows "plain_time t'" "abs_usec t' = min max_time_usec (abs_usec t)" "neg t' = neg t"
    "time_type t' = time_type t" "year t' = year t" "month t' = month t"
    "w' = (if abs_usec t > max_time_usec then w OR MYSQL_TIME_WARN_OUT_OF_RANGE else w)"
  using assms check_time_range_quick_iff [OF assms(1)]
  by (auto simp: adjust_time_range_def set_max_hhmmss_def plain_time_def abs_usec_def hms_seconds_def
      max_time_usec_def TIME_MAX_HOUR_def TIME_MAX_MINUTE_def TIME_MAX_SECOND_def split: if_splits)

text \<open>The carry of \<open>time_add_nanoseconds_with_round\<close>.\<close>

lemma time_round_carry:
  assumes "plain_time t" "abs_usec t \<le> max_time_usec" "500 \<le> ns" "u32 (ns + 500) div 1000 = h" "0 \<le> h" "h \<le> 500000"
  obtains t1 where "time_add_nanoseconds_with_round t ns w = (False, adjust_time_range t1 w)" "plain_time t1"
    "abs_usec t1 = abs_usec t + h" "neg t1 = neg t" "time_type t1 = time_type t" "year t1 = year t" "month t1 = month t"
proof -
  define x where "x = second_part t + h"
  define t1 where "t1 = (if x < 1000000 then t\<lparr>second_part := x\<rparr>
    else if second t < 59 then t\<lparr>second_part := x mod 1000000, second := second t + 1\<rparr>
    else if minute t < 59 then t\<lparr>second_part := x mod 1000000, second := 0, minute := minute t + 1\<rparr>
    else t\<lparr>second_part := x mod 1000000, second := 0, minute := 0, hour := u32 (hour t + 1)\<rparr>)"
  have f: "day t = 0" "0 \<le> hour t" "0 \<le> minute t" "minute t < 60" "0 \<le> second t" "second t < 60" "0 \<le> second_part t"
    "second_part t < 1000000" "hour t < 839"
    using assms(1,2) by (auto simp: plain_time_def abs_usec_def hms_seconds_def max_time_usec_def)
  have u: "u32 (hour t + 1) = hour t + 1" using f by (simp add: u32_id)
  have x: "0 \<le> x" "\<not> x < 1000000 \<Longrightarrow> x mod 1000000 = x - 1000000" using f assms(5,6)
    by (auto simp: x_def intro: int_mod_pos_eq [of _ _ 1, simplified])
  have "time_add_nanoseconds_with_round t ns w = (False, adjust_time_range t1 w)"
    using assms(3,4) by (simp add: time_add_nanoseconds_with_round_def Let_def t1_def x_def)
  moreover have "plain_time t1" "abs_usec t1 = abs_usec t + h"
    using f x by (auto simp: t1_def u plain_time_def abs_usec_def hms_seconds_def x_def)
  moreover have "neg t1 = neg t" "time_type t1 = time_type t" "year t1 = year t" "month t1 = month t"
    by (simp_all add: t1_def)
  ultimately show ?thesis by (rule that)
qed

lemma plain_time_second_part:
  assumes "plain_time t" "0 \<le> x" "x < 1000000"
  shows "plain_time (t\<lparr>second_part := x\<rparr>)" "abs_usec (t\<lparr>second_part := x\<rparr>) = abs_usec t - second_part t + x"
  using assms by (simp_all add: plain_time_def abs_usec_def hms_seconds_def)

lemma my_time_trunc_usec:
  assumes "dec \<le> 6" "plain_time t"
  shows "plain_time (my_time_trunc t dec)" "abs_usec (my_time_trunc t dec) = trunc_to (frac_step dec) (abs_usec t)"
    "neg (my_time_trunc t dec) = neg t"
proof -
  note f = frac_step_facts [OF assms(1)]
  have p: "0 \<le> second_part t" "second_part t < 1000000" using assms(2) by (simp_all add: plain_time_def)
  have b: "0 \<le> trunc_to (frac_step dec) (second_part t)" "trunc_to (frac_step dec) (second_part t) < 1000000"
    using trunc_to_mono [OF f(1) p(1)] trunc_to_bounds(1) [OF f(1), of "second_part t"] p by (simp_all add: trunc_to_def)
  have e: "my_time_trunc t dec = t\<lparr>second_part := trunc_to (frac_step dec) (second_part t)\<rparr>"
    by (rule my_time_trunc_eq [OF assms(1)]) (use p in simp_all)
  show "plain_time (my_time_trunc t dec)" "neg (my_time_trunc t dec) = neg t"
    unfolding e using plain_time_second_part [OF assms(2) b] by simp_all
  show "abs_usec (my_time_trunc t dec) = trunc_to (frac_step dec) (abs_usec t)"
    unfolding e plain_time_second_part(2) [OF assms(2) b] unfolding abs_usec_def trunc_to_sum [OF f(2,1)] by simp
qed

lemma frac_step_half:
  assumes "dec \<le> 6"
  shows "0 \<le> frac_step dec div 2" "frac_step dec div 2 \<le> 500000" "frac_step dec div 2 < frac_step dec"
    "frac_step dec dvd max_time_usec"
  using frac_step_facts(1,2) [OF assms] zdvd_imp_le [OF frac_step_facts(2) [OF assms]]
  by (simp_all add: max_time_usec_def dvd_trans)

lemma time_truncated:
  assumes "plain_time t" "abs_usec t \<le> max_time_usec" "dec \<le> 6"
  obtains t1 w' where "time_add_nanoseconds_with_truncate t (msec_round_add ! dec) 0 = (False, t1, w')" "plain_time t1"
    "neg t1 = neg t" "trunc_to (frac_step dec) (abs_usec t1) = trunc_to (frac_step dec) (abs_usec t)"
proof -
  define u where "u = frac_step dec"
  note f = frac_step_facts [OF assms(3), folded u_def] and h = frac_step_half [OF assms(3), folded u_def]
  define t1 where "t1 = (if second_part t = 0 then t\<lparr>second_part := u div 2\<rparr> else t)"
  have p: "plain_time t1" "neg t1 = neg t"
    using assms(1) h plain_time_second_part(1) [OF assms(1), of "u div 2"] by (auto simp: t1_def)
  have t1: "trunc_to u (abs_usec t1) = trunc_to u (abs_usec t)"
  proof (cases "second_part t = 0")
    case True
    then have "abs_usec t1 = hms_seconds t * 1000000 + u div 2" "abs_usec t = hms_seconds t * 1000000 + 0"
      by (simp_all add: t1_def abs_usec_def hms_seconds_def)
    then show ?thesis unfolding trunc_to_sum [OF f(2,1)] using h(1,3) by (simp only: trunc_to_sum [OF f(2,1)] trunc_to_small f(1))
  qed (simp add: t1_def)
  obtain t2 w' where a: "adjust_time_range t1 0 = (t2, w')" by (cases "adjust_time_range t1 0")
  have "trunc_to u (abs_usec t2) = min max_time_usec (trunc_to u (abs_usec t))"
    unfolding adjust_time_range_min(2) [OF p(1) a] trunc_to_min [OF f(1) h(4)] t1 ..
  also have "\<dots> = trunc_to u (abs_usec t)" using assms(2) trunc_to_bounds(1) [OF f(1), of "abs_usec t"] by simp
  finally have "trunc_to u (abs_usec t2) = trunc_to u (abs_usec t)" .
  moreover have "time_add_nanoseconds_with_truncate t (msec_round_add ! dec) 0 = (False, t2, w')"
    using a by (simp only: time_add_nanoseconds_with_truncate_def t1_def f(5))
  moreover have "neg t2 = neg t" using adjust_time_range_min(3) [OF p(1) a] p(2) by simp
  ultimately show ?thesis
    using that [of t2 w'] adjust_time_range_min(1) [OF p(1) a] by (simp only: u_def)
qed

lemma time_rounded:
  assumes "plain_time t" "abs_usec t \<le> max_time_usec" "dec \<le> 6"
  obtains t1 w' where "time_add_nanoseconds_with_round t (msec_round_add ! dec) 0 = (False, t1, w')" "plain_time t1"
    "neg t1 = neg t" "trunc_to (frac_step dec) (abs_usec t1) = min max_time_usec (round_to (frac_step dec) (abs_usec t))"
proof -
  define u where "u = frac_step dec"
  note f = frac_step_facts [OF assms(3), folded u_def] and h = frac_step_half [OF assms(3), folded u_def]
  show ?thesis
  proof (cases "u = 1")
    case True
    then show ?thesis using f(6) assms(1,2) that [of t 0]
      by (simp add: time_add_nanoseconds_with_round_def u_def round_to_def trunc_to_def)
  next
    case False
    then have "500 \<le> msec_round_add ! dec" using f(6) by simp
    then obtain t1 where t1: "time_add_nanoseconds_with_round t (msec_round_add ! dec) 0 = (False, adjust_time_range t1 0)"
      "plain_time t1" "abs_usec t1 = abs_usec t + u div 2" "neg t1 = neg t"
      by (rule time_round_carry [OF assms(1,2) _ f(4) h(1,2)])
    obtain t2 w' where a: "adjust_time_range t1 0 = (t2, w')" by (cases "adjust_time_range t1 0")
    have "trunc_to u (abs_usec t2) = min max_time_usec (round_to u (abs_usec t))"
      unfolding adjust_time_range_min(2) [OF t1(2) a] trunc_to_min [OF f(1) h(4)] t1(3) round_to_def ..
    then show ?thesis
      using a t1 adjust_time_range_min(1,3) [OF t1(2) a] that [of t2 w'] by (simp add: u_def)
  qed
qed

lemma my_time_adjust_frac_usec:
  assumes "plain_time t" "abs_usec t \<le> max_time_usec" "dec \<le> 6"
  obtains t' where "my_time_adjust_frac t dec trunc = (False, t')" "plain_time t'" "neg t' = neg t"
    "abs_usec t' = (if trunc then trunc_to (frac_step dec) (abs_usec t)
                    else min max_time_usec (round_to (frac_step dec) (abs_usec t)))"
proof (cases trunc)
  case True
  obtain t1 w' where "time_add_nanoseconds_with_truncate t (msec_round_add ! dec) 0 = (False, t1, w')" "plain_time t1"
    "neg t1 = neg t" "trunc_to (frac_step dec) (abs_usec t1) = trunc_to (frac_step dec) (abs_usec t)"
    by (rule time_truncated [OF assms])
  then show ?thesis using True that [of "my_time_trunc t1 dec"] my_time_trunc_usec [OF assms(3)]
    by (simp add: my_time_adjust_frac_def time_add_nanoseconds_adjust_frac_def)
next
  case False
  obtain t1 w' where "time_add_nanoseconds_with_round t (msec_round_add ! dec) 0 = (False, t1, w')" "plain_time t1"
    "neg t1 = neg t" "trunc_to (frac_step dec) (abs_usec t1) = min max_time_usec (round_to (frac_step dec) (abs_usec t))"
    by (rule time_rounded [OF assms])
  then show ?thesis using False that [of "my_time_trunc t1 dec"] my_time_trunc_usec [OF assms(3)]
    by (simp add: my_time_adjust_frac_def time_add_nanoseconds_adjust_frac_def)
qed

section \<open>Datetimes\<close>

lemma trunc_to_div:
  assumes "0 < u" "u dvd m" "0 < m"
  shows "trunc_to u x div m = x div m"
proof -
  obtain k where k: "m = u * k" using assms(2) by (rule dvdE)
  then have "0 < k" using assms(1,3) by (simp add: zero_less_mult_iff)
  then show ?thesis using assms(1) unfolding trunc_to_def k by (simp add: zdiv_zmult2_eq)
qed

lemma trunc_to_usec_day:
  assumes "dec \<le> 6"
  shows "trunc_to (frac_step dec) x div usec_per_day = x div usec_per_day"
proof (rule trunc_to_div)
  show "frac_step dec dvd usec_per_day" unfolding usec_per_day_def by (rule dvd_mult [OF frac_step_facts(2) [OF assms]])
qed (simp_all add: frac_step_facts(1) [OF assms] usec_per_day_def)

lemma dt_usec_second_part: "dt_usec (t\<lparr>second_part := x\<rparr>) = dt_usec t - second_part t + x"
  by (simp add: dt_usec_def hms_seconds_def)

lemma dt_trunc:
  assumes "valid_datetime t" "dec \<le> 6"
  shows "valid_datetime (my_time_trunc t dec)" "dt_usec (my_time_trunc t dec) = trunc_to (frac_step dec) (dt_usec t)"
proof -
  note f = frac_step_facts [OF assms(2)]
  have p: "0 \<le> second_part t" "second_part t < 1000000" using assms(1) by (simp_all add: valid_datetime_def)
  have b: "0 \<le> trunc_to (frac_step dec) (second_part t)" "trunc_to (frac_step dec) (second_part t) < 1000000"
    using trunc_to_mono [OF f(1) p(1)] trunc_to_bounds(1) [OF f(1), of "second_part t"] p by (simp_all add: trunc_to_def)
  have e: "my_time_trunc t dec = t\<lparr>second_part := trunc_to (frac_step dec) (second_part t)\<rparr>"
    by (rule my_time_trunc_eq [OF assms(2)]) (use p in simp_all)
  show "valid_datetime (my_time_trunc t dec)" unfolding e using assms(1) b by (simp add: valid_datetime_def)
  show "dt_usec (my_time_trunc t dec) = trunc_to (frac_step dec) (dt_usec t)"
    unfolding e dt_usec_second_part unfolding dt_usec_def trunc_to_sum [OF f(2,1)] by simp
qed

lemma datetime_truncated:
  assumes "valid_datetime t" "dec \<le> 6"
  obtains t' where "my_datetime_adjust_frac t dec w True = (False, t', w)" "valid_datetime t'"
    "dt_usec t' = trunc_to (frac_step dec) (dt_usec t)"
proof -
  define u where "u = frac_step dec"
  note f = frac_step_facts [OF assms(2), folded u_def] and h = frac_step_half [OF assms(2), folded u_def]
  define t1 where "t1 = (if second_part t = 0 then t\<lparr>second_part := u div 2\<rparr> else t)"
  have v: "valid_datetime t1" using assms(1) h(1,2) by (simp add: t1_def valid_datetime_def)
  have "trunc_to u (dt_usec t1) = trunc_to u (dt_usec t)"
  proof (cases "second_part t = 0")
    case True
    define S where "S = calc_daynr (year t) (month t) (day t) * 86400 + hms_seconds t"
    have "dt_usec t1 = S * 1000000 + u div 2" "dt_usec t = S * 1000000 + 0"
      using True by (simp_all add: t1_def dt_usec_def hms_seconds_def S_def)
    then show ?thesis using h(1,3) by (simp only: trunc_to_sum [OF f(2,1)] trunc_to_small f(1))
  qed (simp add: t1_def)
  moreover have "my_datetime_adjust_frac t dec w True = (False, my_time_trunc t1 dec, w)"
    unfolding my_datetime_adjust_frac_def datetime_add_nanoseconds_adjust_frac_def
      datetime_add_nanoseconds_with_truncate_def t1_def f(5) by simp
  ultimately show ?thesis using that dt_trunc [OF v assms(2)] by (simp add: u_def)
qed

lemma valid_datetime_check_date:
  assumes "valid_datetime t"
  shows "check_date t (non_zero_date t) (TIME_NO_ZERO_IN_DATE OR TIME_NO_ZERO_DATE) w = (False, w)"
proof -
  have d: "1 \<le> day t" "1 \<le> month t" "month t \<le> 12" "day t \<le> month_length (year t) (month t)"
    using assms by (simp_all add: valid_datetime_def valid_date_def)
  have fl: "has_flag (TIME_NO_ZERO_IN_DATE OR TIME_NO_ZERO_DATE) TIME_INVALID_DATES = False" by code_simp
  have "\<not> (day t > days_in_month ! nat (month t - 1) \<and> (month t \<noteq> 2 \<or> calc_days_in_year (year t) \<noteq> 366 \<or> day t \<noteq> 29))"
    using d(4) by (cases "month t = 2 \<and> calc_days_in_year (year t) = 366") (auto simp: month_length_def days_in_month_def)
  then show ?thesis using d by (auto simp: check_date_def non_zero_date_def)
qed

definition one_second :: Interval where
  "one_second = \<lparr>itv_year = 0, itv_month = 0, itv_day = 0, itv_hour = 0, itv_minute = 0, itv_second = 1,
     itv_second_part = 0, itv_neg = False\<rparr>"

lemma datetime_round_carry:
  assumes "valid_datetime t" "500 \<le> ns" "u32 (ns + 500) div 1000 = h" "0 \<le> h" "h \<le> 500000"
  defines "n \<equiv> (dt_usec t + h) div usec_per_day"
  obtains (ok) t1 where "n \<le> MAX_DAY_NUMBER" "datetime_add_nanoseconds_with_round t ns w = (False, t1, w)"
    "valid_datetime t1" "dt_usec t1 = dt_usec t + h"
  | (failed) t1 where "n > MAX_DAY_NUMBER" "datetime_add_nanoseconds_with_round t ns w =
      (True, t1, (w OR MYSQL_TIME_WARN_DATETIME_OVERFLOW) OR MYSQL_TIME_WARN_OUT_OF_RANGE)"
proof (cases "second_part t + h < 1000000")
  case True
  note d = valid_datetime_day [OF assms(1)]
  have v: "valid_datetime (t\<lparr>second_part := second_part t + h\<rparr>)"
    using assms(1,4) True by (simp add: valid_datetime_def)
  have "n = calc_daynr (year t) (month t) (day t)"
    using usec_split [of "hms_seconds t" "second_part t + h" "calc_daynr (year t) (month t) (day t)"] assms(1,4) True
    by (simp add: n_def dt_usec_def valid_datetime_def hms_bounds add.assoc)
  then show ?thesis using True assms(2,3) v d(7) ok
    by (simp add: datetime_add_nanoseconds_with_round_def Let_def dt_usec_second_part)
next
  case False
  define t0 where "t0 = t\<lparr>second_part := (second_part t + h) mod 1000000\<rparr>"
  have p: "0 \<le> second_part t" "second_part t < 1000000" using assms(1) by (simp_all add: valid_datetime_def)
  have m: "(second_part t + h) mod 1000000 = second_part t + h - 1000000"
    using False assms(5) p int_mod_pos_eq [of "second_part t + h" 1000000 1 "second_part t + h - 1000000"] by simp
  have v: "valid_datetime t0" "dt_usec t0 + 1000000 = dt_usec t + h"
    using assms(1,5) False p by (simp_all add: t0_def m valid_datetime_def dt_usec_second_part)
  obtain failed t1 w' where a: "date_add_interval t0 INTERVAL_SECOND one_second w = (failed, t1, w')"
    by (cases "date_add_interval t0 INTERVAL_SECOND one_second w")
  have o: "valid_datetime (t0\<lparr>neg := False\<rparr>)" "itv_unsigned one_second" "itv_sign one_second * itv_usec one_second = 1000000"
    "INTERVAL_SECOND \<in> time_intervals"
    using v(1) by (simp_all add: neg_fields one_second_def itv_unsigned_def itv_sign_def itv_usec_def itv_seconds_def
        time_intervals_def)
  have mv: "moved_to (dt_usec t + h) w (failed, t1, w')"
    using add_time_interval_moved [OF o(1,2), of w] a v(2) by (simp add: date_add_interval_cases(1) [OF o(4)] neg_fields o(3))
  have r: "datetime_add_nanoseconds_with_round t ns w =
      (failed, t1, if failed then w' OR MYSQL_TIME_WARN_OUT_OF_RANGE else w')"
    using False assms(2,3) valid_datetime_check_date [OF v(1), of w] a
    by (simp add: datetime_add_nanoseconds_with_round_def Let_def t0_def [symmetric] one_second_def [symmetric])
  have "366 \<le> n"
  proof -
    have "366 * usec_per_day \<le> dt_usec t + h"
      using valid_datetime_day(6) [OF assms(1)] assms(1,4)
      by (auto simp: dt_usec_def usec_per_day_def valid_datetime_def hms_seconds_def)
    then have "366 * usec_per_day div usec_per_day \<le> n" unfolding n_def
      by (rule zdiv_mono1) (simp add: usec_per_day_def)
    then show ?thesis by (simp add: usec_per_day_def)
  qed
  then show ?thesis using mv r ok failed by (auto simp: moved_to_def Let_def n_def split: if_splits)
qed

lemma datetime_rounded:
  assumes "valid_datetime t" "dec \<le> 6"
  defines "r \<equiv> round_to (frac_step dec) (dt_usec t)"
  obtains (ok) t' where "r div usec_per_day \<le> MAX_DAY_NUMBER" "my_datetime_adjust_frac t dec w False = (False, t', w)"
    "valid_datetime t'" "dt_usec t' = r"
  | (failed) t' where "r div usec_per_day > MAX_DAY_NUMBER" "my_datetime_adjust_frac t dec w False =
      (True, t', (w OR MYSQL_TIME_WARN_DATETIME_OVERFLOW) OR MYSQL_TIME_WARN_OUT_OF_RANGE)"
proof -
  define u where "u = frac_step dec"
  note f = frac_step_facts [OF assms(2), folded u_def] and h = frac_step_half [OF assms(2), folded u_def]
  have q: "r div usec_per_day = (dt_usec t + u div 2) div usec_per_day"
    unfolding r_def round_to_def u_def by (rule trunc_to_usec_day [OF assms(2)])
  note def = my_datetime_adjust_frac_def datetime_add_nanoseconds_adjust_frac_def
  show ?thesis
  proof (cases "u = 1")
    case True
    note d = valid_datetime_day [OF assms(1)]
    have "dt_usec t div usec_per_day \<le> MAX_DAY_NUMBER"
      using usec_split [of "hms_seconds t" "second_part t"] assms(1) d(7)
      by (simp add: dt_usec_def valid_datetime_def hms_bounds)
    then show ?thesis using ok [of "my_time_trunc t dec"] dt_trunc [OF assms(1,2)] True f(6) q
      by (simp add: def datetime_add_nanoseconds_with_round_def r_def round_to_def u_def)
  next
    case False
    then have ns: "500 \<le> msec_round_add ! dec" using f(6) by simp
    show ?thesis
    proof (rule datetime_round_carry [OF assms(1) ns f(4) h(1,2), of w])
      fix t1 assume "(dt_usec t + u div 2) div usec_per_day \<le> MAX_DAY_NUMBER" "valid_datetime t1"
        "datetime_add_nanoseconds_with_round t (msec_round_add ! dec) w = (False, t1, w)" "dt_usec t1 = dt_usec t + u div 2"
      then show ?thesis using ok [of "my_time_trunc t1 dec"] dt_trunc [of t1 dec] assms(2) q
        by (simp add: def r_def round_to_def u_def)
    next
      fix t1 assume "(dt_usec t + u div 2) div usec_per_day > MAX_DAY_NUMBER"
        "datetime_add_nanoseconds_with_round t (msec_round_add ! dec) w =
          (True, t1, (w OR MYSQL_TIME_WARN_DATETIME_OVERFLOW) OR MYSQL_TIME_WARN_OUT_OF_RANGE)"
      then show ?thesis using failed [of "my_time_trunc t1 dec"] q by (simp add: def)
    qed
  qed
qed

section \<open>Timestamps\<close>

definition tv_usec :: "my_timeval \<Rightarrow> int" where
  "tv_usec tv = m_tv_sec tv * 1000000 + m_tv_usec tv"

lemma my_timeval_round_usec:
  assumes "is_time_t_valid_for_timestamp (m_tv_sec tv)" "0 \<le> m_tv_usec tv" "m_tv_usec tv < 1000000" "dec \<le> 6"
  defines "r \<equiv> round_to (frac_step dec) (tv_usec tv)"
  shows "my_timeval_round tv dec =
    (if r div 1000000 \<le> MYTIME_MAX_VALUE then (False, \<lparr>m_tv_sec = r div 1000000, m_tv_usec = r mod 1000000\<rparr>)
     else (True, \<lparr>m_tv_sec = MYTIME_MAX_VALUE, m_tv_usec = 0\<rparr>))"
proof -
  define u where "u = frac_step dec"
  note f = frac_step_facts [OF assms(4), folded u_def] and h = frac_step_half [OF assms(4), folded u_def]
  define x where "x = m_tv_usec tv + u div 2"
  have r: "r = m_tv_sec tv * 1000000 + trunc_to u x"
    unfolding r_def round_to_def tv_usec_def u_def [symmetric] x_def add.assoc by (rule trunc_to_sum [OF f(2,1)])
  have x0: "0 \<le> x" using assms(2) h(1) by (simp add: x_def)
  show ?thesis
  proof (cases "x < 1000000")
    case True
    have "0 \<le> trunc_to u x" "trunc_to u x < 1000000"
      using trunc_to_mono [OF f(1) x0] trunc_to_bounds(1) [OF f(1), of x] True by (simp_all add: trunc_to_def)
    then have "r div 1000000 = m_tv_sec tv" "r mod 1000000 = trunc_to u x"
      using r int_div_pos_eq [of r 1000000 "m_tv_sec tv" "trunc_to u x"]
        int_mod_pos_eq [of r 1000000 "m_tv_sec tv" "trunc_to u x"] by simp_all
    moreover have "my_timeval_trunc (tv\<lparr>m_tv_usec := x\<rparr>) dec = tv\<lparr>m_tv_usec := trunc_to u x\<rparr>"
      using my_timeval_trunc_eq [OF assms(4), of "tv\<lparr>m_tv_usec := x\<rparr>"] x0 by (simp add: u_def)
    ultimately show ?thesis
      using True assms(1) f(4) by (simp add: my_timeval_round_def Let_def x_def is_time_t_valid_for_timestamp_def)
  next
    case False
    have "trunc_to u x = 1000000"
    proof -
      have "trunc_to u (1 * 1000000 + (x - 1000000)) = 1 * 1000000 + trunc_to u (x - 1000000)"
        by (rule trunc_to_sum [OF f(2,1)])
      moreover have "trunc_to u (x - 1000000) = 0"
        using False assms(3) h(3) by (intro trunc_to_small) (simp_all add: x_def)
      ultimately show ?thesis by simp
    qed
    then have "r = (m_tv_sec tv + 1) * 1000000" using r by simp
    then have "r div 1000000 = m_tv_sec tv + 1" "r mod 1000000 = 0" by simp_all
    moreover have "my_timeval_trunc (tv\<lparr>m_tv_usec := 0, m_tv_sec := m_tv_sec tv + 1\<rparr>) dec =
        \<lparr>m_tv_sec = m_tv_sec tv + 1, m_tv_usec = 0\<rparr>"
      using my_timeval_trunc_eq [OF assms(4), of "tv\<lparr>m_tv_usec := 0, m_tv_sec := m_tv_sec tv + 1\<rparr>"]
      by (cases tv) (simp add: trunc_to_def)
    ultimately show ?thesis
      using False assms(1) f(4)
      by (simp add: my_timeval_round_def Let_def x_def is_time_t_valid_for_timestamp_def MYTIME_MIN_VALUE_def)
  qed
qed

section \<open>Properties\<close>

lemma valid_datetime_usec_day: "valid_datetime t \<Longrightarrow> dt_usec t div usec_per_day = calc_daynr (year t) (month t) (day t)"
  using usec_split [of "hms_seconds t" "second_part t"] by (simp add: dt_usec_def valid_datetime_def hms_bounds)

text \<open>C26. Rounding to a number of fractional digits: a time, a datetime or a timestamp is
  truncated or rounded (halves away from zero) to exactly the multiple of the step it should be. A
  time is cut at 838:59:59. A datetime rounded past the end of the year 9999 is an error with two
  warnings, and a timestamp past the last second is an error that leaves the last second.\<close>

theorem adjust_frac_correct:
  assumes "dec \<le> 6"
  shows "(plain_time t \<and> abs_usec t \<le> max_time_usec \<longrightarrow>
      (case my_time_adjust_frac t dec trunc of (failed, t') \<Rightarrow>
         \<not> failed \<and> plain_time t' \<and> neg t' = neg t \<and>
         abs_usec t' = (if trunc then trunc_to (frac_step dec) (abs_usec t)
                        else min max_time_usec (round_to (frac_step dec) (abs_usec t)))))
    \<and> (valid_datetime t \<longrightarrow>
      (let r = (if trunc then trunc_to else round_to) (frac_step dec) (dt_usec t) in
       case my_datetime_adjust_frac t dec w trunc of (failed, t', w') \<Rightarrow>
         if r div usec_per_day \<le> MAX_DAY_NUMBER then \<not> failed \<and> w' = w \<and> valid_datetime t' \<and> dt_usec t' = r
         else failed \<and> w' = (w OR MYSQL_TIME_WARN_DATETIME_OVERFLOW) OR MYSQL_TIME_WARN_OUT_OF_RANGE))
    \<and> (is_time_t_valid_for_timestamp (m_tv_sec tv) \<and> 0 \<le> m_tv_usec tv \<and> m_tv_usec tv < 1000000 \<longrightarrow>
      (let r = round_to (frac_step dec) (tv_usec tv) in
       my_timeval_round tv dec =
         (if r div 1000000 \<le> MYTIME_MAX_VALUE then (False, \<lparr>m_tv_sec = r div 1000000, m_tv_usec = r mod 1000000\<rparr>)
          else (True, \<lparr>m_tv_sec = MYTIME_MAX_VALUE, m_tv_usec = 0\<rparr>))))"
    (is "?time \<and> ?datetime \<and> ?timestamp")
proof (intro conjI)
  show ?time using my_time_adjust_frac_usec [OF _ _ assms, of t trunc] by fastforce
  show ?datetime
  proof (cases trunc)
    case True
    have "trunc_to (frac_step dec) (dt_usec t) div usec_per_day \<le> MAX_DAY_NUMBER" if "valid_datetime t"
      unfolding trunc_to_usec_day [OF assms] valid_datetime_usec_day [OF that] by (rule valid_datetime_day(7) [OF that])
    then show ?thesis using True datetime_truncated [OF _ assms, of t w] by (fastforce simp: Let_def)
  next
    case False
    then show ?thesis using datetime_rounded [OF _ assms, of t w] by (fastforce simp: Let_def)
  qed
  show ?timestamp using my_timeval_round_usec [OF _ _ _ assms, of tv] by (simp add: Let_def)
qed

theorem adjust_frac_correct_witness:
  "my_datetime_adjust_frac sample_datetime 0 0 False =
     (False, sample_datetime\<lparr>month := 3, day := 1, hour := 0, minute := 0, second := 0, second_part := 0\<rparr>, 0)
   \<and> round_to (frac_step 0) (dt_usec sample_datetime) = 63876470400000000
   \<and> dt_usec (sample_datetime\<lparr>month := 3, day := 1, hour := 0, minute := 0, second := 0, second_part := 0\<rparr>)
       = 63876470400000000"
proof -
  have "valid_datetime sample_datetime"
    by (simp add: sample_datetime_def valid_datetime_def valid_date_def month_length_def days_in_month_def
        calc_days_in_year_def)
  moreover have r: "round_to (frac_step 0) (dt_usec sample_datetime) = 63876470400000000" by code_simp
  moreover have "63876470400000000 div usec_per_day \<le> MAX_DAY_NUMBER" by code_simp
  moreover have e: "my_datetime_adjust_frac sample_datetime 0 0 False =
     (False, sample_datetime\<lparr>month := 3, day := 1, hour := 0, minute := 0, second := 0, second_part := 0\<rparr>, 0)"
    by code_simp
  ultimately show ?thesis
    using adjust_frac_correct [of 0 sample_datetime False 0 "\<lparr>m_tv_sec = 0, m_tv_usec = 0\<rparr>"] by simp
qed

section \<open>Rounded decimal numbers\<close>

text \<open>The shortcuts of the rounding conversions agree with rounding first and converting then.\<close>

lemma TIME_to_ulonglong_time_round_eq:
  assumes "plain_time t" "abs_usec t \<le> max_time_usec"
  shows "TIME_to_ulonglong_time_round t = TIME_to_ulonglong_time (snd (my_time_adjust_frac t 0 False))"
proof -
  have f: "day t = 0" "0 \<le> hour t" "0 \<le> minute t" "minute t < 60" "0 \<le> second t" "second t < 60" "0 \<le> second_part t"
    "second_part t < 1000000" "hour t < 839"
    using assms by (auto simp: plain_time_def abs_usec_def hms_seconds_def max_time_usec_def)
  define x where "x = second_part t + 500000"
  have x: "\<not> x < 1000000 \<Longrightarrow> x mod 1000000 = x - 1000000"
    using f int_mod_pos_eq [of x 1000000 1 "x - 1000000"] by (simp add: x_def)
  have ns: "msec_round_add ! 0 = 500000000" "u32 500000500 = 500000500" by (simp_all add: msec_round_add_def u32_def)
  have tr: "TIME_to_ulonglong_time (my_time_trunc t' dec) = TIME_to_ulonglong_time t'" for t' dec
    by (simp add: TIME_to_ulonglong_time_def my_time_trunc_def)
  have adj: "TIME_to_ulonglong_time (fst (adjust_time_range t' 0)) =
      (if abs_usec t' > max_time_usec then 8385959 else TIME_to_ulonglong_time t')" if "plain_time t'" for t'
    using check_time_range_quick_iff [OF that]
    by (simp add: adjust_time_range_def set_max_hhmmss_def TIME_to_ulonglong_time_def u64_def TIME_MAX_HOUR_def
        TIME_MAX_MINUTE_def TIME_MAX_SECOND_def)
  have near_max: "hour t = 838 \<and> minute t = 59" if "3020398 \<le> hour t * 3600 + minute t * 60 + second t"
  proof -
    have "\<not> hour t < 838" using that f by linarith
    then have "hour t = 838" using f by linarith
    then show ?thesis using that f by linarith
  qed
  show ?thesis
  proof (cases "second_part t < 500000 \<or> second t < 59")
    case False
    then show ?thesis
      by (simp add: TIME_to_ulonglong_time_round_def split: prod.splits)
  next
    case True
    define t1 where "t1 = (if x < 1000000 then t\<lparr>second_part := x\<rparr>
      else t\<lparr>second_part := x - 1000000, second := second t + 1\<rparr>)"
    have e: "time_add_nanoseconds_with_round t 500000000 0 = (False, adjust_time_range t1 0)"
      using True x by (auto simp: time_add_nanoseconds_with_round_def ns(2) Let_def x_def t1_def)
    have p: "plain_time t1" using f True by (auto simp: plain_time_def t1_def x_def)
    have "TIME_to_ulonglong_time (snd (my_time_adjust_frac t 0 False)) = TIME_to_ulonglong_time (fst (adjust_time_range t1 0))"
      by (simp add: my_time_adjust_frac_def time_add_nanoseconds_adjust_frac_def ns(1) e tr split: prod.splits)
    also have "\<dots> = TIME_to_ulonglong_time_round t"
    proof (cases "abs_usec t1 > max_time_usec")
      case over: True
      have "abs_usec t1 = abs_usec t + 500000"
        by (simp add: t1_def x_def abs_usec_def hms_seconds_def)
      then have b: "3020398500000 < (hour t * 3600 + minute t * 60 + second t) * 1000000 + second_part t"
        "(hour t * 3600 + minute t * 60 + second t) * 1000000 + second_part t \<le> 3020399000000"
        using over assms(2) by (simp_all add: abs_usec_def hms_seconds_def max_time_usec_def)
      have "3020398 \<le> H" if "3020398500000 < H * 1000000 + second_part t" for H using that f(8) by linarith
      from this [OF b(1)] have "3020398 \<le> hour t * 3600 + minute t * 60 + second t" .
      then have h: "hour t = 838" "minute t = 59" using near_max by simp_all
      then have "if second_part t < 500000 then second t = 59 else second t = 58" using b True f(5-8) by auto
      then show ?thesis using over h unfolding adj [OF p]
        by (auto simp: TIME_to_ulonglong_time_round_def TIME_to_ulonglong_time_def u64_def split: if_splits)
    next
      case False
      then show ?thesis unfolding adj [OF p] using True f
        by (auto simp: TIME_to_ulonglong_time_round_def t1_def x_def TIME_to_ulonglong_time_def u64_def)
    qed
    finally show ?thesis by simp
  qed
qed

lemma digits_inj:
  fixes a b k m :: int
  assumes "a * k + m = b * k + n" "0 \<le> m" "m < k" "0 \<le> n" "n < k"
  shows "a = b" "m = n"
proof -
  have "(a * k + m) div k = a" "(b * k + n) div k = b"
    using assms(2-5) int_div_pos_eq [of "a * k + m" k a m] int_div_pos_eq [of "b * k + n" k b n]
    by (simp_all add: mult.commute)
  then show "a = b" using assms(1) by simp
  then show "m = n" using assms(1) by simp
qed

lemma dt_usec_inj:
  assumes "valid_datetime a" "valid_datetime b" "dt_usec a = dt_usec b"
  shows "year a = year b" "month a = month b" "day a = day b" "hour a = hour b" "minute a = minute b"
    "second a = second b" "second_part a = second_part b"
proof -
  have v: "0 \<le> hms_seconds a" "hms_seconds a < 86400" "0 \<le> hms_seconds b" "hms_seconds b < 86400"
    using assms(1,2) by (simp_all add: valid_datetime_def hms_bounds)
  have p: "0 \<le> second_part a" "second_part a < 1000000" "0 \<le> second_part b" "second_part b < 1000000"
    using assms(1,2) by (simp_all add: valid_datetime_def)
  note s = digits_inj [OF assms(3) [unfolded dt_usec_def] p]
  note d = digits_inj [OF s(1) v]
  show "second_part a = second_part b" by (rule s(2))
  show "year a = year b" "month a = month b" "day a = day b"
    using calc_daynr_inj [of "year a" "month a" "day a" "year b" "month b" "day b"] d(1) assms(1,2)
    by (simp_all add: valid_datetime_def)
  have r: "0 \<le> second a" "second a < 60" "0 \<le> second b" "second b < 60" "0 \<le> minute a" "minute a < 60"
    "0 \<le> minute b" "minute b < 60" using assms(1,2) by (simp_all add: valid_datetime_def)
  note m = digits_inj [OF d(2) [unfolded hms_seconds_def] r(1-4)]
  note h = digits_inj [OF m(1) r(5-8)]
  show "hour a = hour b" "minute a = minute b" "second a = second b" using m h by simp_all
qed

lemma TIME_to_ulonglong_datetime_round_eq:
  assumes "valid_datetime t"
  shows "TIME_to_ulonglong_datetime_round t w =
    (case my_datetime_adjust_frac t 0 w False of (rc, t', w') \<Rightarrow> (TIME_to_ulonglong_datetime t', w'))"
proof (cases "second_part t \<ge> 500000 \<and> second t < 59")
  case False
  have p: "0 \<le> second_part t" "second_part t < 1000000" using assms by (simp_all add: valid_datetime_def)
  have ns: "msec_round_add ! 0 = 500000000" "u32 500000500 = 500000500" by (simp_all add: msec_round_add_def u32_def)
  show ?thesis using False
    by (auto simp: TIME_to_ulonglong_datetime_round_def my_datetime_adjust_frac_def
        datetime_add_nanoseconds_adjust_frac_def datetime_add_nanoseconds_with_round_def ns my_time_trunc_def
        TIME_to_ulonglong_datetime_def)
next
  case True
  define t1 where "t1 = t\<lparr>second := second t + 1, second_part := 0\<rparr>"
  have v: "valid_datetime t1" using assms True by (simp add: t1_def valid_datetime_def)
  have S: "round_to (frac_step 0) (dt_usec t) = dt_usec t1"
  proof -
    define S where "S = calc_daynr (year t) (month t) (day t) * 86400 + hms_seconds t"
    have "dt_usec t + 500000 = (S + 1) * 1000000 + (second_part t - 500000)" by (simp add: dt_usec_def S_def)
    moreover have "trunc_to 1000000 (second_part t - 500000) = 0"
      using True assms by (intro trunc_to_small) (simp_all add: valid_datetime_def)
    ultimately have "round_to 1000000 (dt_usec t) = (S + 1) * 1000000"
      using trunc_to_sum [of 1000000 1000000 "S + 1" "second_part t - 500000"]
      by (simp add: round_to_def del: add_diff_eq diff_add_eq) (simp add: ac_simps)
    then show ?thesis by (simp add: frac_step_def t1_def dt_usec_def hms_seconds_def S_def)
  qed
  have le: "dt_usec t1 div usec_per_day \<le> MAX_DAY_NUMBER"
    unfolding valid_datetime_usec_day [OF v] by (rule valid_datetime_day(7) [OF v])
  have "\<exists>t'. my_datetime_adjust_frac t 0 w False = (False, t', w) \<and> valid_datetime t' \<and> dt_usec t' = dt_usec t1"
    by (rule datetime_rounded [OF assms, of 0 w, unfolded S]) (use le in simp_all)
  then obtain t' where t': "my_datetime_adjust_frac t 0 w False = (False, t', w)" "valid_datetime t'" "dt_usec t' = dt_usec t1"
    by blast
  note i = dt_usec_inj [OF t'(2) v t'(3)]
  have "0 \<le> TIME_to_ulonglong_datetime t" "TIME_to_ulonglong_datetime t + 1 = TIME_to_ulonglong_datetime t1"
    "TIME_to_ulonglong_datetime t1 < 2 ^ 64"
    using valid_datetime_day(1-4) [OF assms] assms True
    by (auto simp: TIME_to_ulonglong_datetime_def u64_id t1_def valid_datetime_def)
  then show ?thesis using True t'(1) i
    by (simp add: TIME_to_ulonglong_datetime_round_def u64_id) (simp add: TIME_to_ulonglong_datetime_def t1_def)
qed

end
