(* ===== verification/Temporal_Numbers.thy ===== *)
theory Temporal_Numbers
  imports Temporal_Rounding
begin

text \<open>
  Differences of temporal values, a date and a time put together, and the values that decimal
  numbers are read as.
\<close>

section \<open>Differences\<close>

text \<open>The microseconds of a value: the days of a time count as they are.\<close>

definition value_usec :: "bool \<Rightarrow> MYSQL_TIME \<Rightarrow> int" where
  "value_usec is_time t =
     ((if is_time then day t else calc_daynr (year t) (month t) (day t)) * 86400 + hms_seconds t) * 1000000 + second_part t"

lemma calc_time_diff_eq:
  fixes a b l_sign
  defines "d \<equiv> value_usec (time_type a = MYSQL_TIMESTAMP_TIME) a
    - l_sign * value_usec (time_type a = MYSQL_TIMESTAMP_TIME \<or> time_type b = MYSQL_TIMESTAMP_TIME) b"
  shows "calc_time_diff a b l_sign = (d < 0, \<bar>d\<bar> div 1000000, \<bar>d\<bar> mod 1000000)"
proof -
  define e where "e = ((if time_type a = MYSQL_TIMESTAMP_TIME then day a - l_sign * day b
             else
               let days = calc_daynr (year a) (month a) (day a) in
               if time_type b = MYSQL_TIMESTAMP_TIME then days - l_sign * day b
               else days - l_sign * calc_daynr (year b) (month b) (day b)) * SECONDS_IN_24H
             + (hour a * 3600 + minute a * 60 + second a)
             - l_sign * (hour b * 3600 + minute b * 60 + second b)) * 1000000
            + second_part a - l_sign * second_part b"
  have "e = d"
    by (simp add: e_def d_def value_usec_def hms_seconds_def SECONDS_IN_24H_def Let_def algebra_simps)
  moreover have "calc_time_diff a b l_sign =
      (case if e < 0 then (- e, True) else (e, False) of (m, n) \<Rightarrow> (n, m sdiv 1000000, m smod 1000000))"
    unfolding calc_time_diff_def e_def Let_def by (rule refl)
  moreover have "(- d) sdiv 1000000 = - d div 1000000" "(- d) smod 1000000 = - d mod 1000000" if "d < 0"
    using that sdiv_nonneg [of "- d" 1000000] smod_nonneg [of "- d" 1000000] by auto
  ultimately show ?thesis by (cases "d < 0") (simp_all add: sdiv_nonneg smod_nonneg)
qed

lemma calc_time_from_sec_fields:
  fixes to :: MYSQL_TIME
  assumes "0 \<le> s" "s < 86400" "0 \<le> u" "u < 1000000"
  defines "t \<equiv> calc_time_from_sec to s u"
  shows "0 \<le> hour t" "hour t < 24" "0 \<le> minute t" "minute t < 60" "0 \<le> second t" "second t < 60"
    "hms_seconds t = s" "second_part t = u" "neg t = neg to"
proof -
  define a b c where "a = s div 3600" and "b = s mod 3600 div 60" and "c = s mod 3600 mod 60"
  have r: "0 \<le> s mod 3600" "s mod 3600 < 3600" by simp_all
  have x: "0 \<le> x div 60 \<and> x div 60 < 60 \<and> 0 \<le> x mod 60 \<and> x mod 60 < 60" if "0 \<le> x" "x < 3600" for x :: int
    using that by (auto simp: pos_imp_zdiv_nonneg_iff)
  have m: "0 \<le> a" "a < 24" "0 \<le> b" "b < 60" "0 \<le> c" "c < 60"
    using assms(1,2) x [OF r] by (simp_all add: a_def b_def c_def pos_imp_zdiv_nonneg_iff)
  have "seconds sdiv k = seconds div k" "seconds smod k = seconds mod k" if "0 \<le> seconds" "0 < k" for seconds k :: int
    using that by (simp_all add: sdiv_nonneg smod_nonneg)
  then have f: "hour t = a" "minute t = b" "second t = c" "second_part t = u" "neg t = neg to"
    using assms(1,3,4) r m unfolding t_def calc_time_from_sec_def Let_def
    by (simp_all add: a_def [symmetric] b_def [symmetric] c_def [symmetric] u32_id u64_id)
  show "0 \<le> hour t" "hour t < 24" "0 \<le> minute t" "minute t < 60" "0 \<le> second t" "second t < 60"
    "second_part t = u" "neg t = neg to" using m unfolding f by simp_all
  have "(a * 60 + b) * 60 + c = s" if "b * 60 + c = r" "a * 3600 + r = s" for r using that by simp
  from this [OF div_mult_mod_eq [of "s mod 3600" 60, folded b_def c_def] div_mult_mod_eq [of s 3600, folded a_def]]
  show "hms_seconds t = s" unfolding hms_seconds_def f .
qed

text \<open>A date and a time put together: the time, negative or longer than a day, is added to the date.\<close>

lemma mix_date_and_time_usec:
  assumes "valid_datetime ldate" "\<not> non_zero_time ldate" "time_type ldate \<noteq> MYSQL_TIMESTAMP_TIME"
    and "plain_time my_time" "time_type my_time = MYSQL_TIMESTAMP_TIME"
  defines "T \<equiv> dt_usec ldate + (if neg my_time then - abs_usec my_time else abs_usec my_time)"
  assumes "366 \<le> T div usec_per_day" "T div usec_per_day \<le> MAX_DAY_NUMBER"
  shows "valid_datetime (mix_date_and_time ldate my_time)" "dt_usec (mix_date_and_time ldate my_time) = T"
proof -
  have p: "day my_time = 0" "0 \<le> minute my_time" "minute my_time < 60" "0 \<le> second my_time" "second my_time < 60" "0 \<le> hour my_time"
    "0 \<le> second_part my_time" "second_part my_time < 1000000"
    using assms(4) by (simp_all add: plain_time_def)
  have z: "hour ldate = 0" "minute ldate = 0" "second ldate = 0" "second_part ldate = 0"
    using assms(2) by (simp_all add: non_zero_time_def)
  have "valid_datetime (mix_date_and_time ldate my_time) \<and> dt_usec (mix_date_and_time ldate my_time) = T"
  proof (cases "\<not> neg my_time \<and> hour my_time < 24")
    case True
    then show ?thesis using assms(1) p z
      by (simp add: mix_date_and_time_def valid_datetime_def dt_usec_def T_def abs_usec_def hms_seconds_def)
  next
    case False
    have pos: "0 \<le> T"
    proof (rule ccontr)
      assume "\<not> 0 \<le> T"
      then have "T div usec_per_day < 0" by (simp add: usec_per_day_def neg_imp_zdiv_neg_iff)
      then show False using assms(7) by simp
    qed
    define n s u where "n = T div 1000000 div 86400" and "s = T div 1000000 mod 86400" and "u = T mod 1000000"
    have "value_usec False ldate = dt_usec ldate" "value_usec True my_time = abs_usec my_time"
      using p(1) by (simp_all add: value_usec_def dt_usec_def abs_usec_def)
    then have d: "calc_time_diff ldate my_time (if neg my_time then 1 else -1) = (False, T div 1000000, u)"
      using pos assms(3,5) by (cases "neg my_time") (simp_all add: calc_time_diff_eq T_def u_def)
    have n: "n = T div usec_per_day"
      by (simp add: n_def usec_per_day_def zdiv_zmult2_eq [symmetric] mult.commute)
    have su: "0 \<le> s" "s < 86400" "0 \<le> u" "u < 1000000" by (simp_all add: s_def u_def)
    define t where "t = calc_time_from_sec (ldate\<lparr>neg := False\<rparr>) s u"
    have q: "T div 1000000 sdiv SECONDS_IN_24H = n" "T div 1000000 smod SECONDS_IN_24H = s"
      using pos by (simp_all add: SECONDS_IN_24H_def sdiv_nonneg smod_nonneg n_def s_def pos_imp_zdiv_nonneg_iff)
    have m: "mix_date_and_time ldate my_time = (set_daynr n t)\<lparr>time_type := MYSQL_TIMESTAMP_DATETIME\<rparr>"
      unfolding mix_date_and_time_def if_not_P [OF False] d by (simp add: q Let_def t_def)
    note c = calc_time_from_sec_fields [OF su, of "ldate\<lparr>neg := False\<rparr>", folded t_def]
    have "n * 86400 + s = T div 1000000" "T div 1000000 * 1000000 + u = T"
      unfolding n_def s_def u_def by (rule div_mult_mod_eq)+
    then have "(n * 86400 + s) * 1000000 + u = T" by simp
    then show ?thesis using set_daynr_valid [OF assms(7,8) [folded n] c(1-6)] c(7,8) su(3,4) unfolding m
      by (simp add: valid_datetime_def dt_usec_def hms_seconds_def)
  qed
  then show "valid_datetime (mix_date_and_time ldate my_time)" "dt_usec (mix_date_and_time ldate my_time) = T" by simp_all
qed

section \<open>Numbers\<close>

definition decimal_fields :: "int \<Rightarrow> enum_mysql_timestamp_type \<Rightarrow> MYSQL_TIME" where
  "decimal_fields nr type =
     \<lparr>year = nr div 1000000 div 10000, month = nr div 1000000 mod 10000 div 100,
      day = nr div 1000000 mod 10000 mod 100, hour = nr mod 1000000 div 10000,
      minute = nr mod 1000000 mod 10000 div 100, second = nr mod 1000000 mod 10000 mod 100, second_part = 0,
      neg = False, time_type = type, time_zone_displacement = 0\<rparr>"

lemma decimal_fields_number:
  assumes "0 \<le> nr" "nr < 100000000000000"
  shows "TIME_to_ulonglong_datetime (decimal_fields nr type) = nr" "mt_unsigned (decimal_fields nr type)"
proof -
  define a b where "a = nr div 1000000" and "b = nr mod 1000000"
  have ab: "a * 1000000 + b = nr" "0 \<le> a" "a < 100000000" "0 \<le> b" "b < 1000000"
    using assms by (simp_all add: a_def b_def pos_imp_zdiv_nonneg_iff)
  have a: "a div 10000 * 10000 + a mod 10000 div 100 * 100 + a mod 10000 mod 100 = a"
    using div_mult_mod_eq [of a 10000] div_mult_mod_eq [of "a mod 10000" 100] by linarith
  have b: "b div 10000 * 10000 + b mod 10000 div 100 * 100 + b mod 10000 mod 100 = b"
    using div_mult_mod_eq [of b 10000] div_mult_mod_eq [of "b mod 10000" 100] by linarith
  show "TIME_to_ulonglong_datetime (decimal_fields nr type) = nr"
    unfolding TIME_to_ulonglong_datetime_def decimal_fields_def MYSQL_TIME.select_convs
    unfolding a_def [symmetric] b_def [symmetric] a b using ab by (simp add: u64_id)
  show "mt_unsigned (decimal_fields nr type)"
    using ab(2,4) by (simp add: mt_unsigned_def decimal_fields_def a_def [symmetric] b_def [symmetric]
        pos_imp_zdiv_nonneg_iff)
qed

lemma complete_number_range:
  assumes "complete_number nr flags = Inr (nr', type)"
  shows "0 \<le> nr'" "nr' < 100000000000000" "type = MYSQL_TIMESTAMP_DATE \<or> type = MYSQL_TIMESTAMP_DATETIME"
    "nr' = 0 \<longleftrightarrow> nr = 0"
  using assms by (auto simp: complete_number_def YY_PART_YEAR_def split: if_splits)

lemma number_to_datetime_eq:
  "number_to_datetime nr flags =
     (case complete_number nr flags of
        Inl (out_of_range, type) \<Rightarrow>
          (-1, set_zero_time type, if out_of_range then MYSQL_TIME_WARN_OUT_OF_RANGE else MYSQL_TIME_WARN_TRUNCATED)
      | Inr (nr, type) \<Rightarrow>
          let t = decimal_fields nr type;
              (bad, was_cut) = (if check_datetime_range t then (True, 0) else check_date t (nr \<noteq> 0) flags 0) in
          if \<not> bad then (nr, t, was_cut)
          else if nr = 0 \<and> has_flag flags TIME_NO_ZERO_DATE then (-1, t, was_cut)
          else (-1, t, MYSQL_TIME_WARN_TRUNCATED))"
proof (cases "complete_number nr flags")
  case (Inr p)
  obtain n type where p: "p = (n, type)" by (cases p)
  note r = complete_number_range [OF Inr [unfolded p]]
  define a b where "a = n div 1000000" and "b = n mod 1000000"
  have ab: "0 \<le> a" "a < 100000000" "0 \<le> b" "b < 1000000" "n - a * 1000000 = b"
    using r(1,2) by (simp_all add: a_def b_def pos_imp_zdiv_nonneg_iff minus_div_mult_eq_mod)
  have small: "u32 (s32 (x mod 10000) div 100) = x mod 10000 div 100" "u32 (s32 (x mod 10000) mod 100) = x mod 10000 mod 100"
    "0 \<le> s32 (x mod 10000)" for x
  proof -
    have b: "0 \<le> x mod 10000" "x mod 10000 < 10000" by simp_all
    then have s: "s32 (x mod 10000) = x mod 10000" by (intro s32_id) simp_all
    have "0 \<le> y div 100" "y div 100 < 100" if "0 \<le> y" "y < 10000" for y :: int
      using that by (simp_all add: pos_imp_zdiv_nonneg_iff)
    from this [OF b] b show "u32 (s32 (x mod 10000) div 100) = x mod 10000 div 100"
      "u32 (s32 (x mod 10000) mod 100) = x mod 10000 mod 100" "0 \<le> s32 (x mod 10000)" unfolding s by (simp_all add: u32_id)
  qed
  have big: "u32 (x div 10000) = x div 10000" if "0 \<le> x" "x < 100000000" for x
    using that by (simp add: u32_id pos_imp_zdiv_nonneg_iff)
  have F: "(set_zero_time type)
      \<lparr>year := u32 (a sdiv 10000), month := u32 (s32 (a smod 10000) sdiv 100),
       day := u32 (s32 (a smod 10000) smod 100), hour := u32 (b sdiv 10000),
       minute := u32 (s32 (b smod 10000) sdiv 100), second := u32 (s32 (b smod 10000) smod 100)\<rparr> = decimal_fields n type"
    using ab small big
    by (simp add: decimal_fields_def a_def [symmetric] b_def [symmetric] set_zero_time_def sdiv_nonneg smod_nonneg)
  have q: "n sdiv 1000000 = a" using r(1) by (simp add: a_def sdiv_nonneg)
  show ?thesis unfolding number_to_datetime_def Inr p Let_def sum.case prod.case q ab(5) F by (rule refl)
qed (simp add: number_to_datetime_def)

lemma number_digits:
  fixes y m d :: int
  assumes "0 \<le> m" "m < 100" "0 \<le> d" "d < 100"
  shows "(y * 10000 + m * 100 + d) div 10000 = y" "(y * 10000 + m * 100 + d) mod 10000 div 100 = m"
    "(y * 10000 + m * 100 + d) mod 10000 mod 100 = d"
proof -
  have e: "y * 10000 + m * 100 + d = 10000 * y + (m * 100 + d)" "m * 100 + d = 100 * m + d" by simp_all
  have b: "0 \<le> m * 100 + d" "m * 100 + d < 10000" using assms by simp_all
  show "(y * 10000 + m * 100 + d) div 10000 = y" by (rule int_div_pos_eq [OF e(1) b])
  have q: "(y * 10000 + m * 100 + d) mod 10000 = m * 100 + d" by (rule int_mod_pos_eq [OF e(1) b])
  show "(y * 10000 + m * 100 + d) mod 10000 div 100 = m" unfolding q by (rule int_div_pos_eq [OF e(2) assms(3,4)])
  show "(y * 10000 + m * 100 + d) mod 10000 mod 100 = d" unfolding q by (rule int_mod_pos_eq [OF e(2) assms(3,4)])
qed

lemma decimal_fields_valid:
  assumes "valid_datetime t" "second_part t = 0" "\<not> neg t" "time_zone_displacement t = 0"
  shows "decimal_fields (TIME_to_ulonglong_datetime t) (time_type t) = t"
    "TIME_to_ulonglong_datetime t = (year t * 10000 + month t * 100 + day t) * 1000000
      + (hour t * 10000 + minute t * 100 + second t)"
proof -
  note d = valid_datetime_day(1-4) [OF assms(1)]
  define a b where "a = year t * 10000 + month t * 100 + day t" and "b = hour t * 10000 + minute t * 100 + second t"
  have f: "1 \<le> year t" "year t \<le> 9999" "0 \<le> hour t" "hour t < 24" "0 \<le> minute t" "minute t < 60" "0 \<le> second t" "second t < 60"
    using assms(1) by (simp_all add: valid_datetime_def)
  have ab: "0 \<le> a" "a < 100000000" "0 \<le> b" "b < 1000000" using d f by (simp_all add: a_def b_def)
  show n: "TIME_to_ulonglong_datetime t = (year t * 10000 + month t * 100 + day t) * 1000000
      + (hour t * 10000 + minute t * 100 + second t)"
    unfolding TIME_to_ulonglong_datetime_def a_def [symmetric] b_def [symmetric] using ab by (simp add: u64_id)
  have q: "TIME_to_ulonglong_datetime t div 1000000 = a" "TIME_to_ulonglong_datetime t mod 1000000 = b"
    unfolding n a_def [symmetric] b_def [symmetric] using ab(3,4) by simp_all
  have "decimal_fields (TIME_to_ulonglong_datetime t) (time_type t) =
    \<lparr>year = year t, month = month t, day = day t, hour = hour t, minute = minute t, second = second t, second_part = 0,
     neg = False, time_type = time_type t, time_zone_displacement = 0\<rparr>"
    unfolding decimal_fields_def q unfolding a_def b_def using d f by (simp add: number_digits)
  then show "decimal_fields (TIME_to_ulonglong_datetime t) (time_type t) = t"
    using assms(2-4) by (simp add: MYSQL_TIME.equality)
qed

lemma valid_datetime_in_range:
  assumes "valid_datetime t"
  shows "\<not> check_datetime_range t" "check_date t True flags 0 = (False, 0)"
proof -
  note d = valid_datetime_day(1-4) [OF assms]
  have l: "day t \<le> month_length (year t) (month t)" using assms by (simp add: valid_datetime_def valid_date_def)
  show "\<not> check_datetime_range t"
    using d assms by (auto simp: check_datetime_range_def valid_datetime_def TIME_MAX_HOUR_def)
  have "\<not> (day t > days_in_month ! nat (month t - 1) \<and> (month t \<noteq> 2 \<or> calc_days_in_year (year t) \<noteq> 366 \<or> day t \<noteq> 29))"
    using l by (cases "month t = 2 \<and> calc_days_in_year (year t) = 366") (auto simp: month_length_def days_in_month_def)
  then show "check_date t True flags 0 = (False, 0)" using d by (auto simp: check_date_def)
qed

text \<open>
  The formats of the numbers: YYMMDD and YYMMDDHHMMSS with a year from 1970 to 2069, YYYYMMDD from the year 1000 on,
  or below if fuzzy dates are allowed, YYYYMMDDHHMMSS, and 0.
\<close>

definition number_format :: "int \<Rightarrow> int \<Rightarrow> bool" where
  "number_format nr flags \<longleftrightarrow>
     nr = 0 \<or> 101 \<le> nr \<and> nr \<le> 691231 \<or> 700101 \<le> nr \<and> nr \<le> 991231
     \<or> (if has_flag flags TIME_FUZZY_DATE then 991232 else 10000101) \<le> nr \<and> nr \<le> 99991231
     \<or> 101000000 \<le> nr \<and> nr \<le> 691231235959 \<or> 700101000000 \<le> nr \<and> nr \<le> 99999999999999"

text \<open>The value that a number of one of these formats stands for, digit by digit.\<close>

definition number_value :: "int \<Rightarrow> MYSQL_TIME" where
  "number_value nr =
     (let with_time = (nr = 0 \<or> nr > 99991231); ymd = (if with_time then nr div 1000000 else nr);
          hms = (if with_time then nr mod 1000000 else 0); y = ymd div 10000;
          two_digits = (nr \<noteq> 0 \<and> (if with_time then nr \<le> 991231235959 else nr \<le> 991231)) in
      \<lparr>year = (if two_digits then if y < 70 then 2000 + y else 1900 + y else y),
       month = ymd div 100 mod 100, day = ymd mod 100, hour = hms div 10000, minute = hms div 100 mod 100,
       second = hms mod 100, second_part = 0, neg = False,
       time_type = (if with_time then MYSQL_TIMESTAMP_DATETIME else MYSQL_TIMESTAMP_DATE), time_zone_displacement = 0\<rparr>)"

lemma middle_digits: "(x :: int) mod 10000 div 100 = x div 100 mod 100" "x mod 10000 mod 100 = x mod 100"
proof -
  show "x mod 10000 div 100 = x div 100 mod 100"
    using zmod_zmult2_eq [of 100 x 100] by simp
  show "x mod 10000 mod 100 = x mod 100"
    by (rule mod_mod_cancel) simp
qed

lemma decimal_fields_split:
  assumes "0 \<le> s" "s < 1000000"
  shows "decimal_fields (d * 1000000 + s) type =
    \<lparr>year = d div 10000, month = d div 100 mod 100, day = d mod 100, hour = s div 10000, minute = s div 100 mod 100,
     second = s mod 100, second_part = 0, neg = False, time_type = type, time_zone_displacement = 0\<rparr>"
proof -
  have "(d * 1000000 + s) div 1000000 = d" "(d * 1000000 + s) mod 1000000 = s"
    using assms by simp_all
  then show ?thesis
    by (simp add: decimal_fields_def middle_digits)
qed

text \<open>A century in front of a number of six digits.\<close>

lemma century_digits:
  "(d + c * 1000000) div 10000 = (d :: int) div 10000 + c * 100" "(d + c * 1000000) div 100 mod 100 = d div 100 mod 100"
  "(d + c * 1000000) mod 100 = d mod 100"
proof -
  have e: "c * 1000000 = c * 100 * 10000" "c * 1000000 = c * 100 * 100 * 100"
    by simp_all
  show "(d + c * 1000000) div 10000 = d div 10000 + c * 100"
    unfolding e(1) by simp
  have "(d + c * 1000000) div 100 = d div 100 + c * 100 * 100"
    unfolding e(2) by simp
  then show "(d + c * 1000000) div 100 mod 100 = d div 100 mod 100"
    by (simp only: mod_mult_self1)
  show "(d + c * 1000000) mod 100 = d mod 100"
    unfolding e(2) by (rule mod_mult_self1)
qed

lemma complete_number_century:
  assumes "c = 20 \<and> 101 \<le> nr \<and> nr \<le> 691231 \<or> c = 19 \<and> 700101 \<le> nr \<and> nr \<le> 991231"
  shows "complete_number nr flags = Inr ((nr + c * 1000000) * 1000000 + 0, MYSQL_TIMESTAMP_DATE)"
    "decimal_fields ((nr + c * 1000000) * 1000000 + 0) MYSQL_TIMESTAMP_DATE = number_value nr"
proof -
  show "complete_number nr flags = Inr ((nr + c * 1000000) * 1000000 + 0, MYSQL_TIMESTAMP_DATE)"
    using assms by (elim disjE conjE) (simp_all add: complete_number_def YY_PART_YEAR_def)
  show "decimal_fields ((nr + c * 1000000) * 1000000 + 0) MYSQL_TIMESTAMP_DATE = number_value nr"
    using assms unfolding decimal_fields_split [OF order_refl zero_less_numeral] century_digits
    by (elim disjE conjE) (simp_all add: number_value_def Let_def)
qed

lemma complete_number_century_time:
  assumes "c = 20 \<and> 101000000 \<le> nr \<and> nr \<le> 691231235959 \<or> c = 19 \<and> 700101000000 \<le> nr \<and> nr \<le> 991231235959"
  shows "complete_number nr flags = Inr (nr + c * 1000000000000, MYSQL_TIMESTAMP_DATETIME)"
    "decimal_fields (nr + c * 1000000000000) MYSQL_TIMESTAMP_DATETIME = number_value nr"
proof -
  have e: "nr + c * 1000000000000 = (nr div 1000000 + c * 1000000) * 1000000 + nr mod 1000000" by simp
  have s: "0 \<le> nr mod 1000000" "nr mod 1000000 < 1000000" by simp_all
  have y: "nr div 1000000 div 10000 < 70 \<longleftrightarrow> c = 20"
    using assms unfolding zdiv_zmult2_eq [of 10000 nr 1000000, simplified, symmetric] by auto
  show "complete_number nr flags = Inr (nr + c * 1000000000000, MYSQL_TIMESTAMP_DATETIME)"
    using assms by (elim disjE conjE) (simp_all add: complete_number_def YY_PART_YEAR_def)
  show "decimal_fields (nr + c * 1000000000000) MYSQL_TIMESTAMP_DATETIME = number_value nr"
    unfolding e decimal_fields_split [OF s] century_digits using assms y
    by (elim disjE conjE) (simp_all add: number_value_def Let_def)
qed

lemma complete_number_value:
  assumes "number_format nr flags"
  shows "\<exists>n type. complete_number nr flags = Inr (n, type) \<and> decimal_fields n type = number_value nr"
proof -
  consider (full) "nr = 0 \<or> 991231235959 < nr" "nr \<le> 99999999999999"
    | (day20) "101 \<le> nr" "nr \<le> 691231" | (day19) "700101 \<le> nr" "nr \<le> 991231"
    | (date) "991231 < nr" "nr \<le> 99991231" "nr < 10000101 \<longrightarrow> has_flag flags TIME_FUZZY_DATE"
    | (time20) "101000000 \<le> nr" "nr \<le> 691231235959" | (time19) "700101000000 \<le> nr" "nr \<le> 991231235959"
    using assms unfolding number_format_def by (cases "nr \<le> 991231235959") (auto split: if_splits)
  then show ?thesis
  proof cases
    case full
    have s: "0 \<le> nr mod 1000000" "nr mod 1000000 < 1000000" by simp_all
    have "complete_number nr flags = Inr (nr, MYSQL_TIMESTAMP_DATETIME)"
      using full(2,1) by (elim disjE) (simp_all add: complete_number_def YY_PART_YEAR_def)
    moreover have "decimal_fields (nr div 1000000 * 1000000 + nr mod 1000000) MYSQL_TIMESTAMP_DATETIME = number_value nr"
      unfolding decimal_fields_split [OF s] using full(2,1)
      by (elim disjE) (simp_all add: number_value_def Let_def)
    ultimately show ?thesis
      unfolding div_mult_mod_eq by blast
  next
    case date
    have "complete_number nr flags = Inr (nr * 1000000 + 0, MYSQL_TIMESTAMP_DATE)"
      using date by (simp add: complete_number_def YY_PART_YEAR_def)
    moreover have "decimal_fields (nr * 1000000 + 0) MYSQL_TIMESTAMP_DATE = number_value nr"
      using date unfolding decimal_fields_split [OF order_refl zero_less_numeral] by (simp add: number_value_def)
    ultimately show ?thesis by blast
  next
    case day20
    then show ?thesis using complete_number_century [of 20 nr] by blast
  next
    case day19
    then show ?thesis using complete_number_century [of 19 nr] by blast
  next
    case time20
    then show ?thesis using complete_number_century_time [of 20 nr] by blast
  next
    case time19
    then show ?thesis using complete_number_century_time [of 19 nr] by blast
  qed
qed

lemma complete_number_none:
  assumes "\<not> number_format nr flags"
  shows "complete_number nr flags =
    Inl (nr > 99999999999999, if nr < 101000000 then MYSQL_TIMESTAMP_DATE else MYSQL_TIMESTAMP_DATETIME)"
  using assms unfolding number_format_def by (auto simp: complete_number_def YY_PART_YEAR_def split: if_splits)

lemma check_date_cut: "check_date t b flags 0 = (False, c) \<Longrightarrow> c = 0"
  by (simp add: check_date_def split: if_splits)

lemma number_to_datetime_value:
  "number_to_datetime nr flags =
     (let t = number_value nr in
      if nr > 99999999999999 then (-1, set_zero_time MYSQL_TIMESTAMP_DATETIME, MYSQL_TIME_WARN_OUT_OF_RANGE)
      else if \<not> number_format nr flags
      then (-1, set_zero_time (if nr < 101000000 then MYSQL_TIMESTAMP_DATE else MYSQL_TIMESTAMP_DATETIME), MYSQL_TIME_WARN_TRUNCATED)
      else if \<not> check_datetime_range t \<and> \<not> fst (check_date t (nr \<noteq> 0) flags 0) then (TIME_to_ulonglong_datetime t, t, 0)
      else (-1, t, if nr = 0 \<and> has_flag flags TIME_NO_ZERO_DATE then MYSQL_TIME_WARN_ZERO_DATE else MYSQL_TIME_WARN_TRUNCATED))"
proof (cases "number_format nr flags")
  case False
  then show ?thesis
    unfolding number_to_datetime_eq complete_number_none [OF False] by simp
next
  case True
  obtain n type where c: "complete_number nr flags = Inr (n, type)" "decimal_fields n type = number_value nr"
    using complete_number_value [OF True] by blast
  note r = complete_number_range [OF c(1)]
  have n: "TIME_to_ulonglong_datetime (number_value nr) = n"
    using decimal_fields_number(1) [OF r(1,2), of type] c(2) by simp
  have big: "\<not> nr > 99999999999999"
    using True by (auto simp: number_format_def split: if_splits)
  have zero: "check_date (number_value nr) False flags 0 = (has_flag flags TIME_NO_ZERO_DATE, if has_flag flags TIME_NO_ZERO_DATE then MYSQL_TIME_WARN_ZERO_DATE else 0)"
    by (simp add: check_date_def)
  have range0: "\<not> check_datetime_range (number_value 0)"
    by (simp add: number_value_def check_datetime_range_def)
  obtain bad was_cut where cd: "check_date (number_value nr) (nr \<noteq> 0) flags 0 = (bad, was_cut)"
    by fastforce
  have "was_cut = 0" if "\<not> bad"
    using check_date_cut cd that by auto
  then show ?thesis
    unfolding number_to_datetime_eq c(1) Let_def sum.case prod.case c(2) n using True big r(4) cd zero range0
    by (cases "nr = 0") auto
qed

lemma accepted_number:
  assumes a: "number_to_datetime nr flags = (res, t, was_cut) \<and> res \<noteq> -1"
  shows "mt_unsigned t \<and> \<not> check_datetime_range t \<and> check_date t (res \<noteq> 0) flags 0 = (False, was_cut) \<and> was_cut = 0
      \<and> TIME_to_ulonglong_datetime t = res \<and> second_part t = 0 \<and> \<not> neg t"
proof (intro conjI)
  obtain n type where c: "complete_number nr flags = Inr (n, type)"
    using a by (cases "complete_number nr flags") (auto simp: number_to_datetime_eq)
  note r = complete_number_range [OF c]
  have e: "t = decimal_fields n type \<and> res = n \<and> \<not> check_datetime_range t \<and> check_date t (res \<noteq> 0) flags 0 = (False, was_cut)"
    using a unfolding number_to_datetime_eq c Let_def sum.case prod.case
    by (cases "check_date (decimal_fields n type) (n \<noteq> 0) flags 0") (auto split: if_splits)
  then show "\<not> check_datetime_range t" and c: "check_date t (res \<noteq> 0) flags 0 = (False, was_cut)" by blast+
  have t: "t = decimal_fields n type" "res = n" using e by blast+
  show "mt_unsigned t" "TIME_to_ulonglong_datetime t = res"
    unfolding t by (rule decimal_fields_number [OF r(1,2)])+
  show "was_cut = 0" by (rule check_date_cut [OF c])
  show "second_part t = 0" "\<not> neg t" unfolding t by (simp_all add: decimal_fields_def)
qed

lemma number_read_back:
  assumes v: "valid_datetime v \<and> year v \<ge> 1000 \<and> second_part v = 0 \<and> \<not> neg v \<and> time_zone_displacement v = 0
      \<and> time_type v = MYSQL_TIMESTAMP_DATETIME"
  shows "number_to_datetime (TIME_to_ulonglong_datetime v) flags = (TIME_to_ulonglong_datetime v, v, 0)"
proof -
  note f = decimal_fields_valid [of v] and d = valid_datetime_day(1-4) [of v]
  have b: "10000101000000 \<le> TIME_to_ulonglong_datetime v" "TIME_to_ulonglong_datetime v \<le> 99999999999999"
    using f(2) d v by (auto simp: valid_datetime_def)
  then have "complete_number (TIME_to_ulonglong_datetime v) flags = Inr (TIME_to_ulonglong_datetime v, MYSQL_TIMESTAMP_DATETIME)"
    by (simp add: complete_number_def)
  then show "number_to_datetime (TIME_to_ulonglong_datetime v) flags = (TIME_to_ulonglong_datetime v, v, 0)"
    using f(1) v valid_datetime_in_range [of v] b(1) by (simp add: number_to_datetime_eq)
qed



end
