(* ===== verification/Temporal_Text_Proofs.thy ===== *)
theory Temporal_Text_Proofs
  imports Temporal_Text Temporal_Numbers
begin

text \<open>
  Printed temporal values are read back: the parsers are run on the digits and delimiters that
  the printers write.
\<close>

section \<open>Characters\<close>

lemma isdigit_iff: "isdigit_char c \<longleftrightarrow> is_digit c"
proof
  assume "isdigit_char c"
  then show "is_digit c" by (auto simp: isdigit_char_def Let_def digit_of_def u8_def)
qed (use digit_of_char [of c] in \<open>simp add: isdigit_char_def\<close>)

lemma digit_class:
  assumes "is_digit c"
  shows "isdigit_char c" "\<not> isspace_char c" "\<not> ispunct_char c" "c \<noteq> CHR ''T''" "c \<noteq> CHR ''.''" "c \<noteq> CHR '':''" "c \<noteq> CHR ''-''"
    "c \<noteq> CHR ''+''" "c \<noteq> CHR '' ''"
  using digit_of_char [OF assms] by (auto simp: isdigit_char_def isspace_char_def ispunct_char_def Let_def)

lemma delim_class:
  "\<not> isdigit_char (CHR ''-'')" "\<not> isdigit_char (CHR '':'')" "\<not> isdigit_char (CHR '' '')" "\<not> isdigit_char (CHR ''.'')"
  "ispunct_char (CHR ''-'')" "ispunct_char (CHR '':'')" "isspace_char (CHR '' '')" "\<not> isspace_char (CHR ''-'')"
  "\<not> isspace_char (CHR '':'')"
  by (simp_all add: isdigit_char_def isspace_char_def ispunct_char_def)

definition digits :: "string \<Rightarrow> bool" where
  "digits s \<longleftrightarrow> (\<forall>c \<in> set s. is_digit c)"

lemma digits_simps [simp]:
  "digits []" "digits (c # s) \<longleftrightarrow> is_digit c \<and> digits s" "digits (s @ t) \<longleftrightarrow> digits s \<and> digits t"
  by (auto simp: digits_def)

definition no_digit :: "string \<Rightarrow> bool" where
  "no_digit s \<longleftrightarrow> s = [] \<or> \<not> isdigit_char (hd s)"

section \<open>Scanning digits\<close>

abbreviation more_digits :: "int \<Rightarrow> string \<Rightarrow> int" where
  "more_digits v s \<equiv> v * 10 ^ length s + dec_val s"

lemma more_digits_Cons: "more_digits v (c # s) = more_digits (v * 10 + digit_of c) s"
  by (simp add: dec_val_Cons algebra_simps)

lemma more_digits_ge: "0 \<le> v \<Longrightarrow> v \<le> more_digits v s"
proof -
  assume v: "0 \<le> v"
  have "v * 1 \<le> v * 10 ^ length s" using v by (intro mult_left_mono) simp_all
  then show ?thesis using dec_val_nonneg [of s] by linarith
qed

lemma scan_digits_all:
  assumes "digits s" "no_digit rest" "0 \<le> v" "more_digits v s \<le> 999999"
  shows "scan_digits True (s @ rest) fl v = Some (rest, fl, more_digits v s)"
  using assms
proof (induction s arbitrary: v)
  case Nil
  then show ?case by (cases rest) (auto simp: no_digit_def)
next
  case (Cons c s)
  have m: "more_digits (v * 10 + digit_of c) s \<le> 999999" using Cons.prems(4) more_digits_Cons [of v c s] by simp
  have "v * 10 + digit_of c \<le> more_digits (v * 10 + digit_of c) s" using Cons.prems(3) by (intro more_digits_ge) simp
  then have "v * 10 + digit_of c \<le> 999999" using m by linarith
  then show ?case
    using Cons.IH [of "v * 10 + digit_of c"] Cons.prems m more_digits_Cons [of v c s]
    by (simp add: isdigit_iff)
qed

lemma scan_digits_fixed:
  assumes "digits s" "no_digit rest" "0 \<le> v" "more_digits v s \<le> 999999" "int (length s) < fl" "fl < 2 ^ 31"
  shows "scan_digits False (s @ rest) fl v = Some (rest, fl - int (length s), more_digits v s)"
  using assms
proof (induction s arbitrary: v fl)
  case Nil
  then show ?case by (cases rest) (auto simp: no_digit_def)
next
  case (Cons c s)
  have m: "more_digits (v * 10 + digit_of c) s \<le> 999999" using Cons.prems(4) more_digits_Cons [of v c s] by simp
  have "v * 10 + digit_of c \<le> more_digits (v * 10 + digit_of c) s" using Cons.prems(3) by (intro more_digits_ge) simp
  then have "v * 10 + digit_of c \<le> 999999" using m by linarith
  moreover have "u32 (fl - 1) = fl - 1" "fl - 1 \<noteq> 0" using Cons.prems(5,6) by (simp_all add: u32_id)
  ultimately show ?case
    using Cons.IH [of "v * 10 + digit_of c" "fl - 1"] Cons.prems m more_digits_Cons [of v c s]
    by (simp add: isdigit_iff)
qed

section \<open>The parts of a datetime\<close>

lemma skip_delims_one:
  assumes "rest \<noteq> []" "is_digit (hd rest)"
    and "c = CHR ''-'' \<and> (i = 0 \<or> i = 1) \<or> c = CHR '':'' \<and> (i = 3 \<or> i = 4) \<or> c = CHR '' '' \<and> i = 2"
  shows "skip_delims fmt short arg i (c # rest) False space status = Inr (rest, True, space \<or> c = CHR '' '', status)"
proof -
  obtain d r where r: "rest = d # r" "is_digit d" using assms(1,2) by (cases rest) auto
  have stop: "skip_delims fmt short arg j rest True sp st = Inr (rest, True, sp, st)" for j sp st
    using digit_class(2,3) [OF r(2)] by (simp add: r(1))
  from assms(3) show ?thesis
    by (elim disjE conjE; hypsubst; simp add: stop delim_class check_punct_def)
qed

lemma scan_part_digits:
  assumes "sc_str s = w @ rest" "w \<noteq> []" "digits w" "no_digit rest" "dec_val w \<le> 999999"
    and "sc_i s = 6 \<longrightarrow> int (length w) \<le> sc_field_length s \<and> sc_field_length s < 2 ^ 31"
  obtains fl where "scan_digits (\<not> False \<and> sc_i s \<noteq> 6) (tl (sc_str s)) (sc_field_length s) (digit_of (hd (sc_str s))) =
    Some (rest, fl, dec_val w)"
proof -
  obtain d w' where w: "w = d # w'" using assms(2) by (cases w) auto
  have v: "more_digits (digit_of d) w' = dec_val w" by (simp add: w dec_val_Cons)
  show ?thesis
  proof (cases "sc_i s = 6")
    case True
    then show ?thesis
      using scan_digits_fixed [of w' rest "digit_of d" "sc_field_length s"] assms v that by (simp add: w)
  next
    case False
    then show ?thesis using scan_digits_all [of w' rest "digit_of d" "sc_field_length s"] assms v that by (simp add: w)
  qed
qed

definition part_read :: "nat \<Rightarrow> string \<Rightarrow> string \<Rightarrow> date_scan \<Rightarrow> date_scan" where
  "part_read i w rest s =
     s\<lparr>sc_str := rest, sc_date_len := (sc_date_len s)[i := length w], sc_date := (sc_date s)[i := dec_val w],
       sc_not_zero_date := sc_not_zero_date s OR dec_val w, sc_field_length := 2, sc_last_field_pos := rest\<rparr>"

lemma scan_part_delim:
  assumes "sc_str s = w @ c # rest" "w \<noteq> []" "digits w" "dec_val w \<le> 999999"
    and c: "\<not> isdigit_char c" "sc_i s \<noteq> 5" "sc_i s \<noteq> 6" "\<not> (sc_i s = 2 \<and> c = CHR ''T'')"
    and skip: "skip_delims False False arg (sc_i s) (c # rest) False (sc_found_space s) (sc_status s) =
      Inr (rest, True, space, status)"
  shows "scan_part False 0 arg s = Inr ((part_read (sc_i s) w rest s)
    \<lparr>sc_found_delimiter := True, sc_found_space := space, sc_status := status\<rparr>, True)"
proof -
  have n: "no_digit (c # rest)" using c(1) by (simp add: no_digit_def)
  obtain fl where f: "scan_digits (\<not> False \<and> sc_i s \<noteq> 6) (tl (sc_str s)) (sc_field_length s) (digit_of (hd (sc_str s))) =
      Some (c # rest, fl, dec_val w)"
    by (rule scan_part_digits [OF assms(1-3) n assms(4)]) (use c(3) in simp_all)
  have l: "length (sc_str s) - Suc (length rest) = length w" using assms(1) by simp
  have "scan_part False 0 arg s =
      map_sum id (\<lambda>s. (s, True)) (after_part False 0 arg (part_read (sc_i s) w (c # rest) s))"
    unfolding scan_part_def Let_def f option.case prod.case using c(2-4) l by (auto simp: part_read_def)
  then show ?thesis
    using skip c(3) by (auto simp: after_part_def part_read_def intro!: date_scan.equality)
qed

lemma scan_part_point:
  assumes "sc_str s = w @ CHR ''.'' # rest" "w \<noteq> []" "digits w" "dec_val w \<le> 999999" "sc_i s = 5"
  shows "scan_part False 0 arg s = Inr ((part_read 5 w rest s)\<lparr>sc_field_length := 6\<rparr>, True)"
proof -
  have n: "no_digit (CHR ''.'' # rest)" using delim_class by (simp add: no_digit_def)
  obtain fl where f: "scan_digits (\<not> False \<and> sc_i s \<noteq> 6) (tl (sc_str s)) (sc_field_length s) (digit_of (hd (sc_str s))) =
      Some (CHR ''.'' # rest, fl, dec_val w)"
    by (rule scan_part_digits [OF assms(1-3) n assms(4)]) (use assms(5) in simp_all)
  have l: "length (sc_str s) - Suc (length rest) = length w" using assms(1) by simp
  show ?thesis unfolding scan_part_def Let_def f using assms(5) l
    by (auto simp: part_read_def intro!: date_scan.equality)
qed

lemma scan_part_end:
  assumes "sc_str s = w" "w \<noteq> []" "digits w" "dec_val w \<le> 999999"
    and "sc_i s = 6 \<longrightarrow> int (length w) \<le> sc_field_length s \<and> sc_field_length s < 2 ^ 31"
  shows "scan_part False 0 arg s = Inr ((part_read (sc_i s) w [] s)\<lparr>sc_i := sc_i s + 1\<rparr>, False)"
proof -
  obtain fl where f: "scan_digits (\<not> False \<and> sc_i s \<noteq> 6) (tl (sc_str s)) (sc_field_length s) (digit_of (hd (sc_str s))) =
      Some ([], fl, dec_val w)"
    by (rule scan_part_digits [of s w "[]", OF _ assms(2,3) _ assms(4,5)]) (use assms(1) in \<open>simp_all add: no_digit_def\<close>)
  show ?thesis unfolding scan_part_def Let_def f using assms(1) by (simp add: part_read_def)
qed

text \<open>The state of the loop after the parts \<open>ws\<close>, at \<open>str\<close>.\<close>

definition or_vals :: "string list \<Rightarrow> int" where
  "or_vals ws = foldl (OR) 0 (map dec_val ws)"

definition scan_state :: "string list \<Rightarrow> string \<Rightarrow> int \<Rightarrow> string \<Rightarrow> bool \<Rightarrow> MYSQL_TIME_STATUS \<Rightarrow> date_scan" where
  "scan_state ws str fl pos space status =
     \<lparr>sc_str = str, sc_i = length ws, sc_field_length = fl, sc_date = map dec_val ws @ replicate (8 - length ws) 0,
      sc_date_len = map length ws @ replicate (8 - length ws) 0, sc_not_zero_date = or_vals ws,
      sc_last_field_pos = pos, sc_found_delimiter = (ws \<noteq> []), sc_found_space = space,
      sc_found_displacement = False, sc_displacement = 0, sc_status = status\<rparr>"

lemma start_scan_state: "start_scan str fl status = scan_state [] str fl [] False status"
  by (simp add: start_scan_def scan_state_def or_vals_def)

lemma update_filled:
  assumes "length ws < 8"
  shows "(map f ws @ replicate (8 - length ws) z)[length ws := f w] = map f (ws @ [w]) @ replicate (8 - length (ws @ [w])) z"
proof -
  obtain k where k: "8 - length ws = Suc k" using assms by (cases "8 - length ws") auto
  then have "8 - length (ws @ [w]) = k" by simp
  then show ?thesis using k by (simp add: list_update_append)
qed

lemma or_vals_snoc: "or_vals (ws @ [w]) = or_vals ws OR dec_val w"
  by (simp add: or_vals_def)

lemmas scan_state_simps = update_filled [of _ dec_val] update_filled [of _ length] or_vals_snoc

lemma loop_step:
  assumes "digits w" "w \<noteq> []" "dec_val w \<le> 999999" "\<not> isdigit_char c" "length ws < 5" "\<not> (length ws = 2 \<and> c = CHR ''T'')"
    and skip: "skip_delims False False arg (length ws) (c # rest) False space status = Inr (rest, True, space', status')"
  shows "scan_loop False 0 arg (scan_state ws (w @ c # rest) fl pos space status) =
    scan_loop False 0 arg (scan_state (ws @ [w]) rest 2 rest space' status')"
proof -
  let ?s = "scan_state ws (w @ c # rest) fl pos space status"
  obtain d w' where w: "w = d # w'" using assms(2) by (cases w) auto
  have p: "scan_part False 0 arg ?s = Inr ((part_read (length ws) w rest ?s)
      \<lparr>sc_found_delimiter := True, sc_found_space := space', sc_status := status'\<rparr>, True)"
    using scan_part_delim [of ?s w c rest arg] assms by (simp add: scan_state_def)
  have "(part_read (length ws) w rest ?s)\<lparr>sc_found_delimiter := True, sc_found_space := space', sc_status := status',
      sc_i := length ws + 1\<rparr> = scan_state (ws @ [w]) rest 2 rest space' status'"
    using assms(5) scan_state_simps [of ws] by (simp add: part_read_def scan_state_def)
  moreover have "sc_i ?s < MAX_DATE_PARTS - 1 \<and> sc_str ?s \<noteq> [] \<and> isdigit_char (hd (sc_str ?s))"
    using assms(1,5) by (simp add: scan_state_def MAX_DATE_PARTS_def w isdigit_iff)
  moreover have "sc_i (part_read (length ws) w rest ?s) = length ws" by (simp add: part_read_def scan_state_def)
  ultimately show ?thesis by (subst scan_loop.simps) (simp add: p)
qed

lemma loop_delim:
  assumes "digits w" "w \<noteq> []" "dec_val w \<le> 999999" "rest \<noteq> []" "is_digit (hd rest)"
    and "c = CHR ''-'' \<and> (length ws = 0 \<or> length ws = 1) \<or> c = CHR '':'' \<and> (length ws = 3 \<or> length ws = 4)
      \<or> c = CHR '' '' \<and> length ws = 2"
  shows "scan_loop False 0 arg (scan_state ws (w @ c # rest) fl pos space status) =
    scan_loop False 0 arg (scan_state (ws @ [w]) rest 2 rest (space \<or> c = CHR '' '') status)"
proof (rule loop_step [OF assms(1-3)])
  show "\<not> isdigit_char c" "length ws < 5" "\<not> (length ws = 2 \<and> c = CHR ''T'')" using assms(6) delim_class by auto
  show "skip_delims False False arg (length ws) (c # rest) False space status =
      Inr (rest, True, space \<or> c = CHR '' '', status)"
    by (rule skip_delims_one [OF assms(4-6)])
qed

lemma loop_end:
  assumes "digits w" "w \<noteq> []" "dec_val w \<le> 999999" "length ws < 7"
    and "length ws = 6 \<longrightarrow> int (length w) \<le> fl \<and> fl < 2 ^ 31"
  shows "scan_loop False 0 arg (scan_state ws w fl pos space status) =
    Inr ((scan_state (ws @ [w]) [] 2 [] space status)\<lparr>sc_found_delimiter := ws \<noteq> []\<rparr>)"
proof -
  let ?s = "scan_state ws w fl pos space status"
  have p: "scan_part False 0 arg ?s = Inr ((part_read (length ws) w [] ?s)\<lparr>sc_i := length ws + 1\<rparr>, False)"
    using scan_part_end [of ?s w arg] assms by (simp add: scan_state_def)
  have "sc_i ?s < MAX_DATE_PARTS - 1 \<and> sc_str ?s \<noteq> [] \<and> isdigit_char (hd (sc_str ?s))"
    using assms by (cases w) (simp_all add: scan_state_def MAX_DATE_PARTS_def isdigit_iff)
  moreover have "(part_read (length ws) w [] ?s)\<lparr>sc_i := length ws + 1\<rparr> =
      (scan_state (ws @ [w]) [] 2 [] space status)\<lparr>sc_found_delimiter := ws \<noteq> []\<rparr>"
    using assms(4) scan_state_simps [of ws] by (simp add: part_read_def scan_state_def)
  ultimately show ?thesis by (subst scan_loop.simps) (simp add: p)
qed

lemma loop_point:
  assumes "digits w" "w \<noteq> []" "dec_val w \<le> 999999" "length ws = 5"
  shows "scan_loop False 0 arg (scan_state ws (w @ CHR ''.'' # rest) fl pos space status) =
    scan_loop False 0 arg (scan_state (ws @ [w]) rest 6 rest space status)"
proof -
  let ?s = "scan_state ws (w @ CHR ''.'' # rest) fl pos space status"
  have p: "scan_part False 0 arg ?s = Inr ((part_read 5 w rest ?s)\<lparr>sc_field_length := 6\<rparr>, True)"
    using scan_part_point [of ?s w rest arg] assms by (simp add: scan_state_def)
  have "sc_i ?s < MAX_DATE_PARTS - 1 \<and> sc_str ?s \<noteq> [] \<and> isdigit_char (hd (sc_str ?s))"
    using assms by (cases w) (simp_all add: scan_state_def MAX_DATE_PARTS_def isdigit_iff)
  moreover have "(part_read 5 w rest ?s)\<lparr>sc_field_length := 6, sc_i := 6\<rparr> = scan_state (ws @ [w]) rest 6 rest space status"
    using assms(4) scan_state_simps [of ws] by (auto simp: part_read_def scan_state_def intro!: date_scan.equality)
  moreover have "sc_i (part_read 5 w rest ?s) = 5" using assms(4) by (simp add: part_read_def scan_state_def)
  ultimately show ?thesis by (subst scan_loop.simps) (simp add: p)
qed

section \<open>Dates and datetimes\<close>

text \<open>The texts of the parts of a datetime, and a fraction that may be missing.\<close>

definition part :: "string \<Rightarrow> bool" where
  "part w \<longleftrightarrow> w \<noteq> [] \<and> digits w \<and> length w \<le> 6"

lemma part_val: "part w \<Longrightarrow> dec_val w \<le> 999999"
proof -
  assume w: "part w"
  then have "dec_val w < 10 ^ length w" by (intro dec_val_less) (simp add: part_def digits_def)
  also have "(10::int) ^ length w \<le> 10 ^ 6" using w by (intro power_increasing) (simp_all add: part_def)
  finally show ?thesis by simp
qed

lemma part_hd: "part w \<Longrightarrow> w \<noteq> [] \<and> is_digit (hd w) \<and> digits w"
  by (cases w) (auto simp: part_def)

lemma part_text: "part w \<Longrightarrow> w @ s \<noteq> [] \<and> is_digit (hd (w @ s))"
  by (cases w) (auto simp: part_def)

definition date_text :: "string \<Rightarrow> string \<Rightarrow> string \<Rightarrow> string" where
  "date_text y m d = y @ CHR ''-'' # m @ CHR ''-'' # d"

definition clock_text :: "string \<Rightarrow> string \<Rightarrow> string \<Rightarrow> string \<Rightarrow> string" where
  "clock_text h m s f = h @ CHR '':'' # m @ CHR '':'' # s @ (if f = [] then [] else CHR ''.'' # f)"

definition parts_of :: "string list \<Rightarrow> string \<Rightarrow> string list" where
  "parts_of ws f = (if f = [] then ws else ws @ [f])"

lemma loop_date:
  assumes "part y" "part m" "part d"
  shows "scan_loop False 0 arg (scan_state [] (date_text y m d) fl pos False status) =
    Inr (scan_state [y, m, d] [] 2 [] False status)"
proof -
  note p = part_val [OF assms(1)] part_val [OF assms(2)] part_val [OF assms(3)]
  note h = part_hd [OF assms(1)] part_hd [OF assms(2)] part_hd [OF assms(3)]
  have "scan_loop False 0 arg (scan_state [] (date_text y m d) fl pos False status) =
      scan_loop False 0 arg (scan_state ([] @ [y]) (m @ CHR ''-'' # d) 2 (m @ CHR ''-'' # d) (False \<or> CHR ''-'' = CHR '' '') status)"
    unfolding date_text_def by (rule loop_delim) (use p h part_text [OF assms(2)] in simp_all)
  also have "\<dots> = scan_loop False 0 arg (scan_state ([y] @ [m]) d 2 d (False \<or> CHR ''-'' = CHR '' '') status)"
    by simp (rule loop_delim [of m d "CHR ''-''" "[y]", simplified], use p h in simp_all)
  also have "\<dots> = Inr (scan_state [y, m, d] [] 2 [] False status)"
    using loop_end [of d "[y, m]"] p h by (simp add: scan_state_def)
  finally show ?thesis .
qed

lemma loop_clock:
  assumes "part h" "part m" "part s" "f = [] \<or> part f" "length ws = 3"
  shows "scan_loop False 0 arg (scan_state ws (clock_text h m s f) 2 pos space status) =
    Inr (scan_state (parts_of (ws @ [h, m, s]) f) [] 2 [] space status)"
proof -
  note p = part_val [OF assms(1)] part_val [OF assms(2)] part_val [OF assms(3)]
  note q = part_hd [OF assms(1)] part_hd [OF assms(2)] part_hd [OF assms(3)]
  let ?f = "if f = [] then [] else CHR ''.'' # f"
  have "scan_loop False 0 arg (scan_state ws (clock_text h m s f) 2 pos space status) =
      scan_loop False 0 arg (scan_state (ws @ [h]) (m @ CHR '':'' # s @ ?f) 2 (m @ CHR '':'' # s @ ?f) (space \<or> CHR '':'' = CHR '' '') status)"
    unfolding clock_text_def by (rule loop_delim) (use p q part_text [OF assms(2)] assms(5) in simp_all)
  also have "\<dots> = scan_loop False 0 arg (scan_state ((ws @ [h]) @ [m]) (s @ ?f) 2 (s @ ?f)
      ((space \<or> CHR '':'' = CHR '' '') \<or> CHR '':'' = CHR '' '') status)"
    by (rule loop_delim) (use p q part_text [OF assms(3)] assms(5) in simp_all)
  also have "\<dots> = Inr (scan_state (parts_of (ws @ [h, m, s]) f) [] 2 [] space status)"
  proof (cases "f = []")
    case True
    then show ?thesis using loop_end [of s "ws @ [h, m]"] p q assms(5) by (simp add: scan_state_def parts_of_def)
  next
    case False
    then have f: "part f" using assms(4) by simp
    then show ?thesis
      using loop_point [of s "ws @ [h, m]"] loop_end [of f "ws @ [h, m, s]" 6] p q assms(5) part_val [OF f] part_hd [OF f] False
      by (simp add: scan_state_def parts_of_def part_def)
  qed
  finally show ?thesis .
qed

lemma loop_datetime:
  assumes "part y" "part mo" "part d" "part h" "part m" "part s" "f = [] \<or> part f"
  shows "scan_loop False 0 arg (scan_state [] (date_text y mo d @ CHR '' '' # clock_text h m s f) fl pos False status) =
    Inr (scan_state (parts_of [y, mo, d, h, m, s] f) [] 2 [] True status)"
proof -
  note p = part_val [OF assms(1)] part_val [OF assms(2)] part_val [OF assms(3)]
  note q = part_hd [OF assms(1)] part_hd [OF assms(2)] part_hd [OF assms(3)]
  let ?c = "clock_text h m s f"
  have c: "?c \<noteq> [] \<and> is_digit (hd ?c)" using part_text [OF assms(4)] by (simp add: clock_text_def)
  have "scan_loop False 0 arg (scan_state [] (date_text y mo d @ CHR '' '' # ?c) fl pos False status) =
      scan_loop False 0 arg (scan_state ([] @ [y]) (mo @ CHR ''-'' # d @ CHR '' '' # ?c) 2 (mo @ CHR ''-'' # d @ CHR '' '' # ?c)
        (False \<or> CHR ''-'' = CHR '' '') status)"
    unfolding date_text_def append_assoc append_Cons by (rule loop_delim) (use p q part_text [OF assms(2)] in simp_all)
  also have "\<dots> = scan_loop False 0 arg (scan_state (([] @ [y]) @ [mo]) (d @ CHR '' '' # ?c) 2 (d @ CHR '' '' # ?c)
        ((False \<or> CHR ''-'' = CHR '' '') \<or> CHR ''-'' = CHR '' '') status)"
    by (rule loop_delim) (use p q part_text [OF assms(3)] in simp_all)
  also have "\<dots> = scan_loop False 0 arg (scan_state ((([] @ [y]) @ [mo]) @ [d]) ?c 2 ?c
        (((False \<or> CHR ''-'' = CHR '' '') \<or> CHR ''-'' = CHR '' '') \<or> CHR '' '' = CHR '' '') status)"
    by (rule loop_delim) (use p q c in simp_all)
  also have "\<dots> = Inr (scan_state (parts_of [y, mo, d, h, m, s] f) [] 2 [] True status)"
    using loop_clock [OF assms(4-7), of "[y, mo, d]" arg ?c True status] by simp
  finally show ?thesis .
qed

lemma first_digits_text:
  assumes "part y" "c = CHR ''-'' \<or> c = CHR '':''"
  shows "first_digits (y @ c # rest) = (False, 0)"
proof -
  have "\<forall>c \<in> set y. isdigit_char c \<or> c = CHR ''T''" using assms(1) by (auto simp: part_def digits_def isdigit_iff)
  then have "dropWhile (\<lambda>c. isdigit_char c \<or> c = CHR ''T'') (y @ c # rest) = c # rest"
    using delim_class(1,2) assms(2) by (auto simp: dropWhile_append2)
  then show ?thesis using assms(2) by (auto simp: first_digits_def Let_def)
qed

lemma skip_spaces_digit: "is_digit (hd s) \<Longrightarrow> s \<noteq> [] \<Longrightarrow> skip_spaces arg s status = (s, status)"
  by (cases s) (simp_all add: digit_class)

lemma or_vals_nonzero: "w \<in> set ws \<Longrightarrow> dec_val w \<noteq> 0 \<Longrightarrow> or_vals ws \<noteq> 0"
proof (induction ws rule: rev_induct)
  case (snoc v ws)
  then show ?case using or_eq_0_iff [of "or_vals ws" "dec_val v"] by (auto simp: or_vals_snoc)
qed simp

lemma str_to_datetime_scanned:
  assumes "part y" "arg = y @ CHR ''-'' # rest" "warnings status = 0"
    and scan: "scan_loop False 0 arg (scan_state [] arg 4 [] False status) = Inr (scan_state ws [] 2 [] space status)"
    and ws: "hd ws = y" "3 \<le> length ws" "dec_val y \<noteq> 0" "length ws = 3 \<longrightarrow> \<not> space"
    and flag: "space \<or> \<not> has_flag flags TIME_DATETIME_ONLY"
    and t: "t = store_parts False 0 (scan_state ws [] 2 [] space status) l_time"
    and ok: "\<not> check_datetime_range t" "check_date t True flags 0 = (False, 0)"
  shows "str_to_datetime arg l_time flags status =
    (False, t, status\<lparr>fractional_digits := if length ws > 6 then length (ws ! 6) else 0\<rparr>)"
proof -
  have a: "arg \<noteq> []" "is_digit (hd arg)" using part_text [OF assms(1), of "CHR ''-'' # rest"] assms(2) by simp_all
  have y: "ws \<noteq> []" "y \<in> set ws" using ws(1,2) by (cases ws; auto)+
  have nz: "or_vals ws \<noteq> 0" by (rule or_vals_nonzero [OF y(2) ws(3)])
  define st where "st = status\<lparr>fractional_digits := if length ws > 6 then length (ws ! 6) else 0\<rparr>"
  have f: "finish_datetime arg [] t st = (False, t, st)"
    by (simp add: finish_datetime_def at_sign_def)
  have w: "warnings st = 0" "st\<lparr>warnings := 0\<rparr> = st" using assms(3) by (simp_all add: st_def MYSQL_TIME_STATUS.equality)
  define S where "S = scan_state ws [] 2 [] space status"
  have S: "sc_str S = []" "sc_i S = length ws" "sc_found_delimiter S" "sc_found_space S = space" "sc_last_field_pos S = []"
    "sc_status S = status" "sc_not_zero_date S = or_vals ws" "sc_date_len S ! 0 \<noteq> 0"
    "length ws > 6 \<longrightarrow> sc_date_len S ! 6 = length (ws ! 6)"
    using y(1) ws(1) assms(1) by (simp_all add: S_def scan_state_def nth_append hd_conv_nth part_def)
  have e: "\<not> (space \<and> length ws = 3 \<and> [] = [])" "\<not> length ws < 3" using ws(2,4) by auto
  have "str_to_datetime arg l_time flags status =
      (case check_date t (or_vals ws \<noteq> 0) flags (warnings st) of
         (True, was_cut) \<Rightarrow> (True, set_zero_time MYSQL_TIMESTAMP_ERROR, st\<lparr>warnings := was_cut\<rparr>)
       | (False, was_cut) \<Rightarrow> finish_datetime arg [] t (st\<lparr>warnings := was_cut\<rparr>))"
    unfolding str_to_datetime_def skip_spaces_digit [OF a(2,1)] prod.case
    unfolding assms(2) first_digits_text [OF assms(1) disjI1 [OF refl]]
    unfolding assms(2) [symmetric] prod.case if_False start_scan_state scan sum.case S_def [symmetric] t [folded S_def, symmetric]
    unfolding st_def using a flag ok(1) e S(8,9) by (cases "length ws > 6") (auto simp: S(1-7) isdigit_iff Let_def)
  then show ?thesis using nz ok(2) w f by (simp add: st_def [symmetric])
qed

section \<open>Printed parts\<close>

lemma two_digits_part:
  assumes "0 \<le> v" "v < 100"
  shows "part (format_two_digits (s32 v))" "length (format_two_digits (s32 v)) = 2" "dec_val (format_two_digits (s32 v)) = v"
proof -
  have d: "0 \<le> v div 10" "v div 10 \<le> 9" "0 \<le> v mod 10" "v mod 10 \<le> 9" "s32 v = v"
    using assms by (simp_all add: pos_imp_zdiv_nonneg_iff s32_id)
  then have e: "format_two_digits (s32 v) = [digit_char (v div 10), digit_char (v mod 10)]"
    using assms by (simp add: format_two_digits_def write_two_digits_def)
  show "part (format_two_digits (s32 v))" "length (format_two_digits (s32 v)) = 2" "dec_val (format_two_digits (s32 v)) = v"
    unfolding e using d(1-4) by (simp_all add: part_def digit_of_digit_char dec_val_Cons)
qed

lemma year_part:
  assumes "0 \<le> v" "v < 10000"
  defines "w \<equiv> format_two_digits (s32 (v div 100)) @ format_two_digits (s32 (v mod 100))"
  shows "part w" "length w = 4" "dec_val w = v"
proof -
  have b: "0 \<le> v div 100" "v div 100 < 100" "0 \<le> v mod 100" "v mod 100 < 100"
    using assms(1,2) by (simp_all add: pos_imp_zdiv_nonneg_iff)
  note a = two_digits_part [OF b(1,2)] and c = two_digits_part [OF b(3,4)]
  show "part w" using a(1,2) c(1,2) by (simp add: w_def part_def)
  show "length w = 4" using a(2) c(2) by (simp add: w_def)
  show "dec_val w = v" using a(3) c(2,3) div_mult_mod_eq [of v 100] by (simp add: w_def dec_val_append)
qed

lemma funpow_div10: "((\<lambda>u. u div 10) ^^ n) u = u div (10 ^ n :: int)"
  by (induction n) (simp_all add: zdiv_zmult2_eq [symmetric] mult.commute)

definition frac_text :: "int \<Rightarrow> nat \<Rightarrow> string" where
  "frac_text u dec = (if dec = 0 then [] else write_digits (u div 10 ^ (6 - dec)) dec)"

lemma frac_text_part:
  assumes "0 \<le> u" "u < 1000000" "dec \<le> 6"
  shows "frac_text u dec = [] \<or> part (frac_text u dec)" "length (frac_text u dec) = dec"
    "dec_val (frac_text u dec) * 10 ^ (6 - dec) = trunc_to (frac_step dec) u"
    "(if dec \<noteq> 0 then my_useconds_to_str u dec else []) = (if frac_text u dec = [] then [] else CHR ''.'' # frac_text u dec)"
proof -
  have p: "(10::int) ^ (6 - dec) * 10 ^ dec = 1000000" using assms(3) by (simp flip: power_add)
  have "u div 10 ^ (6 - dec) * 10 ^ (6 - dec) < 10 ^ dec * 10 ^ (6 - dec)"
    using trunc_to_bounds(1) [of "10 ^ (6 - dec)" u] assms(2) p by (simp add: trunc_to_def mult.commute)
  then have b: "0 \<le> u div 10 ^ (6 - dec)" "u div 10 ^ (6 - dec) < 10 ^ dec"
    using assms(1) mult_less_cancel_right_pos [of "10 ^ (6 - dec)" "u div 10 ^ (6 - dec)" "10 ^ dec"]
    by (simp_all add: pos_imp_zdiv_nonneg_iff)
  note w = write_digits_correct [OF b]
  show l: "length (frac_text u dec) = dec" using w(1) by (simp add: frac_text_def)
  show "frac_text u dec = [] \<or> part (frac_text u dec)"
    using w(2) assms(3) l by (auto simp: frac_text_def part_def digits_def)
  have "u div 1000000 = 0" using assms(1,2) by simp
  then show "dec_val (frac_text u dec) * 10 ^ (6 - dec) = trunc_to (frac_step dec) u"
    using w(3) by (simp add: frac_text_def trunc_to_def frac_step_def)
  have "u32 u = u" using assms(1,2) by (simp add: u32_id)
  then show "(if dec \<noteq> 0 then my_useconds_to_str u dec else []) = (if frac_text u dec = [] then [] else CHR ''.'' # frac_text u dec)"
    using l by (auto simp: my_useconds_to_str_def frac_text_def funpow_div10 DATETIME_MAX_DECIMALS_def)
qed

section \<open>Round trips\<close>

definition frac_val :: "string \<Rightarrow> int" where
  "frac_val f = dec_val f * frac_step (length f)"

lemma frac_val_scaled:
  assumes "length f \<le> 6" "frac_val f < 2 ^ 32"
  shows "(if length f < 6 then u32 (dec_val f * log_10_int ! (DATETIME_MAX_DECIMALS - length f)) else dec_val f) = frac_val f"
  using frac_step_facts(1,3) [OF assms(1)] assms by (auto simp: frac_val_def u32_id frac_step_def)

lemma store_datetime:
  assumes "length y = 4" "length f \<le> 6" "frac_val f < 2 ^ 32"
  shows "store_parts False 0 (scan_state (parts_of [y, mo, d, h, m, s] f) [] 2 [] space status) l_time =
    \<lparr>year = dec_val y, month = dec_val mo, day = dec_val d, hour = dec_val h, minute = dec_val m, second = dec_val s,
     second_part = frac_val f, neg = False, time_type = MYSQL_TIMESTAMP_DATETIME, time_zone_displacement = 0\<rparr>"
proof (cases "f = []")
  case True
  then show ?thesis using assms(1) frac_val_scaled [OF assms(2,3)]
    by (cases l_time) (simp add: store_parts_def scan_state_def parts_of_def MAX_DATE_PARTS_def Let_def)
next
  case False
  then show ?thesis using assms(1) frac_val_scaled [OF assms(2,3)]
    by (cases l_time) (auto simp: store_parts_def scan_state_def parts_of_def MAX_DATE_PARTS_def Let_def split: if_splits)
qed

lemma store_date:
  assumes "length y = 4"
  shows "store_parts False 0 (scan_state [y, mo, d] [] 2 [] space status) l_time =
    \<lparr>year = dec_val y, month = dec_val mo, day = dec_val d, hour = 0, minute = 0, second = 0,
     second_part = 0, neg = False, time_type = MYSQL_TIMESTAMP_DATE, time_zone_displacement = 0\<rparr>"
  using assms by (cases l_time) (simp add: store_parts_def scan_state_def MAX_DATE_PARTS_def Let_def u32_def)

lemma datetime_read_back:
  assumes "valid_datetime t" "\<not> neg t" "time_zone_displacement t = 0" "time_type t = MYSQL_TIMESTAMP_DATETIME" "dec \<le> 6"
  shows "str_to_datetime (my_datetime_to_str t dec) l_time flags new_status =
    (False, t\<lparr>second_part := trunc_to (frac_step dec) (second_part t)\<rparr>, new_status\<lparr>fractional_digits := dec\<rparr>)"
proof -
  define f where "f = frac_text (second_part t) dec"
  have r: "1 \<le> year t" "year t < 10000" "0 \<le> hour t" "hour t < 100" "0 \<le> minute t" "minute t < 100" "0 \<le> second t"
    "second t < 100" "0 \<le> second_part t" "second_part t < 1000000" using assms(1) by (simp_all add: valid_datetime_def)
  have dm: "0 \<le> month t" "month t < 100" "0 \<le> day t" "day t < 100" using valid_datetime_day(1-4) [OF assms(1)] by simp_all
  define y where "y = format_two_digits (s32 (year t div 100)) @ format_two_digits (s32 (year t mod 100))"
  note fr = frac_text_part [OF r(9,10) assms(5), folded f_def]
  note y = year_part [of "year t", folded y_def]
  note two = two_digits_part [OF dm(1,2)] two_digits_part [OF dm(3,4)] two_digits_part [OF r(3,4)] two_digits_part [OF r(5,6)]
    two_digits_part [OF r(7,8)]
  define t' where "t' = t\<lparr>second_part := trunc_to (frac_step dec) (second_part t)\<rparr>"
  have fv: "frac_val f = trunc_to (frac_step dec) (second_part t)" using fr(2,3) by (simp add: frac_val_def frac_step_def)
  have tr: "0 \<le> trunc_to (frac_step dec) (second_part t)" "trunc_to (frac_step dec) (second_part t) < 1000000"
    using trunc_to_mono [OF frac_step_facts(1) [OF assms(5)] r(9)] r(10)
      trunc_to_bounds(1) [OF frac_step_facts(1) [OF assms(5)], of "second_part t"] by (simp_all add: trunc_to_def)
  have v: "valid_datetime t'" using assms(1) tr by (simp add: t'_def valid_datetime_def)
  define ws where "ws = parts_of [y, format_two_digits (s32 (month t)), format_two_digits (s32 (day t)),
    format_two_digits (s32 (hour t)), format_two_digits (s32 (minute t)), format_two_digits (s32 (second t))] f"
  have str: "my_datetime_to_str t dec = date_text y (format_two_digits (s32 (month t))) (format_two_digits (s32 (day t)))
      @ CHR '' '' # clock_text (format_two_digits (s32 (hour t))) (format_two_digits (s32 (minute t)))
          (format_two_digits (s32 (second t))) f"
    using assms(4) fr(4)
    by (simp add: my_datetime_to_str_def TIME_to_datetime_str_def date_text_def clock_text_def y_def)
  have st: "store_parts False 0 (scan_state ws [] 2 [] True new_status) l_time = t'"
    unfolding ws_def using y r(1,2) two fv tr fr(2) assms(2-5)
    by (subst store_datetime) (simp_all add: t'_def MYSQL_TIME.equality)
  have l: "length ws = (if f = [] then 6 else 7)" "f \<noteq> [] \<longrightarrow> ws ! 6 = f" "hd ws = y" by (simp_all add: ws_def parts_of_def)
  have "str_to_datetime (my_datetime_to_str t dec) l_time flags new_status =
      (False, t', new_status\<lparr>fractional_digits := if length ws > 6 then length (ws ! 6) else 0\<rparr>)"
  proof (rule str_to_datetime_scanned)
    show "scan_loop False 0 (my_datetime_to_str t dec) (scan_state [] (my_datetime_to_str t dec) 4 [] False new_status) =
        Inr (scan_state ws [] 2 [] True new_status)"
      unfolding ws_def str by (rule loop_datetime) (use y r(1,2) two fr(1) in simp_all)
    show "my_datetime_to_str t dec = y @ CHR ''-'' # drop 5 (my_datetime_to_str t dec)"
      using y r(1,2) by (simp add: str date_text_def)
  qed (use y r(1,2) l st valid_datetime_in_range [OF v] in \<open>simp_all add: new_status_def\<close>)
  then show ?thesis using fr(2) l by (auto simp: t'_def)
qed

lemma date_read_back:
  assumes "valid_datetime t" "\<not> non_zero_time t" "\<not> neg t" "time_zone_displacement t = 0" "time_type t = MYSQL_TIMESTAMP_DATE"
    and "\<not> has_flag flags TIME_DATETIME_ONLY"
  shows "str_to_datetime (my_date_to_str t) l_time flags new_status = (False, t, new_status)"
proof -
  have r: "1 \<le> year t" "year t < 10000" using assms(1) by (simp_all add: valid_datetime_def)
  have dm: "0 \<le> month t" "month t < 100" "0 \<le> day t" "day t < 100" using valid_datetime_day(1-4) [OF assms(1)] by simp_all
  define y where "y = format_two_digits (s32 (year t div 100)) @ format_two_digits (s32 (year t mod 100))"
  note y = year_part [of "year t", folded y_def] and two = two_digits_part [OF dm(1,2)] two_digits_part [OF dm(3,4)]
  define ws where "ws = [y, format_two_digits (s32 (month t)), format_two_digits (s32 (day t))]"
  have str: "my_date_to_str t = date_text y (format_two_digits (s32 (month t))) (format_two_digits (s32 (day t)))"
    by (simp add: my_date_to_str_def date_text_def y_def)
  have st: "store_parts False 0 (scan_state ws [] 2 [] False new_status) l_time = t"
    unfolding ws_def using y r two assms(2-5)
    by (subst store_date) (simp_all add: non_zero_time_def MYSQL_TIME.equality)
  have "str_to_datetime (my_date_to_str t) l_time flags new_status =
      (False, t, new_status\<lparr>fractional_digits := if length ws > 6 then length (ws ! 6) else 0\<rparr>)"
  proof (rule str_to_datetime_scanned)
    show "scan_loop False 0 (my_date_to_str t) (scan_state [] (my_date_to_str t) 4 [] False new_status) =
        Inr (scan_state ws [] 2 [] False new_status)"
      unfolding ws_def str by (rule loop_date) (use y r two in simp_all)
    show "my_date_to_str t = y @ CHR ''-'' # drop 5 (my_date_to_str t)"
      using y r by (simp add: str date_text_def)
  qed (use y r st assms(6) valid_datetime_in_range [OF assms(1)] in \<open>simp_all add: new_status_def ws_def\<close>)
  then show ?thesis by (simp add: ws_def new_status_def)
qed

text \<open>The clock alone is not taken for a datetime: its delimiters are accepted, but there is no space.\<close>

lemma skip_delims_punct:
  assumes "rest \<noteq> []" "is_digit (hd rest)" "c = CHR '':'' \<or> c = CHR ''.''"
  obtains status' where "skip_delims fmt short arg i (c # rest) False space status = Inr (rest, True, space, status')"
proof -
  obtain d r where r: "rest = d # r" "is_digit d" using assms(1,2) by (cases rest) auto
  have stop: "skip_delims fmt short arg j rest True sp st = Inr (rest, True, sp, st)" for j sp st
    using digit_class(2,3) [OF r(2)] by (simp add: r(1))
  have "ispunct_char c \<and> \<not> isspace_char c" using assms(3) by (auto simp: ispunct_char_def isspace_char_def)
  then show ?thesis using that stop by simp
qed

lemma loop_punct:
  assumes "part w" "rest \<noteq> []" "is_digit (hd rest)" "c = CHR '':'' \<or> c = CHR ''.''" "length ws < 3"
  obtains status' where "scan_loop False 0 arg (scan_state ws (w @ c # rest) fl pos space status) =
    scan_loop False 0 arg (scan_state (ws @ [w]) rest 2 rest space status')"
proof -
  obtain status' where "skip_delims False False arg (length ws) (c # rest) False space status = Inr (rest, True, space, status')"
    by (rule skip_delims_punct [OF assms(2-4)])
  then show ?thesis
    using that loop_step [of w c ws arg rest space status space status' fl pos] part_hd [OF assms(1)] part_val [OF assms(1)]
      assms(4,5) delim_class by auto
qed

lemma clock_not_datetime:
  assumes "part h" "part m" "part s" "f = [] \<or> part f" "has_flag flags TIME_DATETIME_ONLY"
  obtains status' where
    "str_to_datetime (clock_text h m s f) l_time flags status = (True, l_time\<lparr>time_type := MYSQL_TIMESTAMP_NONE\<rparr>, status')"
proof -
  let ?f = "if f = [] then [] else CHR ''.'' # f" and ?a = "clock_text h m s f"
  note p = part_val [OF assms(3)] part_hd [OF assms(3)]
  obtain st1 where 1: "scan_loop False 0 ?a (scan_state [] ?a 4 [] False status) =
      scan_loop False 0 ?a (scan_state ([] @ [h]) (m @ CHR '':'' # s @ ?f) 2 (m @ CHR '':'' # s @ ?f) False st1)"
    by (rule loop_punct [OF assms(1), of "m @ CHR '':'' # s @ ?f" "CHR '':''" "[]" ?a 4 "[]" False status])
      (use part_text [OF assms(2)] in \<open>simp_all add: clock_text_def\<close>)
  obtain st2 where 2: "scan_loop False 0 ?a (scan_state ([] @ [h]) (m @ CHR '':'' # s @ ?f) 2 (m @ CHR '':'' # s @ ?f) False st1) =
      scan_loop False 0 ?a (scan_state (([] @ [h]) @ [m]) (s @ ?f) 2 (s @ ?f) False st2)"
    by (rule loop_punct [OF assms(2), of "s @ ?f" "CHR '':''" "[] @ [h]" ?a 2 "m @ CHR '':'' # s @ ?f" False st1]) (use part_text [OF assms(3)] in simp_all)
  obtain ws st3 where 3: "scan_loop False 0 ?a (scan_state [h, m] (s @ ?f) 2 (s @ ?f) False st2) =
      Inr (scan_state ws [] 2 [] False st3)" "ws \<noteq> []"
  proof (cases "f = []")
    case True
    then show ?thesis using loop_end [of s "[h, m]"] p that [of "[h, m, s]" st2] by (simp add: scan_state_def)
  next
    case False
    then have f: "part f" using assms(4) by simp
    obtain st3 where "scan_loop False 0 ?a (scan_state [h, m] (s @ CHR ''.'' # f) 2 (s @ CHR ''.'' # f) False st2) =
        scan_loop False 0 ?a (scan_state ([h, m] @ [s]) f 2 f False st3)"
      by (rule loop_punct [OF assms(3), of f "CHR ''.''" "[h, m]" ?a 2 "s @ CHR ''.'' # f" False st2]) (use part_hd [OF f] in simp_all)
    then show ?thesis
      using loop_end [of f "[h, m, s]"] part_val [OF f] part_hd [OF f] False that [of "[h, m, s, f]" st3]
      by (simp add: scan_state_def)
  qed
  have a: "?a \<noteq> []" "is_digit (hd ?a)" "first_digits ?a = (False, 0)"
    using part_text [OF assms(1)] first_digits_text [OF assms(1)] by (simp_all add: clock_text_def)
  have "scan_loop False 0 ?a (start_scan ?a 4 status) = Inr (scan_state ws [] 2 [] False st3)"
    using 1 2 3 by (simp add: start_scan_state)
  then have "str_to_datetime ?a l_time flags status = not_a_datetime l_time st3"
    using a assms(5) 3(2) by (simp add: str_to_datetime_def skip_spaces_digit isdigit_iff scan_state_def)
  then show ?thesis using that by (simp add: not_a_datetime_def)
qed

lemma scan_number_part:
  assumes "digits w" "no_digit rest" "0 \<le> v" "more_digits v w < 2 ^ 64"
  shows "scan_number (w @ rest) v = (rest, more_digits v w)"
  using assms
proof (induction w arbitrary: v)
  case Nil
  then show ?case by (cases rest) (auto simp: no_digit_def)
next
  case (Cons c w)
  have m: "more_digits (v * 10 + digit_of c) w < 2 ^ 64" using Cons.prems(4) more_digits_Cons [of v c w] by simp
  have "v * 10 + digit_of c \<le> more_digits (v * 10 + digit_of c) w" using Cons.prems(3) by (intro more_digits_ge) simp
  then have "u64 (v * 10 + digit_of c) = v * 10 + digit_of c" using m Cons.prems(3) by (intro u64_id) simp_all
  then show ?case
    using Cons.IH [of "v * 10 + digit_of c"] Cons.prems m more_digits_Cons [of v c w] by (simp add: isdigit_iff)
qed

lemma scan_part_number: "part w \<Longrightarrow> no_digit rest \<Longrightarrow> scan_number (w @ rest) 0 = (rest, dec_val w)"
  using scan_number_part [of w rest 0] part_val [of w] by (simp add: part_def)

lemma scan_fraction_part:
  assumes "digits w" "int (length w) \<le> fl"
  shows "\<exists>prev'. scan_fraction w fl v prev = ([], fl - int (length w), more_digits v w, prev')"
  using assms
proof (induction w arbitrary: fl v prev)
  case (Cons c w)
  then show ?case using Cons.IH [of "fl - 1" "v * 10 + digit_of c" c] more_digits_Cons [of v c w]
    by (simp add: isdigit_iff algebra_simps)
qed simp

lemma clock_fraction:
  assumes "f = [] \<or> part f" "fractional_digits status = 0"
  shows "time_fraction (if f = [] then [] else CHR ''.'' # f) status = ([], frac_val f, status\<lparr>fractional_digits := length f\<rparr>)"
proof (cases f)
  case Nil
  then show ?thesis using assms(2) by (simp add: time_fraction_def frac_val_def MYSQL_TIME_STATUS.equality)
next
  case (Cons d w)
  then have f: "digits w" "is_digit d" "length w \<le> 5" using assms(1) by (auto simp: part_def)
  obtain prev where s: "scan_fraction w 5 (digit_of d) d = ([], 5 - int (length w), more_digits (digit_of d) w, prev)"
    using scan_fraction_part [OF f(1), of 5 "digit_of d" d] f(3) by auto
  have "log_10_int ! nat (5 - int (length w)) = frac_step (length f)"
    using frac_step_facts(3) [of "length f"] f(3) Cons by (simp add: DATETIME_MAX_DECIMALS_def nat_diff_distrib')
  moreover have "nat (6 - (5 - int (length w))) = length f" using f(3) Cons by simp
  moreover have "more_digits (digit_of d) w = dec_val f" by (simp add: Cons dec_val_Cons)
  ultimately show ?thesis using s f Cons by (simp add: time_fraction_def isdigit_iff frac_val_def)
qed

lemma clock_parts:
  assumes "part h" "part m" "part s" "f = [] \<or> part f"
  defines "rest \<equiv> CHR '':'' # m @ CHR '':'' # s @ (if f = [] then [] else CHR ''.'' # f)"
  shows "scan_number (clock_text h m s f) 0 = (rest, dec_val h)"
    "time_parts (dec_val h) rest rest = ([0, dec_val h, dec_val m, dec_val s], True, if f = [] then [] else CHR ''.'' # f)"
proof -
  let ?f = "if f = [] then [] else CHR ''.'' # f"
  have n: "no_digit rest" "no_digit (CHR '':'' # s @ ?f)" "no_digit ?f" using delim_class by (simp_all add: no_digit_def rest_def)
  show "scan_number (clock_text h m s f) 0 = (rest, dec_val h)"
    using scan_part_number [OF assms(1) n(1)] by (simp add: clock_text_def rest_def)
  obtain d s' e m' where sm: "s = d # s'" "m = e # m'" "isdigit_char d" "isdigit_char e"
    using part_hd [OF assms(3)] part_hd [OF assms(2)] by (cases s; cases m) (auto simp: isdigit_iff)
  then have D: "isdigit_char ((s @ r) ! 0)" "0 < length s" for r by simp_all
  note N = scan_part_number [OF assms(2) n(2)]
  have "scan_time_parts [0, dec_val h, dec_val m] True (s @ ?f) = ([0, dec_val h, dec_val m, dec_val s], True, ?f)"
    by (subst scan_time_parts.simps) (simp add: scan_part_number [OF assms(3) n(3)] Let_def)
  then have "scan_time_parts [0, dec_val h] True (m @ CHR '':'' # s @ ?f) = ([0, dec_val h, dec_val m, dec_val s], True, ?f)"
    using D by (subst scan_time_parts.simps) (simp only: N Let_def time_separator_def fst_conv snd_conv, simp)
  then show "time_parts (dec_val h) rest rest = ([0, dec_val h, dec_val m, dec_val s], True, ?f)"
    using sm by (simp add: time_parts_def rest_def time_separator_def)
qed

lemma clock_read:
  fixes l_time :: MYSQL_TIME
  assumes "part h" "part m" "part s" "f = [] \<or> part f" "warnings status = 0" "fractional_digits status = 0"
  defines "t \<equiv> \<lparr>year = 0, month = 0, day = 0, hour = dec_val h, minute = dec_val m, second = dec_val s,
    second_part = frac_val f, neg = neg l_time, time_type = MYSQL_TIMESTAMP_TIME, time_zone_displacement = 0\<rparr>"
  assumes "plain_time t" "abs_usec t \<le> max_time_usec"
  shows "str_to_plain_time arg (clock_text h m s f) l_time status flags = (False, t, status\<lparr>fractional_digits := length f\<rparr>)"
proof -
  let ?f = "if f = [] then [] else CHR ''.'' # f"
  define rest where "rest = CHR '':'' # m @ CHR '':'' # s @ ?f"
  note p = clock_parts [OF assms(1-4), folded rest_def]
  have dw: "dropWhile isspace_char rest = rest" using delim_class by (simp add: rest_def)
  have b: "dec_val h \<le> 999999" "dec_val m < 60" "dec_val s < 60" "frac_val f < 1000000" "0 \<le> frac_val f"
    using part_val [OF assms(1)] assms(8) by (simp_all add: plain_time_def t_def)
  have u: "u32 (u64 (dec_val h)) = dec_val h" "u32 (dec_val m) = dec_val m" "u32 (dec_val s) = dec_val s"
    using b by (simp_all add: u32_id u64_id)
  have lt: "l_time\<lparr>year := 0, month := 0, day := 0, hour := dec_val h, minute := dec_val m, second := dec_val s,
      second_part := frac_val f, time_type := MYSQL_TIMESTAMP_TIME, time_zone_displacement := 0\<rparr> = t"
    by (cases l_time) (simp add: t_def)
  have q: "\<not> check_time_mmssff_range t" "adjust_time_range t 0 = (t, 0)"
    using check_time_range_quick_iff [OF assms(8)] assms(9) b
    by (simp_all add: check_time_mmssff_range_def t_def adjust_time_range_def)
  have st: "status\<lparr>fractional_digits := k, warnings := 0\<rparr> = status\<lparr>fractional_digits := k\<rparr>" for k
    using assms(5) by (simp add: MYSQL_TIME_STATUS.equality)
  show ?thesis
    unfolding str_to_plain_time_def p(1) prod.case Let_def dw p(2) clock_fraction [OF assms(4,6)]
    using b q assms(5) by (simp add: has_exponent_def u lt st p clock_fraction [OF assms(4,6)])
qed

lemma hours_part:
  assumes "0 \<le> x" "x < 1000"
  defines "w \<equiv> write_digits x (max 2 (count_digits x))"
  shows "part w" "dec_val w = x"
proof -
  have c: "1 \<le> count_digits x" "x < 10 ^ count_digits x" "count_digits x = 1 \<or> 10 ^ (count_digits x - 1) \<le> x"
    using count_digits_correct [of x] assms(1,2) by auto
  have "count_digits x \<le> 3"
  proof (rule ccontr)
    assume "\<not> count_digits x \<le> 3"
    then have "10 ^ 3 \<le> (10::int) ^ (count_digits x - 1)" by (intro power_increasing) auto
    then show False using c(3) assms(2) \<open>\<not> count_digits x \<le> 3\<close> by simp
  qed
  moreover have "x < 10 ^ max 2 (count_digits x)"
    by (rule less_le_trans [OF c(2)]) (rule power_increasing, simp_all)
  ultimately show "part w" "dec_val w = x"
    using write_digits_correct [OF assms(1), of "max 2 (count_digits x)"] by (auto simp: w_def part_def digits_def)
qed

lemma time_read_back:
  assumes "plain_time t" "abs_usec t \<le> max_time_usec" "year t = 0" "month t = 0" "time_type t = MYSQL_TIMESTAMP_TIME"
    and "time_zone_displacement t = 0" "dec \<le> 6"
  shows "str_to_time (my_time_to_str t dec) l_time new_status flags =
    (False, t\<lparr>second_part := trunc_to (frac_step dec) (second_part t)\<rparr>, new_status\<lparr>fractional_digits := dec\<rparr>)"
proof -
  define f h where "f = frac_text (second_part t) dec" and "h = write_digits (hour t) (max 2 (count_digits (hour t)))"
  define m s where "m = format_two_digits (s32 (minute t))" and "s = format_two_digits (s32 (second t))"
  have r: "0 \<le> hour t" "hour t < 1000" "0 \<le> minute t" "minute t < 100" "0 \<le> second t" "second t < 100"
    "0 \<le> second_part t" "second_part t < 1000000"
    using assms(1,2) by (auto simp: plain_time_def abs_usec_def hms_seconds_def max_time_usec_def)
  note fr = frac_text_part [OF r(7,8) assms(7), folded f_def] and hp = hours_part [OF r(1,2), folded h_def]
  note mp = two_digits_part [OF r(3,4), folded m_def] and sp = two_digits_part [OF r(5,6), folded s_def]
  define t' l where "t' = t\<lparr>second_part := trunc_to (frac_step dec) (second_part t)\<rparr>"
    and "l = l_time\<lparr>time_type := MYSQL_TIMESTAMP_NONE, neg := neg t\<rparr>"
  have t': "t' = \<lparr>year = 0, month = 0, day = 0, hour = dec_val h, minute = dec_val m, second = dec_val s,
      second_part = frac_val f, neg = neg l', time_type = MYSQL_TIMESTAMP_TIME, time_zone_displacement = 0\<rparr>"
    if "neg l' = neg t" for l' :: MYSQL_TIME
    using assms(1,3-6) that hp(2) mp(3) sp(3) fr(2,3)
    by (simp add: t'_def plain_time_def frac_val_def frac_step_def MYSQL_TIME.equality)
  have tr: "0 \<le> trunc_to (frac_step dec) (second_part t)" "trunc_to (frac_step dec) (second_part t) \<le> second_part t"
    using trunc_to_mono [OF frac_step_facts(1) [OF assms(7)] r(7)]
      trunc_to_bounds(1) [OF frac_step_facts(1) [OF assms(7)], of "second_part t"] by (simp_all add: trunc_to_def)
  have v: "plain_time t'" "abs_usec t' \<le> max_time_usec"
    using assms(1,2) tr by (auto simp: t'_def plain_time_def abs_usec_def hms_seconds_def)
  let ?c = "clock_text h m s f"
  have str: "my_time_to_str t dec = (if neg t then ''-'' else []) @ ?c"
    using fr(4) by (simp add: my_time_to_str_def clock_text_def h_def m_def s_def)
  have plain: "str_to_plain_time arg ?c l' new_status flags = (False, t', new_status\<lparr>fractional_digits := dec\<rparr>)"
    if "neg l' = neg t" for l' arg
    using clock_read [OF hp(1) mp(1) sp(1) fr(1), of new_status l' arg flags, folded t' [OF that]] v fr(2)
    by (simp add: new_status_def)
  have fl: "has_flag (TIME_FUZZY_DATE OR TIME_DATETIME_ONLY) TIME_DATETIME_ONLY" by code_simp
  obtain st' where d: "str_to_datetime ?c l (TIME_FUZZY_DATE OR TIME_DATETIME_ONLY) new_status =
      (True, l\<lparr>time_type := MYSQL_TIMESTAMP_NONE\<rparr>, st')"
    by (rule clock_not_datetime [OF hp(1) mp(1) sp(1) fr(1) fl])
  have c: "?c \<noteq> []" "is_digit (hd ?c)" using part_text [OF hp(1)] by (simp_all add: clock_text_def)
  have sk: "skip_spaces (my_time_to_str t dec) (my_time_to_str t dec) new_status = (my_time_to_str t dec, new_status)"
    using c delim_class by (cases ?c) (auto simp: str digit_class)
  have mi: "(my_time_to_str t dec \<noteq> [] \<and> hd (my_time_to_str t dec) = CHR ''-'') = neg t"
    using c digit_class(7) [OF c(2)] by (auto simp: str)
  have tl: "(if neg t then tl (my_time_to_str t dec) else my_time_to_str t dec) = ?c" by (simp add: str)
  show ?thesis
    unfolding str_to_time_def sk prod.case Let_def mi tl l_def [symmetric] d t'_def [symmetric]
    using c(1) plain [of l] plain [of "l\<lparr>time_type := MYSQL_TIMESTAMP_NONE\<rparr>"] by (auto simp: l_def)
qed

section \<open>Properties\<close>

text \<open>C24. Text: the text printed for a datetime, a date or a time, with any number of fractional
  digits, is read back as the value truncated to these digits, with no warning and no deprecation.
  Datetimes are of the years 1 to 9999, times from -838:59:59 to 838:59:59. A time is not taken for a
  datetime.\<close>

theorem temporal_text_roundtrip:
  assumes "dec \<le> 6" "time_zone_displacement t = 0"
  shows "(valid_datetime t \<and> \<not> neg t \<and> time_type t = MYSQL_TIMESTAMP_DATETIME \<longrightarrow>
      str_to_datetime (my_TIME_to_str t dec) l_time flags new_status =
        (False, t\<lparr>second_part := trunc_to (frac_step dec) (second_part t)\<rparr>, new_status\<lparr>fractional_digits := dec\<rparr>))
    \<and> (valid_datetime t \<and> \<not> neg t \<and> time_type t = MYSQL_TIMESTAMP_DATE \<and> \<not> non_zero_time t
        \<and> \<not> has_flag flags TIME_DATETIME_ONLY \<longrightarrow>
      str_to_datetime (my_TIME_to_str t dec) l_time flags new_status = (False, t, new_status))
    \<and> (plain_time t \<and> abs_usec t \<le> max_time_usec \<and> year t = 0 \<and> month t = 0 \<and> time_type t = MYSQL_TIMESTAMP_TIME \<longrightarrow>
      str_to_time (my_TIME_to_str t dec) l_time new_status flags =
        (False, t\<lparr>second_part := trunc_to (frac_step dec) (second_part t)\<rparr>, new_status\<lparr>fractional_digits := dec\<rparr>))"
  using datetime_read_back [of t dec l_time flags] date_read_back [of t flags l_time] time_read_back [of t dec l_time flags] assms
  by (auto simp: my_TIME_to_str_def)

theorem temporal_text_roundtrip_witness:
  "my_TIME_to_str sample_time 3 = ''-838:59:58.123''
   \<and> str_to_time ''-838:59:58.123'' sample_datetime new_status 0 =
       (False, sample_time\<lparr>second_part := 123000\<rparr>, new_status\<lparr>fractional_digits := 3\<rparr>)"
proof -
  have s: "my_TIME_to_str sample_time 3 = ''-838:59:58.123''" by code_simp
  have "plain_time sample_time" "abs_usec sample_time \<le> max_time_usec" "trunc_to (frac_step 3) (second_part sample_time) = 123000"
    by code_simp+
  then show ?thesis
    using temporal_text_roundtrip [of 3 sample_time sample_datetime 0] unfolding s by (simp add: sample_time_def)
qed

text \<open>
  Two oddities of \<open>str_to_time\<close>. The hours of a number of days are cut to 32 bits, so that a large
  number of days is read as a short time without a warning. The nanoseconds that decide the rounding
  are the last digit of a long fraction, not the seventh.
\<close>

lemma str_to_time_days_wrap:
  "str_to_time ''178956971 00:00:00'' sample_time new_status 0 =
     (False, \<lparr>year = 0, month = 0, day = 0, hour = 8, minute = 0, second = 0, second_part = 0, neg = False,
        time_type = MYSQL_TIMESTAMP_TIME, time_zone_displacement = 0\<rparr>, new_status)"
  by code_simp

lemma str_to_time_last_digit:
  "nanoseconds (snd (snd (str_to_time ''10:10:10.1234560009'' sample_time new_status 0))) = 900"
  by code_simp

text \<open>
  A time zone displacement of less than ten hours is printed with one digit of hours, which is not
  read back, and one of less than an hour west of Greenwich loses its sign.
\<close>

lemma displacement_text:
  "my_datetime_to_str (sample_datetime\<lparr>time_type := MYSQL_TIMESTAMP_DATETIME_TZ, time_zone_displacement := 19800\<rparr>) 0 =
     ''2024-02-29 23:59:59+5:30''"
  "my_datetime_to_str (sample_datetime\<lparr>time_type := MYSQL_TIMESTAMP_DATETIME_TZ, time_zone_displacement := - 1800\<rparr>) 0 =
     ''2024-02-29 23:59:59+0:30''"
  "fst (str_to_datetime ''2024-02-29 23:59:59+5:30'' sample_time 0 new_status)"
  by code_simp+

end
