(* ===== verification/Mdl_Types.thy ===== *)
theory Mdl_Types
  imports Prelude "HOL-Library.Multiset"
begin

text \<open>
  Metadata locks, the static part: \<open>sql/mdl.h\<close> and \<open>sql/mdl.cc\<close>. Lock types and
  durations, namespaces, the two lock strategies with their compatibility and priority matrices, and
  the packed word that counts the locks granted on the fast path.

  A set of lock types is a \<open>bitmap_t\<close>, 16 bits wide; the fast-path state is a word of 64 bits:
  three flags in the bits 60 to 62, and counters below.
\<close>

unbundle bit_operations_syntax

section \<open>Lock types, durations and namespaces\<close>

datatype enum_mdl_type =
  MDL_INTENTION_EXCLUSIVE | MDL_SHARED | MDL_SHARED_HIGH_PRIO | MDL_SHARED_READ | MDL_SHARED_WRITE
| MDL_SHARED_WRITE_LOW_PRIO | MDL_SHARED_UPGRADABLE | MDL_SHARED_READ_ONLY | MDL_SHARED_NO_WRITE
| MDL_SHARED_NO_READ_WRITE | MDL_EXCLUSIVE

primrec mdl_type_num :: "enum_mdl_type \<Rightarrow> nat" where
  "mdl_type_num MDL_INTENTION_EXCLUSIVE = 0"
| "mdl_type_num MDL_SHARED = 1"
| "mdl_type_num MDL_SHARED_HIGH_PRIO = 2"
| "mdl_type_num MDL_SHARED_READ = 3"
| "mdl_type_num MDL_SHARED_WRITE = 4"
| "mdl_type_num MDL_SHARED_WRITE_LOW_PRIO = 5"
| "mdl_type_num MDL_SHARED_UPGRADABLE = 6"
| "mdl_type_num MDL_SHARED_READ_ONLY = 7"
| "mdl_type_num MDL_SHARED_NO_WRITE = 8"
| "mdl_type_num MDL_SHARED_NO_READ_WRITE = 9"
| "mdl_type_num MDL_EXCLUSIVE = 10"

lemma mdl_type_num_inj: "mdl_type_num a = mdl_type_num b \<longleftrightarrow> a = b"
  by (cases a; cases b) simp_all

lemma mdl_type_num_less: "mdl_type_num a < 11"
  by (cases a) simp_all

instantiation enum_mdl_type :: linorder
begin

definition less_eq_enum_mdl_type :: "enum_mdl_type \<Rightarrow> enum_mdl_type \<Rightarrow> bool" where
  "less_eq_enum_mdl_type a b \<longleftrightarrow> mdl_type_num a \<le> mdl_type_num b"

definition less_enum_mdl_type :: "enum_mdl_type \<Rightarrow> enum_mdl_type \<Rightarrow> bool" where
  "less_enum_mdl_type a b \<longleftrightarrow> mdl_type_num a < mdl_type_num b"

instance
  by standard (auto simp: less_eq_enum_mdl_type_def less_enum_mdl_type_def mdl_type_num_inj)

end

text \<open>The lock types are finitely many, so that statements on all of them can be evaluated.\<close>

lemma UNIV_mdl_type:
  "UNIV = {MDL_INTENTION_EXCLUSIVE, MDL_SHARED, MDL_SHARED_HIGH_PRIO, MDL_SHARED_READ, MDL_SHARED_WRITE,
     MDL_SHARED_WRITE_LOW_PRIO, MDL_SHARED_UPGRADABLE, MDL_SHARED_READ_ONLY, MDL_SHARED_NO_WRITE,
     MDL_SHARED_NO_READ_WRITE, MDL_EXCLUSIVE}"
  using enum_mdl_type.exhaust by auto

instantiation enum_mdl_type :: enum
begin

definition enum_enum_mdl_type :: "enum_mdl_type list" where
  "enum_enum_mdl_type =
     [MDL_INTENTION_EXCLUSIVE, MDL_SHARED, MDL_SHARED_HIGH_PRIO, MDL_SHARED_READ, MDL_SHARED_WRITE,
      MDL_SHARED_WRITE_LOW_PRIO, MDL_SHARED_UPGRADABLE, MDL_SHARED_READ_ONLY, MDL_SHARED_NO_WRITE,
      MDL_SHARED_NO_READ_WRITE, MDL_EXCLUSIVE]"

definition enum_all_enum_mdl_type :: "(enum_mdl_type \<Rightarrow> bool) \<Rightarrow> bool" where
  "enum_all_enum_mdl_type P \<longleftrightarrow> list_all P enum_class.enum"

definition enum_ex_enum_mdl_type :: "(enum_mdl_type \<Rightarrow> bool) \<Rightarrow> bool" where
  "enum_ex_enum_mdl_type P \<longleftrightarrow> list_ex P enum_class.enum"

instance
  by standard
    (auto simp: enum_enum_mdl_type_def enum_all_enum_mdl_type_def enum_ex_enum_mdl_type_def
       list_all_iff list_ex_iff UNIV_mdl_type intro: enum_mdl_type.induct elim: enum_mdl_type.exhaust)

end

datatype enum_mdl_duration = MDL_STATEMENT | MDL_TRANSACTION | MDL_EXPLICIT

datatype enum_mdl_namespace =
  GLOBAL | BACKUP_LOCK | TABLESPACE | SCHEMA | TABLE | FUNCTION | PROCEDURE | TRIGGER | EVENT | COMMIT
| USER_LEVEL_LOCK | LOCKING_SERVICE | SRID | ACL_CACHE | COLUMN_STATISTICS | RESOURCE_GROUPS
| FOREIGN_KEY | CHECK_CONSTRAINT

primrec needs_hton_notification :: "enum_mdl_namespace \<Rightarrow> bool" where
  "needs_hton_notification TABLESPACE = True"
| "needs_hton_notification SCHEMA = True"
| "needs_hton_notification TABLE = True"
| "needs_hton_notification FUNCTION = True"
| "needs_hton_notification PROCEDURE = True"
| "needs_hton_notification TRIGGER = True"
| "needs_hton_notification EVENT = True"
| "needs_hton_notification GLOBAL = False"
| "needs_hton_notification BACKUP_LOCK = False"
| "needs_hton_notification COMMIT = False"
| "needs_hton_notification USER_LEVEL_LOCK = False"
| "needs_hton_notification LOCKING_SERVICE = False"
| "needs_hton_notification SRID = False"
| "needs_hton_notification ACL_CACHE = False"
| "needs_hton_notification COLUMN_STATISTICS = False"
| "needs_hton_notification RESOURCE_GROUPS = False"
| "needs_hton_notification FOREIGN_KEY = False"
| "needs_hton_notification CHECK_CONSTRAINT = False"

section \<open>Bitmaps of lock types\<close>

type_synonym bitmap_t = "16 word"
type_synonym fast_path_state_t = "64 word"

definition MDL_BIT :: "enum_mdl_type \<Rightarrow> bitmap_t" where
  "MDL_BIT A = push_bit (mdl_type_num A) 1"

text \<open>The types in a bitmap.\<close>

definition in_bitmap :: "enum_mdl_type \<Rightarrow> bitmap_t \<Rightarrow> bool" where
  "in_bitmap t m \<longleftrightarrow> bit m (mdl_type_num t)"

lemma in_bitmap_simps [simp]:
  "\<not> in_bitmap t 0"
  "in_bitmap t (MDL_BIT u) \<longleftrightarrow> t = u"
  "in_bitmap t (a OR b) \<longleftrightarrow> in_bitmap t a \<or> in_bitmap t b"
  "in_bitmap t (a AND b) \<longleftrightarrow> in_bitmap t a \<and> in_bitmap t b"
  "in_bitmap t (NOT a) \<longleftrightarrow> \<not> in_bitmap t a"
  using mdl_type_num_less [of t] mdl_type_num_inj [of t u]
  by (auto simp: in_bitmap_def MDL_BIT_def bit_simps)

lemma MDL_BIT_and: "MDL_BIT t AND m = 0 \<longleftrightarrow> \<not> in_bitmap t m"
proof
  show "MDL_BIT t AND m = 0 \<Longrightarrow> \<not> in_bitmap t m"
    by (metis in_bitmap_simps(1,2,4))
  show "\<not> in_bitmap t m \<Longrightarrow> MDL_BIT t AND m = 0"
    using mdl_type_num_less [of t] by (intro bit_word_eqI) (auto simp: in_bitmap_def MDL_BIT_def bit_simps)
qed

text \<open>A bitmap that has no bits beyond the lock types is determined by its types.\<close>

definition type_bits :: "bitmap_t \<Rightarrow> bool" where
  "type_bits m \<longleftrightarrow> (\<forall>n. bit m n \<longrightarrow> n < 11)"

lemma type_bits_simps [simp]:
  "type_bits 0" "type_bits (MDL_BIT t)"
  "type_bits a \<Longrightarrow> type_bits b \<Longrightarrow> type_bits (a OR b)"
  "type_bits a \<Longrightarrow> type_bits (a AND b)"
  using mdl_type_num_less [of t] by (auto simp: type_bits_def MDL_BIT_def bit_simps)

lemma mdl_type_of_num: "n < 11 \<Longrightarrow> \<exists>t. mdl_type_num t = n"
  by (rule exI [of _ "enum_class.enum ! n"]) (auto simp: enum_enum_mdl_type_def less_Suc_eq numeral_eq_Suc)

lemma bitmap_and_eq_0:
  assumes "type_bits a"
  shows "a AND b = 0 \<longleftrightarrow> (\<forall>t. in_bitmap t a \<longrightarrow> \<not> in_bitmap t b)"
proof
  show "a AND b = 0 \<Longrightarrow> \<forall>t. in_bitmap t a \<longrightarrow> \<not> in_bitmap t b"
    by (metis in_bitmap_simps(1,4))
  show "\<forall>t. in_bitmap t a \<longrightarrow> \<not> in_bitmap t b \<Longrightarrow> a AND b = 0"
    using assms mdl_type_of_num
    by (intro bit_word_eqI) (auto simp: in_bitmap_def type_bits_def bit_simps)
qed

text \<open>The bitmap of the types of a list of requests.\<close>

definition bitmap_of :: "enum_mdl_type list \<Rightarrow> bitmap_t" where
  "bitmap_of ts = foldr (\<lambda>t m. m OR MDL_BIT t) ts 0"

lemma bitmap_of_simps [simp]:
  "bitmap_of [] = 0" "bitmap_of (t # ts) = bitmap_of ts OR MDL_BIT t"
  by (simp_all add: bitmap_of_def)

lemma in_bitmap_of [simp]: "in_bitmap t (bitmap_of ts) \<longleftrightarrow> t \<in> set ts"
  by (induction ts) auto

lemma type_bits_bitmap_of [simp]: "type_bits (bitmap_of ts)"
  by (induction ts) auto

lemma bitmap_eqI:
  assumes "type_bits a" "type_bits b" "\<And>t. in_bitmap t a \<longleftrightarrow> in_bitmap t b"
  shows "a = b"
proof (rule bit_word_eqI)
  fix n
  show "bit a n \<longleftrightarrow> bit b n"
    using assms mdl_type_of_num [of n] unfolding in_bitmap_def type_bits_def by metis
qed

section \<open>Strategies\<close>

definition MDL_OBJECT_HOG_LOCK_TYPES :: bitmap_t where
  "MDL_OBJECT_HOG_LOCK_TYPES = MDL_BIT MDL_SHARED_NO_WRITE OR MDL_BIT MDL_SHARED_NO_READ_WRITE OR MDL_BIT MDL_EXCLUSIVE"

definition IS_DESTROYED :: fast_path_state_t where "IS_DESTROYED = push_bit 62 1"
definition HAS_OBTRUSIVE :: fast_path_state_t where "HAS_OBTRUSIVE = push_bit 61 1"
definition HAS_SLOW_PATH :: fast_path_state_t where "HAS_SLOW_PATH = push_bit 60 1"

text \<open>
  The locks granted on the fast path, as types: the counters of the fast-path state do not
  tell \<open>SH\<close> from \<open>S\<close> nor \<open>SWLP\<close> from \<open>SW\<close>.
\<close>

definition scoped_lock_fast_path_granted_bitmap :: "fast_path_state_t \<Rightarrow> bitmap_t" where
  "scoped_lock_fast_path_granted_bitmap fps =
     (if fps AND 0xFFFFFFFFFFFFFFF \<noteq> 0 then MDL_BIT MDL_INTENTION_EXCLUSIVE else 0)"

definition object_lock_fast_path_granted_bitmap :: "fast_path_state_t \<Rightarrow> bitmap_t" where
  "object_lock_fast_path_granted_bitmap fps =
     (if fps AND 0xFFFFF \<noteq> 0 then MDL_BIT MDL_SHARED else 0)
     OR (if fps AND push_bit 20 0xFFFFF \<noteq> 0 then MDL_BIT MDL_SHARED_READ else 0)
     OR (if fps AND push_bit 40 0xFFFFF \<noteq> 0 then MDL_BIT MDL_SHARED_WRITE else 0)"

definition object_lock_needs_notification :: "enum_mdl_type \<Rightarrow> bool" where
  "object_lock_needs_notification type \<longleftrightarrow> type = MDL_EXCLUSIVE"

definition object_lock_needs_connection_check :: "enum_mdl_namespace \<Rightarrow> bool" where
  "object_lock_needs_connection_check ns \<longleftrightarrow> ns = USER_LEVEL_LOCK \<or> ns = LOCKING_SERVICE \<or> ns = ACL_CACHE"

text \<open>The function pointers of a strategy are functions; a null pointer is \<open>None\<close>.\<close>

record MDL_lock_strategy =
  m_granted_incompatible :: "bitmap_t list"
  m_waiting_incompatible :: "bitmap_t list list"
  m_unobtrusive_lock_increment :: "fast_path_state_t list"
  m_is_affected_by_max_write_lock_count :: bool
  legal_type :: "bool list"
  m_needs_notification :: "(enum_mdl_type \<Rightarrow> bool) option"
  m_fast_path_granted_bitmap :: "fast_path_state_t \<Rightarrow> bitmap_t"
  m_needs_connection_check :: "(enum_mdl_namespace \<Rightarrow> bool) option"

definition m_scoped_lock_strategy :: MDL_lock_strategy where
  "m_scoped_lock_strategy =
     \<lparr>m_granted_incompatible =
        [MDL_BIT MDL_EXCLUSIVE OR MDL_BIT MDL_SHARED,
         MDL_BIT MDL_EXCLUSIVE OR MDL_BIT MDL_INTENTION_EXCLUSIVE,
         0, 0, 0, 0, 0, 0, 0, 0,
         MDL_BIT MDL_EXCLUSIVE OR MDL_BIT MDL_SHARED OR MDL_BIT MDL_INTENTION_EXCLUSIVE],
      m_waiting_incompatible =
        [[MDL_BIT MDL_EXCLUSIVE OR MDL_BIT MDL_SHARED,
          MDL_BIT MDL_EXCLUSIVE,
          0, 0, 0, 0, 0, 0, 0, 0, 0],
         replicate 11 0, replicate 11 0, replicate 11 0],
      m_unobtrusive_lock_increment = [1, 0, 0, 0, 0, 0, 0, 0, 0, 0, 0],
      m_is_affected_by_max_write_lock_count = False,
      legal_type = [True, True, False, False, False, False, False, False, False, False, True],
      m_needs_notification = None,
      m_fast_path_granted_bitmap = scoped_lock_fast_path_granted_bitmap,
      m_needs_connection_check = None\<rparr>"

definition m_object_lock_strategy :: MDL_lock_strategy where
  "m_object_lock_strategy =
     \<lparr>m_granted_incompatible =
        [0,
         MDL_BIT MDL_EXCLUSIVE,
         MDL_BIT MDL_EXCLUSIVE,
         MDL_BIT MDL_EXCLUSIVE OR MDL_BIT MDL_SHARED_NO_READ_WRITE,
         MDL_BIT MDL_EXCLUSIVE OR MDL_BIT MDL_SHARED_NO_READ_WRITE OR MDL_BIT MDL_SHARED_NO_WRITE OR
           MDL_BIT MDL_SHARED_READ_ONLY,
         MDL_BIT MDL_EXCLUSIVE OR MDL_BIT MDL_SHARED_NO_READ_WRITE OR MDL_BIT MDL_SHARED_NO_WRITE OR
           MDL_BIT MDL_SHARED_READ_ONLY,
         MDL_BIT MDL_EXCLUSIVE OR MDL_BIT MDL_SHARED_NO_READ_WRITE OR MDL_BIT MDL_SHARED_NO_WRITE OR
           MDL_BIT MDL_SHARED_UPGRADABLE,
         MDL_BIT MDL_EXCLUSIVE OR MDL_BIT MDL_SHARED_NO_READ_WRITE OR MDL_BIT MDL_SHARED_WRITE_LOW_PRIO
           OR MDL_BIT MDL_SHARED_WRITE,
         MDL_BIT MDL_EXCLUSIVE OR MDL_BIT MDL_SHARED_NO_READ_WRITE OR MDL_BIT MDL_SHARED_NO_WRITE OR
           MDL_BIT MDL_SHARED_UPGRADABLE OR MDL_BIT MDL_SHARED_WRITE_LOW_PRIO OR MDL_BIT MDL_SHARED_WRITE,
         MDL_BIT MDL_EXCLUSIVE OR MDL_BIT MDL_SHARED_NO_READ_WRITE OR MDL_BIT MDL_SHARED_NO_WRITE OR
           MDL_BIT MDL_SHARED_READ_ONLY OR MDL_BIT MDL_SHARED_UPGRADABLE OR
           MDL_BIT MDL_SHARED_WRITE_LOW_PRIO OR MDL_BIT MDL_SHARED_WRITE OR MDL_BIT MDL_SHARED_READ,
         MDL_BIT MDL_EXCLUSIVE OR MDL_BIT MDL_SHARED_NO_READ_WRITE OR MDL_BIT MDL_SHARED_NO_WRITE OR
           MDL_BIT MDL_SHARED_READ_ONLY OR MDL_BIT MDL_SHARED_UPGRADABLE OR
           MDL_BIT MDL_SHARED_WRITE_LOW_PRIO OR MDL_BIT MDL_SHARED_WRITE OR MDL_BIT MDL_SHARED_READ OR
           MDL_BIT MDL_SHARED_HIGH_PRIO OR MDL_BIT MDL_SHARED],
      m_waiting_incompatible =
        [[0,
          MDL_BIT MDL_EXCLUSIVE,
          0,
          MDL_BIT MDL_EXCLUSIVE OR MDL_BIT MDL_SHARED_NO_READ_WRITE,
          MDL_BIT MDL_EXCLUSIVE OR MDL_BIT MDL_SHARED_NO_READ_WRITE OR MDL_BIT MDL_SHARED_NO_WRITE,
          MDL_BIT MDL_EXCLUSIVE OR MDL_BIT MDL_SHARED_NO_READ_WRITE OR MDL_BIT MDL_SHARED_NO_WRITE OR
            MDL_BIT MDL_SHARED_READ_ONLY,
          MDL_BIT MDL_EXCLUSIVE,
          MDL_BIT MDL_EXCLUSIVE OR MDL_BIT MDL_SHARED_NO_READ_WRITE OR MDL_BIT MDL_SHARED_WRITE,
          MDL_BIT MDL_EXCLUSIVE,
          MDL_BIT MDL_EXCLUSIVE,
          0],
         [0,
          MDL_BIT MDL_EXCLUSIVE,
          0,
          MDL_BIT MDL_EXCLUSIVE OR MDL_BIT MDL_SHARED_NO_READ_WRITE,
          MDL_BIT MDL_EXCLUSIVE OR MDL_BIT MDL_SHARED_NO_READ_WRITE OR MDL_BIT MDL_SHARED_NO_WRITE OR
            MDL_BIT MDL_SHARED_READ_ONLY,
          MDL_BIT MDL_EXCLUSIVE OR MDL_BIT MDL_SHARED_NO_READ_WRITE OR MDL_BIT MDL_SHARED_NO_WRITE OR
            MDL_BIT MDL_SHARED_READ_ONLY,
          MDL_BIT MDL_EXCLUSIVE,
          MDL_BIT MDL_EXCLUSIVE OR MDL_BIT MDL_SHARED_NO_READ_WRITE,
          MDL_BIT MDL_EXCLUSIVE,
          MDL_BIT MDL_EXCLUSIVE,
          0],
         [0, 0, 0, 0, 0,
          MDL_BIT MDL_SHARED_READ_ONLY,
          0,
          MDL_BIT MDL_SHARED_WRITE,
          MDL_BIT MDL_EXCLUSIVE OR MDL_BIT MDL_SHARED_UPGRADABLE OR MDL_BIT MDL_SHARED_WRITE_LOW_PRIO OR
            MDL_BIT MDL_SHARED_WRITE,
          MDL_BIT MDL_EXCLUSIVE OR MDL_BIT MDL_SHARED_READ_ONLY OR MDL_BIT MDL_SHARED_UPGRADABLE OR
            MDL_BIT MDL_SHARED_WRITE_LOW_PRIO OR MDL_BIT MDL_SHARED_WRITE OR MDL_BIT MDL_SHARED_READ,
          NOT MDL_OBJECT_HOG_LOCK_TYPES],
         [0, 0, 0, 0,
          MDL_BIT MDL_EXCLUSIVE OR MDL_BIT MDL_SHARED_NO_READ_WRITE OR MDL_BIT MDL_SHARED_NO_WRITE OR
            MDL_BIT MDL_SHARED_READ_ONLY,
          MDL_BIT MDL_EXCLUSIVE OR MDL_BIT MDL_SHARED_NO_READ_WRITE OR MDL_BIT MDL_SHARED_NO_WRITE OR
            MDL_BIT MDL_SHARED_READ_ONLY,
          0, 0,
          MDL_BIT MDL_EXCLUSIVE OR MDL_BIT MDL_SHARED_UPGRADABLE,
          MDL_BIT MDL_EXCLUSIVE OR MDL_BIT MDL_SHARED_READ_ONLY OR MDL_BIT MDL_SHARED_UPGRADABLE OR
            MDL_BIT MDL_SHARED_READ,
          NOT (MDL_OBJECT_HOG_LOCK_TYPES OR MDL_BIT MDL_SHARED_WRITE OR MDL_BIT MDL_SHARED_WRITE_LOW_PRIO)]],
      m_unobtrusive_lock_increment =
        [0, 1, 1, push_bit 20 1, push_bit 40 1, push_bit 40 1, 0, 0, 0, 0, 0],
      m_is_affected_by_max_write_lock_count = True,
      legal_type = [False, True, True, True, True, True, True, True, True, True, True],
      m_needs_notification = Some object_lock_needs_notification,
      m_fast_path_granted_bitmap = object_lock_fast_path_granted_bitmap,
      m_needs_connection_check = Some object_lock_needs_connection_check\<rparr>"

definition scoped_namespace :: "enum_mdl_namespace \<Rightarrow> bool" where
  "scoped_namespace ns \<longleftrightarrow>
     ns = GLOBAL \<or> ns = TABLESPACE \<or> ns = SCHEMA \<or> ns = COMMIT \<or> ns = BACKUP_LOCK
     \<or> ns = RESOURCE_GROUPS \<or> ns = FOREIGN_KEY \<or> ns = CHECK_CONSTRAINT"

definition get_strategy :: "enum_mdl_namespace \<Rightarrow> MDL_lock_strategy" where
  "get_strategy ns = (if scoped_namespace ns then m_scoped_lock_strategy else m_object_lock_strategy)"

text \<open>The relations the matrices stand for.\<close>

definition granted_incompat :: "MDL_lock_strategy \<Rightarrow> enum_mdl_type \<Rightarrow> bitmap_t" where
  "granted_incompat st type = m_granted_incompatible st ! mdl_type_num type"

definition waiting_incompat :: "MDL_lock_strategy \<Rightarrow> nat \<Rightarrow> enum_mdl_type \<Rightarrow> bitmap_t" where
  "waiting_incompat st idx type = m_waiting_incompatible st ! idx ! mdl_type_num type"

definition strategy_increment :: "MDL_lock_strategy \<Rightarrow> enum_mdl_type \<Rightarrow> fast_path_state_t" where
  "strategy_increment st type = m_unobtrusive_lock_increment st ! mdl_type_num type"

definition is_legal :: "MDL_lock_strategy \<Rightarrow> enum_mdl_type \<Rightarrow> bool" where
  "is_legal st type \<longleftrightarrow> legal_type st ! mdl_type_num type"

text \<open>Whether a lock of type \<open>a\<close> excludes all that a lock of type \<open>b\<close> excludes.\<close>

definition stronger_or_equal :: "MDL_lock_strategy \<Rightarrow> enum_mdl_type \<Rightarrow> enum_mdl_type \<Rightarrow> bool" where
  "stronger_or_equal st a b \<longleftrightarrow> granted_incompat st b AND NOT (granted_incompat st a) = 0"

section \<open>Properties of the matrices\<close>

definition incompat :: "MDL_lock_strategy \<Rightarrow> enum_mdl_type \<Rightarrow> enum_mdl_type \<Rightarrow> bool" where
  "incompat st a b \<longleftrightarrow> in_bitmap b (granted_incompat st a)"

definition yields_to :: "MDL_lock_strategy \<Rightarrow> nat \<Rightarrow> enum_mdl_type \<Rightarrow> enum_mdl_type \<Rightarrow> bool" where
  "yields_to st idx a b \<longleftrightarrow> in_bitmap b (waiting_incompat st idx a)"

definition obtrusive :: "MDL_lock_strategy \<Rightarrow> enum_mdl_type \<Rightarrow> bool" where
  "obtrusive st type \<longleftrightarrow> strategy_increment st type = 0"

lemmas matrix_defs =
  incompat_def yields_to_def granted_incompat_def waiting_incompat_def obtrusive_def strategy_increment_def
  is_legal_def m_scoped_lock_strategy_def m_object_lock_strategy_def MDL_OBJECT_HOG_LOCK_TYPES_def

text \<open>The rows of the matrices as sets of lock types.\<close>

lemma incompat_scoped:
  "incompat m_scoped_lock_strategy a b \<longleftrightarrow>
     (case a of
        MDL_INTENTION_EXCLUSIVE \<Rightarrow> b \<in> {MDL_EXCLUSIVE, MDL_SHARED}
      | MDL_SHARED \<Rightarrow> b \<in> {MDL_EXCLUSIVE, MDL_INTENTION_EXCLUSIVE}
      | MDL_EXCLUSIVE \<Rightarrow> b \<in> {MDL_EXCLUSIVE, MDL_SHARED, MDL_INTENTION_EXCLUSIVE}
      | _ \<Rightarrow> False)"
  by (cases a) (simp_all add: matrix_defs)

lemma incompat_object:
  "incompat m_object_lock_strategy a b \<longleftrightarrow>
     (case a of
        MDL_INTENTION_EXCLUSIVE \<Rightarrow> False
      | MDL_SHARED \<Rightarrow> b = MDL_EXCLUSIVE
      | MDL_SHARED_HIGH_PRIO \<Rightarrow> b = MDL_EXCLUSIVE
      | MDL_SHARED_READ \<Rightarrow> b \<in> {MDL_EXCLUSIVE, MDL_SHARED_NO_READ_WRITE}
      | MDL_SHARED_WRITE \<Rightarrow> b \<in> {MDL_EXCLUSIVE, MDL_SHARED_NO_READ_WRITE, MDL_SHARED_NO_WRITE, MDL_SHARED_READ_ONLY}
      | MDL_SHARED_WRITE_LOW_PRIO \<Rightarrow> b \<in> {MDL_EXCLUSIVE, MDL_SHARED_NO_READ_WRITE, MDL_SHARED_NO_WRITE, MDL_SHARED_READ_ONLY}
      | MDL_SHARED_UPGRADABLE \<Rightarrow> b \<in> {MDL_EXCLUSIVE, MDL_SHARED_NO_READ_WRITE, MDL_SHARED_NO_WRITE, MDL_SHARED_UPGRADABLE}
      | MDL_SHARED_READ_ONLY \<Rightarrow> b \<in> {MDL_EXCLUSIVE, MDL_SHARED_NO_READ_WRITE, MDL_SHARED_WRITE_LOW_PRIO, MDL_SHARED_WRITE}
      | MDL_SHARED_NO_WRITE \<Rightarrow>
          b \<notin> {MDL_INTENTION_EXCLUSIVE, MDL_SHARED, MDL_SHARED_HIGH_PRIO, MDL_SHARED_READ, MDL_SHARED_READ_ONLY}
      | MDL_SHARED_NO_READ_WRITE \<Rightarrow> b \<notin> {MDL_INTENTION_EXCLUSIVE, MDL_SHARED, MDL_SHARED_HIGH_PRIO}
      | MDL_EXCLUSIVE \<Rightarrow> b \<noteq> MDL_INTENTION_EXCLUSIVE)"
  by (cases a; cases b) (simp_all add: matrix_defs)

lemma yields_object_0:
  "yields_to m_object_lock_strategy 0 a b \<longleftrightarrow>
     (case a of
        MDL_SHARED \<Rightarrow> b \<in> {MDL_EXCLUSIVE}
      | MDL_SHARED_READ \<Rightarrow> b \<in> {MDL_EXCLUSIVE, MDL_SHARED_NO_READ_WRITE}
      | MDL_SHARED_WRITE \<Rightarrow> b \<in> {MDL_EXCLUSIVE, MDL_SHARED_NO_READ_WRITE, MDL_SHARED_NO_WRITE}
      | MDL_SHARED_WRITE_LOW_PRIO \<Rightarrow> b \<in> {MDL_EXCLUSIVE, MDL_SHARED_NO_READ_WRITE, MDL_SHARED_NO_WRITE, MDL_SHARED_READ_ONLY}
      | MDL_SHARED_UPGRADABLE \<Rightarrow> b \<in> {MDL_EXCLUSIVE}
      | MDL_SHARED_READ_ONLY \<Rightarrow> b \<in> {MDL_EXCLUSIVE, MDL_SHARED_NO_READ_WRITE, MDL_SHARED_WRITE}
      | MDL_SHARED_NO_WRITE \<Rightarrow> b \<in> {MDL_EXCLUSIVE}
      | MDL_SHARED_NO_READ_WRITE \<Rightarrow> b \<in> {MDL_EXCLUSIVE}
      | _ \<Rightarrow> False)"
  by (cases a; cases b) (simp_all add: matrix_defs)

lemma yields_object_1:
  "yields_to m_object_lock_strategy (Suc 0) a b \<longleftrightarrow>
     (case a of
        MDL_SHARED \<Rightarrow> b \<in> {MDL_EXCLUSIVE}
      | MDL_SHARED_READ \<Rightarrow> b \<in> {MDL_EXCLUSIVE, MDL_SHARED_NO_READ_WRITE}
      | MDL_SHARED_WRITE \<Rightarrow> b \<in> {MDL_EXCLUSIVE, MDL_SHARED_NO_READ_WRITE, MDL_SHARED_NO_WRITE, MDL_SHARED_READ_ONLY}
      | MDL_SHARED_WRITE_LOW_PRIO \<Rightarrow> b \<in> {MDL_EXCLUSIVE, MDL_SHARED_NO_READ_WRITE, MDL_SHARED_NO_WRITE, MDL_SHARED_READ_ONLY}
      | MDL_SHARED_UPGRADABLE \<Rightarrow> b \<in> {MDL_EXCLUSIVE}
      | MDL_SHARED_READ_ONLY \<Rightarrow> b \<in> {MDL_EXCLUSIVE, MDL_SHARED_NO_READ_WRITE}
      | MDL_SHARED_NO_WRITE \<Rightarrow> b \<in> {MDL_EXCLUSIVE}
      | MDL_SHARED_NO_READ_WRITE \<Rightarrow> b \<in> {MDL_EXCLUSIVE}
      | _ \<Rightarrow> False)"
  by (cases a; cases b) (simp_all add: matrix_defs)

lemma yields_object_2:
  "yields_to m_object_lock_strategy 2 a b \<longleftrightarrow>
     (case a of
        MDL_SHARED_WRITE_LOW_PRIO \<Rightarrow> b \<in> {MDL_SHARED_READ_ONLY}
      | MDL_SHARED_READ_ONLY \<Rightarrow> b \<in> {MDL_SHARED_WRITE}
      | MDL_SHARED_NO_WRITE \<Rightarrow> b \<in> {MDL_EXCLUSIVE, MDL_SHARED_UPGRADABLE, MDL_SHARED_WRITE_LOW_PRIO, MDL_SHARED_WRITE}
      | MDL_SHARED_NO_READ_WRITE \<Rightarrow> b \<in> {MDL_EXCLUSIVE, MDL_SHARED_READ_ONLY, MDL_SHARED_UPGRADABLE, MDL_SHARED_WRITE_LOW_PRIO, MDL_SHARED_WRITE, MDL_SHARED_READ}
      | MDL_EXCLUSIVE \<Rightarrow> b \<notin> {MDL_SHARED_NO_WRITE, MDL_SHARED_NO_READ_WRITE, MDL_EXCLUSIVE}
      | _ \<Rightarrow> False)"
  by (cases a; cases b) (simp_all add: matrix_defs)

lemma yields_object_3:
  "yields_to m_object_lock_strategy 3 a b \<longleftrightarrow>
     (case a of
        MDL_SHARED_WRITE \<Rightarrow> b \<in> {MDL_EXCLUSIVE, MDL_SHARED_NO_READ_WRITE, MDL_SHARED_NO_WRITE, MDL_SHARED_READ_ONLY}
      | MDL_SHARED_WRITE_LOW_PRIO \<Rightarrow> b \<in> {MDL_EXCLUSIVE, MDL_SHARED_NO_READ_WRITE, MDL_SHARED_NO_WRITE, MDL_SHARED_READ_ONLY}
      | MDL_SHARED_NO_WRITE \<Rightarrow> b \<in> {MDL_EXCLUSIVE, MDL_SHARED_UPGRADABLE}
      | MDL_SHARED_NO_READ_WRITE \<Rightarrow> b \<in> {MDL_EXCLUSIVE, MDL_SHARED_READ_ONLY, MDL_SHARED_UPGRADABLE, MDL_SHARED_READ}
      | MDL_EXCLUSIVE \<Rightarrow> b \<notin> {MDL_SHARED_NO_WRITE, MDL_SHARED_NO_READ_WRITE, MDL_EXCLUSIVE, MDL_SHARED_WRITE, MDL_SHARED_WRITE_LOW_PRIO}
      | _ \<Rightarrow> False)"
  by (cases a; cases b) (simp_all add: matrix_defs)

lemma yields_scoped:
  "idx < 4 \<Longrightarrow> yields_to m_scoped_lock_strategy idx a b \<longleftrightarrow>
     idx = 0 \<and> (a = MDL_INTENTION_EXCLUSIVE \<and> b \<in> {MDL_EXCLUSIVE, MDL_SHARED} \<or> a = MDL_SHARED \<and> b = MDL_EXCLUSIVE)"
  by (cases a) (auto simp: matrix_defs less_Suc_eq numeral_eq_Suc)

lemmas yields_rows = yields_object_0 yields_object_1 yields_object_2 yields_object_3

lemma obtrusive_scoped: "obtrusive m_scoped_lock_strategy a \<longleftrightarrow> a \<noteq> MDL_INTENTION_EXCLUSIVE"
  by (cases a) (simp_all add: matrix_defs)

lemma obtrusive_object:
  "obtrusive m_object_lock_strategy a \<longleftrightarrow>
     a \<notin> {MDL_SHARED, MDL_SHARED_HIGH_PRIO, MDL_SHARED_READ, MDL_SHARED_WRITE, MDL_SHARED_WRITE_LOW_PRIO}"
  by (cases a) (simp_all add: matrix_defs)

lemma legal_scoped: "is_legal m_scoped_lock_strategy a \<longleftrightarrow> a \<in> {MDL_INTENTION_EXCLUSIVE, MDL_SHARED, MDL_EXCLUSIVE}"
  by (cases a) (simp_all add: matrix_defs)

lemma legal_object: "is_legal m_object_lock_strategy a \<longleftrightarrow> a \<noteq> MDL_INTENTION_EXCLUSIVE"
  by (cases a) (simp_all add: matrix_defs)

lemmas matrix_rows = incompat_scoped incompat_object obtrusive_scoped obtrusive_object legal_scoped legal_object

lemma get_strategy_disj: "get_strategy ns = m_scoped_lock_strategy \<or> get_strategy ns = m_object_lock_strategy"
  by (simp add: get_strategy_def)

lemma strategy_cases [case_names scoped object]:
  assumes "P m_scoped_lock_strategy" "P m_object_lock_strategy"
  shows "P (get_strategy ns)"
  using get_strategy_disj [of ns] assms by auto

lemma incompat_sym: "incompat (get_strategy ns) a b \<longleftrightarrow> incompat (get_strategy ns) b a"
  by (rule strategy_cases [of "\<lambda>st. incompat st a b \<longleftrightarrow> incompat st b a"]) (cases a; cases b; simp add: matrix_rows)+

text \<open>[INV2] of the source: what a request yields to when it waits, it is incompatible with when granted.\<close>

lemma yields_to_incompat:
  assumes "yields_to (get_strategy ns) idx a b" "idx < 4" "is_legal (get_strategy ns) b"
  shows "incompat (get_strategy ns) a b"
proof -
  have idx: "idx = 0 \<or> idx = Suc 0 \<or> idx = 2 \<or> idx = 3"
    using \<open>idx < 4\<close> by auto
  show ?thesis
  proof (cases "get_strategy ns = m_scoped_lock_strategy")
    case True
    then show ?thesis using assms by (auto simp: yields_scoped matrix_rows)
  next
    case False
    then have "get_strategy ns = m_object_lock_strategy" using get_strategy_disj by blast
    then show ?thesis using assms idx by (elim disjE; cases a) (auto simp: yields_rows matrix_rows)
  qed
qed

lemma unobtrusive_compat:
  "\<not> obtrusive (get_strategy ns) a \<Longrightarrow> \<not> obtrusive (get_strategy ns) b \<Longrightarrow> \<not> incompat (get_strategy ns) a b"
  using get_strategy_disj [of ns] by (elim disjE) (auto simp: matrix_rows)

lemma stronger_or_equal_iff:
  "stronger_or_equal (get_strategy ns) a b \<longleftrightarrow> (\<forall>c. incompat (get_strategy ns) b c \<longrightarrow> incompat (get_strategy ns) a c)"
proof -
  have "type_bits (granted_incompat (get_strategy ns) b)"
    by (rule strategy_cases [of "\<lambda>st. type_bits (granted_incompat st b)"]) (cases b; simp add: matrix_defs)+
  then show ?thesis
    by (simp add: stronger_or_equal_def bitmap_and_eq_0 incompat_def)
qed

lemma stronger_or_equal_refl: "stronger_or_equal (get_strategy ns) a a"
  by (simp add: stronger_or_equal_iff)

lemma stronger_or_equal_trans:
  "stronger_or_equal (get_strategy ns) a b \<Longrightarrow> stronger_or_equal (get_strategy ns) b c \<Longrightarrow> stronger_or_equal (get_strategy ns) a c"
  by (auto simp: stronger_or_equal_iff)

text \<open>Below an unobtrusive type there are only unobtrusive types.\<close>

lemma stronger_unobtrusive:
  assumes "stronger_or_equal (get_strategy ns) a b" "\<not> obtrusive (get_strategy ns) a" "is_legal (get_strategy ns) b"
  shows "\<not> obtrusive (get_strategy ns) b"
proof -
  have "incompat (get_strategy ns) b c \<Longrightarrow> incompat (get_strategy ns) a c" for c
    using assms(1) by (simp add: stronger_or_equal_iff)
  from this [of MDL_SHARED_WRITE] this [of MDL_SHARED_UPGRADABLE] this [of MDL_INTENTION_EXCLUSIVE] assms(2,3) show ?thesis
    using get_strategy_disj [of ns] by (elim disjE; cases b) (auto simp: matrix_rows)
qed

section \<open>The fast-path state\<close>

text \<open>
  The word with the counts \<open>s\<close>, \<open>r\<close> and \<open>w\<close> in its three fields and the two flags.
\<close>

definition fps_nat :: "bool \<Rightarrow> bool \<Rightarrow> nat \<Rightarrow> nat \<Rightarrow> nat \<Rightarrow> nat" where
  "fps_nat slow obtr s r w = s + 2 ^ 20 * (r + 2 ^ 20 * (w + 2 ^ 20 * (of_bool slow + 2 * of_bool obtr)))"

definition fps_word :: "bool \<Rightarrow> bool \<Rightarrow> nat \<Rightarrow> nat \<Rightarrow> nat \<Rightarrow> fast_path_state_t" where
  "fps_word slow obtr s r w = word_of_nat (fps_nat slow obtr s r w)"

lemma fps_nat_less:
  assumes "s < 2 ^ 20" "r < 2 ^ 20" "w < 2 ^ 20"
  shows "fps_nat slow obtr s r w < 2 ^ 62"
  using assms by (cases slow; cases obtr) (simp_all add: fps_nat_def)

lemma unat_fps_word:
  assumes "s < 2 ^ 20" "r < 2 ^ 20" "w < 2 ^ 20"
  shows "unat (fps_word slow obtr s r w) = fps_nat slow obtr s r w"
  using fps_nat_less [OF assms, of slow obtr] by (simp add: fps_word_def unat_of_nat)

lemma word_field:
  fixes x :: "64 word"
  assumes "k + m \<le> 64"
  shows "x AND push_bit k (mask m) = 0 \<longleftrightarrow> unat x div 2 ^ k mod 2 ^ m = 0"
proof -
  have "x AND push_bit k (mask m) = push_bit k (take_bit m (drop_bit k x))"
    by (rule bit_word_eqI) (auto simp: bit_simps)
  moreover have "push_bit k (take_bit m (drop_bit k x)) = 0 \<longleftrightarrow> take_bit m (drop_bit k x) = 0"
  proof
    assume "push_bit k (take_bit m (drop_bit k x)) = 0"
    then have "\<not> bit (push_bit k (take_bit m (drop_bit k x))) (k + n)" for n
      by simp
    then have "\<not> bit (take_bit m (drop_bit k x)) n" for n
      using assms by (cases "k + n < 64") (auto simp: bit_simps dest: bit_imp_le_length)
    then show "take_bit m (drop_bit k x) = 0"
      by (intro bit_word_eqI) simp
  qed simp
  moreover have "take_bit m (drop_bit k x) = 0 \<longleftrightarrow> unat (take_bit m (drop_bit k x)) = 0"
    by (simp add: unat_eq_0)
  ultimately show ?thesis
    by (simp add: unat_drop_bit_eq unsigned_take_bit_eq take_bit_nat_def drop_bit_nat_def)
qed

lemma digit_div_mod:
  fixes x y B :: nat
  assumes "x < B"
  shows "(x + B * y) div B = y" "(x + B * y) mod B = x"
  using assms by simp_all

lemma fps_div:
  assumes "s < 2 ^ 20" "r < 2 ^ 20" "w < 2 ^ 20"
  shows "fps_nat a b s r w mod 2 ^ 20 = s"
    "fps_nat a b s r w div 2 ^ 20 mod 2 ^ 20 = r"
    "fps_nat a b s r w div 2 ^ 40 mod 2 ^ 20 = w"
    "fps_nat a b s r w div 2 ^ 60 = of_bool a + 2 * of_bool b"
proof -
  have e: "n div 2 ^ 40 = n div 2 ^ 20 div 2 ^ 20" "n div 2 ^ 60 = n div 2 ^ 20 div 2 ^ 20 div 2 ^ 20" for n :: nat
    by (simp_all flip: div_mult2_eq)
  note d = digit_div_mod [OF assms(1)] digit_div_mod [OF assms(2)] digit_div_mod [OF assms(3)]
  show "fps_nat a b s r w mod 2 ^ 20 = s"
    "fps_nat a b s r w div 2 ^ 20 mod 2 ^ 20 = r"
    "fps_nat a b s r w div 2 ^ 40 mod 2 ^ 20 = w"
    "fps_nat a b s r w div 2 ^ 60 = of_bool a + 2 * of_bool b"
    by (simp_all only: fps_nat_def e d)
qed

lemma fps_word_fields:
  assumes "s < 2 ^ 20" "r < 2 ^ 20" "w < 2 ^ 20"
  shows "fps_word a b s r w AND 0xFFFFF = 0 \<longleftrightarrow> s = 0"
    "fps_word a b s r w AND push_bit 20 0xFFFFF = 0 \<longleftrightarrow> r = 0"
    "fps_word a b s r w AND push_bit 40 0xFFFFF = 0 \<longleftrightarrow> w = 0"
    "bit (fps_word a b s r w) 60 \<longleftrightarrow> a" "bit (fps_word a b s r w) 61 \<longleftrightarrow> b" "\<not> bit (fps_word a b s r w) 62"
proof -
  have m: "0xFFFFF = (mask 20 :: 64 word)"
    by (simp add: mask_eq_exp_minus_1)
  note u = unat_fps_word [OF assms, of a b]
  show "fps_word a b s r w AND 0xFFFFF = 0 \<longleftrightarrow> s = 0"
    using word_field [of 0 20 "fps_word a b s r w"] fps_div(1) [OF assms, of a b] by (simp add: m u)
  show "fps_word a b s r w AND push_bit 20 0xFFFFF = 0 \<longleftrightarrow> r = 0"
    unfolding m using word_field [of 20 20 "fps_word a b s r w"] fps_div(2) [OF assms, of a b] by (simp add: u)
  show "fps_word a b s r w AND push_bit 40 0xFFFFF = 0 \<longleftrightarrow> w = 0"
    unfolding m using word_field [of 40 20 "fps_word a b s r w"] fps_div(3) [OF assms, of a b] by (simp add: u)
  have bits: "bit (fps_word a b s r w) (60 + k) \<longleftrightarrow> bit (of_bool a + 2 * of_bool b :: nat) k" for k
  proof -
    have "bit (fps_word a b s r w) (60 + k) \<longleftrightarrow> bit (unat (fps_word a b s r w)) (60 + k)"
      by (simp add: bit_unsigned_iff)
    also have "\<dots> \<longleftrightarrow> bit (drop_bit 60 (unat (fps_word a b s r w))) k"
      by (simp only: bit_drop_bit_eq o_def add.commute)
    finally show ?thesis
      using fps_div(4) [OF assms, of a b] by (simp only: u drop_bit_nat_def)
  qed
  show "bit (fps_word a b s r w) 60 \<longleftrightarrow> a" "bit (fps_word a b s r w) 61 \<longleftrightarrow> b" "\<not> bit (fps_word a b s r w) 62"
    using bits [of 0] bits [of 1] bits [of 2] by (auto simp: bit_nat_iff bit_iff_odd)
qed

lemma fps_word_flag_add:
  "fps_word True b s r w = fps_word False b s r w + HAS_SLOW_PATH"
  "fps_word a True s r w = fps_word a False s r w + HAS_OBTRUSIVE"
  by (simp_all add: fps_word_def fps_nat_def HAS_SLOW_PATH_def HAS_OBTRUSIVE_def push_bit_eq_mult algebra_simps)

lemma set_clear_bit:
  fixes x :: "64 word"
  assumes "\<not> bit x n" "n < 64"
  shows "x OR push_bit n 1 = x + push_bit n 1" "(x + push_bit n 1) AND NOT (push_bit n 1) = x"
    "x AND NOT (push_bit n 1) = x" "(x + push_bit n 1) OR push_bit n 1 = x + push_bit n 1"
proof -
  have *: "x + push_bit n 1 = x OR push_bit n 1"
    using assms by (intro disjunctive_add_eq_or bit_word_eqI) (auto simp: bit_simps)
  show "x OR push_bit n 1 = x + push_bit n 1" by (rule * [symmetric])
  show "(x + push_bit n 1) AND NOT (push_bit n 1) = x" "x AND NOT (push_bit n 1) = x"
    "(x + push_bit n 1) OR push_bit n 1 = x + push_bit n 1"
    unfolding * using assms by (intro bit_word_eqI; auto simp: bit_simps)+
qed

lemma fps_word_flags:
  assumes "s < 2 ^ 20" "r < 2 ^ 20" "w < 2 ^ 20"
  shows "fps_word a b s r w OR HAS_SLOW_PATH = fps_word True b s r w"
    "fps_word a b s r w AND NOT HAS_SLOW_PATH = fps_word False b s r w"
    "fps_word a b s r w OR HAS_OBTRUSIVE = fps_word a True s r w"
    "fps_word a b s r w AND NOT HAS_OBTRUSIVE = fps_word a False s r w"
proof -
  note f = set_clear_bit [of "fps_word False b s r w" 60, folded HAS_SLOW_PATH_def]
    set_clear_bit [of "fps_word a False s r w" 61, folded HAS_OBTRUSIVE_def]
  show "fps_word a b s r w OR HAS_SLOW_PATH = fps_word True b s r w"
    "fps_word a b s r w AND NOT HAS_SLOW_PATH = fps_word False b s r w"
    by (cases a; simp add: fps_word_flag_add(1) f fps_word_fields [OF assms])+
  show "fps_word a b s r w OR HAS_OBTRUSIVE = fps_word a True s r w"
    "fps_word a b s r w AND NOT HAS_OBTRUSIVE = fps_word a False s r w"
    by (cases b; simp add: fps_word_flag_add(2) f fps_word_fields [OF assms])+
qed

lemma fps_word_eq_0:
  assumes "s < 2 ^ 20" "r < 2 ^ 20" "w < 2 ^ 20"
  shows "fps_word a b s r w = 0 \<longleftrightarrow> \<not> a \<and> \<not> b \<and> s = 0 \<and> r = 0 \<and> w = 0"
  using unat_fps_word [OF assms, of a b] unat_eq_0 [of "fps_word a b s r w"] by (auto simp: fps_nat_def)

text \<open>
  The state of a lock with the fast-path tickets \<open>F\<close>: each ticket counts with the increment of its
  type, and there are fewer than \<open>2 ^ 20\<close> of them.
\<close>

definition fps_of :: "MDL_lock_strategy \<Rightarrow> bool \<Rightarrow> bool \<Rightarrow> enum_mdl_type multiset \<Rightarrow> fast_path_state_t" where
  "fps_of st slow obtr F =
     (if slow then HAS_SLOW_PATH else 0) + (if obtr then HAS_OBTRUSIVE else 0)
     + sum_mset (image_mset (strategy_increment st) F)"

definition fast_ok :: "MDL_lock_strategy \<Rightarrow> enum_mdl_type multiset \<Rightarrow> bool" where
  "fast_ok st F \<longleftrightarrow> size F < 2 ^ 20 \<and> (\<forall>t \<in># F. \<not> obtrusive st t)"

definition s_field :: "MDL_lock_strategy \<Rightarrow> enum_mdl_type multiset \<Rightarrow> nat" where
  "s_field st F = size (filter_mset (\<lambda>t. strategy_increment st t = 1) F)"

definition r_field :: "MDL_lock_strategy \<Rightarrow> enum_mdl_type multiset \<Rightarrow> nat" where
  "r_field st F = size (filter_mset (\<lambda>t. strategy_increment st t = push_bit 20 1) F)"

definition w_field :: "MDL_lock_strategy \<Rightarrow> enum_mdl_type multiset \<Rightarrow> nat" where
  "w_field st F = size (filter_mset (\<lambda>t. strategy_increment st t = push_bit 40 1) F)"

lemmas field_defs = s_field_def r_field_def w_field_def

lemma increment_cases:
  "strategy_increment (get_strategy ns) t = 0 \<or> strategy_increment (get_strategy ns) t = 1
   \<or> strategy_increment (get_strategy ns) t = push_bit 20 1 \<or> strategy_increment (get_strategy ns) t = push_bit 40 1"
  by (rule strategy_cases [of "\<lambda>st. strategy_increment st t = 0 \<or> strategy_increment st t = 1
   \<or> strategy_increment st t = push_bit 20 1 \<or> strategy_increment st t = push_bit 40 1"]) (cases t; simp add: matrix_defs)+

lemma fps_of_word:
  "fps_of (get_strategy ns) a b F =
     fps_word a b (s_field (get_strategy ns) F) (r_field (get_strategy ns) F) (w_field (get_strategy ns) F)"
proof (induction F)
  case empty
  show ?case
    by (cases a; cases b) (simp_all add: fps_of_def field_defs fps_word_def fps_nat_def HAS_SLOW_PATH_def HAS_OBTRUSIVE_def)
next
  case (add t F)
  have inc: "fps_word a b (Suc s) r w = fps_word a b s r w + 1"
    "fps_word a b s (Suc r) w = fps_word a b s r w + push_bit 20 1"
    "fps_word a b s r (Suc w) = fps_word a b s r w + push_bit 40 1" for s r w
    by (simp_all add: fps_word_def fps_nat_def push_bit_eq_mult algebra_simps)
  have "fps_of (get_strategy ns) a b (add_mset t F) = fps_of (get_strategy ns) a b F + strategy_increment (get_strategy ns) t"
    by (simp add: fps_of_def)
  then show ?case
    using increment_cases [of ns t] add by (elim disjE) (simp_all add: field_defs inc)
qed

lemma field_less:
  assumes "fast_ok st F"
  shows "s_field st F < 2 ^ 20" "r_field st F < 2 ^ 20" "w_field st F < 2 ^ 20"
  using assms by (auto simp: fast_ok_def field_defs intro: le_less_trans [OF size_mset_mono [OF multiset_filter_subset]])

lemma fast_ok_simps [simp]:
  "fast_ok st {#}"
  "fast_ok st (add_mset t F) \<longleftrightarrow> fast_ok st F \<and> size F + 1 < 2 ^ 20 \<and> \<not> obtrusive st t"
  by (auto simp: fast_ok_def)

lemma fps_of_flags:
  assumes "fast_ok (get_strategy ns) F"
  shows "fps_of (get_strategy ns) a b F OR HAS_SLOW_PATH = fps_of (get_strategy ns) True b F"
    "fps_of (get_strategy ns) a b F AND NOT HAS_SLOW_PATH = fps_of (get_strategy ns) False b F"
    "fps_of (get_strategy ns) a b F OR HAS_OBTRUSIVE = fps_of (get_strategy ns) a True F"
    "fps_of (get_strategy ns) a b F AND NOT HAS_OBTRUSIVE = fps_of (get_strategy ns) a False F"
  by (simp_all only: fps_of_word fps_word_flags field_less [OF assms])

lemma fps_of_tests:
  assumes "fast_ok (get_strategy ns) F"
  shows "fps_of (get_strategy ns) a b F AND HAS_SLOW_PATH = 0 \<longleftrightarrow> \<not> a"
    "fps_of (get_strategy ns) a b F AND HAS_OBTRUSIVE = 0 \<longleftrightarrow> \<not> b"
    "fps_of (get_strategy ns) a b F AND IS_DESTROYED = 0"
proof -
  have *: "x AND push_bit n 1 = 0 \<longleftrightarrow> \<not> bit x n" if "n < 64" for x :: "64 word" and n
    using that by (simp add: push_bit_eq_mult and_exp_eq_0_iff_not_bit)
  have l: "60 < (64 :: nat)" "61 < (64 :: nat)" "62 < (64 :: nat)"
    by simp_all
  show "fps_of (get_strategy ns) a b F AND HAS_SLOW_PATH = 0 \<longleftrightarrow> \<not> a"
    "fps_of (get_strategy ns) a b F AND HAS_OBTRUSIVE = 0 \<longleftrightarrow> \<not> b"
    "fps_of (get_strategy ns) a b F AND IS_DESTROYED = 0"
    unfolding HAS_SLOW_PATH_def HAS_OBTRUSIVE_def IS_DESTROYED_def l [THEN *] fps_of_word
    by (simp_all only: fps_word_fields field_less [OF assms] not_False_eq_True)
qed

lemma fps_of_add:
  "fps_of st a b F + strategy_increment st t = fps_of st a b (add_mset t F)"
  "t \<in># F \<Longrightarrow> fps_of st a b F - strategy_increment st t = fps_of st a b (F - {#t#})"
  by (auto simp: fps_of_def dest!: multi_member_split)

lemma fps_word_all_fields:
  assumes "s < 2 ^ 20" "r < 2 ^ 20" "w < 2 ^ 20"
  shows "fps_word a b s r w AND 0xFFFFFFFFFFFFFFF = 0 \<longleftrightarrow> s = 0 \<and> r = 0 \<and> w = 0"
proof -
  have m: "0xFFFFFFFFFFFFFFF = push_bit 0 (mask 60 :: 64 word)"
    by (simp add: mask_eq_exp_minus_1)
  define q where "q = (of_bool a + 2 * of_bool b :: nat)"
  define l where "l = s + 2 ^ 20 * (r + 2 ^ 20 * w)"
  have "l < 2 ^ 60"
    using assms by (simp add: l_def)
  moreover have "fps_nat a b s r w = l + 2 ^ 60 * q"
    by (simp add: fps_nat_def l_def q_def)
  ultimately have "fps_nat a b s r w mod 2 ^ 60 = l"
    by simp
  moreover have "fps_word a b s r w AND 0xFFFFFFFFFFFFFFF = 0 \<longleftrightarrow> fps_nat a b s r w mod 2 ^ 60 = 0"
    unfolding m using word_field [of 0 60 "fps_word a b s r w"] by (simp add: unat_fps_word [OF assms])
  ultimately show ?thesis
    by (simp add: l_def)
qed

text \<open>
  The types the counters stand for conflict with a request exactly when one of the counted tickets does.
\<close>

lemma size_filter_0: "size (filter_mset P F) = 0 \<longleftrightarrow> (\<forall>t \<in># F. \<not> P t)"
  by (auto simp flip: set_mset_eq_empty_iff)

lemma increment_object:
  "strategy_increment m_object_lock_strategy t = 1 \<longleftrightarrow> t = MDL_SHARED \<or> t = MDL_SHARED_HIGH_PRIO"
  "strategy_increment m_object_lock_strategy t = push_bit 20 1 \<longleftrightarrow> t = MDL_SHARED_READ"
  "strategy_increment m_object_lock_strategy t = push_bit 40 1 \<longleftrightarrow> t = MDL_SHARED_WRITE \<or> t = MDL_SHARED_WRITE_LOW_PRIO"
  by (cases t; simp add: matrix_defs)+

lemma increment_scoped:
  "strategy_increment m_scoped_lock_strategy t = 1 \<longleftrightarrow> t = MDL_INTENTION_EXCLUSIVE"
  "strategy_increment m_scoped_lock_strategy t \<noteq> push_bit 20 1"
  "strategy_increment m_scoped_lock_strategy t \<noteq> push_bit 40 1"
  by (cases t; simp add: matrix_defs)+

lemma bitmap_or_and_0: "(a OR b) AND (c :: bitmap_t) = 0 \<longleftrightarrow> a AND c = 0 \<and> b AND c = 0"
  by (auto simp: bit_eq_iff bit_simps)

lemma cond_bit_and: "(if c then MDL_BIT t else 0) AND m = 0 \<longleftrightarrow> \<not> c \<or> \<not> in_bitmap t m"
  by (simp add: MDL_BIT_and)

lemma fast_types_cover:
  fixes I :: "enum_mdl_type \<Rightarrow> bool"
  assumes c: "\<And>t. t \<in># F \<Longrightarrow> t = MDL_SHARED \<or> t = MDL_SHARED_HIGH_PRIO \<or> t = MDL_SHARED_READ \<or> t = MDL_SHARED_WRITE \<or> t = MDL_SHARED_WRITE_LOW_PRIO"
   and sym: "I MDL_SHARED_HIGH_PRIO = I MDL_SHARED" "I MDL_SHARED_WRITE_LOW_PRIO = I MDL_SHARED_WRITE"
  shows "((\<forall>t \<in># F. t \<noteq> MDL_SHARED \<and> t \<noteq> MDL_SHARED_HIGH_PRIO) \<or> \<not> I MDL_SHARED)
      \<and> ((\<forall>t \<in># F. t \<noteq> MDL_SHARED_READ) \<or> \<not> I MDL_SHARED_READ)
      \<and> ((\<forall>t \<in># F. t \<noteq> MDL_SHARED_WRITE \<and> t \<noteq> MDL_SHARED_WRITE_LOW_PRIO)
           \<or> \<not> I MDL_SHARED_WRITE) \<longleftrightarrow> (\<forall>t \<in># F. \<not> I t)" (is "?L \<longleftrightarrow> ?R")
proof
  assume L: ?L
  show ?R
  proof
    fix t assume "t \<in># F"
    from c [OF this] this L sym show "\<not> I t" by (elim disjE) auto
  qed
next
  assume ?R
  then show ?L using sym by auto
qed

lemma fast_granted_conflict:
  assumes "fast_ok (get_strategy ns) F"
  shows "m_fast_path_granted_bitmap (get_strategy ns) (fps_of (get_strategy ns) a b F)
           AND granted_incompat (get_strategy ns) ty = 0
         \<longleftrightarrow> (\<forall>t \<in># F. \<not> incompat (get_strategy ns) ty t)"
proof -
  have u: "\<not> obtrusive (get_strategy ns) t" if "t \<in># F" for t
    using assms that by (simp add: fast_ok_def)
  note l = field_less [OF assms]
  show ?thesis
  proof (cases "get_strategy ns = m_scoped_lock_strategy")
    case True
    have "r_field m_scoped_lock_strategy F = 0" "w_field m_scoped_lock_strategy F = 0"
      unfolding field_defs size_filter_0 by (intro ballI increment_scoped)+
    then have "fps_of (get_strategy ns) a b F AND 0xFFFFFFFFFFFFFFF = 0 \<longleftrightarrow> (\<forall>t \<in># F. t \<noteq> MDL_INTENTION_EXCLUSIVE)"
      unfolding fps_of_word fps_word_all_fields [OF l]
      unfolding True by (simp only: s_field_def size_filter_0 increment_scoped(1) simp_thms)
    moreover have "m_fast_path_granted_bitmap (get_strategy ns) = scoped_lock_fast_path_granted_bitmap"
      unfolding True by (simp add: m_scoped_lock_strategy_def)
    ultimately show ?thesis
      using u unfolding scoped_lock_fast_path_granted_bitmap_def
      by (auto simp: MDL_BIT_and incompat_def True obtrusive_scoped)
  next
    case False
    then have st: "get_strategy ns = m_object_lock_strategy" using get_strategy_disj by blast
    have sym: "incompat m_object_lock_strategy ty MDL_SHARED_HIGH_PRIO = incompat m_object_lock_strategy ty MDL_SHARED"
      "incompat m_object_lock_strategy ty MDL_SHARED_WRITE_LOW_PRIO = incompat m_object_lock_strategy ty MDL_SHARED_WRITE"
      by (cases ty; simp add: incompat_object)+
    have f: "fps_of (get_strategy ns) a b F AND 0xFFFFF = 0 \<longleftrightarrow> (\<forall>t \<in># F. t \<noteq> MDL_SHARED \<and> t \<noteq> MDL_SHARED_HIGH_PRIO)"
      "fps_of (get_strategy ns) a b F AND push_bit 20 0xFFFFF = 0 \<longleftrightarrow> (\<forall>t \<in># F. t \<noteq> MDL_SHARED_READ)"
      "fps_of (get_strategy ns) a b F AND push_bit 40 0xFFFFF = 0 \<longleftrightarrow>
         (\<forall>t \<in># F. t \<noteq> MDL_SHARED_WRITE \<and> t \<noteq> MDL_SHARED_WRITE_LOW_PRIO)"
      unfolding fps_of_word fps_word_fields [OF l]
      unfolding st field_defs size_filter_0 increment_object by (simp_all only: de_Morgan_disj)
    have p: "m_fast_path_granted_bitmap (get_strategy ns) = object_lock_fast_path_granted_bitmap"
      unfolding st by (simp add: m_object_lock_strategy_def)
    have "m_fast_path_granted_bitmap (get_strategy ns) (fps_of (get_strategy ns) a b F)
        AND granted_incompat (get_strategy ns) ty = 0 \<longleftrightarrow>
      ((\<forall>t \<in># F. t \<noteq> MDL_SHARED \<and> t \<noteq> MDL_SHARED_HIGH_PRIO) \<or> \<not> incompat m_object_lock_strategy ty MDL_SHARED)
      \<and> ((\<forall>t \<in># F. t \<noteq> MDL_SHARED_READ) \<or> \<not> incompat m_object_lock_strategy ty MDL_SHARED_READ)
      \<and> ((\<forall>t \<in># F. t \<noteq> MDL_SHARED_WRITE \<and> t \<noteq> MDL_SHARED_WRITE_LOW_PRIO)
           \<or> \<not> incompat m_object_lock_strategy ty MDL_SHARED_WRITE)"
      unfolding p object_lock_fast_path_granted_bitmap_def bitmap_or_and_0 cond_bit_and f not_not
      unfolding st incompat_def by (rule refl)
    also have "\<dots> \<longleftrightarrow> (\<forall>t \<in># F. \<not> incompat (get_strategy ns) ty t)"
    proof -
      have "t = MDL_SHARED \<or> t = MDL_SHARED_HIGH_PRIO \<or> t = MDL_SHARED_READ \<or> t = MDL_SHARED_WRITE \<or> t = MDL_SHARED_WRITE_LOW_PRIO"
        if "t \<in># F" for t
        using u [OF that] by (simp add: st obtrusive_object)
      then show ?thesis
        unfolding st using sym by (rule fast_types_cover)
    qed
    finally show ?thesis .
  qed
qed

end
