(* ===== verification/Mdl_Lock.thy ===== *)
theory Mdl_Lock
  imports Mdl_Types
begin

text \<open>
  One metadata lock: class \<open>MDL_lock\<close> of \<open>sql/mdl.cc\<close> with its lists of granted and waiting
  tickets, and the wait slots (\<open>MDL_wait\<close>) of the contexts. A ticket is a number; \<open>tk\<close> gives its
  contents. What the code does while it holds \<open>m_rwlock\<close> in write mode, or in one successful
  compare-and-swap, is one function. \<open>lim\<close> is the server variable \<open>max_write_lock_count\<close>.
\<close>

unbundle bit_operations_syntax

section \<open>Data\<close>

text \<open>
  A key is the namespace with the two names. A ticket points to its lock by the lock's key: there is
  at most one lock object with a key.
\<close>

record MDL_key =
  mdl_namespace :: enum_mdl_namespace
  db_name :: string
  object_name :: string

record MDL_ticket =
  m_type :: enum_mdl_type
  m_ctx :: nat
  m_lock :: MDL_key
  m_is_fast_path :: bool
  m_hton_notified :: bool

record Ticket_list =
  m_list :: "nat list"
  m_bitmap :: bitmap_t

record MDL_lock =
  key :: MDL_key
  m_granted :: Ticket_list
  m_waiting :: Ticket_list
  m_hog_lock_count :: "64 word"
  m_piglet_lock_count :: "64 word"
  m_current_waiting_incompatible_idx :: nat
  m_obtrusive_locks_granted_waiting_count :: nat
  m_fast_path_state :: fast_path_state_t

type_synonym ticket_heap = "nat \<Rightarrow> MDL_ticket"

definition key_strategy :: "MDL_key \<Rightarrow> MDL_lock_strategy" where
  "key_strategy k = get_strategy (mdl_namespace k)"

abbreviation m_strategy :: "MDL_lock \<Rightarrow> MDL_lock_strategy" where
  "m_strategy lock \<equiv> key_strategy (key lock)"

definition empty_list :: Ticket_list where
  "empty_list = \<lparr>m_list = [], m_bitmap = 0\<rparr>"

definition reinit :: "MDL_key \<Rightarrow> MDL_lock" where
  "reinit mdl_key =
     \<lparr>key = mdl_key, m_granted = empty_list, m_waiting = empty_list, m_hog_lock_count = 0, m_piglet_lock_count = 0,
      m_current_waiting_incompatible_idx = 0, m_obtrusive_locks_granted_waiting_count = 0, m_fast_path_state = 0\<rparr>"

section \<open>Wait slots\<close>

datatype enum_wait_status = WS_EMPTY | GRANTED | VICTIM | TIMEOUT | KILLED

type_synonym wait_slots = "nat \<Rightarrow> enum_wait_status"

text \<open>The slots after the call, and whether the slot was occupied.\<close>

definition set_status :: "nat \<Rightarrow> enum_wait_status \<Rightarrow> wait_slots \<Rightarrow> wait_slots \<times> bool" where
  "set_status ctx status_arg slots =
     (if slots ctx = WS_EMPTY then (slots(ctx := status_arg), False) else (slots, True))"

definition reset_status :: "nat \<Rightarrow> wait_slots \<Rightarrow> wait_slots" where
  "reset_status ctx slots = slots(ctx := WS_EMPTY)"

text \<open>The end of a wait: \<open>killed\<close> says whether the owner was killed.\<close>

definition timed_wait :: "nat \<Rightarrow> bool \<Rightarrow> bool \<Rightarrow> wait_slots \<Rightarrow> wait_slots \<times> enum_wait_status" where
  "timed_wait ctx killed set_status_on_timeout slots =
     (let slots = (if slots ctx = WS_EMPTY then
                     if killed then slots(ctx := KILLED)
                     else if set_status_on_timeout then slots(ctx := TIMEOUT) else slots
                   else slots)
      in (slots, slots ctx))"

section \<open>Lists of tickets\<close>

definition clear_bit_if_not_in_list :: "ticket_heap \<Rightarrow> enum_mdl_type \<Rightarrow> Ticket_list \<Rightarrow> Ticket_list" where
  "clear_bit_if_not_in_list tk type l =
     (if list_ex (\<lambda>t. m_type (tk t) = type) (m_list l) then l
      else l\<lparr>m_bitmap := m_bitmap l AND NOT (MDL_BIT type)\<rparr>)"

definition add_ticket :: "ticket_heap \<Rightarrow> nat \<Rightarrow> Ticket_list \<Rightarrow> Ticket_list" where
  "add_ticket tk t l = l\<lparr>m_list := m_list l @ [t], m_bitmap := m_bitmap l OR MDL_BIT (m_type (tk t))\<rparr>"

definition list_remove_ticket :: "ticket_heap \<Rightarrow> nat \<Rightarrow> Ticket_list \<Rightarrow> Ticket_list" where
  "list_remove_ticket tk t l = clear_bit_if_not_in_list tk (m_type (tk t)) (l\<lparr>m_list := remove1 t (m_list l)\<rparr>)"

section \<open>Granting\<close>

definition incompatible_granted_types_bitmap :: "MDL_lock \<Rightarrow> enum_mdl_type \<Rightarrow> bitmap_t" where
  "incompatible_granted_types_bitmap lock = granted_incompat (m_strategy lock)"

definition incompatible_waiting_types_bitmap :: "MDL_lock \<Rightarrow> enum_mdl_type \<Rightarrow> bitmap_t" where
  "incompatible_waiting_types_bitmap lock = waiting_incompat (m_strategy lock) (m_current_waiting_incompatible_idx lock)"

definition get_unobtrusive_lock_increment :: "MDL_lock \<Rightarrow> enum_mdl_type \<Rightarrow> fast_path_state_t" where
  "get_unobtrusive_lock_increment lock type = strategy_increment (m_strategy lock) type"

definition is_obtrusive_lock :: "MDL_lock \<Rightarrow> enum_mdl_type \<Rightarrow> bool" where
  "is_obtrusive_lock lock type \<longleftrightarrow> get_unobtrusive_lock_increment lock type = 0"

definition fast_path_granted_bitmap :: "MDL_lock \<Rightarrow> bitmap_t" where
  "fast_path_granted_bitmap lock = m_fast_path_granted_bitmap (m_strategy lock) (m_fast_path_state lock)"

definition has_stronger_or_equal_type :: "MDL_ticket \<Rightarrow> enum_mdl_type \<Rightarrow> bool" where
  "has_stronger_or_equal_type t type \<longleftrightarrow> stronger_or_equal (key_strategy (m_lock t)) (m_type t) type"

definition is_incompatible_when_granted :: "MDL_ticket \<Rightarrow> enum_mdl_type \<Rightarrow> bool" where
  "is_incompatible_when_granted t type \<longleftrightarrow> MDL_BIT (m_type t) AND granted_incompat (key_strategy (m_lock t)) type \<noteq> 0"

definition is_incompatible_when_waiting :: "MDL_lock \<Rightarrow> MDL_ticket \<Rightarrow> enum_mdl_type \<Rightarrow> bool" where
  "is_incompatible_when_waiting lock t type \<longleftrightarrow> MDL_BIT (m_type t) AND incompatible_waiting_types_bitmap lock type \<noteq> 0"

definition can_grant_lock :: "ticket_heap \<Rightarrow> MDL_lock \<Rightarrow> enum_mdl_type \<Rightarrow> nat \<Rightarrow> bool" where
  "can_grant_lock tk lock type_arg requestor_ctx \<longleftrightarrow>
     m_bitmap (m_waiting lock) AND incompatible_waiting_types_bitmap lock type_arg = 0
     \<and> fast_path_granted_bitmap lock AND incompatible_granted_types_bitmap lock type_arg = 0
     \<and> (m_bitmap (m_granted lock) AND incompatible_granted_types_bitmap lock type_arg = 0
        \<or> \<not> list_ex (\<lambda>t. m_ctx (tk t) \<noteq> requestor_ctx \<and> is_incompatible_when_granted (tk t) type_arg)
               (m_list (m_granted lock)))"

definition get_lock_owner :: "ticket_heap \<Rightarrow> MDL_lock \<Rightarrow> nat option" where
  "get_lock_owner tk lock = (case m_list (m_granted lock) of [] \<Rightarrow> None | t # _ \<Rightarrow> Some (m_ctx (tk t)))"

definition has_pending_conflicting_lock :: "MDL_lock \<Rightarrow> enum_mdl_type \<Rightarrow> bool" where
  "has_pending_conflicting_lock lock type \<longleftrightarrow>
     m_bitmap (m_waiting lock) AND incompatible_granted_types_bitmap lock type \<noteq> 0"

section \<open>Priorities\<close>

definition is_affected_by_max_write_lock_count :: "MDL_lock \<Rightarrow> bool" where
  "is_affected_by_max_write_lock_count lock \<longleftrightarrow>
     mdl_namespace (key lock) \<noteq> ACL_CACHE \<and> m_is_affected_by_max_write_lock_count (m_strategy lock)"

definition get_incompatible_waiting_types_bitmap_idx :: "64 word \<Rightarrow> MDL_lock \<Rightarrow> nat" where
  "get_incompatible_waiting_types_bitmap_idx lim lock =
     (if m_piglet_lock_count lock \<ge> lim then 1 else 0) + (if m_hog_lock_count lock \<ge> lim then 2 else 0)"

definition switch_incompatible_waiting_types_bitmap_if_needed :: "64 word \<Rightarrow> MDL_lock \<Rightarrow> MDL_lock \<times> bool" where
  "switch_incompatible_waiting_types_bitmap_if_needed lim lock =
     (let new_idx = get_incompatible_waiting_types_bitmap_idx lim lock in
      if m_current_waiting_incompatible_idx lock = new_idx then (lock, False)
      else (lock\<lparr>m_current_waiting_incompatible_idx := new_idx\<rparr>, True))"

definition count_piglets_and_hogs :: "64 word \<Rightarrow> enum_mdl_type \<Rightarrow> MDL_lock \<Rightarrow> MDL_lock \<times> bool" where
  "count_piglets_and_hogs lim type lock =
     (if MDL_BIT type AND MDL_OBJECT_HOG_LOCK_TYPES \<noteq> 0 then
        if m_bitmap (m_waiting lock) AND NOT MDL_OBJECT_HOG_LOCK_TYPES \<noteq> 0 then
          switch_incompatible_waiting_types_bitmap_if_needed lim (lock\<lparr>m_hog_lock_count := m_hog_lock_count lock + 1\<rparr>)
        else (lock, False)
      else if type = MDL_SHARED_WRITE then
        if m_bitmap (m_waiting lock) AND MDL_BIT MDL_SHARED_READ_ONLY \<noteq> 0 then
          switch_incompatible_waiting_types_bitmap_if_needed lim (lock\<lparr>m_piglet_lock_count := m_piglet_lock_count lock + 1\<rparr>)
        else (lock, False)
      else (lock, False))"

section \<open>Rescheduling\<close>

text \<open>
  The loop over the waiting tickets; \<open>i\<close> is the position of the iterator. A ticket that is granted
  leaves the list, so that the iterator, which has moved on before, is at the same position.
\<close>

definition grant_waiting :: "ticket_heap \<Rightarrow> nat \<Rightarrow> MDL_lock \<Rightarrow> MDL_lock" where
  "grant_waiting tk t lock =
     lock\<lparr>m_waiting := list_remove_ticket tk t (m_waiting lock), m_granted := add_ticket tk t (m_granted lock)\<rparr>"

definition count_if_affected :: "64 word \<Rightarrow> enum_mdl_type \<Rightarrow> MDL_lock \<Rightarrow> MDL_lock \<times> bool" where
  "count_if_affected lim type lock =
     (if is_affected_by_max_write_lock_count lock then count_piglets_and_hogs lim type lock else (lock, False))"

lemma m_list_clear_bit [simp]: "m_list (clear_bit_if_not_in_list tk type l) = m_list l"
  by (simp add: clear_bit_if_not_in_list_def)

lemma m_list_list_remove_ticket [simp]: "m_list (list_remove_ticket tk t l) = remove1 t (m_list l)"
  by (simp add: list_remove_ticket_def)

lemma m_list_add_ticket [simp]: "m_list (add_ticket tk t l) = m_list l @ [t]"
  by (simp add: add_ticket_def)

text \<open>Counting changes only the counters and the index of the matrix.\<close>

lemma count_if_affected_fields [simp]:
  "key (fst (count_if_affected lim type lock)) = key lock"
  "m_granted (fst (count_if_affected lim type lock)) = m_granted lock"
  "m_waiting (fst (count_if_affected lim type lock)) = m_waiting lock"
  "m_obtrusive_locks_granted_waiting_count (fst (count_if_affected lim type lock)) = m_obtrusive_locks_granted_waiting_count lock"
  "m_fast_path_state (fst (count_if_affected lim type lock)) = m_fast_path_state lock"
  by (simp_all add: count_if_affected_def count_piglets_and_hogs_def switch_incompatible_waiting_types_bitmap_if_needed_def Let_def)

lemma grant_waiting_fields [simp]:
  "key (grant_waiting tk t lock) = key lock"
  "m_list (m_granted (grant_waiting tk t lock)) = m_list (m_granted lock) @ [t]"
  "m_list (m_waiting (grant_waiting tk t lock)) = remove1 t (m_list (m_waiting lock))"
  "m_current_waiting_incompatible_idx (grant_waiting tk t lock) = m_current_waiting_incompatible_idx lock"
  "m_obtrusive_locks_granted_waiting_count (grant_waiting tk t lock) = m_obtrusive_locks_granted_waiting_count lock"
  "m_fast_path_state (grant_waiting tk t lock) = m_fast_path_state lock"
  by (simp_all add: grant_waiting_def)

function resched_loop ::
    "ticket_heap \<Rightarrow> 64 word \<Rightarrow> nat \<Rightarrow> MDL_lock \<Rightarrow> wait_slots \<Rightarrow> MDL_lock \<times> wait_slots" where
  "resched_loop tk lim i lock slots =
     (if i < length (m_list (m_waiting lock)) then
        let t = m_list (m_waiting lock) ! i in
        if can_grant_lock tk lock (m_type (tk t)) (m_ctx (tk t)) \<and> \<not> snd (set_status (m_ctx (tk t)) GRANTED slots) then
          let slots = fst (set_status (m_ctx (tk t)) GRANTED slots);
              counted = count_if_affected lim (m_type (tk t)) (grant_waiting tk t lock)
          in resched_loop tk lim (if snd counted then 0 else i) (fst counted) slots
        else resched_loop tk lim (i + 1) lock slots
      else (lock, slots))"
  by pat_completeness auto

termination
  by (relation "measures [\<lambda>(tk, lim, i, lock, slots). length (m_list (m_waiting lock)),
        \<lambda>(tk, lim, i, lock, slots). length (m_list (m_waiting lock)) - i]")
    (auto simp: length_remove1)

declare resched_loop.simps [simp del]

text \<open>\<open>x & ~m\<close> on an unsigned number.\<close>

definition and_not :: "nat \<Rightarrow> nat \<Rightarrow> nat" where
  "and_not x m = nat (int x AND NOT (int m))"

text \<open>The reset of the counters at the end.\<close>

definition reset_priorities :: "MDL_lock \<Rightarrow> MDL_lock" where
  "reset_priorities lock =
     (let w = m_bitmap (m_waiting lock) in
      if m_current_waiting_incompatible_idx lock = 3 then
        if w AND NOT (MDL_OBJECT_HOG_LOCK_TYPES OR MDL_BIT MDL_SHARED_WRITE OR MDL_BIT MDL_SHARED_WRITE_LOW_PRIO) = 0
        then lock\<lparr>m_piglet_lock_count := 0, m_hog_lock_count := 0, m_current_waiting_incompatible_idx := 0\<rparr>
        else lock
      else
        let lock = (if w AND NOT MDL_OBJECT_HOG_LOCK_TYPES = 0
                    then lock\<lparr>m_hog_lock_count := 0,
                           m_current_waiting_incompatible_idx := and_not (m_current_waiting_incompatible_idx lock) 2\<rparr>
                    else lock)
        in if w AND MDL_BIT MDL_SHARED_READ_ONLY = 0
           then lock\<lparr>m_piglet_lock_count := 0,
                  m_current_waiting_incompatible_idx := and_not (m_current_waiting_incompatible_idx lock) 1\<rparr>
           else lock)"

definition reschedule_waiters :: "ticket_heap \<Rightarrow> 64 word \<Rightarrow> MDL_lock \<times> wait_slots \<Rightarrow> MDL_lock \<times> wait_slots" where
  "reschedule_waiters tk lim ls =
     (case resched_loop tk lim 0 (fst ls) (snd ls) of (lock, slots) \<Rightarrow>
        (if is_affected_by_max_write_lock_count lock then reset_priorities lock else lock, slots))"

section \<open>Acquisition and release\<close>

text \<open>The fast path of an acquisition: the successful compare-and-swap, or \<open>None\<close> for the slow path.\<close>

definition fast_path_acquire :: "enum_mdl_type \<Rightarrow> MDL_lock \<Rightarrow> MDL_lock option" where
  "fast_path_acquire type lock =
     (if m_fast_path_state lock AND HAS_OBTRUSIVE \<noteq> 0 then None
      else Some (lock\<lparr>m_fast_path_state := m_fast_path_state lock + get_unobtrusive_lock_increment lock type\<rparr>))"

text \<open>The slow path up to the call of \<open>can_grant_lock\<close>: the flags are set first.\<close>

definition slow_path_begin :: "enum_mdl_type \<Rightarrow> MDL_lock \<Rightarrow> MDL_lock" where
  "slow_path_begin type lock =
     (let obtr = is_obtrusive_lock lock type;
          first_obtrusive_lock = (obtr \<and> m_obtrusive_locks_granted_waiting_count lock = 0);
          state = m_fast_path_state lock;
          lock = (if obtr then lock\<lparr>m_obtrusive_locks_granted_waiting_count :=
                                      m_obtrusive_locks_granted_waiting_count lock + 1\<rparr> else lock)
      in if state AND HAS_SLOW_PATH = 0 \<or> first_obtrusive_lock
         then lock\<lparr>m_fast_path_state :=
                     (state OR HAS_SLOW_PATH) OR (if first_obtrusive_lock then HAS_OBTRUSIVE else 0)\<rparr>
         else lock)"

text \<open>The grant on the slow path.\<close>

definition slow_path_grant ::
    "ticket_heap \<Rightarrow> 64 word \<Rightarrow> nat \<Rightarrow> MDL_lock \<times> wait_slots \<Rightarrow> MDL_lock \<times> wait_slots" where
  "slow_path_grant tk lim t ls =
     (let lock = (fst ls)\<lparr>m_granted := add_ticket tk t (m_granted (fst ls))\<rparr>;
          counted = count_if_affected lim (m_type (tk t)) lock
      in if snd counted then reschedule_waiters tk lim (fst counted, snd ls) else (fst counted, snd ls))"

text \<open>The flags that the last slow-path ticket and the last obtrusive ticket take with them.\<close>

definition clear_flags :: "bool \<Rightarrow> bool \<Rightarrow> fast_path_state_t \<Rightarrow> fast_path_state_t" where
  "clear_flags last_slow_path last_obtrusive state =
     (let state = (if last_slow_path then state AND NOT HAS_SLOW_PATH else state)
      in if last_obtrusive then state AND NOT HAS_OBTRUSIVE else state)"

definition uncount_ticket :: "enum_mdl_type \<Rightarrow> MDL_lock \<Rightarrow> MDL_lock" where
  "uncount_ticket type lock =
     (let obtr = is_obtrusive_lock lock type;
          lock = (if obtr then lock\<lparr>m_obtrusive_locks_granted_waiting_count :=
                                      m_obtrusive_locks_granted_waiting_count lock - 1\<rparr> else lock);
          last_obtrusive = (obtr \<and> m_obtrusive_locks_granted_waiting_count lock = 0);
          last_slow_path = (m_list (m_granted lock) = [] \<and> m_list (m_waiting lock) = [])
      in if last_slow_path \<or> last_obtrusive
         then lock\<lparr>m_fast_path_state := clear_flags last_slow_path last_obtrusive (m_fast_path_state lock)\<rparr>
         else lock)"

text \<open>A request that is to wait joins the waiting tickets, with an empty wait slot.\<close>

definition enqueue_waiting :: "ticket_heap \<Rightarrow> nat \<Rightarrow> MDL_lock \<times> wait_slots \<Rightarrow> MDL_lock \<times> wait_slots" where
  "enqueue_waiting tk t ls =
     ((fst ls)\<lparr>m_waiting := add_ticket tk t (m_waiting (fst ls))\<rparr>, reset_status (m_ctx (tk t)) (snd ls))"

datatype ticket_queue = Granted_queue | Waiting_queue

definition lock_remove_ticket ::
    "ticket_heap \<Rightarrow> 64 word \<Rightarrow> ticket_queue \<Rightarrow> nat \<Rightarrow> MDL_lock \<times> wait_slots \<Rightarrow> MDL_lock \<times> wait_slots" where
  "lock_remove_ticket tk lim queue t ls =
     (let lock = fst ls;
          lock = (case queue of
                    Granted_queue \<Rightarrow> lock\<lparr>m_granted := list_remove_ticket tk t (m_granted lock)\<rparr>
                  | Waiting_queue \<Rightarrow> lock\<lparr>m_waiting := list_remove_ticket tk t (m_waiting lock)\<rparr>);
          lock = uncount_ticket (m_type (tk t)) lock
      in if m_list (m_granted lock) = [] \<and> m_list (m_waiting lock) = []
         then (lock\<lparr>m_hog_lock_count := 0, m_piglet_lock_count := 0, m_current_waiting_incompatible_idx := 0\<rparr>, snd ls)
         else reschedule_waiters tk lim (lock, snd ls))"

text \<open>The release of a fast-path ticket, by one compare-and-swap or, with obtrusive tickets, under the lock.\<close>

definition fast_path_release ::
    "ticket_heap \<Rightarrow> 64 word \<Rightarrow> enum_mdl_type \<Rightarrow> MDL_lock \<times> wait_slots \<Rightarrow> MDL_lock \<times> wait_slots" where
  "fast_path_release tk lim type ls =
     (let lock = (fst ls)\<lparr>m_fast_path_state := m_fast_path_state (fst ls) - get_unobtrusive_lock_increment (fst ls) type\<rparr> in
      if m_fast_path_state (fst ls) AND HAS_OBTRUSIVE \<noteq> 0 \<and> m_obtrusive_locks_granted_waiting_count lock \<noteq> 0
      then reschedule_waiters tk lim (lock, snd ls) else (lock, snd ls))"

text \<open>A fast-path ticket becomes a slow-path ticket; \<open>tk\<close> is the heap in which it already is one.\<close>

definition materialize_ticket :: "ticket_heap \<Rightarrow> nat \<Rightarrow> MDL_lock \<Rightarrow> MDL_lock" where
  "materialize_ticket tk t lock =
     lock\<lparr>m_granted := add_ticket tk t (m_granted lock),
       m_fast_path_state :=
         (m_fast_path_state lock - get_unobtrusive_lock_increment lock (m_type (tk t))) OR HAS_SLOW_PATH\<rparr>"

text \<open>A clone of a ticket, on the path of the ticket.\<close>

definition clone_in_lock :: "ticket_heap \<Rightarrow> nat \<Rightarrow> MDL_lock \<Rightarrow> MDL_lock" where
  "clone_in_lock tk t lock =
     (if m_is_fast_path (tk t)
      then lock\<lparr>m_fast_path_state := m_fast_path_state lock + get_unobtrusive_lock_increment lock (m_type (tk t))\<rparr>
      else
        let lock = lock\<lparr>m_granted := add_ticket tk t (m_granted lock)\<rparr> in
        if is_obtrusive_lock lock (m_type (tk t))
        then lock\<lparr>m_obtrusive_locks_granted_waiting_count := m_obtrusive_locks_granted_waiting_count lock + 1\<rparr>
        else lock)"

text \<open>
  A downgrade: \<open>tk\<close> has the old type of the ticket, \<open>tk'\<close> the new one.
\<close>

definition downgrade_in_lock ::
    "ticket_heap \<Rightarrow> ticket_heap \<Rightarrow> 64 word \<Rightarrow> nat \<Rightarrow> MDL_lock \<times> wait_slots \<Rightarrow> MDL_lock \<times> wait_slots" where
  "downgrade_in_lock tk tk' lim t ls =
     (let lock = (fst ls)\<lparr>m_granted := list_remove_ticket tk t (m_granted (fst ls))\<rparr>;
          lock =
            (if is_obtrusive_lock lock (m_type (tk' t)) then lock
             else
               let lock = lock\<lparr>m_obtrusive_locks_granted_waiting_count := m_obtrusive_locks_granted_waiting_count lock - 1\<rparr>
               in if m_obtrusive_locks_granted_waiting_count lock = 0
                  then lock\<lparr>m_fast_path_state := m_fast_path_state lock AND NOT HAS_OBTRUSIVE\<rparr> else lock);
          lock = lock\<lparr>m_granted := add_ticket tk' t (m_granted lock)\<rparr>
      in reschedule_waiters tk' lim (lock, snd ls))"

text \<open>
  The merge at the end of an upgrade: the new ticket \<open>n\<close>, if it is one, goes away, and the ticket
  \<open>t\<close> takes its type, which it has in the heap \<open>tk'\<close>.
\<close>

definition upgrade_in_lock :: "ticket_heap \<Rightarrow> ticket_heap \<Rightarrow> nat \<Rightarrow> nat option \<Rightarrow> MDL_lock \<Rightarrow> MDL_lock" where
  "upgrade_in_lock tk tk' t new_ticket lock =
     (let lock = (case new_ticket of
                    None \<Rightarrow> lock
                  | Some n \<Rightarrow>
                      lock\<lparr>m_granted := list_remove_ticket tk n (m_granted lock),
                        m_obtrusive_locks_granted_waiting_count := m_obtrusive_locks_granted_waiting_count lock - 1\<rparr>);
          lock = (if m_is_fast_path (tk t)
                  then lock\<lparr>m_fast_path_state :=
                         m_fast_path_state lock - get_unobtrusive_lock_increment lock (m_type (tk t))\<rparr>
                  else
                    let lock = lock\<lparr>m_granted := list_remove_ticket tk t (m_granted lock)\<rparr> in
                    if is_obtrusive_lock lock (m_type (tk t))
                    then lock\<lparr>m_obtrusive_locks_granted_waiting_count := m_obtrusive_locks_granted_waiting_count lock - 1\<rparr>
                    else lock)
      in lock\<lparr>m_granted := add_ticket tk' t (m_granted lock),
           m_obtrusive_locks_granted_waiting_count := m_obtrusive_locks_granted_waiting_count lock + 1\<rparr>)"

end
