(* ===== verification/Mdl_Lock_Proofs.thy ===== *)
theory Mdl_Lock_Proofs
  imports Mdl_Lock
begin

text \<open>
  Invariants of one metadata lock. \<open>F\<close> is the multiset of the types of the tickets granted on the
  fast path, which the lock only counts.
\<close>

unbundle bit_operations_syntax

section \<open>Well-formed lists\<close>

abbreviation type_of :: "ticket_heap \<Rightarrow> nat \<Rightarrow> enum_mdl_type" where
  "type_of tk t \<equiv> m_type (tk t)"

abbreviation ctx_of :: "ticket_heap \<Rightarrow> nat \<Rightarrow> nat" where
  "ctx_of tk t \<equiv> m_ctx (tk t)"

abbreviation granted :: "MDL_lock \<Rightarrow> nat list" where
  "granted lock \<equiv> m_list (m_granted lock)"

abbreviation waiting :: "MDL_lock \<Rightarrow> nat list" where
  "waiting lock \<equiv> m_list (m_waiting lock)"

definition list_ok :: "ticket_heap \<Rightarrow> Ticket_list \<Rightarrow> bool" where
  "list_ok tk l \<longleftrightarrow> m_bitmap l = bitmap_of (map (type_of tk) (m_list l)) \<and> distinct (m_list l)"

lemma bitmap_of_append [simp]: "bitmap_of (xs @ ys) = bitmap_of xs OR bitmap_of ys"
  by (rule bitmap_eqI) auto

lemma list_ok_add_ticket: "list_ok tk l \<Longrightarrow> t \<notin> set (m_list l) \<Longrightarrow> list_ok tk (add_ticket tk t l)"
  by (simp add: list_ok_def add_ticket_def)

lemma list_ok_remove:
  assumes "list_ok tk l"
  shows "list_ok tk (list_remove_ticket tk t l)"
proof (cases "t \<in> set (m_list l)")
  case True
  let ?r = "remove1 t (m_list l)" and ?b = "bitmap_of (map (type_of tk) (remove1 t (m_list l)))"
  have d: "distinct (m_list l)" and b: "m_bitmap l = bitmap_of (map (type_of tk) (m_list l))"
    using assms by (auto simp: list_ok_def)
  have s: "set (m_list l) = insert t (set ?r)"
    using True d by auto
  have eq: "?b = (if list_ex (\<lambda>u. type_of tk u = type_of tk t) ?r then m_bitmap l
      else m_bitmap l AND NOT (MDL_BIT (type_of tk t)))"
    unfolding b by (rule bitmap_eqI) (auto simp: s list_ex_iff intro: rev_image_eqI)
  then show ?thesis
    using d by (auto simp: list_ok_def list_remove_ticket_def clear_bit_if_not_in_list_def)
next
  case False
  have "in_bitmap u (m_bitmap l) \<longleftrightarrow> u \<in> type_of tk ` set (m_list l)" for u
    using assms by (simp add: list_ok_def)
  with False assms show ?thesis
    by (auto simp: list_ok_def list_remove_ticket_def clear_bit_if_not_in_list_def remove1_idem list_ex_iff
        intro!: bitmap_eqI)
qed

text \<open>Lists whose tickets have the same types in two heaps.\<close>

lemma list_ok_cong: "(\<And>t. t \<in> set (m_list l) \<Longrightarrow> type_of tk' t = type_of tk t) \<Longrightarrow> list_ok tk' l \<longleftrightarrow> list_ok tk l"
  by (simp add: list_ok_def cong: map_cong)

lemma bitmap_and_0_iff:
  assumes "list_ok tk l"
  shows "m_bitmap l AND m = 0 \<longleftrightarrow> (\<forall>t \<in> set (m_list l). \<not> in_bitmap (type_of tk t) m)"
  using assms by (auto simp: list_ok_def bitmap_and_eq_0)

section \<open>When a request is granted\<close>

text \<open>
  A request can be granted when it does not yield to a waiting request, does not conflict with a
  fast-path ticket, nor with a granted ticket of another context.
\<close>

definition grantable :: "ticket_heap \<Rightarrow> enum_mdl_type multiset \<Rightarrow> MDL_lock \<Rightarrow> enum_mdl_type \<Rightarrow> nat \<Rightarrow> bool" where
  "grantable tk F lock type ctx \<longleftrightarrow>
     (\<forall>w \<in> set (waiting lock). \<not> yields_to (m_strategy lock) (m_current_waiting_incompatible_idx lock) type (type_of tk w))
     \<and> (\<forall>f \<in># F. \<not> incompat (m_strategy lock) type f)
     \<and> (\<forall>g \<in> set (granted lock). ctx_of tk g = ctx \<or> \<not> incompat (m_strategy lock) type (type_of tk g))"

definition shape :: "ticket_heap \<Rightarrow> enum_mdl_type multiset \<Rightarrow> MDL_lock \<Rightarrow> bool" where
  "shape tk F lock \<longleftrightarrow>
     list_ok tk (m_granted lock) \<and> list_ok tk (m_waiting lock) \<and> set (granted lock) \<inter> set (waiting lock) = {}
     \<and> (\<forall>t \<in> set (granted lock) \<union> set (waiting lock). is_legal (m_strategy lock) (type_of tk t) \<and> m_lock (tk t) = key lock)
     \<and> inj_on (ctx_of tk) (set (waiting lock))
     \<and> fast_ok (m_strategy lock) F
     \<and> m_current_waiting_incompatible_idx lock < 4
     \<and> (is_affected_by_max_write_lock_count lock \<or> m_current_waiting_incompatible_idx lock = 0)"

definition obtrusive_tickets :: "ticket_heap \<Rightarrow> MDL_lock \<Rightarrow> nat list" where
  "obtrusive_tickets tk lock = filter (\<lambda>t. obtrusive (m_strategy lock) (type_of tk t)) (granted lock @ waiting lock)"

text \<open>
  The counter of obtrusive tickets and the fast-path state account for the tickets of the two lists, for
  a request that is on its way between the lists, and for the fast-path tickets.
\<close>

definition pending_obtrusive :: "MDL_lock \<Rightarrow> enum_mdl_type option \<Rightarrow> nat" where
  "pending_obtrusive lock pend = (case pend of None \<Rightarrow> 0 | Some ty \<Rightarrow> of_bool (obtrusive (m_strategy lock) ty))"

definition accounted :: "ticket_heap \<Rightarrow> enum_mdl_type multiset \<Rightarrow> enum_mdl_type option \<Rightarrow> MDL_lock \<Rightarrow> bool" where
  "accounted tk F pend lock \<longleftrightarrow>
     m_obtrusive_locks_granted_waiting_count lock = length (obtrusive_tickets tk lock) + pending_obtrusive lock pend
     \<and> m_fast_path_state lock =
         fps_of (m_strategy lock) (granted lock \<noteq> [] \<or> waiting lock \<noteq> [] \<or> pend \<noteq> None)
           (m_obtrusive_locks_granted_waiting_count lock \<noteq> 0) F"

text \<open>No two tickets that are granted to different contexts conflict.\<close>

definition exclusive :: "ticket_heap \<Rightarrow> enum_mdl_type multiset \<Rightarrow> MDL_lock \<Rightarrow> bool" where
  "exclusive tk F lock \<longleftrightarrow>
     (\<forall>g \<in> set (granted lock). \<forall>h \<in> set (granted lock).
        ctx_of tk g = ctx_of tk h \<or> \<not> incompat (m_strategy lock) (type_of tk g) (type_of tk h))
     \<and> (\<forall>g \<in> set (granted lock). \<forall>f \<in># F. \<not> incompat (m_strategy lock) (type_of tk g) f)"

text \<open>Every request that still waits has a reason to.\<close>

definition settled :: "ticket_heap \<Rightarrow> enum_mdl_type multiset \<Rightarrow> MDL_lock \<Rightarrow> wait_slots \<Rightarrow> bool" where
  "settled tk F lock slots \<longleftrightarrow>
     (\<forall>w \<in> set (waiting lock). slots (ctx_of tk w) = WS_EMPTY \<longrightarrow> \<not> grantable tk F lock (type_of tk w) (ctx_of tk w))"

definition idle_reset :: "MDL_lock \<Rightarrow> bool" where
  "idle_reset lock \<longleftrightarrow>
     (granted lock = [] \<and> waiting lock = [] \<longrightarrow>
        m_hog_lock_count lock = 0 \<and> m_piglet_lock_count lock = 0 \<and> m_current_waiting_incompatible_idx lock = 0)"

definition lock_inv :: "ticket_heap \<Rightarrow> enum_mdl_type multiset \<Rightarrow> MDL_lock \<Rightarrow> wait_slots \<Rightarrow> bool" where
  "lock_inv tk F lock slots \<longleftrightarrow>
     shape tk F lock \<and> accounted tk F None lock \<and> exclusive tk F lock \<and> settled tk F lock slots \<and> idle_reset lock"

lemma is_obtrusive_lock_iff [simp]: "is_obtrusive_lock lock ty \<longleftrightarrow> obtrusive (m_strategy lock) ty"
  by (simp add: is_obtrusive_lock_def get_unobtrusive_lock_increment_def obtrusive_def)

lemma can_grant_lock_iff:
  assumes "shape tk F lock" "m_fast_path_state lock = fps_of (m_strategy lock) a b F"
  shows "can_grant_lock tk lock ty ctx \<longleftrightarrow> grantable tk F lock ty ctx"
proof -
  have l: "list_ok tk (m_granted lock)" "list_ok tk (m_waiting lock)" and fo: "fast_ok (m_strategy lock) F"
    and lk: "\<And>g. g \<in> set (granted lock) \<Longrightarrow> m_lock (tk g) = key lock"
    using assms(1) by (auto simp: shape_def)
  have f: "fast_path_granted_bitmap lock AND incompatible_granted_types_bitmap lock ty = 0 \<longleftrightarrow>
      (\<forall>f \<in># F. \<not> incompat (m_strategy lock) ty f)"
    using fast_granted_conflict [OF fo [unfolded key_strategy_def], of a b ty]
    by (simp add: fast_path_granted_bitmap_def incompatible_granted_types_bitmap_def assms(2) key_strategy_def)
  show ?thesis
    unfolding can_grant_lock_def f grantable_def bitmap_and_0_iff [OF l(1)] bitmap_and_0_iff [OF l(2)]
    by (auto simp: lk incompatible_waiting_types_bitmap_def incompatible_granted_types_bitmap_def yields_to_def
        incompat_def list_ex_iff is_incompatible_when_granted_def MDL_BIT_and)
qed

section \<open>Priorities\<close>

lemma switch_idx:
  assumes "switch_incompatible_waiting_types_bitmap_if_needed lim lock = (lock', changed)" "m_current_waiting_incompatible_idx lock < 4"
  shows "m_current_waiting_incompatible_idx lock' < 4"
    "\<not> changed \<Longrightarrow> m_current_waiting_incompatible_idx lock' = m_current_waiting_incompatible_idx lock"
proof -
  have "get_incompatible_waiting_types_bitmap_idx lim lock < 4"
    by (simp add: get_incompatible_waiting_types_bitmap_idx_def)
  then show "m_current_waiting_incompatible_idx lock' < 4"
    "\<not> changed \<Longrightarrow> m_current_waiting_incompatible_idx lock' = m_current_waiting_incompatible_idx lock"
    using assms by (auto simp: switch_incompatible_waiting_types_bitmap_if_needed_def Let_def split: if_splits)
qed

lemma count_if_affected_cases:
  "count_if_affected lim ty lock = (lock, False)
   \<or> is_affected_by_max_write_lock_count lock
     \<and> (\<exists>lock'. m_current_waiting_incompatible_idx lock' = m_current_waiting_incompatible_idx lock
          \<and> count_if_affected lim ty lock = switch_incompatible_waiting_types_bitmap_if_needed lim lock')"
proof -
  have ifs: "P (if a then if b then if c then x else z else if d then if e then y else z else z else z)"
    if "a \<Longrightarrow> P x" "a \<Longrightarrow> P y" "P z" for P :: "MDL_lock \<times> bool \<Rightarrow> bool" and a b c d e x y z
    using that by simp
  show ?thesis
    unfolding count_if_affected_def count_piglets_and_hogs_def
    by (rule ifs [of _ "\<lambda>r. r = (lock, False) \<or> is_affected_by_max_write_lock_count lock
     \<and> (\<exists>lock'. m_current_waiting_incompatible_idx lock' = m_current_waiting_incompatible_idx lock
          \<and> r = switch_incompatible_waiting_types_bitmap_if_needed lim lock')"])
      (auto intro: exI [of _ "lock\<lparr>m_hog_lock_count := m_hog_lock_count lock + 1\<rparr>"]
         exI [of _ "lock\<lparr>m_piglet_lock_count := m_piglet_lock_count lock + 1\<rparr>"])
qed

lemma count_if_affected_idx:
  assumes "count_if_affected lim ty lock = (lock', changed)" "m_current_waiting_incompatible_idx lock < 4"
  shows "m_current_waiting_incompatible_idx lock' < 4"
    "\<not> is_affected_by_max_write_lock_count lock \<Longrightarrow> lock' = lock \<and> \<not> changed"
    "\<not> changed \<Longrightarrow> m_current_waiting_incompatible_idx lock' = m_current_waiting_incompatible_idx lock"
  using count_if_affected_cases [of lim ty lock] assms switch_idx [of lim _ lock' changed] by auto

lemma affected_cong: "key lock = key lock' \<Longrightarrow> is_affected_by_max_write_lock_count lock = is_affected_by_max_write_lock_count lock'"
  by (simp add: is_affected_by_max_write_lock_count_def)

lemma affected_object:
  "is_affected_by_max_write_lock_count lock \<Longrightarrow> m_strategy lock = m_object_lock_strategy"
  using get_strategy_disj [of "mdl_namespace (key lock)"]
  by (auto simp: is_affected_by_max_write_lock_count_def key_strategy_def m_scoped_lock_strategy_def)

lemma and_not_idx [simp]:
  "and_not 0 1 = 0" "and_not 0 2 = 0" "and_not 1 1 = 0" "and_not 1 2 = 1" "and_not 2 1 = 2" "and_not 2 2 = 0"
  "and_not 0 (Suc 0) = 0" "and_not (Suc 0) (Suc 0) = 0" "and_not (Suc 0) 2 = Suc 0" "and_not 2 (Suc 0) = 2"
  by (simp_all add: and_not_def)

text \<open>
  The reset of the priorities lets no waiting request through: among the types that are waiting, what
  yields before yields after. This is what the source argues in the four cases of its comment.
\<close>

lemma reset_priorities_yields:
  assumes "list_ok tk (m_waiting lock)" "m_current_waiting_incompatible_idx lock < 4" "v \<in> set (waiting lock)" "w \<in> set (waiting lock)"
    and y: "yields_to m_object_lock_strategy (m_current_waiting_incompatible_idx lock) (type_of tk v) (type_of tk w)"
  shows "yields_to m_object_lock_strategy (m_current_waiting_incompatible_idx (reset_priorities lock)) (type_of tk v) (type_of tk w)"
proof -
  define a b where "a = type_of tk v" and "b = type_of tk w"
  have bits: "m_bitmap (m_waiting lock) AND m \<noteq> 0 \<or> \<not> in_bitmap a m \<and> \<not> in_bitmap b m" for m
    using bitmap_and_0_iff [OF assms(1), of m] assms(3,4) by (auto simp: a_def b_def)
  let ?i = "m_current_waiting_incompatible_idx lock" and ?w = "m_bitmap (m_waiting lock)"
  note yields = y [folded a_def b_def]
  consider "?i = 0" | "?i = Suc 0" | "?i = 2" | "?i = 3"
    using assms(2) by linarith
  then have "yields_to m_object_lock_strategy (m_current_waiting_incompatible_idx (reset_priorities lock)) a b"
  proof cases
    case 1
    then show ?thesis using yields by (simp add: reset_priorities_def Let_def)
  next
    case 2
    then show ?thesis
      using yields bits [of "MDL_BIT MDL_SHARED_READ_ONLY"]
      by (cases a; cases b) (simp_all add: reset_priorities_def Let_def yields_rows)
  next
    case 3
    then show ?thesis
      using yields bits [of "NOT MDL_OBJECT_HOG_LOCK_TYPES"]
      by (cases a; cases b) (simp_all add: reset_priorities_def Let_def yields_rows MDL_OBJECT_HOG_LOCK_TYPES_def)
  next
    case 4
    then show ?thesis
      using yields bits [of "NOT (MDL_OBJECT_HOG_LOCK_TYPES OR MDL_BIT MDL_SHARED_WRITE OR MDL_BIT MDL_SHARED_WRITE_LOW_PRIO)"]
      by (cases a; cases b) (simp_all add: reset_priorities_def Let_def yields_rows MDL_OBJECT_HOG_LOCK_TYPES_def)
  qed
  then show ?thesis by (simp add: a_def b_def)
qed

lemma reset_priorities_fields [simp]:
  "key (reset_priorities lock) = key lock" "m_granted (reset_priorities lock) = m_granted lock"
  "m_waiting (reset_priorities lock) = m_waiting lock"
  "m_obtrusive_locks_granted_waiting_count (reset_priorities lock) = m_obtrusive_locks_granted_waiting_count lock"
  "m_fast_path_state (reset_priorities lock) = m_fast_path_state lock"
  by (simp_all add: reset_priorities_def Let_def)

lemma and_not_le: "and_not x m \<le> x"
  by (simp add: and_not_def nat_le_iff AND_upper1)

lemma reset_priorities_idx: "m_current_waiting_incompatible_idx (reset_priorities lock) \<le> m_current_waiting_incompatible_idx lock"
  by (simp add: reset_priorities_def Let_def and_not_le order_trans [OF and_not_le and_not_le])

section \<open>The loop over the waiting requests\<close>

lemma length_filter_remove1:
  "t \<in> set xs \<Longrightarrow> length (filter P xs) = length (filter P (remove1 t xs)) + of_bool (P t)"
  by (induction xs) auto

lemma settled_iff:
  "settled tk F lock slots \<longleftrightarrow>
     (\<forall>i < length (waiting lock). slots (ctx_of tk (waiting lock ! i)) = WS_EMPTY \<longrightarrow>
        \<not> grantable tk F lock (type_of tk (waiting lock ! i)) (ctx_of tk (waiting lock ! i)))"
  by (simp add: settled_def all_set_conv_all_nth)

text \<open>A request can only stay blocked when the lists grow and the matrix is kept.\<close>

lemma not_grantable_mono:
  assumes "\<not> grantable tk F lock ty c" "key lock' = key lock"
    "\<And>w. w \<in> set (waiting lock) \<Longrightarrow> yields_to (m_strategy lock) (m_current_waiting_incompatible_idx lock) ty (type_of tk w) \<Longrightarrow>
       w \<in> set (waiting lock')
         \<and> yields_to (m_strategy lock) (m_current_waiting_incompatible_idx lock') ty (type_of tk w)
       \<or> w \<in> set (granted lock') \<and> ctx_of tk w \<noteq> c \<and> incompat (m_strategy lock) ty (type_of tk w)"
    "\<And>g. g \<in> set (granted lock) \<Longrightarrow> ctx_of tk g \<noteq> c \<Longrightarrow> incompat (m_strategy lock) ty (type_of tk g) \<Longrightarrow>
       \<exists>g' \<in> set (granted lock'). ctx_of tk' g' \<noteq> c \<and> incompat (m_strategy lock) ty (type_of tk' g')"
    "\<And>f. f \<in># F \<Longrightarrow> incompat (m_strategy lock) ty f \<Longrightarrow>
       f \<in># F' \<or> (\<exists>g' \<in> set (granted lock'). ctx_of tk' g' \<noteq> c \<and> incompat (m_strategy lock) ty (type_of tk' g'))"
    "\<And>w. w \<in> set (waiting lock) \<Longrightarrow> type_of tk' w = type_of tk w \<and> ctx_of tk' w = ctx_of tk w"
  shows "\<not> grantable tk' F' lock' ty c"
  using assms unfolding grantable_def by (metis (no_types, lifting))

lemma grant_waiting_shape:
  assumes "shape tk F lock" "t \<in> set (waiting lock)"
  shows "shape tk F (grant_waiting tk t lock)"
proof -
  have l: "list_ok tk (m_granted lock)" "list_ok tk (m_waiting lock)" and t: "t \<notin> set (granted lock)"
    and d: "distinct (waiting lock)"
    using assms by (auto simp: shape_def list_ok_def)
  have "list_ok tk (m_granted (grant_waiting tk t lock))" "list_ok tk (m_waiting (grant_waiting tk t lock))"
    unfolding grant_waiting_def using list_ok_add_ticket [OF l(1) t] list_ok_remove [OF l(2)] by simp_all
  then show ?thesis
    using assms d by (auto simp: shape_def is_affected_by_max_write_lock_count_def intro: inj_on_subset)
qed

lemma grant_waiting_accounted:
  assumes "accounted tk F None lock" "t \<in> set (waiting lock)"
  shows "accounted tk F None (grant_waiting tk t lock)"
proof -
  have "length (obtrusive_tickets tk (grant_waiting tk t lock)) = length (obtrusive_tickets tk lock)"
    using length_filter_remove1 [OF assms(2), of "\<lambda>t. obtrusive (m_strategy lock) (type_of tk t)"]
    by (simp add: obtrusive_tickets_def)
  moreover have "waiting lock \<noteq> []"
    using assms(2) by auto
  ultimately show ?thesis
    using assms(1) by (simp add: accounted_def pending_obtrusive_def)
qed

lemma grant_waiting_exclusive:
  assumes "exclusive tk F lock" "grantable tk F lock (type_of tk t) (ctx_of tk t)"
  shows "exclusive tk F (grant_waiting tk t lock)"
  using assms incompat_sym [of "mdl_namespace (key lock)"]
  by (auto simp: exclusive_def grantable_def key_strategy_def)

lemma counted_props:
  assumes "count_if_affected lim ty lock = (lock', changed)" "shape tk F lock"
  shows "shape tk F lock'" "accounted tk F pend lock \<Longrightarrow> accounted tk F pend lock'"
    "exclusive tk F lock \<Longrightarrow> exclusive tk F lock'"
    "\<not> changed \<Longrightarrow> grantable tk F lock' t c = grantable tk F lock t c"
    "m_granted lock' = m_granted lock" "m_waiting lock' = m_waiting lock" "key lock' = key lock"
proof -
  have f: "m_granted lock' = m_granted lock" "m_waiting lock' = m_waiting lock" "key lock' = key lock"
    "m_obtrusive_locks_granted_waiting_count lock' = m_obtrusive_locks_granted_waiting_count lock"
    "m_fast_path_state lock' = m_fast_path_state lock"
    using assms(1) count_if_affected_fields [of lim ty lock] by simp_all
  then show "m_granted lock' = m_granted lock" "m_waiting lock' = m_waiting lock" "key lock' = key lock"
    by simp_all
  have i: "m_current_waiting_incompatible_idx lock < 4"
    using assms(2) by (simp add: shape_def)
  show "shape tk F lock'"
    using assms(2) count_if_affected_idx [OF assms(1) i] affected_cong [OF f(3)] unfolding shape_def f by auto
  show "accounted tk F pend lock \<Longrightarrow> accounted tk F pend lock'"
    unfolding accounted_def obtrusive_tickets_def pending_obtrusive_def f by (rule conjI; simp only:)
  show "exclusive tk F lock \<Longrightarrow> exclusive tk F lock'"
    unfolding exclusive_def f by simp
  show "\<not> changed \<Longrightarrow> grantable tk F lock' t c = grantable tk F lock t c"
    using count_if_affected_idx(3) [OF assms(1) i] unfolding grantable_def f by simp
qed

text \<open>What the loop and \<open>reschedule_waiters\<close> establish.\<close>

definition slots_granted :: "ticket_heap \<Rightarrow> MDL_lock \<Rightarrow> wait_slots \<Rightarrow> MDL_lock \<Rightarrow> wait_slots \<Rightarrow> bool" where
  "slots_granted tk lock slots lock' slots' \<longleftrightarrow>
     key lock' = key lock
     \<and> set (granted lock) \<subseteq> set (granted lock') \<and> set (waiting lock') \<subseteq> set (waiting lock)
     \<and> set (granted lock') \<union> set (waiting lock') = set (granted lock) \<union> set (waiting lock)
     \<and> (\<forall>t \<in> set (granted lock') - set (granted lock). slots (ctx_of tk t) = WS_EMPTY \<and> slots' (ctx_of tk t) = GRANTED)
     \<and> (\<forall>c. slots' c = slots c \<or> (\<exists>t \<in> set (granted lock') - set (granted lock). ctx_of tk t = c))"

definition locked :: "ticket_heap \<Rightarrow> enum_mdl_type multiset \<Rightarrow> MDL_lock \<Rightarrow> bool" where
  "locked tk F lock \<longleftrightarrow> shape tk F lock \<and> accounted tk F None lock \<and> exclusive tk F lock"

lemma slots_granted_refl: "slots_granted tk lock slots lock slots"
  by (simp add: slots_granted_def)

lemma slots_granted_trans:
  assumes "slots_granted tk l1 s1 l2 s2" "slots_granted tk l2 s2 l3 s3"
  shows "slots_granted tk l1 s1 l3 s3"
proof -
  have k: "key l2 = key l1" "set (granted l1) \<subseteq> set (granted l2)" "set (waiting l2) \<subseteq> set (waiting l1)"
    "set (granted l2) \<union> set (waiting l2) = set (granted l1) \<union> set (waiting l1)"
    and n: "\<And>t. t \<in> set (granted l2) - set (granted l1) \<Longrightarrow> s1 (ctx_of tk t) = WS_EMPTY \<and> s2 (ctx_of tk t) = GRANTED"
    and c: "\<And>c. s2 c = s1 c \<or> (\<exists>t \<in> set (granted l2) - set (granted l1). ctx_of tk t = c)"
    using assms(1) by (auto simp: slots_granted_def)
  have k': "key l3 = key l2" "set (granted l2) \<subseteq> set (granted l3)" "set (waiting l3) \<subseteq> set (waiting l2)"
    "set (granted l3) \<union> set (waiting l3) = set (granted l2) \<union> set (waiting l2)"
    and n': "\<And>t. t \<in> set (granted l3) - set (granted l2) \<Longrightarrow> s2 (ctx_of tk t) = WS_EMPTY \<and> s3 (ctx_of tk t) = GRANTED"
    and c': "\<And>c. s3 c = s2 c \<or> (\<exists>t \<in> set (granted l3) - set (granted l2). ctx_of tk t = c)"
    using assms(2) by (auto simp: slots_granted_def)
  have e: "s1 c = WS_EMPTY" if "s2 c = WS_EMPTY" for c
    using that c [of c] n by fastforce
  have g: "s3 c = GRANTED" if "s2 c = GRANTED" for c
    using that c' [of c] n' by fastforce
  have "s1 (ctx_of tk t) = WS_EMPTY \<and> s3 (ctx_of tk t) = GRANTED" if "t \<in> set (granted l3) - set (granted l1)" for t
    using that n [of t] n' [of t] e g by (cases "t \<in> set (granted l2)") auto
  moreover have "s3 c = s1 c \<or> (\<exists>t \<in> set (granted l3) - set (granted l1). ctx_of tk t = c)" for c
    using c [of c] c' [of c] k(2) k'(2) by fastforce
  moreover have "key l3 = key l1" "set (granted l1) \<subseteq> set (granted l3)" "set (waiting l3) \<subseteq> set (waiting l1)"
    "set (granted l3) \<union> set (waiting l3) = set (granted l1) \<union> set (waiting l1)"
    using k k' by auto
  ultimately show ?thesis
    unfolding slots_granted_def by blast
qed

lemma remove1_nth_before:
  assumes "distinct xs" "i < length xs" "j < i"
  shows "remove1 (xs ! i) xs ! j = xs ! j"
proof -
  have "xs = take i xs @ xs ! i # drop (Suc i) xs"
    using assms(2) by (rule id_take_nth_drop)
  moreover have "xs ! i \<notin> set (take i xs)"
    using assms(1,2) by (auto simp: in_set_conv_nth nth_eq_iff_index_eq)
  ultimately have "remove1 (xs ! i) xs = take i xs @ drop (Suc i) xs"
    by (metis remove1.simps(2) remove1_append)
  then show ?thesis
    using assms(2,3) by (simp add: nth_append)
qed

lemma grant_waiting_blocked:
  assumes "shape tk F lock" "t \<in> set (waiting lock)" "v \<in> set (waiting lock)" "v \<noteq> t"
    "\<not> grantable tk F lock (type_of tk v) (ctx_of tk v)"
  shows "\<not> grantable tk F (grant_waiting tk t lock) (type_of tk v) (ctx_of tk v)"
proof (rule not_grantable_mono [OF assms(5)])
  fix w
  assume w: "w \<in> set (waiting lock)"
    and y: "yields_to (m_strategy lock) (m_current_waiting_incompatible_idx lock) (type_of tk v) (type_of tk w)"
  have s: "m_current_waiting_incompatible_idx lock < 4" "distinct (waiting lock)"
    "is_legal (m_strategy lock) (type_of tk w)" "inj_on (ctx_of tk) (set (waiting lock))"
    using assms(1) w by (auto simp: shape_def list_ok_def)
  have "incompat (m_strategy lock) (type_of tk v) (type_of tk w)"
    using yields_to_incompat y s unfolding key_strategy_def by blast
  moreover have "ctx_of tk t \<noteq> ctx_of tk v"
    using s(4) assms(2-4) by (auto dest: inj_onD)
  ultimately show "w \<in> set (waiting (grant_waiting tk t lock))
      \<and> yields_to (m_strategy lock) (m_current_waiting_incompatible_idx (grant_waiting tk t lock)) (type_of tk v) (type_of tk w)
    \<or> w \<in> set (granted (grant_waiting tk t lock)) \<and> ctx_of tk w \<noteq> ctx_of tk v \<and> incompat (m_strategy lock) (type_of tk v) (type_of tk w)"
    using w y s(2) by (cases "w = t") auto
qed auto

definition settled_before :: "ticket_heap \<Rightarrow> enum_mdl_type multiset \<Rightarrow> nat \<Rightarrow> MDL_lock \<Rightarrow> wait_slots \<Rightarrow> bool" where
  "settled_before tk F i lock slots \<longleftrightarrow>
     (\<forall>j < i. j < length (waiting lock) \<longrightarrow> slots (ctx_of tk (waiting lock ! j)) = WS_EMPTY \<longrightarrow>
        \<not> grantable tk F lock (type_of tk (waiting lock ! j)) (ctx_of tk (waiting lock ! j)))"

lemma resched_step:
  assumes l: "locked tk F lock" and b: "settled_before tk F i lock slots" and i: "i < length (waiting lock)"
    and t: "t = waiting lock ! i" and g: "can_grant_lock tk lock (type_of tk t) (ctx_of tk t)" "slots (ctx_of tk t) = WS_EMPTY"
    and c: "count_if_affected lim (type_of tk t) (grant_waiting tk t lock) = (lock', changed)"
  shows "locked tk F lock'" "settled_before tk F (if changed then 0 else i) lock' (slots(ctx_of tk t := GRANTED))"
    "slots_granted tk lock slots lock' (slots(ctx_of tk t := GRANTED))"
proof -
  have sh: "shape tk F lock" "accounted tk F None lock" "exclusive tk F lock"
    using l by (simp_all add: locked_def)
  have tw: "t \<in> set (waiting lock)" and d: "distinct (waiting lock)" and inj: "inj_on (ctx_of tk) (set (waiting lock))"
    and dj: "set (granted lock) \<inter> set (waiting lock) = {}"
    using i t sh(1) by (auto simp: shape_def list_ok_def)
  have gr: "grantable tk F lock (type_of tk t) (ctx_of tk t)"
    using g(1) can_grant_lock_iff [OF sh(1)] sh(2) by (auto simp: accounted_def)
  note p = counted_props [OF c grant_waiting_shape [OF sh(1) tw]]
  show "locked tk F lock'"
    unfolding locked_def using p(1,2,3) grant_waiting_accounted [OF sh(2) tw] grant_waiting_exclusive [OF sh(3) gr] by blast
  show "settled_before tk F (if changed then 0 else i) lock' (slots(ctx_of tk t := GRANTED))"
  proof (cases changed)
    case False
    have "\<not> grantable tk F lock' (type_of tk v) (ctx_of tk v)"
      if "j < i" "v = waiting lock ! j" "(slots(ctx_of tk t := GRANTED)) (ctx_of tk v) = WS_EMPTY" for j v
    proof -
      have v: "v \<in> set (waiting lock)" "v \<noteq> t"
        using that i t d by (auto simp: nth_eq_iff_index_eq)
      have "slots (ctx_of tk v) = WS_EMPTY"
        using that(3) by (auto split: if_splits)
      then have "\<not> grantable tk F lock (type_of tk v) (ctx_of tk v)"
        using b that i by (auto simp: settled_before_def)
      then show ?thesis
        using grant_waiting_blocked [OF sh(1) tw v] p(4) [OF False] by blast
    qed
    moreover have "waiting lock' ! j = waiting lock ! j" if "j < i" for j
      using remove1_nth_before [OF d i that] by (simp add: p(6) t)
    ultimately show ?thesis
      using False by (auto simp: settled_before_def)
  qed (simp add: settled_before_def)
  show "slots_granted tk lock slots lock' (slots(ctx_of tk t := GRANTED))"
    using tw d dj g(2) by (auto simp: slots_granted_def p(5,6,7))
qed

lemma resched_loop_correct:
  assumes "locked tk F lock" "settled_before tk F i lock slots" "resched_loop tk lim i lock slots = (lock', slots')"
  shows "locked tk F lock' \<and> settled tk F lock' slots' \<and> slots_granted tk lock slots lock' slots'"
  using assms
proof (induction tk lim i lock slots rule: resched_loop.induct)
  case (1 tk lim i lock slots)
  let ?t = "waiting lock ! i"
  show ?case
  proof (cases "i < length (waiting lock)")
    case False
    then show ?thesis
      using "1.prems" by (auto simp: resched_loop.simps settled_iff settled_before_def slots_granted_refl)
  next
    case i: True
    show ?thesis
    proof (cases "can_grant_lock tk lock (type_of tk ?t) (ctx_of tk ?t) \<and> slots (ctx_of tk ?t) = WS_EMPTY")
      case True
      then have g: "can_grant_lock tk lock (type_of tk ?t) (ctx_of tk ?t)" "slots (ctx_of tk ?t) = WS_EMPTY"
        by blast+
      obtain lock2 ch where c: "count_if_affected lim (type_of tk ?t) (grant_waiting tk ?t lock) = (lock2, ch)"
        by fastforce
      note s = resched_step [OF "1.prems"(1,2) i refl g c]
      have "resched_loop tk lim (if ch then 0 else i) lock2 (slots(ctx_of tk ?t := GRANTED)) = (lock', slots')"
        using "1.prems"(3) i True c by (simp add: resched_loop.simps [of tk lim i] Let_def set_status_def)
      then have "locked tk F lock' \<and> settled tk F lock' slots'
          \<and> slots_granted tk lock2 (slots(ctx_of tk ?t := GRANTED)) lock' slots'"
        using "1.IH"(1) [OF i refl] g c s(1,2) by (simp add: set_status_def fun_upd_def)
      then show ?thesis
        using slots_granted_trans [OF s(3)] by blast
    next
      case False
      have "m_fast_path_state lock = fps_of (m_strategy lock) (granted lock \<noteq> [] \<or> waiting lock \<noteq> [])
          (m_obtrusive_locks_granted_waiting_count lock \<noteq> 0) F" "shape tk F lock"
        using "1.prems"(1) by (simp_all add: locked_def accounted_def)
      then have "settled_before tk F (i + 1) lock slots"
        using False "1.prems"(2) can_grant_lock_iff [of tk F lock] by (auto simp: settled_before_def less_Suc_eq)
      moreover have "resched_loop tk lim (i + 1) lock slots = (lock', slots')"
        using "1.prems"(3) i False by (auto simp: resched_loop.simps [of tk lim i] Let_def set_status_def split: if_splits)
      ultimately show ?thesis
        using "1.IH"(2) [OF i refl] False "1.prems"(1) by (auto simp: set_status_def)
    qed
  qed
qed

lemma reset_priorities_settled:
  assumes "is_affected_by_max_write_lock_count lock" "shape tk F lock" "settled tk F lock slots"
  shows "settled tk F (reset_priorities lock) slots"
proof -
  have l: "list_ok tk (m_waiting lock)" "m_current_waiting_incompatible_idx lock < 4"
    using assms(2) by (simp_all add: shape_def)
  have "\<not> grantable tk F (reset_priorities lock) (type_of tk v) (ctx_of tk v)"
    if v: "v \<in> set (waiting lock)" "\<not> grantable tk F lock (type_of tk v) (ctx_of tk v)" for v
    using reset_priorities_yields [OF l v(1)] affected_object [OF assms(1)]
    by (intro not_grantable_mono [OF v(2)]) auto
  then show ?thesis
    using assms(3) by (auto simp: settled_def)
qed

lemma locked_reset:
  assumes "is_affected_by_max_write_lock_count lock" "locked tk F lock"
  shows "locked tk F (reset_priorities lock)"
proof -
  have "is_affected_by_max_write_lock_count (reset_priorities lock)"
    using assms(1) affected_cong [of "reset_priorities lock" lock] by simp
  then show ?thesis
    using assms(2) reset_priorities_idx [of lock]
    by (simp add: locked_def shape_def accounted_def exclusive_def obtrusive_tickets_def pending_obtrusive_def)
qed

lemma reschedule_waiters_correct:
  assumes "locked tk F lock" "reschedule_waiters tk lim (lock, slots) = (lock', slots')"
  shows "locked tk F lock'" "settled tk F lock' slots'" "slots_granted tk lock slots lock' slots'"
proof -
  obtain l s where r: "resched_loop tk lim 0 lock slots = (l, s)"
    by fastforce
  have loop: "locked tk F l" "settled tk F l s" "slots_granted tk lock slots l s"
    using resched_loop_correct [OF assms(1) _ r] by (auto simp: settled_before_def)
  have sh: "shape tk F l"
    using loop(1) by (simp add: locked_def)
  have e: "lock' = (if is_affected_by_max_write_lock_count l then reset_priorities l else l)" "slots' = s"
    using assms(2) r by (simp_all add: reschedule_waiters_def)
  show "locked tk F lock'" "settled tk F lock' slots'"
    using loop locked_reset [of l tk F] reset_priorities_settled [OF _ sh] by (auto simp: e)
  show "slots_granted tk lock slots lock' slots'"
    using loop(3) by (simp add: e slots_granted_def)
qed

text \<open>The lists are not empty after rescheduling when they were not before.\<close>

lemma slots_granted_nonempty:
  "slots_granted tk lock slots lock' slots' \<Longrightarrow> granted lock \<noteq> [] \<or> waiting lock \<noteq> [] \<Longrightarrow> granted lock' \<noteq> [] \<or> waiting lock' \<noteq> []"
  unfolding slots_granted_def by (metis Un_empty set_empty)

lemma reschedule_waiters_inv:
  assumes "locked tk F lock" "granted lock \<noteq> [] \<or> waiting lock \<noteq> []" "reschedule_waiters tk lim (lock, slots) = (lock', slots')"
  shows "lock_inv tk F lock' slots' \<and> slots_granted tk lock slots lock' slots'"
  using reschedule_waiters_correct [OF assms(1,3)] slots_granted_nonempty [OF _ assms(2)]
  by (auto simp: lock_inv_def locked_def idle_reset_def)

section \<open>The operations\<close>

text \<open>Adding a request on its way to a list, and taking a ticket from a list.\<close>

lemma accounted_pend:
  assumes "accounted tk F (Some ty) lock" "key lock' = key lock"
    "length (obtrusive_tickets tk' lock') = length (obtrusive_tickets tk lock) + pending_obtrusive lock (Some ty)"
    "granted lock' \<noteq> [] \<or> waiting lock' \<noteq> []" "m_fast_path_state lock' = m_fast_path_state lock"
    "m_obtrusive_locks_granted_waiting_count lock' = m_obtrusive_locks_granted_waiting_count lock"
  shows "accounted tk' F None lock'"
  using assms by (simp add: accounted_def pending_obtrusive_def)

lemma slow_path_begin_props:
  assumes "shape tk F lock" "accounted tk F None lock" "lock' = slow_path_begin ty lock"
  shows "key lock' = key lock" "m_granted lock' = m_granted lock" "m_waiting lock' = m_waiting lock"
    "m_current_waiting_incompatible_idx lock' = m_current_waiting_incompatible_idx lock"
    "m_hog_lock_count lock' = m_hog_lock_count lock" "m_piglet_lock_count lock' = m_piglet_lock_count lock"
    "accounted tk F (Some ty) lock'" "grantable tk F lock' t c \<longleftrightarrow> grantable tk F lock t c"
proof -
  show f: "key lock' = key lock" "m_granted lock' = m_granted lock" "m_waiting lock' = m_waiting lock"
    "m_current_waiting_incompatible_idx lock' = m_current_waiting_incompatible_idx lock"
    "m_hog_lock_count lock' = m_hog_lock_count lock" "m_piglet_lock_count lock' = m_piglet_lock_count lock"
    by (simp_all add: assms(3) slow_path_begin_def Let_def)
  have fo: "fast_ok (m_strategy lock) F"
    using assms(1) by (simp add: shape_def)
  have flags: "(fps_of (m_strategy lock) a b F OR HAS_SLOW_PATH) = fps_of (m_strategy lock) True b F"
    "(fps_of (m_strategy lock) a b F OR HAS_OBTRUSIVE) = fps_of (m_strategy lock) a True F"
    "fps_of (m_strategy lock) a b F AND HAS_SLOW_PATH = 0 \<longleftrightarrow> \<not> a" for a b
    using fps_of_flags [OF fo [unfolded key_strategy_def]] fps_of_tests [OF fo [unfolded key_strategy_def]]
    by (simp_all add: key_strategy_def)
  have a: "m_obtrusive_locks_granted_waiting_count lock = length (obtrusive_tickets tk lock)"
    "m_fast_path_state lock = fps_of (m_strategy lock) (granted lock \<noteq> [] \<or> waiting lock \<noteq> [])
       (m_obtrusive_locks_granted_waiting_count lock \<noteq> 0) F"
    using assms(2) by (simp_all add: accounted_def pending_obtrusive_def)
  show "accounted tk F (Some ty) lock'"
    unfolding accounted_def obtrusive_tickets_def f
    using a unfolding obtrusive_tickets_def
    by (auto simp: assms(3) slow_path_begin_def Let_def flags pending_obtrusive_def)
  show "grantable tk F lock' t c \<longleftrightarrow> grantable tk F lock t c"
    by (simp add: grantable_def f)
qed

text \<open>Properties of a lock that differs from another in its granted tickets only.\<close>

lemma shape_granted:
  assumes "shape tk F lock" "key lock' = key lock" "m_waiting lock' = m_waiting lock"
    "m_current_waiting_incompatible_idx lock' = m_current_waiting_incompatible_idx lock"
    "list_ok tk (m_granted lock')" "fast_ok (m_strategy lock) F'"
    "\<And>g. g \<in> set (granted lock') \<Longrightarrow> g \<in> set (granted lock) \<or>
       g \<notin> set (waiting lock) \<and> is_legal (m_strategy lock) (type_of tk g) \<and> m_lock (tk g) = key lock"
  shows "shape tk F' lock'"
  using assms affected_cong [OF assms(2)] unfolding shape_def by (auto 4 3)

lemma settled_granted:
  assumes "settled tk F lock slots" "key lock' = key lock" "m_waiting lock' = m_waiting lock"
    "m_current_waiting_incompatible_idx lock' = m_current_waiting_incompatible_idx lock"
    "set (granted lock) \<subseteq> set (granted lock')" "\<And>f. f \<in># F \<Longrightarrow> f \<in># F'"
  shows "settled tk F' lock' slots"
proof -
  have "\<not> grantable tk F' lock' (type_of tk v) (ctx_of tk v)"
    if v: "v \<in> set (waiting lock)" "\<not> grantable tk F lock (type_of tk v) (ctx_of tk v)" for v
    using assms(2-6) by (intro not_grantable_mono [OF v(2)]) auto
  then show ?thesis
    using assms(1,3) by (auto simp: settled_def)
qed

lemma exclusive_granted:
  assumes "exclusive tk F lock" "key lock' = key lock"
    "\<And>g. g \<in> set (granted lock') \<Longrightarrow> g \<in> set (granted lock) \<or> g = t"
    "\<And>g. g \<in> set (granted lock) \<Longrightarrow> ctx_of tk g = ctx_of tk t \<or> \<not> incompat (m_strategy lock) (type_of tk t) (type_of tk g)"
    "\<And>f. f \<in># F \<Longrightarrow> \<not> incompat (m_strategy lock) (type_of tk t) f"
  shows "exclusive tk F lock'"
  using assms incompat_sym [of "mdl_namespace (key lock)"]
  unfolding exclusive_def key_strategy_def by (metis (no_types, lifting))

lemma obtrusive_count_0:
  assumes "accounted tk F None lock" "m_obtrusive_locks_granted_waiting_count lock = 0" "t \<in> set (granted lock) \<union> set (waiting lock)"
  shows "\<not> obtrusive (m_strategy lock) (type_of tk t)"
  using assms by (auto simp: accounted_def obtrusive_tickets_def pending_obtrusive_def filter_empty_conv)

lemma accounted_obtrusive_flag:
  assumes "accounted tk F pend lock" "fast_ok (m_strategy lock) F"
  shows "m_fast_path_state lock AND HAS_OBTRUSIVE = 0 \<longleftrightarrow> m_obtrusive_locks_granted_waiting_count lock = 0"
  using assms fps_of_tests(2) [of "mdl_namespace (key lock)" F] by (simp add: accounted_def key_strategy_def)

lemma fast_path_acquire_inv:
  assumes inv: "lock_inv tk F lock slots" and a: "fast_path_acquire ty lock = Some lock'"
    and ty: "\<not> obtrusive (m_strategy lock) ty" and sz: "size F + 1 < 2 ^ 20"
  shows "lock_inv tk (add_mset ty F) lock' slots" "m_granted lock' = m_granted lock" "m_waiting lock' = m_waiting lock"
    "key lock' = key lock"
proof -
  have i: "shape tk F lock" "accounted tk F None lock" "exclusive tk F lock" "settled tk F lock slots" "idle_reset lock"
    and fo: "fast_ok (m_strategy lock) F"
    using inv by (auto simp: lock_inv_def shape_def)
  have c0: "m_obtrusive_locks_granted_waiting_count lock = 0"
    and l': "lock' = lock\<lparr>m_fast_path_state := m_fast_path_state lock + strategy_increment (m_strategy lock) ty\<rparr>"
    using a accounted_obtrusive_flag [OF i(2) fo]
    by (auto simp: fast_path_acquire_def get_unobtrusive_lock_increment_def split: if_splits)
  show "m_granted lock' = m_granted lock" "m_waiting lock' = m_waiting lock" "key lock' = key lock"
    by (simp_all add: l')
  have "\<not> incompat (m_strategy lock) (type_of tk g) ty" if "g \<in> set (granted lock)" for g
    using obtrusive_count_0 [OF i(2) c0] that ty unobtrusive_compat unfolding key_strategy_def by blast
  then have "exclusive tk (add_mset ty F) lock'"
    using i(3) by (auto simp: exclusive_def l')
  moreover have "shape tk (add_mset ty F) lock'"
    using i(1) fo ty sz by (intro shape_granted [OF i(1)]) (auto simp: l' shape_def)
  moreover have "accounted tk (add_mset ty F) None lock'"
    using i(2) by (simp add: accounted_def l' obtrusive_tickets_def pending_obtrusive_def fps_of_add)
  moreover have "settled tk (add_mset ty F) lock' slots"
    using i(4) by (rule settled_granted) (simp_all add: l')
  ultimately show "lock_inv tk (add_mset ty F) lock' slots"
    using i(5) by (simp add: lock_inv_def idle_reset_def l')
qed

text \<open>A ticket that may join the lists of a lock.\<close>

definition fresh_ticket :: "ticket_heap \<Rightarrow> nat \<Rightarrow> MDL_lock \<Rightarrow> bool" where
  "fresh_ticket tk t lock \<longleftrightarrow>
     t \<notin> set (granted lock) \<and> t \<notin> set (waiting lock) \<and> is_legal (m_strategy lock) (type_of tk t) \<and> m_lock (tk t) = key lock"

lemma add_granted_locked:
  assumes "shape tk F lock" "accounted tk F (Some (type_of tk t)) lock" "exclusive tk F lock" "fresh_ticket tk t lock"
    "\<And>g. g \<in> set (granted lock) \<Longrightarrow> ctx_of tk g = ctx_of tk t \<or> \<not> incompat (m_strategy lock) (type_of tk t) (type_of tk g)"
    "\<And>f. f \<in># F \<Longrightarrow> \<not> incompat (m_strategy lock) (type_of tk t) f"
    and l': "lock' = lock\<lparr>m_granted := add_ticket tk t (m_granted lock)\<rparr>"
  shows "locked tk F lock'"
proof -
  have "list_ok tk (m_granted lock')"
    using assms(1,4) by (auto simp: l' shape_def fresh_ticket_def intro: list_ok_add_ticket)
  then have "shape tk F lock'"
    using assms(1,4) by (intro shape_granted [OF assms(1)]) (auto simp: l' fresh_ticket_def shape_def)
  moreover have "accounted tk F None lock'"
    by (rule accounted_pend [OF assms(2)]) (simp_all add: l' obtrusive_tickets_def pending_obtrusive_def)
  moreover have "exclusive tk F lock'"
    by (rule exclusive_granted [OF assms(3) _ _ assms(5,6)]) (auto simp: l')
  ultimately show ?thesis
    by (simp add: locked_def)
qed

lemma slow_path_grant_inv:
  assumes inv: "lock_inv tk F lock slots" and t: "fresh_ticket tk t lock"
    and g: "grantable tk F lock (type_of tk t) (ctx_of tk t)"
    and r: "slow_path_grant tk lim t (slow_path_begin (type_of tk t) lock, slots) = (lock', slots')"
  shows "lock_inv tk F lock' slots'"
    "slots_granted tk (lock\<lparr>m_granted := add_ticket tk t (m_granted lock)\<rparr>) slots lock' slots'"
proof -
  have i: "shape tk F lock" "accounted tk F None lock" "exclusive tk F lock" "settled tk F lock slots"
    using inv by (auto simp: lock_inv_def)
  define l1 where "l1 = slow_path_begin (type_of tk t) lock"
  define l2 where "l2 = l1\<lparr>m_granted := add_ticket tk t (m_granted l1)\<rparr>"
  note b = slow_path_begin_props [OF i(1,2) l1_def]
  have sh1: "shape tk F l1"
    using i(1) b affected_cong [OF b(1)] by (simp add: shape_def)
  have lk: "locked tk F l2"
    using g t i(3) b
    by (intro add_granted_locked [OF sh1 b(7) _ _ _ _ l2_def]) (auto simp: exclusive_def fresh_ticket_def grantable_def)
  have st: "settled tk F l2 slots"
    using i(4) by (rule settled_granted) (auto simp: l2_def b)
  obtain l3 ch where c: "count_if_affected lim (type_of tk t) l2 = (l3, ch)"
    by fastforce
  have sh2: "shape tk F l2"
    using lk by (simp add: locked_def)
  note p = counted_props [OF c sh2]
  have lk3: "locked tk F l3"
    using lk p by (simp add: locked_def)
  have ne: "granted l3 \<noteq> []"
    by (simp add: p(5) l2_def)
  have r': "(if ch then reschedule_waiters tk lim (l3, slots) else (l3, slots)) = (lock', slots')"
    using r c by (cases ch) (simp_all add: slow_path_grant_def Let_def l1_def l2_def)
  have sg: "slots_granted tk (lock\<lparr>m_granted := add_ticket tk t (m_granted lock)\<rparr>) slots l3 slots"
    by (simp add: slots_granted_def p l2_def b)
  have "lock_inv tk F lock' slots' \<and> slots_granted tk l3 slots lock' slots'"
  proof (cases ch)
    case True
    then show ?thesis using reschedule_waiters_inv [OF lk3] ne r' by auto
  next
    case False
    have "settled tk F l3 slots"
      using st p(4) [OF False] by (simp add: settled_def p)
    then show ?thesis
      using lk3 ne r' False by (auto simp: lock_inv_def locked_def idle_reset_def slots_granted_refl)
  qed
  then show "lock_inv tk F lock' slots'"
    "slots_granted tk (lock\<lparr>m_granted := add_ticket tk t (m_granted lock)\<rparr>) slots lock' slots'"
    using slots_granted_trans [OF sg] by blast+
qed

lemma uncount_props:
  assumes "fast_ok (m_strategy lock) F" "accounted tk F (Some ty) lock" "lock' = uncount_ticket ty lock"
  shows "key lock' = key lock" "m_granted lock' = m_granted lock" "m_waiting lock' = m_waiting lock"
    "m_current_waiting_incompatible_idx lock' = m_current_waiting_incompatible_idx lock"
    "m_hog_lock_count lock' = m_hog_lock_count lock" "m_piglet_lock_count lock' = m_piglet_lock_count lock"
    "accounted tk F None lock'"
proof -
  show f: "key lock' = key lock" "m_granted lock' = m_granted lock" "m_waiting lock' = m_waiting lock"
    "m_current_waiting_incompatible_idx lock' = m_current_waiting_incompatible_idx lock"
    "m_hog_lock_count lock' = m_hog_lock_count lock" "m_piglet_lock_count lock' = m_piglet_lock_count lock"
    by (simp_all add: assms(3) uncount_ticket_def Let_def)
  have flags: "(fps_of (m_strategy lock) a b F AND NOT HAS_SLOW_PATH) = fps_of (m_strategy lock) False b F"
    "(fps_of (m_strategy lock) a b F AND NOT HAS_OBTRUSIVE) = fps_of (m_strategy lock) a False F" for a b
    using fps_of_flags [OF assms(1) [unfolded key_strategy_def]] by (simp_all add: key_strategy_def)
  show "accounted tk F None lock'"
    unfolding accounted_def obtrusive_tickets_def f
    using assms(2) unfolding accounted_def obtrusive_tickets_def
    by (auto simp: assms(3) uncount_ticket_def Let_def flags clear_flags_def pending_obtrusive_def)
qed

lemma abandon_inv:
  assumes inv: "lock_inv tk F lock slots" and l': "lock' = uncount_ticket ty (slow_path_begin ty lock)"
  shows "lock_inv tk F lock' slots" "key lock' = key lock" "m_granted lock' = m_granted lock" "m_waiting lock' = m_waiting lock"
proof -
  have i: "shape tk F lock" "accounted tk F None lock" "fast_ok (m_strategy lock) F"
    using inv by (auto simp: lock_inv_def shape_def)
  note b = slow_path_begin_props [OF i(1,2) refl, of ty]
  note u = uncount_props [OF _ b(7) l', unfolded b(1-6), OF i(3)]
  show "key lock' = key lock" "m_granted lock' = m_granted lock" "m_waiting lock' = m_waiting lock"
    by (rule u)+
  show "lock_inv tk F lock' slots"
    using inv u affected_cong [OF u(1)] unfolding lock_inv_def shape_def exclusive_def settled_def grantable_def idle_reset_def
    by simp
qed

lemma enqueue_inv:
  assumes inv: "lock_inv tk F lock slots" and t: "fresh_ticket tk t lock"
    and g: "\<not> grantable tk F lock (type_of tk t) (ctx_of tk t)"
    and c: "\<And>w. w \<in> set (waiting lock) \<Longrightarrow> ctx_of tk w \<noteq> ctx_of tk t"
    and r: "enqueue_waiting tk t (slow_path_begin (type_of tk t) lock, slots) = (lock', slots')"
  shows "lock_inv tk F lock' slots'" "key lock' = key lock" "m_granted lock' = m_granted lock" "waiting lock' = waiting lock @ [t]"
    "slots' = slots(ctx_of tk t := WS_EMPTY)"
proof -
  have i: "shape tk F lock" "accounted tk F None lock" "exclusive tk F lock" "settled tk F lock slots"
    using inv by (auto simp: lock_inv_def)
  define l1 where "l1 = slow_path_begin (type_of tk t) lock"
  note b = slow_path_begin_props [OF i(1,2) l1_def]
  have l': "lock' = l1\<lparr>m_waiting := add_ticket tk t (m_waiting l1)\<rparr>" and s': "slots' = slots(ctx_of tk t := WS_EMPTY)"
    using r by (simp_all add: enqueue_waiting_def l1_def reset_status_def)
  show f: "key lock' = key lock" "m_granted lock' = m_granted lock" "waiting lock' = waiting lock @ [t]"
    "slots' = slots(ctx_of tk t := WS_EMPTY)"
    by (simp_all add: l' b s')
  have "list_ok tk (m_waiting lock')"
    using i(1) t by (auto simp: l' b shape_def fresh_ticket_def intro: list_ok_add_ticket)
  moreover have idx: "m_current_waiting_incompatible_idx lock' = m_current_waiting_incompatible_idx lock"
    by (simp add: l' b)
  moreover have "inj_on (ctx_of tk) (set (waiting lock @ [t]))"
  proof -
    have "ctx_of tk t \<notin> ctx_of tk ` set (waiting lock)"
      using c by (metis imageE)
    then show ?thesis
      using i(1) t by (simp add: shape_def fresh_ticket_def)
  qed
  ultimately have "shape tk F lock'"
    using i(1) t affected_cong [OF f(1)] unfolding shape_def f idx by (auto simp: fresh_ticket_def)
  moreover have "accounted tk F None lock'"
    by (rule accounted_pend [OF b(7)]) (simp_all add: l' b obtrusive_tickets_def pending_obtrusive_def)
  moreover have "exclusive tk F lock'"
    using i(3) by (simp add: exclusive_def f)
  moreover have "\<not> grantable tk F lock' (type_of tk v) (ctx_of tk v)" if "\<not> grantable tk F lock (type_of tk v) (ctx_of tk v)" for v
    by (intro not_grantable_mono [OF that]) (auto simp: f idx)
  then have "settled tk F lock' slots'"
    using i(4) g c by (auto simp: settled_def f)
  ultimately show "lock_inv tk F lock' slots'"
    by (simp add: lock_inv_def idle_reset_def f)
qed

text \<open>Taking a ticket out of its list leaves a request that has to be accounted for.\<close>

lemma accounted_remove:
  assumes "accounted tk F None lock" "key lock' = key lock" "t \<in> set (granted lock) \<union> set (waiting lock)"
    "length (obtrusive_tickets tk lock) = length (obtrusive_tickets tk lock') + of_bool (obtrusive (m_strategy lock) (type_of tk t))"
    "m_fast_path_state lock' = m_fast_path_state lock"
    "m_obtrusive_locks_granted_waiting_count lock' = m_obtrusive_locks_granted_waiting_count lock"
  shows "accounted tk F (Some (type_of tk t)) lock'"
proof -
  have "granted lock \<noteq> [] \<or> waiting lock \<noteq> []"
    using assms(3) by auto
  then show ?thesis
    using assms by (simp add: accounted_def pending_obtrusive_def)
qed

lemma exclusive_mono:
  assumes "exclusive tk F lock" "key lock' = key lock" "set (granted lock') \<subseteq> set (granted lock)" "set_mset F' \<subseteq> set_mset F"
  shows "exclusive tk F' lock'"
  using assms(1,3,4) unfolding exclusive_def assms(2) by blast

lemma remove_granted_locked:
  assumes l: "locked tk F lock" and t: "t \<in> set (granted lock)"
    and l': "lock' = lock\<lparr>m_granted := list_remove_ticket tk t (m_granted lock)\<rparr>"
  shows "shape tk F lock'" "accounted tk F (Some (type_of tk t)) lock'" "exclusive tk F lock'"
proof -
  have i: "shape tk F lock" "accounted tk F None lock" "exclusive tk F lock"
    using l by (auto simp: locked_def)
  have "list_ok tk (m_granted lock')"
    using i(1) by (simp add: l' shape_def list_ok_remove)
  then show "shape tk F lock'"
    using i(1) by (intro shape_granted [OF i(1)]) (auto simp: l' shape_def dest: notin_set_remove1 set_remove1_subset [THEN subsetD])
  show "accounted tk F (Some (type_of tk t)) lock'"
    using t length_filter_remove1 [OF t, of "\<lambda>t. obtrusive (m_strategy lock) (type_of tk t)"]
    by (intro accounted_remove [OF i(2)]) (auto simp: l' obtrusive_tickets_def)
  show "exclusive tk F lock'"
    by (rule exclusive_mono [OF i(3)]) (simp_all add: l' set_remove1_subset)
qed

lemma remove_waiting_locked:
  assumes l: "locked tk F lock" and t: "t \<in> set (waiting lock)"
    and l': "lock' = lock\<lparr>m_waiting := list_remove_ticket tk t (m_waiting lock)\<rparr>"
  shows "shape tk F lock'" "accounted tk F (Some (type_of tk t)) lock'" "exclusive tk F lock'"
proof -
  have i: "shape tk F lock" "accounted tk F None lock" "exclusive tk F lock"
    using l by (auto simp: locked_def)
  have "list_ok tk (m_waiting lock')"
    using i(1) by (simp add: l' shape_def list_ok_remove)
  then show "shape tk F lock'"
    using i(1) affected_cong [of lock' lock] set_remove1_subset [of t "waiting lock"]
    by (auto simp: l' shape_def intro: inj_on_subset dest: set_remove1_subset [THEN subsetD])
  show "accounted tk F (Some (type_of tk t)) lock'"
    using t length_filter_remove1 [OF t, of "\<lambda>t. obtrusive (m_strategy lock) (type_of tk t)"]
    by (intro accounted_remove [OF i(2)]) (auto simp: l' obtrusive_tickets_def)
  show "exclusive tk F lock'"
    using i(3) by (simp add: exclusive_def l')
qed

text \<open>The lock with a ticket taken out of one of the lists.\<close>

definition taken_out :: "ticket_heap \<Rightarrow> ticket_queue \<Rightarrow> nat \<Rightarrow> MDL_lock \<Rightarrow> MDL_lock" where
  "taken_out tk queue t lock =
     (case queue of
        Granted_queue \<Rightarrow> lock\<lparr>m_granted := list_remove_ticket tk t (m_granted lock)\<rparr>
      | Waiting_queue \<Rightarrow> lock\<lparr>m_waiting := list_remove_ticket tk t (m_waiting lock)\<rparr>)"

lemma lock_remove_ticket_inv:
  assumes inv: "lock_inv tk F lock slots"
    and t: "queue = Granted_queue \<and> t \<in> set (granted lock) \<or> queue = Waiting_queue \<and> t \<in> set (waiting lock)"
    and r: "lock_remove_ticket tk lim queue t (lock, slots) = (lock', slots')"
  shows "lock_inv tk F lock' slots'" "slots_granted tk (taken_out tk queue t lock) slots lock' slots'"
proof -
  define l1 where "l1 = taken_out tk queue t lock"
  define l2 where "l2 = uncount_ticket (type_of tk t) l1"
  have lk: "locked tk F lock"
    using inv by (simp add: lock_inv_def locked_def)
  have i: "shape tk F l1" "accounted tk F (Some (type_of tk t)) l1" "exclusive tk F l1"
    using t remove_granted_locked [OF lk _ refl, of t] remove_waiting_locked [OF lk _ refl, of t]
    by (auto simp: l1_def taken_out_def)
  have fo: "fast_ok (m_strategy l1) F"
    using i(1) by (simp add: shape_def)
  note u = uncount_props [OF fo i(2) l2_def]
  have lk2: "locked tk F l2"
    using i(1,3) u affected_cong [OF u(1)] by (simp add: locked_def shape_def exclusive_def)
  have r': "(if granted l2 = [] \<and> waiting l2 = []
       then (l2\<lparr>m_hog_lock_count := 0, m_piglet_lock_count := 0, m_current_waiting_incompatible_idx := 0\<rparr>, slots)
       else reschedule_waiters tk lim (l2, slots)) = (lock', slots')"
    using r by (simp only: lock_remove_ticket_def Let_def l2_def l1_def taken_out_def fst_conv snd_conv)
  have sg: "slots_granted tk l1 slots l2 slots"
    by (simp add: slots_granted_def u)
  have "lock_inv tk F lock' slots' \<and> slots_granted tk l2 slots lock' slots'"
  proof (cases "granted l2 = [] \<and> waiting l2 = []")
    case True
    then have e: "lock' = l2\<lparr>m_hog_lock_count := 0, m_piglet_lock_count := 0, m_current_waiting_incompatible_idx := 0\<rparr>" "slots' = slots"
      using r' by auto
    have "shape tk F lock'" "accounted tk F None lock'" "exclusive tk F lock'"
      using lk2 True by (auto simp: locked_def shape_def accounted_def exclusive_def obtrusive_tickets_def pending_obtrusive_def e)
    then show ?thesis
      using True by (simp add: lock_inv_def settled_def idle_reset_def slots_granted_def e)
  next
    case False
    then show ?thesis using reschedule_waiters_inv [OF lk2 _] r' by auto
  qed
  then show "lock_inv tk F lock' slots'" "slots_granted tk (taken_out tk queue t lock) slots lock' slots'"
    using slots_granted_trans [OF sg] by (auto simp: l1_def)
qed

text \<open>Without obtrusive tickets nothing is waiting for a grant.\<close>

lemma unobtrusive_grantable:
  assumes "shape tk F lock" "accounted tk F None lock" "m_obtrusive_locks_granted_waiting_count lock = 0" "w \<in> set (waiting lock)"
  shows "grantable tk F lock (type_of tk w) (ctx_of tk w)"
proof -
  have u: "\<not> obtrusive (m_strategy lock) (type_of tk t)" if "t \<in> set (granted lock) \<union> set (waiting lock)" for t
    using obtrusive_count_0 [OF assms(2,3) that] .
  have n: "\<not> incompat (m_strategy lock) (type_of tk w) x" if "\<not> obtrusive (m_strategy lock) x" for x
    using unobtrusive_compat u [of w] that assms(4) unfolding key_strategy_def by blast
  have s: "m_current_waiting_incompatible_idx lock < 4" "\<And>t. t \<in> set (waiting lock) \<Longrightarrow> is_legal (m_strategy lock) (type_of tk t)"
    "\<And>f. f \<in># F \<Longrightarrow> \<not> obtrusive (m_strategy lock) f"
    using assms(1) by (auto simp: shape_def fast_ok_def)
  have "\<not> yields_to (m_strategy lock) (m_current_waiting_incompatible_idx lock) (type_of tk w) (type_of tk v)"
    if "v \<in> set (waiting lock)" for v
    using n [OF u [of v]] that yields_to_incompat s(1) s(2) [OF that] unfolding key_strategy_def by blast
  then show ?thesis
    using n u s(3) by (auto simp: grantable_def)
qed

lemma fast_path_release_inv:
  assumes inv: "lock_inv tk F lock slots" and ty: "ty \<in># F"
    and r: "fast_path_release tk lim ty (lock, slots) = (lock', slots')"
  shows "lock_inv tk (F - {#ty#}) lock' slots'" "slots_granted tk lock slots lock' slots'"
proof -
  have i: "shape tk F lock" "accounted tk F None lock" "exclusive tk F lock" "settled tk F lock slots" "idle_reset lock"
    and fo: "fast_ok (m_strategy lock) F"
    using inv by (auto simp: lock_inv_def shape_def)
  define l1 where "l1 = lock\<lparr>m_fast_path_state := m_fast_path_state lock - strategy_increment (m_strategy lock) ty\<rparr>"
  have fo': "fast_ok (m_strategy lock) (F - {#ty#})"
    using fo ty by (auto simp: fast_ok_def size_Diff_singleton dest: in_diffD)
  have lk: "locked tk (F - {#ty#}) l1"
  proof -
    have "shape tk (F - {#ty#}) l1"
      using i(1) fo' by (intro shape_granted [OF i(1)]) (auto simp: l1_def shape_def)
    moreover have "accounted tk (F - {#ty#}) None l1"
      using i(2) fps_of_add(2) [OF ty, of "m_strategy lock"]
      by (simp add: accounted_def l1_def obtrusive_tickets_def pending_obtrusive_def)
    moreover have "exclusive tk (F - {#ty#}) l1"
      by (rule exclusive_mono [OF i(3)]) (auto simp: l1_def dest: in_diffD)
    ultimately show ?thesis by (simp add: locked_def)
  qed
  have sg: "slots_granted tk lock slots l1 slots"
    by (simp add: slots_granted_def l1_def)
  have flag: "m_fast_path_state lock AND HAS_OBTRUSIVE \<noteq> 0 \<longleftrightarrow> m_obtrusive_locks_granted_waiting_count lock \<noteq> 0"
    using accounted_obtrusive_flag [OF i(2) fo] by simp
  have r': "(if m_obtrusive_locks_granted_waiting_count lock \<noteq> 0 then reschedule_waiters tk lim (l1, slots) else (l1, slots)) = (lock', slots')"
    using r by (cases "m_obtrusive_locks_granted_waiting_count lock = 0")
      (simp_all add: fast_path_release_def Let_def flag get_unobtrusive_lock_increment_def l1_def)
  have "lock_inv tk (F - {#ty#}) lock' slots' \<and> slots_granted tk l1 slots lock' slots'"
  proof (cases "m_obtrusive_locks_granted_waiting_count lock = 0")
    case True
    have "slots (ctx_of tk w) \<noteq> WS_EMPTY" if "w \<in> set (waiting lock)" for w
      using unobtrusive_grantable [OF i(1,2) True that] i(4) that by (auto simp: settled_def)
    then have "settled tk (F - {#ty#}) l1 slots"
      by (simp add: settled_def l1_def)
    then show ?thesis
      using True r' lk i(5) by (auto simp: lock_inv_def locked_def idle_reset_def slots_granted_refl l1_def)
  next
    case False
    then have "granted l1 \<noteq> [] \<or> waiting l1 \<noteq> []"
      using i(2) by (auto simp: accounted_def obtrusive_tickets_def pending_obtrusive_def l1_def)
    then show ?thesis
      using reschedule_waiters_inv [OF lk] r' False by auto
  qed
  then show "lock_inv tk (F - {#ty#}) lock' slots'" "slots_granted tk lock slots lock' slots'"
    using slots_granted_trans [OF sg] by auto
qed

lemma materialize_ticket_inv:
  assumes inv: "lock_inv tk F lock slots" and t: "fresh_ticket tk t lock" "type_of tk t \<in># F"
    and own: "\<And>w. w \<in> set (waiting lock) \<Longrightarrow> ctx_of tk w = ctx_of tk t \<Longrightarrow> \<not> obtrusive (m_strategy lock) (type_of tk w)"
    and l': "lock' = materialize_ticket tk t lock"
  shows "lock_inv tk (F - {#type_of tk t#}) lock' slots" "key lock' = key lock" "m_waiting lock' = m_waiting lock"
    "granted lock' = granted lock @ [t]"
proof -
  let ?F = "F - {#type_of tk t#}"
  have i: "shape tk F lock" "accounted tk F None lock" "exclusive tk F lock" "settled tk F lock slots"
    and fo: "fast_ok (m_strategy lock) F"
    using inv by (auto simp: lock_inv_def shape_def)
  show f: "key lock' = key lock" "m_waiting lock' = m_waiting lock" "granted lock' = granted lock @ [t]"
    by (simp_all add: l' materialize_ticket_def)
  have idx: "m_current_waiting_incompatible_idx lock' = m_current_waiting_incompatible_idx lock"
    by (simp add: l' materialize_ticket_def)
  have fo': "fast_ok (m_strategy lock) ?F"
    using fo t(2) by (auto simp: fast_ok_def size_Diff_singleton dest: in_diffD)
  have u: "\<not> obtrusive (m_strategy lock) f" if "f \<in># F" for f
    using fo that by (simp add: fast_ok_def)
  have "list_ok tk (m_granted lock')"
    using i(1) t(1) by (auto simp: l' materialize_ticket_def shape_def fresh_ticket_def intro: list_ok_add_ticket)
  then have sh: "shape tk ?F lock'"
    using t(1) fo' by (intro shape_granted [OF i(1) f(1,2) idx]) (auto simp: f fresh_ticket_def)
  have "m_fast_path_state lock' = fps_of (m_strategy lock) True (m_obtrusive_locks_granted_waiting_count lock \<noteq> 0) ?F"
    using i(2) fps_of_flags(1) [OF fo' [unfolded key_strategy_def]]
    by (simp add: l' materialize_ticket_def get_unobtrusive_lock_increment_def accounted_def fps_of_add(2) [OF t(2)] key_strategy_def)
  then have ac: "accounted tk ?F None lock'"
    using i(2) u [OF t(2)] by (simp add: accounted_def pending_obtrusive_def obtrusive_tickets_def f) (simp add: l' materialize_ticket_def)
  have "\<not> incompat (m_strategy lock) (type_of tk t) f" if "f \<in># F" for f
    using u [OF that] u [OF t(2)] unobtrusive_compat unfolding key_strategy_def by blast
  moreover have "\<not> incompat (m_strategy lock) (type_of tk t) (type_of tk g)" if "g \<in> set (granted lock)" for g
    using i(3) t(2) that incompat_sym unfolding exclusive_def key_strategy_def by blast
  ultimately have "exclusive tk F lock'"
    by (intro exclusive_granted [OF i(3) f(1), of t]) (auto simp: f)
  then have ex: "exclusive tk ?F lock'"
    by (rule exclusive_mono) (auto dest: in_diffD)
  have "\<not> grantable tk ?F lock' (type_of tk v) (ctx_of tk v)"
    if v: "v \<in> set (waiting lock)" "\<not> grantable tk F lock (type_of tk v) (ctx_of tk v)" for v
  proof (rule not_grantable_mono [OF v(2) f(1)])
    fix x assume x: "x \<in># F" "incompat (m_strategy lock) (type_of tk v) x"
    have "ctx_of tk t \<noteq> ctx_of tk v"
      using own [OF v(1)] unobtrusive_compat u [OF x(1)] x(2) unfolding key_strategy_def by metis
    then show "x \<in># ?F \<or> (\<exists>g' \<in> set (granted lock'). ctx_of tk g' \<noteq> ctx_of tk v \<and> incompat (m_strategy lock) (type_of tk v) (type_of tk g'))"
      using x by (cases "x = type_of tk t") (auto simp: f in_diff_count)
  qed (auto simp: f idx)
  then have "settled tk ?F lock' slots"
    using i(4) by (auto simp: settled_def f)
  then show "lock_inv tk ?F lock' slots"
    using sh ac ex by (simp add: lock_inv_def idle_reset_def f)
qed


text \<open>A clone, on the fast path and on the slow path.\<close>

lemma clone_fast_inv:
  assumes inv: "lock_inv tk F lock slots" and u: "stronger_or_equal (m_strategy lock) U (type_of tk t)" "U \<in># F" "size F + 1 < 2 ^ 20"
    and t: "m_is_fast_path (tk t)" "is_legal (m_strategy lock) (type_of tk t)"
    and l': "lock' = clone_in_lock tk t lock"
  shows "lock_inv tk (add_mset (type_of tk t) F) lock' slots" "key lock' = key lock" "m_waiting lock' = m_waiting lock"
    "m_granted lock' = m_granted lock"
proof -
  have i: "shape tk F lock" "accounted tk F None lock" "exclusive tk F lock" "settled tk F lock slots" "idle_reset lock"
    and fo: "fast_ok (m_strategy lock) F"
    using inv by (auto simp: lock_inv_def shape_def)
  have l'': "lock' = lock\<lparr>m_fast_path_state := m_fast_path_state lock + strategy_increment (m_strategy lock) (type_of tk t)\<rparr>"
    using t(1) by (simp add: l' clone_in_lock_def get_unobtrusive_lock_increment_def)
  show "key lock' = key lock" "m_waiting lock' = m_waiting lock" "m_granted lock' = m_granted lock"
    by (simp_all add: l'')
  have ty: "\<not> obtrusive (m_strategy lock) (type_of tk t)"
    using stronger_unobtrusive u(1,2) fo t(2) unfolding fast_ok_def key_strategy_def by blast
  have "\<not> incompat (m_strategy lock) (type_of tk g) (type_of tk t)" if "g \<in> set (granted lock)" for g
    using i(3) that u(1,2) incompat_sym unfolding exclusive_def key_strategy_def stronger_or_equal_iff by blast
  then have "exclusive tk (add_mset (type_of tk t) F) lock'"
    using i(3) by (auto simp: exclusive_def l'')
  moreover have "shape tk (add_mset (type_of tk t) F) lock'"
    using i(1) fo ty u(3) by (intro shape_granted [OF i(1)]) (auto simp: l'' shape_def)
  moreover have "accounted tk (add_mset (type_of tk t) F) None lock'"
    using i(2) by (simp add: accounted_def l'' obtrusive_tickets_def pending_obtrusive_def fps_of_add)
  moreover have "settled tk (add_mset (type_of tk t) F) lock' slots"
    using i(4) by (rule settled_granted) (simp_all add: l'')
  ultimately show "lock_inv tk (add_mset (type_of tk t) F) lock' slots"
    using i(5) by (simp add: lock_inv_def idle_reset_def l'')
qed

lemma clone_slow_inv:
  assumes inv: "lock_inv tk F lock slots" and u: "stronger_or_equal (m_strategy lock) (type_of tk g) (type_of tk t)"
      "g \<in> set (granted lock)" "ctx_of tk g = ctx_of tk t"
    and t: "\<not> m_is_fast_path (tk t)" "fresh_ticket tk t lock"
    and l': "lock' = clone_in_lock tk t lock"
  shows "lock_inv tk F lock' slots" "key lock' = key lock" "m_waiting lock' = m_waiting lock"
    "granted lock' = granted lock @ [t]"
proof -
  have i: "shape tk F lock" "accounted tk F None lock" "exclusive tk F lock" "settled tk F lock slots"
    and legal: "is_legal (m_strategy lock) (type_of tk t)"
    using inv t(2) by (auto simp: lock_inv_def fresh_ticket_def)
  define l1 where "l1 = lock\<lparr>m_obtrusive_locks_granted_waiting_count :=
    m_obtrusive_locks_granted_waiting_count lock + of_bool (obtrusive (m_strategy lock) (type_of tk t))\<rparr>"
  have l'': "lock' = l1\<lparr>m_granted := add_ticket tk t (m_granted l1)\<rparr>"
    using t(1) by (simp add: l' clone_in_lock_def l1_def Let_def)
  show f: "key lock' = key lock" "m_waiting lock' = m_waiting lock" "granted lock' = granted lock @ [t]"
    by (simp_all add: l'' l1_def)
  have c0: "m_obtrusive_locks_granted_waiting_count lock \<noteq> 0" if "obtrusive (m_strategy lock) (type_of tk t)"
    using that obtrusive_count_0 [OF i(2), of g] u(1,2) stronger_unobtrusive legal unfolding key_strategy_def by auto
  have st: "\<not> incompat (m_strategy lock) (type_of tk t) x" if "\<not> incompat (m_strategy lock) (type_of tk g) x" for x
    using that u(1) unfolding key_strategy_def stronger_or_equal_iff by blast
  have "locked tk F lock'"
  proof (rule add_granted_locked [OF _ _ _ _ _ _ l''])
    show "shape tk F l1"
      using i(1) by (intro shape_granted [OF i(1)]) (auto simp: l1_def shape_def)
    show "accounted tk F (Some (type_of tk t)) l1"
    proof -
      have "granted lock \<noteq> []"
        using u(2) by auto
      moreover have "(m_obtrusive_locks_granted_waiting_count l1 \<noteq> 0) = (m_obtrusive_locks_granted_waiting_count lock \<noteq> 0)"
        using c0 by (cases "obtrusive (m_strategy lock) (type_of tk t)") (simp_all add: l1_def)
      ultimately show ?thesis
        using i(2) unfolding accounted_def by (simp add: l1_def obtrusive_tickets_def pending_obtrusive_def)
    qed
    show "exclusive tk F l1"
      using i(3) by (simp add: exclusive_def l1_def)
    show "ctx_of tk h = ctx_of tk t \<or> \<not> incompat (m_strategy l1) (type_of tk t) (type_of tk h)"
      if "h \<in> set (granted l1)" for h
      using i(3) u(2,3) st [of "type_of tk h"] that unfolding exclusive_def l1_def by fastforce
    show "\<not> incompat (m_strategy l1) (type_of tk t) f" if "f \<in># F" for f
      using i(3) u(2) st that by (simp add: exclusive_def l1_def)
    show "fresh_ticket tk t l1"
      using t(2) by (simp add: fresh_ticket_def l1_def)
  qed
  moreover have "settled tk F lock' slots"
    using i(4) by (rule settled_granted) (auto simp: l'' l1_def)
  ultimately show "lock_inv tk F lock' slots"
    by (simp add: lock_inv_def locked_def idle_reset_def f)
qed


text \<open>
  A downgrade and the merge of an upgrade change the type of a granted ticket. What the rest of the lock
  needs is that the two heaps agree on the other tickets.
\<close>

definition retyped :: "ticket_heap \<Rightarrow> ticket_heap \<Rightarrow> nat \<Rightarrow> bool" where
  "retyped tk tk' t \<longleftrightarrow>
     (\<forall>u. u \<noteq> t \<longrightarrow> type_of tk' u = type_of tk u) \<and> (\<forall>u. ctx_of tk' u = ctx_of tk u \<and> m_lock (tk' u) = m_lock (tk u))"

definition same_tickets :: "ticket_heap \<Rightarrow> ticket_heap \<Rightarrow> MDL_lock \<Rightarrow> bool" where
  "same_tickets tk tk' lock \<longleftrightarrow>
     (\<forall>u \<in> set (granted lock) \<union> set (waiting lock).
        type_of tk' u = type_of tk u \<and> ctx_of tk' u = ctx_of tk u \<and> m_lock (tk' u) = m_lock (tk u))"

lemma same_tickets_sym: "same_tickets tk tk' lock \<Longrightarrow> same_tickets tk' tk lock"
  by (simp add: same_tickets_def)

lemma same_tickets_shape: "same_tickets tk tk' lock \<Longrightarrow> shape tk F lock \<Longrightarrow> shape tk' F lock"
  unfolding shape_def same_tickets_def
  by (auto simp: list_ok_cong [of _ tk' tk] Ball_def inj_on_def)

lemma same_obtrusive_tickets: "same_tickets tk tk' lock \<Longrightarrow> obtrusive_tickets tk' lock = obtrusive_tickets tk lock"
  unfolding obtrusive_tickets_def same_tickets_def by (intro filter_cong) auto

lemma same_tickets_accounted: "same_tickets tk tk' lock \<Longrightarrow> accounted tk F p lock \<Longrightarrow> accounted tk' F p lock"
  unfolding accounted_def
  by (simp add: same_obtrusive_tickets)

lemma same_tickets_exclusive: "same_tickets tk tk' lock \<Longrightarrow> exclusive tk F lock \<Longrightarrow> exclusive tk' F lock"
  unfolding exclusive_def same_tickets_def by simp

lemma same_tickets_settled:
  "same_tickets tk tk' lock \<Longrightarrow> settled tk F lock slots \<Longrightarrow> settled tk' F lock slots"
  unfolding settled_def grantable_def same_tickets_def by simp

lemma lock_inv_same:
  assumes "lock_inv tk F lock slots" "same_tickets tk tk' lock"
    "\<And>w. w \<in> set (waiting lock) \<Longrightarrow> slots' (ctx_of tk w) = WS_EMPTY \<Longrightarrow> slots (ctx_of tk w) = WS_EMPTY"
  shows "lock_inv tk' F lock slots'"
proof -
  have "settled tk F lock slots'"
    using assms(1,3) by (auto simp: lock_inv_def settled_def)
  then show ?thesis
    using assms(1,2) same_tickets_shape same_tickets_accounted same_tickets_exclusive same_tickets_settled
    unfolding lock_inv_def by blast
qed

text \<open>The counter and the flag when a pending obtrusive ticket becomes one of another type.\<close>

lemma accounted_retype:
  assumes "accounted tk F (Some old) lock" "obtrusive (m_strategy lock) old" "fast_ok (m_strategy lock) F"
    and l': "lock' = (if obtrusive (m_strategy lock) ty then lock
      else let lock = lock\<lparr>m_obtrusive_locks_granted_waiting_count := m_obtrusive_locks_granted_waiting_count lock - 1\<rparr>
        in if m_obtrusive_locks_granted_waiting_count lock = 0
           then lock\<lparr>m_fast_path_state := m_fast_path_state lock AND NOT HAS_OBTRUSIVE\<rparr> else lock)"
  shows "accounted tk F (Some ty) lock'" "key lock' = key lock" "m_granted lock' = m_granted lock" "m_waiting lock' = m_waiting lock"
    "m_current_waiting_incompatible_idx lock' = m_current_waiting_incompatible_idx lock"
proof -
  show f: "key lock' = key lock" "m_granted lock' = m_granted lock" "m_waiting lock' = m_waiting lock"
    "m_current_waiting_incompatible_idx lock' = m_current_waiting_incompatible_idx lock"
    by (simp_all add: l' Let_def)
  have flag: "fps_of (m_strategy lock) a b F AND NOT HAS_OBTRUSIVE = fps_of (m_strategy lock) a False F" for a b
    using fps_of_flags(4) [OF assms(3) [unfolded key_strategy_def]] by (simp add: key_strategy_def)
  show "accounted tk F (Some ty) lock'"
    unfolding accounted_def obtrusive_tickets_def f
    using assms(1,2) unfolding accounted_def obtrusive_tickets_def
    by (auto simp: l' Let_def flag pending_obtrusive_def)
qed

lemma downgrade_in_lock_inv:
  assumes inv: "lock_inv tk F lock slots" and t: "t \<in> set (granted lock)" "obtrusive (m_strategy lock) (type_of tk t)"
    and tk': "retyped tk tk' t" "is_legal (m_strategy lock) (type_of tk' t)"
      "stronger_or_equal (m_strategy lock) (type_of tk t) (type_of tk' t)"
    and r: "downgrade_in_lock tk tk' lim t (lock, slots) = (lock', slots')"
  shows "lock_inv tk' F lock' slots'" "slots_granted tk' lock slots lock' slots'"
proof -
  have lk: "locked tk F lock" and ex: "exclusive tk F lock" and ml: "m_lock (tk t) = key lock"
    and d: "distinct (granted lock)" "set (granted lock) \<inter> set (waiting lock) = {}" and fo: "fast_ok (m_strategy lock) F"
    using inv t(1) by (auto simp: lock_inv_def shape_def list_ok_def locked_def)
  define l0 where "l0 = lock\<lparr>m_granted := list_remove_ticket tk t (m_granted lock)\<rparr>"
  define l1 where "l1 = (if obtrusive (m_strategy l0) (type_of tk' t) then l0
      else let lock = l0\<lparr>m_obtrusive_locks_granted_waiting_count := m_obtrusive_locks_granted_waiting_count l0 - 1\<rparr>
        in if m_obtrusive_locks_granted_waiting_count lock = 0
           then lock\<lparr>m_fast_path_state := m_fast_path_state lock AND NOT HAS_OBTRUSIVE\<rparr> else lock)"
  define l2 where "l2 = l1\<lparr>m_granted := add_ticket tk' t (m_granted l1)\<rparr>"
  note l0 = remove_granted_locked [OF lk t(1) l0_def]
  have s0: "key l0 = key lock" "granted l0 = remove1 t (granted lock)" "m_waiting l0 = m_waiting lock"
    by (simp_all add: l0_def)
  have "obtrusive (m_strategy l0) (type_of tk t)" "fast_ok (m_strategy l0) F"
    using t(2) fo by (simp_all add: s0)
  note l1 = accounted_retype [OF l0(2) this l1_def]
  have same: "same_tickets tk tk' l1"
    using tk'(1) t(1) d by (auto simp: same_tickets_def retyped_def l1 s0)
  have "locked tk' F l2"
  proof (rule add_granted_locked [OF _ _ _ _ _ _ l2_def])
    have "shape tk F l1"
      using l0(1) by (intro shape_granted [OF l0(1)]) (auto simp: l1 s0 shape_def)
    then show "shape tk' F l1" "exclusive tk' F l1" "accounted tk' F (Some (type_of tk' t)) l1"
      using same_tickets_shape [OF same] same_tickets_exclusive [OF same] same_tickets_accounted [OF same] l1(1) l0(3)
      by (auto simp: exclusive_def l1)
    show "fresh_ticket tk' t l1"
      using tk' t(1) d ml by (auto simp: fresh_ticket_def l1 s0 retyped_def)
    have w: "\<not> incompat (m_strategy lock) (type_of tk' t) x" if "\<not> incompat (m_strategy lock) (type_of tk t) x" for x
      using that tk'(3) unfolding key_strategy_def stronger_or_equal_iff by blast
    show "ctx_of tk' h = ctx_of tk' t \<or> \<not> incompat (m_strategy l1) (type_of tk' t) (type_of tk' h)" if "h \<in> set (granted l1)" for h
      using ex t(1) d(1) tk'(1) w [of "type_of tk h"] that unfolding exclusive_def l1 s0 retyped_def by fastforce
    show "\<not> incompat (m_strategy l1) (type_of tk' t) f" if "f \<in># F" for f
      using ex t(1) w that by (simp add: exclusive_def l1 s0)
  qed
  moreover have r': "reschedule_waiters tk' lim (l2, slots) = (lock', slots')"
    using r unfolding downgrade_in_lock_def l2_def l1_def l0_def Let_def is_obtrusive_lock_iff fst_conv snd_conv .
  have g2: "granted l2 = remove1 t (granted lock) @ [t]" "m_waiting l2 = m_waiting lock" "key l2 = key lock"
    by (simp_all add: l2_def l1 s0)
  moreover have "slots_granted tk' lock slots l2 slots"
    using t(1) d(1) by (auto simp: slots_granted_def g2)
  ultimately show "lock_inv tk' F lock' slots'" "slots_granted tk' lock slots lock' slots'"
    using reschedule_waiters_inv [OF _ _ r', of F] slots_granted_trans [of tk' lock slots l2 slots]
    by (auto simp: g2)
qed

end
