(* ===== verification/Mdl_Upgrade.thy ===== *)
theory Mdl_Upgrade
  imports Mdl_Lock_Proofs
begin

text \<open>
  The merge at the end of an upgrade keeps the invariant of a metadata lock.
\<close>

unbundle bit_operations_syntax

text \<open>The merge of an upgrade, with the ticket \<open>e\<close> that has the new type in the old heap.\<close>

definition dropped :: "nat option \<Rightarrow> nat list \<Rightarrow> nat list" where
  "dropped n ts = (case n of None \<Rightarrow> ts | Some n \<Rightarrow> remove1 n ts)"

lemma upgrade_fields:
  assumes "lock' = upgrade_in_lock tk tk' t new lock"
  shows "key lock' = key lock" "m_waiting lock' = m_waiting lock"
    "m_current_waiting_incompatible_idx lock' = m_current_waiting_incompatible_idx lock"
    "granted lock' = (if m_is_fast_path (tk t) then dropped new (granted lock) else remove1 t (dropped new (granted lock))) @ [t]"
    "m_fast_path_state lock' = (if m_is_fast_path (tk t) then m_fast_path_state lock - strategy_increment (m_strategy lock) (type_of tk t)
       else m_fast_path_state lock)"
    "m_obtrusive_locks_granted_waiting_count lock' =
       m_obtrusive_locks_granted_waiting_count lock - of_bool (new \<noteq> None)
         - of_bool (\<not> m_is_fast_path (tk t) \<and> obtrusive (m_strategy lock) (type_of tk t)) + 1"
  by (simp_all add: assms upgrade_in_lock_def Let_def dropped_def get_unobtrusive_lock_increment_def split: option.split)

definition upgrade_ready ::
    "ticket_heap \<Rightarrow> ticket_heap \<Rightarrow> enum_mdl_type multiset \<Rightarrow> MDL_lock \<Rightarrow> nat \<Rightarrow> nat \<Rightarrow> nat option \<Rightarrow> bool" where
  "upgrade_ready tk tk' F lock t e new \<longleftrightarrow>
     e \<in> set (granted lock) \<and> e \<noteq> t \<and> ctx_of tk e = ctx_of tk t
     \<and> stronger_or_equal (m_strategy lock) (type_of tk e) (type_of tk' t) \<and> (new = None \<or> new = Some e \<and> type_of tk e = type_of tk' t)
     \<and> retyped tk tk' t \<and> is_legal (m_strategy lock) (type_of tk' t) \<and> obtrusive (m_strategy lock) (type_of tk' t)
     \<and> stronger_or_equal (m_strategy lock) (type_of tk' t) (type_of tk t)
     \<and> m_lock (tk t) = key lock \<and> t \<notin> set (waiting lock)
     \<and> (if m_is_fast_path (tk t) then type_of tk t \<in># F \<and> t \<notin> set (granted lock) else t \<in> set (granted lock))
     \<and> (\<forall>w \<in> set (waiting lock). ctx_of tk w \<noteq> ctx_of tk t)"

definition without_fast :: "ticket_heap \<Rightarrow> nat \<Rightarrow> enum_mdl_type multiset \<Rightarrow> enum_mdl_type multiset" where
  "without_fast tk t F = (if m_is_fast_path (tk t) then F - {#type_of tk t#} else F)"

lemma without_fast_in: "f \<in># without_fast tk t F \<Longrightarrow> f \<in># F"
  by (auto simp: without_fast_def dest: in_diffD split: if_splits)

lemma fast_ok_without: "fast_ok st F \<Longrightarrow> fast_ok st (without_fast tk t F)"
  using size_mset_mono [of "F - {#type_of tk t#}" F] by (auto simp: without_fast_def fast_ok_def dest: in_diffD)

lemma upgrade_granted:
  assumes "upgrade_ready tk tk' F lock t e new" "lock' = upgrade_in_lock tk tk' t new lock" "distinct (granted lock)"
  shows "distinct (granted lock')" "set (granted lock') = insert t (set (granted lock) - set_option new)"
  using assms(1,3) unfolding upgrade_fields(4) [OF assms(2)] upgrade_ready_def dropped_def by auto

lemma retyped_same:
  assumes "retyped tk tk' t" "t \<notin> set (granted lock)" "t \<notin> set (waiting lock)"
  shows "same_tickets tk tk' lock"
  using assms unfolding same_tickets_def retyped_def by (metis Un_iff)

lemma upgrade_shape:
  assumes r: "upgrade_ready tk tk' F lock t e new" and s: "shape tk F lock" and l': "lock' = upgrade_in_lock tk tk' t new lock"
  shows "shape tk' (without_fast tk t F) lock'"
proof -
  define g where "g = (if m_is_fast_path (tk t) then id else list_remove_ticket tk t)
    (case new of None \<Rightarrow> m_granted lock | Some n \<Rightarrow> list_remove_ticket tk n (m_granted lock))"
  define l where "l = lock\<lparr>m_granted := g\<rparr>"
  have d: "distinct (granted lock)" "set (granted lock) \<inter> set (waiting lock) = {}" "list_ok tk (m_granted lock)"
    "fast_ok (m_strategy lock) F"
    using s by (auto simp: shape_def list_ok_def)
  have lf: "key l = key lock" "m_waiting l = m_waiting lock" "m_granted l = g"
    "m_current_waiting_incompatible_idx l = m_current_waiting_incompatible_idx lock"
    by (simp_all add: l_def)
  have ok: "list_ok tk g"
    using d(3) by (auto simp: g_def list_ok_remove split: option.split)
  have sub: "set (m_list g) \<subseteq> set (granted lock) - {t}"
    using r d(1) by (auto simp: g_def upgrade_ready_def split: option.split if_splits dest: notin_set_remove1)
  have l: "shape tk (without_fast tk t F) l"
    by (rule shape_granted [OF s lf(1,2,4)]) (use ok d(4) sub in \<open>auto simp: lf fast_ok_without\<close>)
  have "same_tickets tk tk' l"
    by (rule retyped_same) (use r sub in \<open>auto simp: upgrade_ready_def lf\<close>)
  then have l: "shape tk' (without_fast tk t F) l"
    using l by (rule same_tickets_shape)
  have g: "m_granted lock' = add_ticket tk' t g"
    by (auto simp: l' upgrade_in_lock_def Let_def g_def split: option.split)
  have "list_ok tk' g" "fast_ok (m_strategy l) (without_fast tk t F)"
    using l by (simp_all add: shape_def lf)
  moreover have "t \<notin> set (m_list g)" "t \<notin> set (waiting lock)" "is_legal (m_strategy lock) (type_of tk' t)" "m_lock (tk' t) = key lock"
    using sub r by (auto simp: upgrade_ready_def retyped_def)
  ultimately show ?thesis
    using upgrade_fields(1-3) [OF l'] by (intro shape_granted [OF l]) (auto simp: g lf list_ok_add_ticket)
qed

lemma upgrade_obtrusive:
  assumes r: "upgrade_ready tk tk' F lock t e new" and a: "accounted tk F None lock"
  shows "obtrusive (m_strategy lock) (type_of tk e)" "m_obtrusive_locks_granted_waiting_count lock \<noteq> 0"
proof -
  show o: "obtrusive (m_strategy lock) (type_of tk e)"
    using r stronger_unobtrusive unfolding upgrade_ready_def key_strategy_def by blast
  show "m_obtrusive_locks_granted_waiting_count lock \<noteq> 0"
    using o obtrusive_count_0 [OF a, of e] r by (auto simp: upgrade_ready_def)
qed

lemma upgrade_count:
  assumes r: "upgrade_ready tk tk' F lock t e new" and a: "accounted tk F None lock"
    and d: "distinct (granted lock)" and l': "lock' = upgrade_in_lock tk tk' t new lock"
  shows "m_obtrusive_locks_granted_waiting_count lock' = length (obtrusive_tickets tk' lock')"
proof -
  let ?P = "\<lambda>u. obtrusive (m_strategy lock) (type_of tk u)"
  define g where "g = dropped new (granted lock)"
  define h where "h = (if m_is_fast_path (tk t) then g else remove1 t g)"
  have P': "?P u \<longleftrightarrow> obtrusive (m_strategy lock) (type_of tk' u)" if "u \<noteq> t" for u
    using r that by (simp add: upgrade_ready_def retyped_def)
  have "length (filter ?P (granted lock)) = length (filter ?P g) + of_bool (new \<noteq> None)"
    using r upgrade_obtrusive(1) [OF r a] length_filter_remove1 [of e "granted lock" ?P]
    by (auto simp: g_def dropped_def upgrade_ready_def)
  moreover have "length (filter ?P g) = length (filter ?P h) + of_bool (\<not> m_is_fast_path (tk t) \<and> ?P t)"
  proof (cases "m_is_fast_path (tk t)")
    case False
    then have "t \<in> set g"
      using r by (auto simp: upgrade_ready_def g_def dropped_def)
    then show ?thesis
      using length_filter_remove1 [of t g ?P] False by (simp add: h_def)
  qed (simp add: h_def)
  moreover have "t \<notin> set h" "t \<notin> set (waiting lock)"
    using r d by (auto simp: h_def g_def dropped_def upgrade_ready_def split: option.split dest: notin_set_remove1)
  then have "filter (\<lambda>u. obtrusive (m_strategy lock) (type_of tk' u)) h = filter ?P h"
    "filter (\<lambda>u. obtrusive (m_strategy lock) (type_of tk' u)) (waiting lock) = filter ?P (waiting lock)"
    by (intro filter_cong refl; metis P')+
  moreover have "granted lock' = h @ [t]"
    unfolding upgrade_fields(4) [OF l'] h_def g_def by simp
  moreover have "obtrusive (m_strategy lock) (type_of tk' t)"
    using r by (simp add: upgrade_ready_def)
  ultimately show ?thesis
    using a upgrade_fields(6) [OF l']
    by (simp add: obtrusive_tickets_def upgrade_fields(1,2) [OF l'] accounted_def pending_obtrusive_def)
qed

lemma upgrade_accounted:
  assumes r: "upgrade_ready tk tk' F lock t e new" and a: "accounted tk F None lock" and s: "shape tk F lock"
    and l': "lock' = upgrade_in_lock tk tk' t new lock"
  shows "accounted tk' (without_fast tk t F) None lock'"
proof -
  have d: "distinct (granted lock)"
    using s by (simp add: shape_def list_ok_def)
  have "granted lock \<noteq> []" "m_is_fast_path (tk t) \<Longrightarrow> type_of tk t \<in># F"
    using r by (auto simp: upgrade_ready_def)
  moreover have "m_fast_path_state lock = fps_of (m_strategy lock) (granted lock \<noteq> [] \<or> waiting lock \<noteq> [])
      (m_obtrusive_locks_granted_waiting_count lock \<noteq> 0) F"
    using a by (simp add: accounted_def)
  ultimately have "m_fast_path_state lock' = fps_of (m_strategy lock) True True (without_fast tk t F)"
    unfolding upgrade_fields(5) [OF l'] using upgrade_obtrusive(2) [OF r a]
    by (simp add: without_fast_def fps_of_add)
  moreover have "m_obtrusive_locks_granted_waiting_count lock' \<noteq> 0"
    unfolding upgrade_fields(6) [OF l'] by simp
  ultimately show ?thesis
    using upgrade_count [OF r a d l']
    unfolding accounted_def upgrade_fields(1,4) [OF l'] by (simp add: pending_obtrusive_def)
qed

lemma upgrade_exclusive:
  assumes r: "upgrade_ready tk tk' F lock t e new" and x: "exclusive tk F lock" and s: "shape tk F lock"
    and l': "lock' = upgrade_in_lock tk tk' t new lock"
  shows "exclusive tk' (without_fast tk t F) lock'"
proof -
  have d: "distinct (granted lock)"
    using s by (simp add: shape_def list_ok_def)
  note g = upgrade_granted(2) [OF r l' d]
  have w: "incompat (m_strategy lock) (type_of tk' t) c \<Longrightarrow> incompat (m_strategy lock) (type_of tk e) c" for c
    using r unfolding upgrade_ready_def key_strategy_def stronger_or_equal_iff by blast
  have e: "e \<in> set (granted lock)" "ctx_of tk e = ctx_of tk t"
    using r by (auto simp: upgrade_ready_def)
  have h: "ctx_of tk h = ctx_of tk t \<or> \<not> incompat (m_strategy lock) (type_of tk' t) (type_of tk h)" if "h \<in> set (granted lock)" for h
    using w [of "type_of tk h"] e x that unfolding exclusive_def by metis
  have f: "\<not> incompat (m_strategy lock) (type_of tk' t) f" if "f \<in># F" for f
    using w [of f] e x that unfolding exclusive_def by blast
  have tk': "type_of tk' u = (if u = t then type_of tk' t else type_of tk u)" "ctx_of tk' u = ctx_of tk u" for u
    using r by (auto simp: upgrade_ready_def retyped_def)
  have st: "m_strategy lock' = m_strategy lock"
    by (simp add: upgrade_fields(1) [OF l'])
  have old: "\<not> incompat (m_strategy lock) (type_of tk a) f" if "a \<in> set (granted lock)" "f \<in># F" for a f
    using x that unfolding exclusive_def by blast
  have pair: "ctx_of tk a = ctx_of tk b \<or> \<not> incompat (m_strategy lock) (type_of tk' a) (type_of tk' b)"
    if "a \<in> set (granted lock')" "b \<in> set (granted lock')" for a b
  proof (cases "a = t"; cases "b = t")
    assume "a = t" "b \<noteq> t"
    then show ?thesis using h [of b] that(2) tk'(1) [of b] by (auto simp: g)
  next
    assume "a \<noteq> t" "b = t"
    then show ?thesis using h [of a] that(1) tk'(1) [of a] incompat_sym unfolding g key_strategy_def by auto
  next
    assume "a \<noteq> t" "b \<noteq> t"
    then show ?thesis using that x tk'(1) [of a] tk'(1) [of b] unfolding g exclusive_def by auto
  qed simp
  have "\<not> incompat (m_strategy lock) (type_of tk' a) f" if "a \<in> set (granted lock')" "f \<in># without_fast tk t F" for a f
    using f [OF without_fast_in [OF that(2)]] old [OF _ without_fast_in [OF that(2)], of a] that(1) tk'(1) [of a]
    by (cases "a = t") (auto simp: g)
  with pair show ?thesis
    unfolding exclusive_def st tk'(2) by blast
qed

lemma upgrade_settled:
  assumes r: "upgrade_ready tk tk' F lock t e new" and x: "settled tk F lock slots" and s: "shape tk F lock"
    and l': "lock' = upgrade_in_lock tk tk' t new lock"
  shows "settled tk' (without_fast tk t F) lock' slots"
proof -
  have d: "distinct (granted lock)"
    using s by (simp add: shape_def list_ok_def)
  note g = upgrade_granted(2) [OF r l' d] and f = upgrade_fields(1-3) [OF l']
  have t: "incompat (m_strategy lock) c (type_of tk t) \<Longrightarrow> incompat (m_strategy lock) c (type_of tk' t)"
    and own: "v \<in> set (waiting lock) \<Longrightarrow> ctx_of tk t \<noteq> ctx_of tk v" for c v
    using r incompat_sym unfolding upgrade_ready_def key_strategy_def stronger_or_equal_iff by metis+
  have tk': "type_of tk' u = (if u = t then type_of tk' t else type_of tk u)" "ctx_of tk' u = ctx_of tk u" for u
    using r by (auto simp: upgrade_ready_def retyped_def)
  have new: "set_option new = {} \<or> set_option new = {e} \<and> type_of tk e = type_of tk' t" "ctx_of tk e = ctx_of tk t"
    and tw: "t \<notin> set (waiting lock)"
    using r by (auto simp: upgrade_ready_def)
  have "\<not> grantable tk' (without_fast tk t F) lock' (type_of tk v) (ctx_of tk v)"
    if v: "v \<in> set (waiting lock)" "\<not> grantable tk F lock (type_of tk v) (ctx_of tk v)" for v
  proof (rule not_grantable_mono [OF v(2) f(1)])
    fix u assume u: "u \<in> set (granted lock)" "ctx_of tk u \<noteq> ctx_of tk v" "incompat (m_strategy lock) (type_of tk v) (type_of tk u)"
    show "\<exists>g' \<in> set (granted lock'). ctx_of tk' g' \<noteq> ctx_of tk v \<and> incompat (m_strategy lock) (type_of tk v) (type_of tk' g')"
    proof (cases "u = t \<or> u \<in> set_option new")
      case True
      then have "incompat (m_strategy lock) (type_of tk v) (type_of tk' t)"
        using new(1) u(3) t by auto
      then show ?thesis
        using own [OF v(1)] unfolding g tk'(2) by blast
    next
      case False
      then show ?thesis
        using u tk'(1) [of u] unfolding g tk'(2) by force
    qed
  next
    fix x assume x: "x \<in># F" "incompat (m_strategy lock) (type_of tk v) x"
    show "x \<in># without_fast tk t F \<or>
      (\<exists>g' \<in> set (granted lock'). ctx_of tk' g' \<noteq> ctx_of tk v \<and> incompat (m_strategy lock) (type_of tk v) (type_of tk' g'))"
    proof (cases "x = type_of tk t")
      case True
      then show ?thesis
        using own [OF v(1)] t x(2) unfolding g tk'(2) by blast
    next
      case False
      then show ?thesis
        using x(1) by (simp add: without_fast_def in_diff_count)
    qed
  next
    show "type_of tk' w = type_of tk w \<and> ctx_of tk' w = ctx_of tk w" if "w \<in> set (waiting lock)" for w
      using tk'(1) [of w] tk'(2) tw that by auto
  qed (auto simp: f)
  then have "\<not> grantable tk' (without_fast tk t F) lock' (type_of tk' v) (ctx_of tk' v)"
    if "v \<in> set (waiting lock)" "slots (ctx_of tk v) = WS_EMPTY" for v
    using that x tk'(1) [of v] tk'(2) [of v] tw unfolding settled_def by auto
  then show ?thesis
    unfolding settled_def f(2) tk'(2) by blast
qed

lemma upgrade_in_lock_inv:
  assumes "upgrade_ready tk tk' F lock t e new" "lock_inv tk F lock slots" "lock' = upgrade_in_lock tk tk' t new lock"
  shows "lock_inv tk' (without_fast tk t F) lock' slots"
proof -
  have "granted lock' \<noteq> []"
    unfolding upgrade_fields(4) [OF assms(3)] by simp
  then show ?thesis
    using assms(1,2) upgrade_shape [OF assms(1) _ assms(3)] upgrade_accounted [OF assms(1) _ _ assms(3)]
      upgrade_exclusive [OF assms(1) _ _ assms(3)] upgrade_settled [OF assms(1) _ _ assms(3)]
    unfolding lock_inv_def idle_reset_def by blast
qed

end
