(* ===== verification/Mdl_Store.thy ===== *)
theory Mdl_Store
  imports Mdl_Lock
begin

text \<open>
  The tickets of one connection (\<open>MDL_ticket_store\<close> of \<open>sql/mdl.h\<close> and \<open>sql/mdl.cc\<close>): three
  lists, one for each duration, and a hash index that is kept when there are many tickets. Tickets are
  addresses of the heap \<open>tk\<close>. The position at which the multimap puts a new element among the elements
  with the same key is not specified by the standard, so it is the parameter \<open>pos\<close>.
\<close>

section \<open>Data\<close>

record MDL_request =
  req_type :: enum_mdl_type
  req_duration :: enum_mdl_duration
  req_key :: MDL_key

record MDL_ticket_handle =
  m_dur :: enum_mdl_duration
  m_ticket :: nat

record Duration =
  m_ticket_list :: "nat list"
  m_mat_front :: "nat option"

type_synonym Ticket_map = "MDL_key \<Rightarrow> MDL_ticket_handle list"

record MDL_ticket_store =
  m_durations :: "enum_mdl_duration \<Rightarrow> Duration"
  m_count :: nat
  m_map :: "Ticket_map option"

type_synonym emplace_pos = "MDL_key \<Rightarrow> MDL_ticket_handle list \<Rightarrow> nat"

definition THRESHOLD :: nat where
  "THRESHOLD = 256"

definition empty_store :: MDL_ticket_store where
  "empty_store = \<lparr>m_durations = (\<lambda>_. \<lparr>m_ticket_list = [], m_mat_front = None\<rparr>), m_count = 0, m_map = None\<rparr>"

abbreviation tickets_in :: "MDL_ticket_store \<Rightarrow> enum_mdl_duration \<Rightarrow> nat list" where
  "tickets_in s d \<equiv> m_ticket_list (m_durations s d)"

text \<open>All tickets, in the order of \<open>for_each_ticket_in_ticket_lists\<close>.\<close>

definition ticket_lists :: "MDL_ticket_store \<Rightarrow> MDL_ticket_handle list" where
  "ticket_lists s = concat (map (\<lambda>d. map (\<lambda>t. \<lparr>m_dur = d, m_ticket = t\<rparr>) (tickets_in s d)) [MDL_STATEMENT, MDL_TRANSACTION, MDL_EXPLICIT])"

section \<open>Lookup\<close>

primrec next_duration :: "enum_mdl_duration \<Rightarrow> enum_mdl_duration" where
  "next_duration MDL_STATEMENT = MDL_TRANSACTION"
| "next_duration MDL_TRANSACTION = MDL_EXPLICIT"
| "next_duration MDL_EXPLICIT = MDL_STATEMENT"

definition find_in_list :: "ticket_heap \<Rightarrow> MDL_request \<Rightarrow> MDL_ticket_store \<Rightarrow> enum_mdl_duration \<Rightarrow> MDL_ticket_handle option" where
  "find_in_list tk req s di =
     map_option (\<lambda>t. \<lparr>m_dur = di, m_ticket = t\<rparr>)
       (List.find (\<lambda>t. req_key req = m_lock (tk t) \<and> has_stronger_or_equal_type (tk t) (req_type req)) (tickets_in s di))"

definition find_in_lists :: "ticket_heap \<Rightarrow> MDL_request \<Rightarrow> MDL_ticket_store \<Rightarrow> MDL_ticket_handle option" where
  "find_in_lists tk req s =
     (let d0 = req_duration req; d1 = next_duration d0; d2 = next_duration d1 in
      case find_in_list tk req s d0 of Some h \<Rightarrow> Some h
      | None \<Rightarrow> (case find_in_list tk req s d1 of Some h \<Rightarrow> Some h | None \<Rightarrow> find_in_list tk req s d2))"

text \<open>The scan of the elements with the requested key stops at the requested duration.\<close>

fun scan_range :: "ticket_heap \<Rightarrow> MDL_request \<Rightarrow> MDL_ticket_handle list \<Rightarrow> MDL_ticket_handle option \<Rightarrow> MDL_ticket_handle option" where
  "scan_range tk req [] found_handle = found_handle"
| "scan_range tk req (th # ths) found_handle =
     (if \<not> has_stronger_or_equal_type (tk (m_ticket th)) (req_type req) then scan_range tk req ths found_handle
      else if m_dur th = req_duration req then Some th
      else scan_range tk req ths (Some th))"

definition find_in_hash :: "ticket_heap \<Rightarrow> MDL_request \<Rightarrow> Ticket_map \<Rightarrow> MDL_ticket_handle option" where
  "find_in_hash tk req m = scan_range tk req (m (req_key req)) None"

definition store_find :: "ticket_heap \<Rightarrow> MDL_request \<Rightarrow> MDL_ticket_store \<Rightarrow> MDL_ticket_handle option" where
  "store_find tk req s =
     (case m_map s of None \<Rightarrow> find_in_lists tk req s
      | Some m \<Rightarrow> if m_count s < THRESHOLD then find_in_lists tk req s else find_in_hash tk req m)"

definition store_is_empty :: "MDL_ticket_store \<Rightarrow> bool" where
  "store_is_empty s \<longleftrightarrow> tickets_in s MDL_STATEMENT = [] \<and> tickets_in s MDL_TRANSACTION = [] \<and> tickets_in s MDL_EXPLICIT = []"

definition store_front :: "MDL_ticket_store \<Rightarrow> enum_mdl_duration \<Rightarrow> nat option" where
  "store_front s di = (case tickets_in s di of [] \<Rightarrow> None | t # _ \<Rightarrow> Some t)"

section \<open>Updates\<close>

definition emplace :: "emplace_pos \<Rightarrow> MDL_key \<Rightarrow> MDL_ticket_handle \<Rightarrow> Ticket_map \<Rightarrow> Ticket_map" where
  "emplace pos k h m = m(k := take (pos k (m k)) (m k) @ h # drop (pos k (m k)) (m k))"

definition set_list :: "enum_mdl_duration \<Rightarrow> nat list \<Rightarrow> MDL_ticket_store \<Rightarrow> MDL_ticket_store" where
  "set_list d ts s = s\<lparr>m_durations := (m_durations s)(d := (m_durations s d)\<lparr>m_ticket_list := ts\<rparr>)\<rparr>"

definition set_mat_front :: "enum_mdl_duration \<Rightarrow> nat option \<Rightarrow> MDL_ticket_store \<Rightarrow> MDL_ticket_store" where
  "set_mat_front d t s = s\<lparr>m_durations := (m_durations s)(d := (m_durations s d)\<lparr>m_mat_front := t\<rparr>)\<rparr>"

definition push_front :: "emplace_pos \<Rightarrow> ticket_heap \<Rightarrow> enum_mdl_duration \<Rightarrow> nat \<Rightarrow> MDL_ticket_store \<Rightarrow> MDL_ticket_store" where
  "push_front pos tk dur ticket s =
     (let s = set_list dur (ticket # tickets_in s dur) (s\<lparr>m_count := m_count s + 1\<rparr>) in
      if m_count s < THRESHOLD then s
      else if m_count s = THRESHOLD then
        s\<lparr>m_map := Some (fold (\<lambda>h. emplace pos (m_lock (tk (m_ticket h))) h) (ticket_lists s)
              (case m_map s of None \<Rightarrow> (\<lambda>_. []) | Some m \<Rightarrow> m))\<rparr>
      else s\<lparr>m_map := map_option (emplace pos (m_lock (tk ticket)) \<lparr>m_dur = dur, m_ticket = ticket\<rparr>) (m_map s)\<rparr>)"

fun next_in_context :: "nat \<Rightarrow> nat list \<Rightarrow> nat option" where
  "next_in_context t [] = None"
| "next_in_context t [x] = None"
| "next_in_context t (x # y # xs) = (if x = t then Some y else next_in_context t (y # xs))"

fun erase_handle :: "nat \<Rightarrow> MDL_ticket_handle list \<Rightarrow> MDL_ticket_handle list" where
  "erase_handle t [] = []"
| "erase_handle t (h # hs) = (if m_ticket h = t then hs else h # erase_handle t hs)"

definition store_remove :: "ticket_heap \<Rightarrow> enum_mdl_duration \<Rightarrow> nat \<Rightarrow> MDL_ticket_store \<Rightarrow> MDL_ticket_store" where
  "store_remove tk dur ticket s0 =
     (let s = set_list dur (remove1 ticket (tickets_in s0 dur)) (s0\<lparr>m_count := m_count s0 - 1\<rparr>);
          s = (if m_mat_front (m_durations s dur) = Some ticket
               then set_mat_front dur (next_in_context ticket (tickets_in s0 dur)) s else s) in
      if m_count s < THRESHOLD - 1 then s
      else if m_count s = THRESHOLD - 1 then s\<lparr>m_map := map_option (\<lambda>_ _. []) (m_map s)\<rparr>
      else s\<lparr>m_map := map_option (\<lambda>m. m(m_lock (tk ticket) := erase_handle ticket (m (m_lock (tk ticket))))) (m_map s)\<rparr>)"

text \<open>Moving the tickets of a list, one by one, to the front of another.\<close>

definition move_tickets :: "enum_mdl_duration \<Rightarrow> enum_mdl_duration \<Rightarrow> MDL_ticket_store \<Rightarrow> MDL_ticket_store" where
  "move_tickets from to s =
     fold (\<lambda>t s. set_list to (t # tickets_in s to) (set_list from (remove1 t (tickets_in s from)) s)) (tickets_in s from) s"

definition swap_lists :: "enum_mdl_duration \<Rightarrow> enum_mdl_duration \<Rightarrow> MDL_ticket_store \<Rightarrow> MDL_ticket_store" where
  "swap_lists a b s = set_list a (tickets_in s b) (set_list b (tickets_in s a) s)"

definition set_map_durations :: "enum_mdl_duration \<Rightarrow> MDL_ticket_store \<Rightarrow> MDL_ticket_store" where
  "set_map_durations d s = s\<lparr>m_map := map_option (\<lambda>m k. map (\<lambda>h. h\<lparr>m_dur := d\<rparr>) (m k)) (m_map s)\<rparr>"

definition move_all_to_explicit_duration :: "MDL_ticket_store \<Rightarrow> MDL_ticket_store" where
  "move_all_to_explicit_duration s =
     (let s = set_mat_front MDL_EXPLICIT None s;
          s = swap_lists MDL_EXPLICIT MDL_TRANSACTION s;
          s = move_tickets MDL_STATEMENT MDL_EXPLICIT (set_mat_front MDL_STATEMENT None s);
          s = move_tickets MDL_TRANSACTION MDL_EXPLICIT (set_mat_front MDL_TRANSACTION None s)
      in set_map_durations MDL_EXPLICIT s)"

definition move_explicit_to_transaction_duration :: "MDL_ticket_store \<Rightarrow> MDL_ticket_store" where
  "move_explicit_to_transaction_duration s =
     (let s = swap_lists MDL_TRANSACTION MDL_EXPLICIT s;
          s = move_tickets MDL_EXPLICIT MDL_TRANSACTION (set_mat_front MDL_EXPLICIT None s)
      in set_map_durations MDL_TRANSACTION s)"

definition set_materialized :: "MDL_ticket_store \<Rightarrow> MDL_ticket_store" where
  "set_materialized s = s\<lparr>m_durations := (\<lambda>d. (m_durations s d)\<lparr>m_mat_front := store_front s d\<rparr>)\<rparr>"

definition materialized_front :: "MDL_ticket_store \<Rightarrow> enum_mdl_duration \<Rightarrow> nat option" where
  "materialized_front s di = m_mat_front (m_durations s di)"

text \<open>The tickets that were added since the last materialization.\<close>

definition before_mat_front :: "Duration \<Rightarrow> nat list" where
  "before_mat_front d = takeWhile (\<lambda>t. Some t \<noteq> m_mat_front d) (m_ticket_list d)"

end
