(* ===== verification/Mdl_Store_Proofs.thy ===== *)
theory Mdl_Store_Proofs
  imports Mdl_Store "HOL-Library.Multiset"
begin

text \<open>
  The ticket store: the hash index holds the tickets of the lists, both lookups find an equally good
  ticket, and the tickets from \<open>m_mat_front\<close> on are materialized.
\<close>

section \<open>The lists and the index\<close>

definition handles :: "MDL_ticket_store \<Rightarrow> MDL_ticket_handle multiset" where
  "handles s = mset (ticket_lists s)"

definition ticket_set :: "MDL_ticket_store \<Rightarrow> nat set" where
  "ticket_set s = (\<Union>d. set (tickets_in s d))"

definition index_of :: "ticket_heap \<Rightarrow> MDL_ticket_store \<Rightarrow> Ticket_map \<Rightarrow> bool" where
  "index_of tk s m \<longleftrightarrow> (\<forall>k. mset (m k) = filter_mset (\<lambda>h. m_lock (tk (m_ticket h)) = k) (handles s))"

definition index_ok :: "ticket_heap \<Rightarrow> MDL_ticket_store \<Rightarrow> bool" where
  "index_ok tk s \<longleftrightarrow>
     (if m_count s < THRESHOLD then m_map s = None \<or> m_map s = Some (\<lambda>_. []) else \<exists>m. m_map s = Some m \<and> index_of tk s m)"

definition store_ok :: "ticket_heap \<Rightarrow> MDL_ticket_store \<Rightarrow> bool" where
  "store_ok tk s \<longleftrightarrow>
     distinct (map m_ticket (ticket_lists s)) \<and> m_count s = length (ticket_lists s) \<and> index_ok tk s"

lemma index_ok_small: "m_count s < THRESHOLD \<Longrightarrow> m_map s = None \<or> m_map s = Some (\<lambda>_. []) \<Longrightarrow> index_ok tk s"
  by (simp add: index_ok_def)

lemma index_ok_large: "\<not> m_count s < THRESHOLD \<Longrightarrow> m_map s = Some m \<Longrightarrow> index_of tk s m \<Longrightarrow> index_ok tk s"
  by (simp add: index_ok_def)

lemma durations_UNIV: "(UNIV :: enum_mdl_duration set) = {MDL_STATEMENT, MDL_TRANSACTION, MDL_EXPLICIT}"
  using enum_mdl_duration.exhaust by auto

lemma ticket_set_lists: "ticket_set s = m_ticket ` set (ticket_lists s)"
  by (auto simp: ticket_set_def ticket_lists_def durations_UNIV image_image image_Un)

lemma in_ticket_lists: "h \<in> set (ticket_lists s) \<longleftrightarrow> m_ticket h \<in> set (tickets_in s (m_dur h))"
proof (cases h)
  case (fields d t)
  then show ?thesis
    by (cases d) (auto simp: ticket_lists_def)
qed

lemma set_list_simps [simp]:
  "tickets_in (set_list d ts s) d' = (if d' = d then ts else tickets_in s d')"
  "m_count (set_list d ts s) = m_count s" "m_map (set_list d ts s) = m_map s"
  "m_mat_front (m_durations (set_list d ts s) d') = m_mat_front (m_durations s d')"
  by (simp_all add: set_list_def)

lemma set_mat_front_simps [simp]:
  "tickets_in (set_mat_front d t s) d' = tickets_in s d'"
  "m_count (set_mat_front d t s) = m_count s" "m_map (set_mat_front d t s) = m_map s"
  "m_mat_front (m_durations (set_mat_front d t s) d') = (if d' = d then t else m_mat_front (m_durations s d'))"
  by (simp_all add: set_mat_front_def)

lemma ticket_lists_cong: "(\<And>d. tickets_in s d = tickets_in s' d) \<Longrightarrow> ticket_lists s = ticket_lists s'"
  by (simp add: ticket_lists_def)

lemma handles_cons:
  "(\<And>d. tickets_in s' d = (if d = dur then t # tickets_in s dur else tickets_in s d)) \<Longrightarrow>
   handles s' = add_mset \<lparr>m_dur = dur, m_ticket = t\<rparr> (handles s)"
  by (cases dur) (simp_all add: handles_def ticket_lists_def)

lemma handles_remove:
  assumes "t \<in> set (tickets_in s dur)"
    "\<And>d. tickets_in s' d = (if d = dur then remove1 t (tickets_in s dur) else tickets_in s d)"
  shows "handles s = add_mset \<lparr>m_dur = dur, m_ticket = t\<rparr> (handles s')"
proof -
  have "mset (tickets_in s dur) = add_mset t (mset (remove1 t (tickets_in s dur)))"
    using assms(1) by simp
  then have "image_mset f (mset (tickets_in s dur)) = add_mset (f t) (image_mset f (mset (remove1 t (tickets_in s dur))))"
    for f :: "nat \<Rightarrow> MDL_ticket_handle"
    by (metis image_mset_add_mset)
  from this [of "\<lambda>t. \<lparr>m_dur = dur, m_ticket = t\<rparr>"] show ?thesis
    using assms(2) by (cases dur) (simp_all add: handles_def ticket_lists_def)
qed

lemma ticket_set_handles: "ticket_set s = m_ticket ` set_mset (handles s)"
  by (simp add: handles_def ticket_set_lists)

lemma distinct_handles:
  assumes "handles s' = add_mset h (handles s)"
  shows "distinct (map m_ticket (ticket_lists s')) \<longleftrightarrow> m_ticket h \<notin> ticket_set s \<and> distinct (map m_ticket (ticket_lists s))"
proof -
  have "mset (map m_ticket (ticket_lists s')) = mset (m_ticket h # map m_ticket (ticket_lists s))"
    using assms by (simp add: handles_def)
  then show ?thesis
    by (metis distinct.simps(2) mset_eq_imp_distinct_iff set_map ticket_set_lists)
qed

lemma handles_length: "handles s' = add_mset h (handles s) \<Longrightarrow> length (ticket_lists s') = length (ticket_lists s) + 1"
  by (metis Suc_eq_plus1 handles_def size_add_mset size_mset)

lemma mset_emplace: "mset (emplace pos k h m k') = mset (m k') + (if k = k' then {#h#} else {#})"
proof -
  have "mset xs = mset (take n xs) + mset (drop n xs)" for n and xs :: "MDL_ticket_handle list"
    by (metis append_take_drop_id mset_append)
  from this [of "m k" "pos k (m k)"] show ?thesis
    by (cases "k = k'") (simp_all add: emplace_def)
qed

lemma mset_fold_emplace:
  "mset (fold (\<lambda>h. emplace pos (f h) h) hs m k) = mset (m k) + filter_mset (\<lambda>h. f h = k) (mset hs)"
  by (induction hs arbitrary: m) (simp_all add: mset_emplace)

lemma mset_erase_handle:
  assumes "h \<in> set hs" "m_ticket h = t" "distinct (map m_ticket hs)"
  shows "mset hs = add_mset h (mset (erase_handle t hs))"
  using assms
proof (induction hs)
  case (Cons x hs)
  show ?case
  proof (cases "m_ticket x = t")
    case True
    then have "x = h"
      using Cons.prems by (auto simp: image_iff)
    with True show ?thesis by simp
  next
    case False
    then have "h \<in> set hs" "distinct (map m_ticket hs)"
      using Cons.prems by auto
    with False Cons show ?thesis by simp
  qed
qed simp

section \<open>Updates keep the index\<close>

lemma empty_store_ok: "store_ok tk empty_store"
  by (simp add: store_ok_def index_ok_def empty_store_def ticket_lists_def THRESHOLD_def)

lemma store_ok_same:
  assumes "store_ok tk s" "\<And>t. t \<in> ticket_set s \<Longrightarrow> m_lock (tk' t) = m_lock (tk t)"
  shows "store_ok tk' s"
proof -
  have "filter_mset (\<lambda>h. m_lock (tk' (m_ticket h)) = k) (handles s) = filter_mset (\<lambda>h. m_lock (tk (m_ticket h)) = k) (handles s)" for k
    using assms(2) by (intro filter_mset_cong) (auto simp: ticket_set_handles)
  then show ?thesis
    using assms(1) unfolding store_ok_def index_ok_def index_of_def by simp
qed

lemma push_front_tickets [simp]:
  "tickets_in (push_front pos tk dur t s) d = (if d = dur then t # tickets_in s dur else tickets_in s d)"
  "m_count (push_front pos tk dur t s) = m_count s + 1"
  "m_mat_front (m_durations (push_front pos tk dur t s) d) = m_mat_front (m_durations s d)"
  by (simp_all add: push_front_def Let_def)

lemma push_front_ok:
  assumes "store_ok tk s" "t \<notin> ticket_set s"
  shows "store_ok tk (push_front pos tk dur t s)"
proof -
  let ?s = "push_front pos tk dur t s" and ?h = "\<lparr>m_dur = dur, m_ticket = t\<rparr>"
  have h: "handles ?s = add_mset ?h (handles s)"
    by (rule handles_cons) simp
  have d: "distinct (map m_ticket (ticket_lists ?s))"
    using assms by (simp add: distinct_handles [OF h] store_ok_def)
  have c: "m_count ?s = length (ticket_lists ?s)"
    using assms(1) handles_length [OF h] by (simp add: store_ok_def)
  define s1 where "s1 = set_list dur (t # tickets_in s dur) (s\<lparr>m_count := m_count s + 1\<rparr>)"
  have h1: "mset (ticket_lists s1) = handles ?s"
    unfolding handles_def by (intro arg_cong [of _ _ mset] ticket_lists_cong) (simp add: s1_def set_list_def)
  have ix: "index_ok tk s"
    using assms(1) by (simp add: store_ok_def)
  consider "m_count s + 1 < THRESHOLD" | "m_count s + 1 = THRESHOLD" | "\<not> m_count s < THRESHOLD"
    by linarith
  then have "index_ok tk ?s"
  proof cases
    case 1
    then have "m_map ?s = m_map s"
      by (simp add: push_front_def Let_def)
    then show ?thesis
      using ix 1 by (intro index_ok_small) (simp_all add: index_ok_def)
  next
    case 2
    then have "m_map s = None \<or> m_map s = Some (\<lambda>_. [])"
      using ix by (simp add: index_ok_def)
    then have "m_map ?s = Some (fold (\<lambda>h. emplace pos (m_lock (tk (m_ticket h))) h) (ticket_lists s1) (\<lambda>_. []))"
      using 2 by (auto simp: push_front_def Let_def s1_def)
    moreover have "\<not> m_count ?s < THRESHOLD"
      using 2 by simp
    moreover have "index_of tk ?s (fold (\<lambda>h. emplace pos (m_lock (tk (m_ticket h))) h) (ticket_lists s1) (\<lambda>_. []))"
      unfolding index_of_def mset_fold_emplace h1 by simp
    ultimately show ?thesis
      by (intro index_ok_large)
  next
    case 3
    then obtain m where m: "m_map s = Some m" "index_of tk s m"
      using ix by (auto simp: index_ok_def)
    with 3 have "m_map ?s = Some (emplace pos (m_lock (tk t)) ?h m)"
      by (simp add: push_front_def Let_def)
    moreover have "index_of tk ?s (emplace pos (m_lock (tk t)) ?h m)"
      using m(2) unfolding index_of_def mset_emplace h by simp
    ultimately show ?thesis
      using 3 by (intro index_ok_large) simp_all
  qed
  then show ?thesis
    using d c by (simp only: store_ok_def)
qed


lemma store_remove_tickets [simp]:
  "tickets_in (store_remove tk dur t s) d = (if d = dur then remove1 t (tickets_in s dur) else tickets_in s d)"
  "m_count (store_remove tk dur t s) = m_count s - 1"
  "m_mat_front (m_durations (store_remove tk dur t s) d) =
     (if d = dur \<and> m_mat_front (m_durations s dur) = Some t then next_in_context t (tickets_in s dur) else m_mat_front (m_durations s d))"
  by (cases "m_mat_front (m_durations s dur) = Some t"; simp add: store_remove_def Let_def)+

lemma store_remove_map:
  "m_map (store_remove tk dur t s) =
     (if m_count s - 1 < THRESHOLD - 1 then m_map s else if m_count s - 1 = THRESHOLD - 1 then map_option (\<lambda>_ _. []) (m_map s)
      else map_option (\<lambda>m. m(m_lock (tk t) := erase_handle t (m (m_lock (tk t))))) (m_map s))"
  by (cases "m_mat_front (m_durations s dur) = Some t"; simp add: store_remove_def Let_def)

lemma index_distinct:
  assumes "index_of tk s m" "distinct (map m_ticket (ticket_lists s))"
  shows "distinct (map m_ticket (m k))" "h \<in> set (m k) \<longleftrightarrow> h \<in># handles s \<and> m_lock (tk (m_ticket h)) = k"
proof -
  have e: "mset (m k) = mset (filter (\<lambda>h. m_lock (tk (m_ticket h)) = k) (ticket_lists s))"
    using assms(1) unfolding index_of_def handles_def by simp
  then have "mset (map m_ticket (m k)) = mset (map m_ticket (filter (\<lambda>h. m_lock (tk (m_ticket h)) = k) (ticket_lists s)))"
    by simp
  then have "distinct (map m_ticket (m k)) = distinct (map m_ticket (filter (\<lambda>h. m_lock (tk (m_ticket h)) = k) (ticket_lists s)))"
    by (rule mset_eq_imp_distinct_iff)
  then show "distinct (map m_ticket (m k))"
    using distinct_map_filter [OF assms(2)] by simp
  show "h \<in> set (m k) \<longleftrightarrow> h \<in># handles s \<and> m_lock (tk (m_ticket h)) = k"
    using mset_eq_setD [OF e] by (simp add: handles_def)
qed

lemma store_remove_ok:
  assumes ok: "store_ok tk s" and t: "t \<in> set (tickets_in s dur)"
  shows "store_ok tk (store_remove tk dur t s)" "ticket_set (store_remove tk dur t s) = ticket_set s - {t}"
proof -
  let ?s = "store_remove tk dur t s" and ?h = "\<lparr>m_dur = dur, m_ticket = t\<rparr>"
  have h: "handles s = add_mset ?h (handles ?s)"
    using t by (rule handles_remove) simp
  have d: "distinct (map m_ticket (ticket_lists ?s))" "t \<notin> ticket_set ?s" "distinct (map m_ticket (ticket_lists s))"
    using ok distinct_handles [OF h] by (simp_all add: store_ok_def)
  show "ticket_set ?s = ticket_set s - {t}"
    using d(2) by (auto simp: ticket_set_handles h)
  define n where "n = length (ticket_lists ?s)"
  have c: "m_count s = Suc n" "m_count ?s = n"
    using ok handles_length [OF h] by (simp_all add: store_ok_def n_def)
  have ix: "index_ok tk s"
    using ok by (simp add: store_ok_def)
  consider "n < THRESHOLD - 1" | "n = THRESHOLD - 1" "n < THRESHOLD" | "\<not> n < THRESHOLD"
    unfolding THRESHOLD_def by fastforce
  then have "index_ok tk ?s"
  proof cases
    case 1
    then have "m_map ?s = m_map s" "Suc n < THRESHOLD" "n < THRESHOLD"
      by (simp_all add: store_remove_map c(1))
    then show ?thesis
      using ix by (simp add: index_ok_def c)
  next
    case 2
    then have "m_map ?s = map_option (\<lambda>_ _. []) (m_map s)"
      by (simp add: store_remove_map c(1))
    then show ?thesis
      using 2 by (auto simp: index_ok_def c)
  next
    case 3
    then obtain m where m: "m_map s = Some m" "index_of tk s m"
      using ix by (auto simp: index_ok_def c)
    let ?k = "m_lock (tk t)"
    have "m_map ?s = Some (m(?k := erase_handle t (m ?k)))"
      using 3 m(1) by (auto simp: store_remove_map c(1) THRESHOLD_def)
    moreover have "mset (m ?k) = add_mset ?h (mset (erase_handle t (m ?k)))"
      using index_distinct [OF m(2) d(3)] h by (intro mset_erase_handle) simp_all
    then have "index_of tk ?s (m(?k := erase_handle t (m ?k)))"
      using m(2) unfolding index_of_def h by auto
    ultimately show ?thesis
      using 3 by (intro index_ok_large) (simp_all add: c)
  qed
  then show "store_ok tk ?s"
    using d(1) c(2) by (simp only: store_ok_def n_def)
qed


section \<open>Moves between durations\<close>

lemma move_tickets_simps:
  assumes "distinct (tickets_in s from)" "from \<noteq> to"
  shows "tickets_in (move_tickets from to s) d =
      (if d = from then [] else if d = to then rev (tickets_in s from) @ tickets_in s to else tickets_in s d)"
    "m_count (move_tickets from to s) = m_count s" "m_map (move_tickets from to s) = m_map s"
    "m_mat_front (m_durations (move_tickets from to s) d) = m_mat_front (m_durations s d)"
proof -
  let ?f = "\<lambda>t s. set_list to (t # tickets_in s to) (set_list from (remove1 t (tickets_in s from)) s)"
  have *: "tickets_in s from = xs \<Longrightarrow> distinct xs \<Longrightarrow>
     tickets_in (fold ?f xs s) d = (if d = from then [] else if d = to then rev xs @ tickets_in s to else tickets_in s d)
     \<and> m_count (fold ?f xs s) = m_count s \<and> m_map (fold ?f xs s) = m_map s
     \<and> m_mat_front (m_durations (fold ?f xs s) d) = m_mat_front (m_durations s d)" for xs
    using assms(2) by (induction xs arbitrary: s) auto
  show "tickets_in (move_tickets from to s) d =
      (if d = from then [] else if d = to then rev (tickets_in s from) @ tickets_in s to else tickets_in s d)"
    "m_count (move_tickets from to s) = m_count s" "m_map (move_tickets from to s) = m_map s"
    "m_mat_front (m_durations (move_tickets from to s) d) = m_mat_front (m_durations s d)"
    using * [OF refl assms(1)] by (simp_all add: move_tickets_def)
qed

lemma store_distinct: "store_ok tk s \<Longrightarrow> distinct (tickets_in s d)"
  by (cases d) (auto simp: store_ok_def ticket_lists_def distinct_map comp_def)

lemma move_explicit_simps:
  assumes "store_ok tk s"
  shows "tickets_in (move_explicit_to_transaction_duration s) d =
      (case d of MDL_STATEMENT \<Rightarrow> tickets_in s MDL_STATEMENT
       | MDL_TRANSACTION \<Rightarrow> rev (tickets_in s MDL_TRANSACTION) @ tickets_in s MDL_EXPLICIT
       | MDL_EXPLICIT \<Rightarrow> [])"
    "m_count (move_explicit_to_transaction_duration s) = m_count s"
    "m_map (move_explicit_to_transaction_duration s) = map_option (\<lambda>m k. map (\<lambda>h. h\<lparr>m_dur := MDL_TRANSACTION\<rparr>) (m k)) (m_map s)"
    "m_mat_front (m_durations (move_explicit_to_transaction_duration s) d) =
      (if d = MDL_EXPLICIT then None else m_mat_front (m_durations s d))"
  using store_distinct [OF assms]
  by (auto simp: move_explicit_to_transaction_duration_def set_map_durations_def swap_lists_def Let_def move_tickets_simps
      split: enum_mdl_duration.split)

lemma move_all_simps:
  assumes "store_ok tk s"
  shows "tickets_in (move_all_to_explicit_duration s) d =
      (if d = MDL_EXPLICIT then rev (tickets_in s MDL_EXPLICIT) @ rev (tickets_in s MDL_STATEMENT) @ tickets_in s MDL_TRANSACTION else [])"
    "m_count (move_all_to_explicit_duration s) = m_count s"
    "m_map (move_all_to_explicit_duration s) = map_option (\<lambda>m k. map (\<lambda>h. h\<lparr>m_dur := MDL_EXPLICIT\<rparr>) (m k)) (m_map s)"
    "m_mat_front (m_durations (move_all_to_explicit_duration s) d) = None"
  using store_distinct [OF assms] enum_mdl_duration.exhaust [of d]
  by (auto simp: move_all_to_explicit_duration_def set_map_durations_def swap_lists_def Let_def move_tickets_simps)

text \<open>All tickets get the one duration, in the lists and in the index.\<close>

lemma redurated_ok:
  assumes ok: "store_ok tk s" and h: "handles s' = image_mset (\<lambda>h. h\<lparr>m_dur := d\<rparr>) (handles s)"
    and c: "m_count s' = m_count s" and m: "m_map s' = map_option (\<lambda>m k. map (\<lambda>h. h\<lparr>m_dur := d\<rparr>) (m k)) (m_map s)"
  shows "store_ok tk s'" "ticket_set s' = ticket_set s"
proof -
  have "mset (map m_ticket (ticket_lists s')) = mset (map m_ticket (ticket_lists s))"
    using arg_cong [OF h, of "image_mset m_ticket"] by (simp add: handles_def image_mset.compositionality comp_def)
  then have dl: "distinct (map m_ticket (ticket_lists s')) = distinct (map m_ticket (ticket_lists s))"
    and st: "m_ticket ` set (ticket_lists s') = m_ticket ` set (ticket_lists s)"
    by (rule mset_eq_imp_distinct_iff, metis mset_eq_setD set_map)
  have l: "length (ticket_lists s') = length (ticket_lists s)"
    using arg_cong [OF h, of size] by (simp add: handles_def)
  have "index_of tk s' (\<lambda>k. map (\<lambda>h. h\<lparr>m_dur := d\<rparr>) (m k))" if "index_of tk s m" for m
    using that unfolding index_of_def h filter_mset_image_mset by simp
  then have "index_ok tk s'"
    using ok unfolding store_ok_def index_ok_def c m by auto
  then show "store_ok tk s'"
    using ok dl l by (simp add: store_ok_def c)
  show "ticket_set s' = ticket_set s"
    using st by (simp add: ticket_set_lists)
qed

lemma move_all_ok:
  assumes "store_ok tk s"
  shows "store_ok tk (move_all_to_explicit_duration s)" "ticket_set (move_all_to_explicit_duration s) = ticket_set s"
proof -
  have "handles (move_all_to_explicit_duration s) = image_mset (\<lambda>h. h\<lparr>m_dur := MDL_EXPLICIT\<rparr>) (handles s)"
    by (simp add: handles_def ticket_lists_def move_all_simps [OF assms] image_mset.compositionality comp_def flip: rev_map)
  then show "store_ok tk (move_all_to_explicit_duration s)" "ticket_set (move_all_to_explicit_duration s) = ticket_set s"
    using redurated_ok [OF assms] move_all_simps [OF assms] by auto
qed

lemma move_explicit_ok:
  assumes "store_ok tk s" "tickets_in s MDL_STATEMENT = []"
  shows "store_ok tk (move_explicit_to_transaction_duration s)" "ticket_set (move_explicit_to_transaction_duration s) = ticket_set s"
proof -
  have "handles (move_explicit_to_transaction_duration s) = image_mset (\<lambda>h. h\<lparr>m_dur := MDL_TRANSACTION\<rparr>) (handles s)"
    using assms(2) by (simp add: handles_def ticket_lists_def move_explicit_simps [OF assms(1)] image_mset.compositionality comp_def flip: rev_map)
  then show "store_ok tk (move_explicit_to_transaction_duration s)" "ticket_set (move_explicit_to_transaction_duration s) = ticket_set s"
    using redurated_ok [OF assms(1)] move_explicit_simps [OF assms(1)] by auto
qed

section \<open>Lookup\<close>

definition suitable :: "ticket_heap \<Rightarrow> MDL_request \<Rightarrow> MDL_ticket_handle \<Rightarrow> bool" where
  "suitable tk req h \<longleftrightarrow>
     req_key req = m_lock (tk (m_ticket h)) \<and> has_stronger_or_equal_type (tk (m_ticket h)) (req_type req)"

text \<open>A good answer: a suitable ticket, of the requested duration when there is one.\<close>

definition answers :: "ticket_heap \<Rightarrow> MDL_request \<Rightarrow> MDL_ticket_handle set \<Rightarrow> MDL_ticket_handle option \<Rightarrow> bool" where
  "answers tk req H r \<longleftrightarrow>
     (case r of
        None \<Rightarrow> \<forall>h \<in> H. \<not> suitable tk req h
      | Some h \<Rightarrow> h \<in> H \<and> suitable tk req h
          \<and> (m_dur h = req_duration req \<or> (\<forall>h' \<in> H. suitable tk req h' \<longrightarrow> m_dur h' \<noteq> req_duration req)))"

lemma find_in_list_None:
  "find_in_list tk req s d = None \<longleftrightarrow> (\<forall>h \<in> set (ticket_lists s). m_dur h = d \<longrightarrow> \<not> suitable tk req h)"
proof
  assume n: "find_in_list tk req s d = None"
  show "\<forall>h \<in> set (ticket_lists s). m_dur h = d \<longrightarrow> \<not> suitable tk req h"
    using n by (auto simp: find_in_list_def find_None_iff in_ticket_lists suitable_def)
next
  assume n: "\<forall>h \<in> set (ticket_lists s). m_dur h = d \<longrightarrow> \<not> suitable tk req h"
  have "\<not> suitable tk req \<lparr>m_dur = d, m_ticket = t\<rparr>" if "t \<in> set (tickets_in s d)" for t
    using n that in_ticket_lists [of "\<lparr>m_dur = d, m_ticket = t\<rparr>" s] by simp
  then show "find_in_list tk req s d = None"
    by (auto simp: find_in_list_def find_None_iff suitable_def)
qed

lemma find_in_list_Some:
  "find_in_list tk req s d = Some h \<Longrightarrow> h \<in> set (ticket_lists s) \<and> m_dur h = d \<and> suitable tk req h"
  by (auto simp: find_in_list_def find_Some_iff suitable_def in_ticket_lists)

lemma find_in_lists_answers: "answers tk req (set (ticket_lists s)) (find_in_lists tk req s)"
proof -
  let ?d = "req_duration req"
  have d: "d = ?d \<or> d = next_duration ?d \<or> d = next_duration (next_duration ?d)" for d
    by (cases d; cases ?d) auto
  show ?thesis
  proof (cases "find_in_list tk req s ?d")
    case (Some h)
    then show ?thesis
      using find_in_list_Some [OF Some] by (simp add: find_in_lists_def Let_def answers_def)
  next
    case n1: None
    show ?thesis
    proof (cases "find_in_list tk req s (next_duration ?d)")
      case (Some h)
      then show ?thesis
        using find_in_list_Some [OF Some] n1 find_in_list_None [of tk req s ?d]
        by (auto simp: find_in_lists_def Let_def answers_def)
    next
      case n2: None
      let ?e = "next_duration (next_duration ?d)"
      have n: "\<not> suitable tk req h" if "h \<in> set (ticket_lists s)" "m_dur h \<noteq> ?e" for h
        using n1 n2 d [of "m_dur h"] that unfolding find_in_list_None by auto
      have r: "find_in_lists tk req s = find_in_list tk req s ?e"
        using n1 n2 by (simp add: find_in_lists_def Let_def)
      show ?thesis
      proof (cases "find_in_list tk req s ?e")
        case None
        then have "\<not> suitable tk req h" if "h \<in> set (ticket_lists s)" for h
          using n [OF that] that unfolding find_in_list_None by blast
        then show ?thesis
          by (simp add: r None answers_def)
      next
        case (Some h)
        have "?e \<noteq> ?d"
          by (cases ?d) auto
        then show ?thesis
          using n find_in_list_Some [OF Some] by (auto simp: r Some answers_def)
      qed
    qed
  qed
qed

lemma scan_range_answers:
  assumes "\<And>h. h \<in> set ths \<Longrightarrow> req_key req = m_lock (tk (m_ticket h))" "answers tk req H found"
    "\<And>h. h \<in> H \<Longrightarrow> suitable tk req h \<Longrightarrow> m_dur h \<noteq> req_duration req"
  shows "answers tk req (H \<union> set ths) (scan_range tk req ths found)"
  using assms
proof (induction ths arbitrary: H found)
  case (Cons th ths)
  have k: "suitable tk req th \<longleftrightarrow> has_stronger_or_equal_type (tk (m_ticket th)) (req_type req)"
    using Cons.prems(1) [of th] by (simp add: suitable_def)
  consider "\<not> suitable tk req th" | "suitable tk req th" "m_dur th = req_duration req" | "suitable tk req th" "m_dur th \<noteq> req_duration req"
    by blast
  then show ?case
  proof cases
    case 1
    then have "answers tk req (insert th H) found"
      using Cons.prems(2) by (auto simp: answers_def split: option.splits)
    from Cons.IH [OF _ this] 1 k Cons.prems show ?thesis by auto
  next
    case 2
    then show ?thesis
      using k by (simp add: answers_def)
  next
    case 3
    then have "answers tk req (insert th H) (Some th)"
      using Cons.prems(3) by (auto simp: answers_def)
    from Cons.IH [OF _ this] 3 k Cons.prems show ?thesis by auto
  qed
qed simp

lemma answers_mono:
  assumes "answers tk req H r" "H \<subseteq> H'" "\<And>h. h \<in> H' \<Longrightarrow> suitable tk req h \<Longrightarrow> h \<in> H"
  shows "answers tk req H' r"
proof (cases r)
  case None
  then show ?thesis
    using assms(1,3) by (auto simp: answers_def)
next
  case (Some h)
  then show ?thesis
    using assms unfolding answers_def by (simp add: subset_eq) blast
qed

lemma find_in_hash_answers:
  assumes "index_of tk s m" "distinct (map m_ticket (ticket_lists s))"
  shows "answers tk req (set (ticket_lists s)) (find_in_hash tk req m)"
proof -
  let ?ths = "m (req_key req)"
  have i: "h \<in> set ?ths \<longleftrightarrow> h \<in> set (ticket_lists s) \<and> m_lock (tk (m_ticket h)) = req_key req" for h
    using index_distinct(2) [OF assms, of h "req_key req"] by (simp add: handles_def)
  have "answers tk req ({} \<union> set ?ths) (scan_range tk req ?ths None)"
    by (rule scan_range_answers) (simp_all add: i answers_def)
  then have "answers tk req (set ?ths) (find_in_hash tk req m)"
    by (simp add: find_in_hash_def)
  then show ?thesis
    by (rule answers_mono) (use i in \<open>auto simp: suitable_def simp del: set_mset_mset\<close>)
qed

lemma store_find_answers:
  assumes "store_ok tk s"
  shows "answers tk req (set (ticket_lists s)) (store_find tk req s)"
proof (cases "m_count s < THRESHOLD \<or> m_map s = None")
  case True
  then show ?thesis
    using find_in_lists_answers by (auto simp: store_find_def split: option.split)
next
  case False
  then obtain m where "m_map s = Some m" "index_of tk s m"
    using assms by (auto simp: store_ok_def index_ok_def)
  then show ?thesis
    using find_in_hash_answers [of tk s m req] False assms by (simp add: store_find_def store_ok_def)
qed

text \<open>The relation that \<open>equivalent\<close> of the source asserts between the two lookups.\<close>

fun equivalent :: "ticket_heap \<Rightarrow> enum_mdl_duration \<Rightarrow> MDL_ticket_handle option \<Rightarrow> MDL_ticket_handle option \<Rightarrow> bool" where
  "equivalent tk target_duration (Some a) (Some b) \<longleftrightarrow>
     m_ticket a = m_ticket b
     \<or> m_lock (tk (m_ticket a)) = m_lock (tk (m_ticket b))
       \<and> (m_dur a = target_duration \<and> m_dur b = target_duration \<or> m_dur a \<noteq> target_duration \<and> m_dur b \<noteq> target_duration)"
| "equivalent tk target_duration a b \<longleftrightarrow> a = None \<and> b = None"

lemma answers_equivalent:
  assumes "answers tk req H a" "answers tk req H b"
  shows "equivalent tk (req_duration req) a b"
  using assms by (cases a; cases b) (auto simp: answers_def suitable_def)

section \<open>Materialized tickets\<close>

text \<open>The tickets from \<open>m_mat_front\<close> on.\<close>

definition from_mat_front :: "Duration \<Rightarrow> nat list" where
  "from_mat_front d = dropWhile (\<lambda>t. Some t \<noteq> m_mat_front d) (m_ticket_list d)"

definition dur_ok :: "ticket_heap \<Rightarrow> Duration \<Rightarrow> bool" where
  "dur_ok tk d \<longleftrightarrow>
     (\<forall>t \<in> set (from_mat_front d). \<not> m_is_fast_path (tk t))
     \<and> (m_mat_front d = None \<or> m_mat_front d \<in> Some ` set (m_ticket_list d))"

definition mat_ok :: "ticket_heap \<Rightarrow> MDL_ticket_store \<Rightarrow> bool" where
  "mat_ok tk s \<longleftrightarrow> (\<forall>d. dur_ok tk (m_durations s d))"

lemma mat_split: "m_ticket_list d = before_mat_front d @ from_mat_front d"
  by (simp add: before_mat_front_def from_mat_front_def)

lemma from_mat_front_subset: "set (from_mat_front d) \<subseteq> set (m_ticket_list d)"
  by (auto simp: from_mat_front_def dest: set_dropWhileD)

lemma dur_ok_None:
  assumes "m_mat_front d = None"
  shows "dur_ok tk d"
proof -
  have "from_mat_front d = []"
    using assms unfolding from_mat_front_def dropWhile_eq_Nil_conv by simp
  then show ?thesis
    using assms by (simp add: dur_ok_def)
qed

lemma dur_ok_mono:
  assumes "dur_ok tk d" "set (from_mat_front d') \<subseteq> set (from_mat_front d)"
    "m_mat_front d' = None \<or> m_mat_front d' \<in> Some ` set (m_ticket_list d')"
  shows "dur_ok tk d'"
  using assms unfolding dur_ok_def by blast

lemma dur_ok_slow:
  assumes "\<And>t. t \<in> set (m_ticket_list d) \<Longrightarrow> \<not> m_is_fast_path (tk t)"
    "m_mat_front d = None \<or> m_mat_front d \<in> Some ` set (m_ticket_list d)"
  shows "dur_ok tk d"
  using assms from_mat_front_subset [of d] unfolding dur_ok_def by blast

lemma mat_ok_same:
  assumes "mat_ok tk s" "\<And>t. t \<in> ticket_set s \<Longrightarrow> m_is_fast_path (tk' t) \<Longrightarrow> m_is_fast_path (tk t)"
  shows "mat_ok tk' s"
proof -
  have "t \<in> ticket_set s" if "t \<in> set (from_mat_front (m_durations s d))" for t d
    using that from_mat_front_subset [of "m_durations s d"] unfolding ticket_set_def by blast
  then show ?thesis
    using assms unfolding mat_ok_def dur_ok_def by blast
qed

lemma empty_store_mat: "mat_ok tk empty_store"
  by (simp add: mat_ok_def empty_store_def dur_ok_None)

lemma push_front_mat:
  assumes "mat_ok tk s" "t \<notin> ticket_set s"
  shows "mat_ok tk (push_front pos tk dur t s)"
proof -
  have "dur_ok tk (m_durations (push_front pos tk dur t s) d)" for d
  proof (rule dur_ok_mono)
    show "dur_ok tk (m_durations s d)"
      using assms(1) by (simp add: mat_ok_def)
    then have m: "m_mat_front (m_durations s d) = None \<or> m_mat_front (m_durations s d) \<in> Some ` set (tickets_in s d)"
      by (simp add: dur_ok_def)
    then show "m_mat_front (m_durations (push_front pos tk dur t s) d) = None
      \<or> m_mat_front (m_durations (push_front pos tk dur t s) d) \<in> Some ` set (tickets_in (push_front pos tk dur t s) d)"
      by auto
    have "Some t \<noteq> m_mat_front (m_durations s d)"
      using m assms(2) by (auto simp: ticket_set_def)
    then show "set (from_mat_front (m_durations (push_front pos tk dur t s) d)) \<subseteq> set (from_mat_front (m_durations s d))"
      by (cases "d = dur") (simp_all add: from_mat_front_def)
  qed
  then show ?thesis
    by (simp add: mat_ok_def)
qed

lemma dropWhile_until: "t \<notin> set ys \<Longrightarrow> dropWhile (\<lambda>u. u \<noteq> t) (ys @ t # zs) = t # zs"
  by (induction ys) auto

lemma dropWhile_True [simp]: "dropWhile (\<lambda>_. True) l = []"
  by (induction l) auto

lemma next_in_context_split:
  "t \<notin> set ys \<Longrightarrow> next_in_context t (ys @ t # zs) = (case zs of [] \<Rightarrow> None | z # _ \<Rightarrow> Some z)"
proof (induction ys)
  case Nil
  then show ?case by (cases zs) auto
next
  case (Cons y ys)
  then show ?case by (cases ys) auto
qed

lemma from_next_in_context:
  assumes "t \<in> set xs" "distinct xs"
  shows "set (dropWhile (\<lambda>u. Some u \<noteq> next_in_context t xs) (remove1 t xs)) \<subseteq> set (dropWhile (\<lambda>u. u \<noteq> t) xs)"
    "next_in_context t xs = None \<or> next_in_context t xs \<in> Some ` (set xs - {t})"
proof -
  obtain ys zs where x: "xs = ys @ t # zs"
    using assms(1) by (meson split_list)
  have d: "t \<notin> set ys" "set ys \<inter> set zs = {}" "t \<notin> set zs"
    using assms(2) x by auto
  have dt: "dropWhile (\<lambda>u. u \<noteq> t) xs = t # zs"
    using d(1) by (simp add: x dropWhile_until)
  show "next_in_context t xs = None \<or> next_in_context t xs \<in> Some ` (set xs - {t})"
    using d by (cases zs) (auto simp: x next_in_context_split)
  show "set (dropWhile (\<lambda>u. Some u \<noteq> next_in_context t xs) (remove1 t xs)) \<subseteq> set (dropWhile (\<lambda>u. u \<noteq> t) xs)"
  proof (cases zs)
    case Nil
    then show ?thesis
      using d by (simp add: x next_in_context_split)
  next
    case (Cons z us)
    then have "dropWhile (\<lambda>u. u \<noteq> z) (ys @ zs) = zs"
      using d(2) by (simp add: dropWhile_until)
    then show ?thesis
      using d Cons unfolding dt by (simp add: x next_in_context_split remove1_append) auto
  qed
qed

lemma from_remove:
  assumes "t \<noteq> m"
  shows "set (dropWhile (\<lambda>u. u \<noteq> m) (remove1 t xs)) \<subseteq> set (dropWhile (\<lambda>u. u \<noteq> m) xs)"
  using assms by (induction xs) (auto dest: set_dropWhileD notin_set_remove1)

lemma store_remove_mat:
  assumes m: "mat_ok tk s" and d: "distinct (tickets_in s dur)" and t: "t \<in> set (tickets_in s dur)"
  shows "mat_ok tk (store_remove tk dur t s)"
proof -
  let ?D = "m_durations s dur" and ?E = "m_durations (store_remove tk dur t s) dur"
  have D: "dur_ok tk ?D"
    using m by (simp add: mat_ok_def)
  have "dur_ok tk ?E"
  proof (cases "m_mat_front ?D")
    case None
    then show ?thesis
      by (intro dur_ok_None) simp
  next
    case (Some f)
    then have f: "f \<in> set (tickets_in s dur)"
      using D by (auto simp: dur_ok_def)
    show ?thesis
    proof (rule dur_ok_mono [OF D])
      show "set (from_mat_front ?E) \<subseteq> set (from_mat_front ?D)"
        using Some from_next_in_context(1) [OF t d] from_remove [of t f "tickets_in s dur"]
        by (cases "f = t") (simp_all add: from_mat_front_def)
      show "m_mat_front ?E = None \<or> m_mat_front ?E \<in> Some ` set (m_ticket_list ?E)"
        using Some from_next_in_context(2) [OF t d] d f by (cases "f = t") auto
    qed
  qed
  moreover have "dur_ok tk (m_durations (store_remove tk dur t s) e)" if "e \<noteq> dur" for e
    using m that unfolding mat_ok_def dur_ok_def from_mat_front_def by simp
  ultimately show ?thesis
    unfolding mat_ok_def by metis
qed

lemma set_materialized_simps [simp]:
  "tickets_in (set_materialized s) d = tickets_in s d" "m_count (set_materialized s) = m_count s"
  "m_map (set_materialized s) = m_map s" "m_mat_front (m_durations (set_materialized s) d) = store_front s d"
  by (simp_all add: set_materialized_def)

lemma set_materialized_mat:
  assumes "\<And>t. t \<in> ticket_set s \<Longrightarrow> \<not> m_is_fast_path (tk t)"
  shows "mat_ok tk (set_materialized s)"
proof -
  have "store_front s d = None \<or> store_front s d \<in> Some ` set (tickets_in s d)" for d
    by (simp add: store_front_def split: list.split)
  then have "dur_ok tk (m_durations (set_materialized s) d)" for d
    using assms by (intro dur_ok_slow) (auto simp: ticket_set_def)
  then show ?thesis
    by (simp add: mat_ok_def)
qed

lemma set_materialized_ok:
  "store_ok tk s \<Longrightarrow> store_ok tk (set_materialized s)" "ticket_set (set_materialized s) = ticket_set s"
proof -
  have l: "ticket_lists (set_materialized s) = ticket_lists s"
    by (rule ticket_lists_cong) simp
  show "ticket_set (set_materialized s) = ticket_set s"
    by (simp add: ticket_set_def)
  show "store_ok tk s \<Longrightarrow> store_ok tk (set_materialized s)"
    unfolding store_ok_def index_ok_def index_of_def handles_def l by simp
qed

lemma move_all_mat: "store_ok tk s \<Longrightarrow> mat_ok tk (move_all_to_explicit_duration s)"
  unfolding mat_ok_def by (intro allI dur_ok_None) (rule move_all_simps)

text \<open>
  \<open>move_explicit_to_transaction_duration\<close> keeps \<open>m_mat_front\<close> of the transactional list although the
  order of the tickets changes, so it needs that all of them are materialized.
\<close>

lemma move_explicit_mat:
  assumes ok: "store_ok tk s" and m: "mat_ok tk s"
    and f: "\<And>t. t \<in> set (tickets_in s MDL_TRANSACTION) \<union> set (tickets_in s MDL_EXPLICIT) \<Longrightarrow> \<not> m_is_fast_path (tk t)"
  shows "mat_ok tk (move_explicit_to_transaction_duration s)"
proof -
  let ?s = "move_explicit_to_transaction_duration s"
  have m: "dur_ok tk (m_durations s d)" for d
    using m by (simp add: mat_ok_def)
  have "dur_ok tk (m_durations ?s MDL_EXPLICIT)"
    by (rule dur_ok_None) (simp add: move_explicit_simps [OF ok])
  moreover have "dur_ok tk (m_durations ?s MDL_TRANSACTION)"
    using f m [of MDL_TRANSACTION] by (intro dur_ok_slow) (auto simp: move_explicit_simps [OF ok] dur_ok_def)
  moreover have "dur_ok tk (m_durations ?s MDL_STATEMENT)"
    using m [of MDL_STATEMENT] by (simp add: dur_ok_def from_mat_front_def move_explicit_simps [OF ok])
  ultimately show ?thesis
    unfolding mat_ok_def by (metis enum_mdl_duration.exhaust)
qed

end
