(* ===== verification/Mdl_Context.thy ===== *)
theory Mdl_Context
  imports Mdl_Store
begin

text \<open>
  Connections that acquire and release metadata locks (\<open>MDL_context\<close> of \<open>sql/mdl.cc\<close>). There is one
  lock object for each key: an object that is not used by any ticket is in the state that \<open>reinit\<close>
  gives a new one, so that freeing and creating unused objects (\<open>MDL_map\<close>) is not seen. Everything
  between two points at which another connection can interfere is one function; a wait is the part
  between \<open>acquire_start\<close> and \<open>acquire_finish\<close>.
\<close>

section \<open>The state\<close>

text \<open>\<open>pending\<close> holds the request and the ticket of a call of \<open>acquire_lock\<close> that waits.\<close>

record MDL_context =
  m_ticket_store :: MDL_ticket_store
  m_waiting_for :: "nat option"
  m_needs_thr_lock_abort :: bool
  m_force_dml_deadlock_weight :: bool
  pending :: "(MDL_request \<times> nat) option"

text \<open>
  \<open>hton_notified\<close> counts, for each key, the notifications of the storage engines before an acquisition
  that no notification of a release has followed.
\<close>

record mdl_state =
  tickets :: "nat \<Rightarrow> MDL_ticket option"
  next_address :: nat
  locks :: "MDL_key \<Rightarrow> MDL_lock"
  m_wait :: wait_slots
  contexts :: "nat \<Rightarrow> MDL_context"
  hton_notified :: "MDL_key \<Rightarrow> int"

record mdl_env =
  max_write_lock_count :: "64 word"
  emplace_position :: emplace_pos

text \<open>What the allocator, the map of locks and the engines answer in one call.\<close>

record mdl_answers =
  fix_pins_fails :: bool
  create_fails :: bool
  engine_refuses :: "bool option"
  find_or_insert_fails :: bool

datatype mdl_error =
  ER_OUT_OF_MEMORY | ER_LOCK_DEADLOCK | ER_LOCK_REFUSED_BY_ENGINE | ER_LOCK_WAIT_TIMEOUT
| ER_QUERY_INTERRUPTED | ER_QUERY_TIMEOUT | Assertion_failed

definition new_context :: MDL_context where
  "new_context = \<lparr>m_ticket_store = empty_store, m_waiting_for = None, m_needs_thr_lock_abort = False,
     m_force_dml_deadlock_weight = False, pending = None\<rparr>"

definition mdl_init :: mdl_state where
  "mdl_init = \<lparr>tickets = (\<lambda>_. None), next_address = 0, locks = reinit, m_wait = (\<lambda>_. WS_EMPTY),
     contexts = (\<lambda>_. new_context), hton_notified = (\<lambda>_. 0)\<rparr>"

definition no_ticket :: MDL_ticket where
  "no_ticket = \<lparr>m_type = MDL_INTENTION_EXCLUSIVE, m_ctx = 0, m_lock = \<lparr>mdl_namespace = GLOBAL, db_name = [], object_name = []\<rparr>,
     m_is_fast_path = False, m_hton_notified = False\<rparr>"

definition tk :: "mdl_state \<Rightarrow> ticket_heap" where
  "tk w t = (case tickets w t of Some x \<Rightarrow> x | None \<Rightarrow> no_ticket)"

abbreviation store_of :: "mdl_state \<Rightarrow> nat \<Rightarrow> MDL_ticket_store" where
  "store_of w c \<equiv> m_ticket_store (contexts w c)"

definition set_ticket :: "nat \<Rightarrow> MDL_ticket \<Rightarrow> mdl_state \<Rightarrow> mdl_state" where
  "set_ticket t x w = w\<lparr>tickets := (tickets w)(t := Some x)\<rparr>"

definition set_lock :: "MDL_lock \<times> wait_slots \<Rightarrow> MDL_key \<Rightarrow> mdl_state \<Rightarrow> mdl_state" where
  "set_lock ls k w = w\<lparr>locks := (locks w)(k := fst ls), m_wait := snd ls\<rparr>"

definition on_context :: "nat \<Rightarrow> (MDL_context \<Rightarrow> MDL_context) \<Rightarrow> mdl_state \<Rightarrow> mdl_state" where
  "on_context c f w = w\<lparr>contexts := (contexts w)(c := f (contexts w c))\<rparr>"

definition on_store :: "nat \<Rightarrow> (MDL_ticket_store \<Rightarrow> MDL_ticket_store) \<Rightarrow> mdl_state \<Rightarrow> mdl_state" where
  "on_store c f = on_context c (\<lambda>x. x\<lparr>m_ticket_store := f (m_ticket_store x)\<rparr>)"

section \<open>Tickets\<close>

text \<open>The key of the lock to which \<open>m_lock\<close> will point is stored at once.\<close>

definition create :: "nat \<Rightarrow> enum_mdl_type \<Rightarrow> MDL_key \<Rightarrow> mdl_state \<Rightarrow> mdl_state \<times> nat" where
  "create c type k w =
     (w\<lparr>tickets := (tickets w)(next_address w :=
          Some \<lparr>m_type = type, m_ctx = c, m_lock = k, m_is_fast_path = False, m_hton_notified = False\<rparr>),
        next_address := next_address w + 1\<rparr>, next_address w)"

definition destroy :: "nat \<Rightarrow> mdl_state \<Rightarrow> mdl_state" where
  "destroy t w = w\<lparr>tickets := (tickets w)(t := None)\<rparr>"

text \<open>The notifications of the storage engines, before an exclusive lock and after its release.\<close>

definition notify_pre_acquire :: "mdl_answers \<Rightarrow> nat \<Rightarrow> mdl_state \<Rightarrow> mdl_state \<times> mdl_error option" where
  "notify_pre_acquire a t w =
     (let k = m_lock (tk w t) in
      if m_type (tk w t) = MDL_EXCLUSIVE \<and> needs_hton_notification (mdl_namespace k) then
        case engine_refuses a of
          Some victimized \<Rightarrow> (w, Some (if victimized then ER_LOCK_DEADLOCK else ER_LOCK_REFUSED_BY_ENGINE))
        | None \<Rightarrow> (set_ticket t ((tk w t)\<lparr>m_hton_notified := True\<rparr>)
                    (w\<lparr>hton_notified := (hton_notified w)(k := hton_notified w k + 1)\<rparr>), None)
      else (w, None))"

definition notify_post_release :: "nat \<Rightarrow> mdl_state \<Rightarrow> mdl_state" where
  "notify_post_release t w =
     (let k = m_lock (tk w t) in
      if m_hton_notified (tk w t) then w\<lparr>hton_notified := (hton_notified w)(k := hton_notified w k - 1)\<rparr> else w)"

section \<open>Materialization\<close>

definition materialize_one :: "nat \<Rightarrow> mdl_state \<Rightarrow> mdl_state" where
  "materialize_one t w =
     (if m_is_fast_path (tk w t) then
        let w = set_ticket t ((tk w t)\<lparr>m_is_fast_path := False\<rparr>) w; k = m_lock (tk w t)
        in set_lock (materialize_ticket (tk w) t (locks w k), m_wait w) k w
      else w)"

definition materialize_fast_path_locks :: "nat \<Rightarrow> mdl_state \<Rightarrow> mdl_state" where
  "materialize_fast_path_locks c w =
     (let s = store_of w c;
          ts = concat (map (\<lambda>d. before_mat_front (m_durations s d)) [MDL_STATEMENT, MDL_TRANSACTION, MDL_EXPLICIT])
      in on_store c set_materialized (fold materialize_one ts w))"

section \<open>Acquisition\<close>

definition find_ticket :: "nat \<Rightarrow> MDL_request \<Rightarrow> mdl_state \<Rightarrow> MDL_ticket_handle option" where
  "find_ticket c req w = store_find (tk w) req (store_of w c)"

definition push_ticket :: "mdl_env \<Rightarrow> nat \<Rightarrow> enum_mdl_duration \<Rightarrow> nat \<Rightarrow> mdl_state \<Rightarrow> mdl_state" where
  "push_ticket env c dur t w = on_store c (push_front (emplace_position env) (tk w) dur t) w"

text \<open>A copy of the ticket \<open>src\<close>, of the type and the duration of the request.\<close>

definition clone_ticket ::
    "mdl_env \<Rightarrow> mdl_answers \<Rightarrow> nat \<Rightarrow> MDL_request \<Rightarrow> nat \<Rightarrow> mdl_state \<Rightarrow> mdl_state \<times> (mdl_error + nat)" where
  "clone_ticket env a c req src w =
     (if fix_pins_fails a \<or> create_fails a then (w, Inl ER_OUT_OF_MEMORY)
      else
        let (w, t) = create c (req_type req) (m_lock (tk w src)) w in
        case notify_pre_acquire a t w of
          (w, Some e) \<Rightarrow> (destroy t w, Inl e)
        | (w, None) \<Rightarrow>
            let w = set_ticket t ((tk w t)\<lparr>m_is_fast_path := m_is_fast_path (tk w src)\<rparr>) w;
                k = m_lock (tk w t);
                w = set_lock (clone_in_lock (tk w) t (locks w k), m_wait w) k w
            in (push_ticket env c (req_duration req) t w, Inr t))"

datatype impl_result = Impl_failed mdl_error | Impl_granted nat | Impl_blocked nat

text \<open>The new ticket \<open>t\<close> in the lock of the request, on the fast path if possible.\<close>

definition enter_lock :: "mdl_env \<Rightarrow> nat \<Rightarrow> MDL_request \<Rightarrow> nat \<Rightarrow> mdl_state \<Rightarrow> mdl_state \<times> impl_result" where
  "enter_lock env c req t w =
     (let k = req_key req; ty = req_type req;
          force_slow = (strategy_increment (key_strategy k) ty = 0 \<or> m_needs_thr_lock_abort (contexts w c)) in
      case (if force_slow then None else fast_path_acquire ty (locks w k)) of
        Some lock \<Rightarrow>
          let w = set_ticket t ((tk w t)\<lparr>m_is_fast_path := True\<rparr>) (set_lock (lock, m_wait w) k w)
          in (push_ticket env c (req_duration req) t w, Impl_granted t)
      | None \<Rightarrow>
          let lock = slow_path_begin ty (locks w k) in
          if can_grant_lock (tk w) lock ty c then
            let w = set_lock (slow_path_grant (tk w) (max_write_lock_count env) t (lock, m_wait w)) k w
            in (push_ticket env c (req_duration req) t w, Impl_granted t)
          else (set_lock (lock, m_wait w) k w, Impl_blocked t))"

definition try_acquire_lock_impl ::
    "mdl_env \<Rightarrow> mdl_answers \<Rightarrow> nat \<Rightarrow> MDL_request \<Rightarrow> mdl_state \<Rightarrow> mdl_state \<times> impl_result" where
  "try_acquire_lock_impl env a c req w =
     (case find_ticket c req w of
        Some h \<Rightarrow>
          if m_dur h \<noteq> req_duration req \<or> req_duration req = MDL_EXPLICIT then
            case clone_ticket env a c req (m_ticket h) w of
              (w, Inl e) \<Rightarrow> (w, Impl_failed e)
            | (w, Inr t) \<Rightarrow> (w, Impl_granted t)
          else (w, Impl_granted (m_ticket h))
      | None \<Rightarrow>
          if fix_pins_fails a \<or> create_fails a then (w, Impl_failed ER_OUT_OF_MEMORY)
          else
            let (w, t) = create c (req_type req) (req_key req) w;
                w = (if strategy_increment (key_strategy (req_key req)) (req_type req) = 0
                     then materialize_fast_path_locks c w else w) in
            case notify_pre_acquire a t w of
              (w, Some e) \<Rightarrow> (destroy t w, Impl_failed e)
            | (w, None) \<Rightarrow>
                if find_or_insert_fails a then (destroy t (notify_post_release t w), Impl_failed ER_OUT_OF_MEMORY)
                else enter_lock env c req t w)"

text \<open>The request that cannot be granted at once is given up.\<close>

definition give_up :: "nat \<Rightarrow> mdl_state \<Rightarrow> mdl_state" where
  "give_up t w =
     (let k = m_lock (tk w t);
          w = set_lock (uncount_ticket (m_type (tk w t)) (locks w k), m_wait w) k w
      in destroy t (notify_post_release t w))"

definition try_acquire_lock ::
    "mdl_env \<Rightarrow> mdl_answers \<Rightarrow> nat \<Rightarrow> MDL_request \<Rightarrow> mdl_state \<Rightarrow> mdl_state \<times> (mdl_error + nat option)" where
  "try_acquire_lock env a c req w =
     (case try_acquire_lock_impl env a c req w of
        (w, Impl_failed e) \<Rightarrow> (w, Inl e)
      | (w, Impl_granted t) \<Rightarrow> (w, Inr (Some t))
      | (w, Impl_blocked t) \<Rightarrow> (give_up t w, Inr None))"

text \<open>\<open>acquire_lock\<close> with the timeout zero.\<close>

definition acquire_lock_nowait ::
    "mdl_env \<Rightarrow> mdl_answers \<Rightarrow> nat \<Rightarrow> MDL_request \<Rightarrow> mdl_state \<Rightarrow> mdl_state \<times> (mdl_error + nat)" where
  "acquire_lock_nowait env a c req w =
     (case try_acquire_lock env a c req w of
        (w, Inl e) \<Rightarrow> (w, Inl e)
      | (w, Inr None) \<Rightarrow> (w, Inl ER_LOCK_WAIT_TIMEOUT)
      | (w, Inr (Some t)) \<Rightarrow> (w, Inr t))"

text \<open>The request joins the waiting tickets, and the wait becomes visible to the deadlock detector.\<close>

definition enqueue :: "nat \<Rightarrow> MDL_request \<Rightarrow> nat \<Rightarrow> mdl_state \<Rightarrow> mdl_state" where
  "enqueue c req t w =
     (let k = req_key req
      in on_context c (\<lambda>x. x\<lparr>pending := Some (req, t)\<rparr>) (set_lock (enqueue_waiting (tk w) t (locks w k, m_wait w)) k w))"

definition will_wait_for :: "nat \<Rightarrow> nat \<Rightarrow> mdl_state \<Rightarrow> mdl_state" where
  "will_wait_for c t w = on_context c (\<lambda>x. x\<lparr>m_waiting_for := Some t\<rparr>) (materialize_fast_path_locks c w)"

definition done_waiting_for :: "nat \<Rightarrow> mdl_state \<Rightarrow> mdl_state" where
  "done_waiting_for c = on_context c (\<lambda>x. x\<lparr>m_waiting_for := None\<rparr>)"

text \<open>\<open>acquire_lock\<close> up to the wait: \<open>Inr None\<close> when the request waits.\<close>

definition acquire_start ::
    "mdl_env \<Rightarrow> mdl_answers \<Rightarrow> nat \<Rightarrow> MDL_request \<Rightarrow> mdl_state \<Rightarrow> mdl_state \<times> (mdl_error + nat option)" where
  "acquire_start env a c req w =
     (case try_acquire_lock_impl env a c req w of
        (w, Impl_failed e) \<Rightarrow> (w, Inl e)
      | (w, Impl_granted t) \<Rightarrow> (w, Inr (Some t))
      | (w, Impl_blocked t) \<Rightarrow> (will_wait_for c t (enqueue c req t w), Inr None))"

text \<open>\<open>query_timeout\<close> says whether the connection was killed by the limit on the time of a query.\<close>

fun wait_error :: "bool \<Rightarrow> enum_wait_status \<Rightarrow> mdl_error" where
  "wait_error query_timeout VICTIM = ER_LOCK_DEADLOCK"
| "wait_error query_timeout TIMEOUT = ER_LOCK_WAIT_TIMEOUT"
| "wait_error query_timeout KILLED = (if query_timeout then ER_QUERY_TIMEOUT else ER_QUERY_INTERRUPTED)"
| "wait_error query_timeout _ = Assertion_failed"

text \<open>The connection stops waiting: \<open>killed\<close> and a timeout fill an empty slot.\<close>

definition stop_waiting :: "nat \<Rightarrow> bool \<Rightarrow> mdl_state \<Rightarrow> mdl_state" where
  "stop_waiting c killed w = w\<lparr>m_wait := fst (timed_wait c killed True (m_wait w))\<rparr>"

text \<open>\<open>acquire_lock\<close> after the wait, with the status in the slot.\<close>

definition acquire_finish :: "mdl_env \<Rightarrow> bool \<Rightarrow> nat \<Rightarrow> mdl_state \<Rightarrow> mdl_state \<times> (mdl_error + nat) option" where
  "acquire_finish env query_timeout c w =
     (case pending (contexts w c) of
        None \<Rightarrow> (w, None)
      | Some (req, t) \<Rightarrow>
          let w = on_context c (\<lambda>x. x\<lparr>pending := None\<rparr>) (done_waiting_for c w); k = req_key req; wait_status = m_wait w c in
          if wait_status \<noteq> GRANTED then
            let w = set_lock (lock_remove_ticket (tk w) (max_write_lock_count env) Waiting_queue t (locks w k, m_wait w)) k w
            in (destroy t (notify_post_release t w), Some (Inl (wait_error query_timeout wait_status)))
          else (push_ticket env c (req_duration req) t w, Some (Inr t)))"

section \<open>Release\<close>

definition release_lock :: "mdl_env \<Rightarrow> nat \<Rightarrow> enum_mdl_duration \<Rightarrow> nat \<Rightarrow> mdl_state \<Rightarrow> mdl_state" where
  "release_lock env c dur t w =
     (let w = on_store c (store_remove (tk w) dur t) w; k = m_lock (tk w t); lim = max_write_lock_count env;
          w = set_lock (if m_is_fast_path (tk w t)
                        then fast_path_release (tk w) lim (m_type (tk w t)) (locks w k, m_wait w)
                        else lock_remove_ticket (tk w) lim Granted_queue t (locks w k, m_wait w)) k w
      in destroy t (notify_post_release t w))"

definition release_locks_stored_before :: "mdl_env \<Rightarrow> nat \<Rightarrow> enum_mdl_duration \<Rightarrow> nat option \<Rightarrow> mdl_state \<Rightarrow> mdl_state" where
  "release_locks_stored_before env c dur sentinel w =
     fold (release_lock env c dur) (takeWhile (\<lambda>t. Some t \<noteq> sentinel) (tickets_in (store_of w c) dur)) w"

definition release_locks :: "mdl_env \<Rightarrow> nat \<Rightarrow> (MDL_ticket \<Rightarrow> bool) \<Rightarrow> mdl_state \<Rightarrow> mdl_state" where
  "release_locks env c visitor w =
     fold (\<lambda>t w. if visitor (tk w t) then release_lock env c MDL_EXPLICIT t w else w) (tickets_in (store_of w c) MDL_EXPLICIT) w"

definition release_all_locks_for_name :: "mdl_env \<Rightarrow> nat \<Rightarrow> nat \<Rightarrow> mdl_state \<Rightarrow> mdl_state" where
  "release_all_locks_for_name env c name w = release_locks env c (\<lambda>x. m_lock x = m_lock (tk w name)) w"

record MDL_savepoint =
  m_stmt_ticket :: "nat option"
  m_trans_ticket :: "nat option"

definition mdl_savepoint :: "nat \<Rightarrow> mdl_state \<Rightarrow> MDL_savepoint" where
  "mdl_savepoint c w =
     \<lparr>m_stmt_ticket = store_front (store_of w c) MDL_STATEMENT, m_trans_ticket = store_front (store_of w c) MDL_TRANSACTION\<rparr>"

definition rollback_to_savepoint :: "mdl_env \<Rightarrow> nat \<Rightarrow> MDL_savepoint \<Rightarrow> mdl_state \<Rightarrow> mdl_state" where
  "rollback_to_savepoint env c svp w =
     release_locks_stored_before env c MDL_TRANSACTION (m_trans_ticket svp)
       (release_locks_stored_before env c MDL_STATEMENT (m_stmt_ticket svp) w)"

definition release_statement_locks :: "mdl_env \<Rightarrow> nat \<Rightarrow> mdl_state \<Rightarrow> mdl_state" where
  "release_statement_locks env c = release_locks_stored_before env c MDL_STATEMENT None"

definition release_transactional_locks :: "mdl_env \<Rightarrow> nat \<Rightarrow> mdl_state \<Rightarrow> mdl_state" where
  "release_transactional_locks env c w =
     release_locks_stored_before env c MDL_TRANSACTION None (release_locks_stored_before env c MDL_STATEMENT None w)"

section \<open>Downgrade, upgrade and durations\<close>

definition downgrade_lock :: "mdl_env \<Rightarrow> nat \<Rightarrow> enum_mdl_type \<Rightarrow> mdl_state \<Rightarrow> mdl_state" where
  "downgrade_lock env t new_type w =
     (if m_type (tk w t) = new_type \<or> \<not> has_stronger_or_equal_type (tk w t) new_type then w
      else
        let k = m_lock (tk w t);
            w' = set_ticket t ((tk w t)\<lparr>m_type := new_type\<rparr>) w;
            w' = set_lock (downgrade_in_lock (tk w) (tk w') (max_write_lock_count env) t (locks w k, m_wait w)) k w'
        in if m_hton_notified (tk w' t)
           then set_ticket t ((tk w' t)\<lparr>m_hton_notified := False\<rparr>) (notify_post_release t w') else w')"

definition has_lock :: "nat \<Rightarrow> MDL_savepoint \<Rightarrow> nat \<Rightarrow> mdl_state \<Rightarrow> bool" where
  "has_lock c svp t w \<longleftrightarrow>
     t \<notin> set (takeWhile (\<lambda>u. Some u \<noteq> m_stmt_ticket svp) (tickets_in (store_of w c) MDL_STATEMENT))
     \<and> t \<notin> set (takeWhile (\<lambda>u. Some u \<noteq> m_trans_ticket svp) (tickets_in (store_of w c) MDL_TRANSACTION))"

text \<open>
  The end of \<open>upgrade_shared_lock\<close>, after the lock of the new type was acquired with the ticket \<open>n\<close>.
\<close>

definition upgrade_merge :: "mdl_env \<Rightarrow> nat \<Rightarrow> MDL_savepoint \<Rightarrow> nat \<Rightarrow> nat \<Rightarrow> enum_mdl_type \<Rightarrow> mdl_state \<Rightarrow> mdl_state" where
  "upgrade_merge env c svp t n new_type w =
     (let is_new_ticket = \<not> has_lock c svp n w; k = m_lock (tk w t);
          w' = set_ticket t ((tk w t)\<lparr>m_is_fast_path := False, m_type := new_type\<rparr>) w;
          lock = upgrade_in_lock (tk w) (tk w') t (if is_new_ticket then Some n else None) (locks w k);
          w' = set_ticket t ((tk w' t)\<lparr>m_hton_notified := m_hton_notified (tk w n)\<rparr>) (set_lock (lock, m_wait w) k w')
      in if is_new_ticket then destroy n (on_store c (store_remove (tk w') MDL_TRANSACTION n) w') else w')"

text \<open>\<open>upgrade_shared_lock\<close> with the timeout zero.\<close>

definition upgrade_shared_lock ::
    "mdl_env \<Rightarrow> mdl_answers \<Rightarrow> nat \<Rightarrow> nat \<Rightarrow> enum_mdl_type \<Rightarrow> mdl_state \<Rightarrow> mdl_state \<times> mdl_error option" where
  "upgrade_shared_lock env a c t new_type w =
     (if has_stronger_or_equal_type (tk w t) new_type then (w, None)
      else
        case acquire_lock_nowait env a c \<lparr>req_type = new_type, req_duration = MDL_TRANSACTION, req_key = m_lock (tk w t)\<rparr> w of
          (w', Inl e) \<Rightarrow> (w', Some e)
        | (w', Inr n) \<Rightarrow> (upgrade_merge env c (mdl_savepoint c w) t n new_type w', None))"

definition set_lock_duration :: "mdl_env \<Rightarrow> nat \<Rightarrow> nat \<Rightarrow> enum_mdl_duration \<Rightarrow> mdl_state \<Rightarrow> mdl_state" where
  "set_lock_duration env c t dur w = push_ticket env c dur t (on_store c (store_remove (tk w) MDL_TRANSACTION t) w)"

definition set_explicit_duration_for_all_locks :: "nat \<Rightarrow> mdl_state \<Rightarrow> mdl_state" where
  "set_explicit_duration_for_all_locks c = on_store c move_all_to_explicit_duration"

definition set_transaction_duration_for_all_locks :: "nat \<Rightarrow> mdl_state \<Rightarrow> mdl_state" where
  "set_transaction_duration_for_all_locks c = on_store c move_explicit_to_transaction_duration"

definition set_needs_thr_lock_abort :: "nat \<Rightarrow> bool \<Rightarrow> mdl_state \<Rightarrow> mdl_state" where
  "set_needs_thr_lock_abort c b w =
     (let w = on_context c (\<lambda>x. x\<lparr>m_needs_thr_lock_abort := b\<rparr>) w in if b then materialize_fast_path_locks c w else w)"

definition set_force_dml_deadlock_weight :: "nat \<Rightarrow> bool \<Rightarrow> mdl_state \<Rightarrow> mdl_state" where
  "set_force_dml_deadlock_weight c b = on_context c (\<lambda>x. x\<lparr>m_force_dml_deadlock_weight := b\<rparr>)"

section \<open>Queries\<close>

definition owns_equal_or_stronger_lock :: "nat \<Rightarrow> MDL_key \<Rightarrow> enum_mdl_type \<Rightarrow> mdl_state \<Rightarrow> bool" where
  "owns_equal_or_stronger_lock c k ty w \<longleftrightarrow> find_ticket c \<lparr>req_type = ty, req_duration = MDL_TRANSACTION, req_key = k\<rparr> w \<noteq> None"

definition has_locks :: "nat \<Rightarrow> enum_mdl_namespace \<Rightarrow> mdl_state \<Rightarrow> bool" where
  "has_locks c ns w \<longleftrightarrow>
     list_ex (\<lambda>d. list_ex (\<lambda>t. mdl_namespace (m_lock (tk w t)) = ns) (tickets_in (store_of w c) d))
       [MDL_STATEMENT, MDL_TRANSACTION, MDL_EXPLICIT]"

definition has_locks_waited_for :: "nat \<Rightarrow> mdl_state \<Rightarrow> bool" where
  "has_locks_waited_for c w \<longleftrightarrow>
     list_ex (\<lambda>d. list_ex (\<lambda>t. m_list (m_waiting (locks w (m_lock (tk w t)))) = []) (tickets_in (store_of w c) d))
       [MDL_STATEMENT, MDL_TRANSACTION, MDL_EXPLICIT]"

text \<open>
  The connections that are told that a request of \<open>c\<close> waits for their shared locks; \<open>has_thd\<close> says which
  connections have a session.
\<close>

definition object_lock_notify_conflicting_locks :: "(nat \<Rightarrow> bool) \<Rightarrow> nat \<Rightarrow> MDL_lock \<Rightarrow> mdl_state \<Rightarrow> (nat \<times> bool) list" where
  "object_lock_notify_conflicting_locks has_thd c lock w =
     map (\<lambda>t. (m_ctx (tk w t), m_needs_thr_lock_abort (contexts w (m_ctx (tk w t)))))
       (filter (\<lambda>t. m_ctx (tk w t) \<noteq> c \<and> (m_type (tk w t) = MDL_SHARED \<or> m_type (tk w t) = MDL_SHARED_HIGH_PRIO)
           \<and> has_thd (m_ctx (tk w t)))
         (m_list (m_granted lock)))"

end
