(* ===== verification/Spec2Isabelle.thy ===== *)
theory Spec2Isabelle
  imports Trx_Boundary Gtid_Equality Gtid_Text_Proofs Thr_Lock_Safety Temporal_Stored Temporal_Text_Proofs
    Mdl_Upgrade Mdl_Store_Proofs Mdl_Context
begin

text \<open>
  \<^bold>\<open>Verified parts of the MySQL server, version 8.0.42\<close>

  The development models parts of the server that are self-contained, stateful or
  arithmetically delicate, and on which replication and locking rest. All paths are below
  \<open>src/mysql-8.0.42\<close>. Data, operations and branches follow the C++ text; operations of a class
  are functions that take the object as a record and return the new one.

  \<^bold>\<open>Conventions.\<close> C integers are \<open>int\<close> with the wrap-around written out by \<open>u8\<close>, \<open>u32\<close>, \<open>u64\<close>,
  \<open>s32\<close>, \<open>s64\<close> (theory \<open>Prelude\<close>) where a value may leave its type; signed division is \<open>sdiv\<close>
  and \<open>smod\<close>. A byte buffer is the list of its bytes. A C string is its characters before
  the NUL. A failing call is a result value; a read out of bounds or through a null pointer
  is \<open>None\<close> or a result of its own. Allocation is an argument (\<open>mem_env\<close>), so both
  outcomes are covered. Code that runs under a mutex is atomic.

  \<^bold>\<open>Replication streams.\<close>
  \<^item> \<open>Trx_Boundary\<close>: \<open>Transaction_boundary_parser\<close> of \<open>libbinlogevents/src/trx_boundary_parser.cpp\<close>, with the event types of \<open>binlog_event.h\<close>:
    classification of events (\<open>get_event_boundary_type\<close>), the transition table
    (\<open>state_transition\<close>, the source's \<open>update_state\<close>), \<open>feed_event\<close>, \<open>rollback\<close>. A stream is accepted without
    a warning exactly when it is in a grammar of transactions; what a rollback undoes; when
    the error state is entered; row events are only counted inside a transaction.

  \<^bold>\<open>Global transaction identifiers.\<close> A GTID is a server UUID (SID) and a number (GNO). A set of
  them keeps, for each SID, a sorted list of disjoint intervals, indexed by a small number
  (SIDNO) that a map assigns; two sets may have different maps.
  \<^item> \<open>Uuid\<close> (\<open>libbinlogevents/src/uuid.cpp\<close>): parsing, printing, comparison; the round trip, and the
    texts that are parsed, in the three formats the code takes.
  \<^item> \<open>Sid_Map\<close> (\<open>sql/rpl_gtid_sid_map.cc\<close>): a SID keeps its SIDNO, the sorted array stays sorted,
    \<open>copy\<close> gives an equal map, and what is left behind when an array cannot be resized.
  \<^item> \<open>Gtid_Intervals\<close>, \<open>Gtid_Set\<close>, \<open>Gtid_Algebra\<close>, \<open>Gtid_Equality\<close> (\<open>sql/rpl_gtid_set.cc\<close>,
    \<open>sql/rpl_gtid.h\<close>): the interval lists and their iterators, the interface \<open>gno_set\<close> (interpreted
    as \<open>ivs\<close>), the operations on sets with one map and with two. Addition, removal,
    intersection, subset, disjointness, membership and equality are the operations on
    the sets of transactions. Removal across two maps, and with it intersection, indexes
    beyond the array of the set exactly in the case \<open>beyond_array\<close>, which is \<open>None\<close>; the equality
    test is exact within the bounds of the last theory.
  \<^item> \<open>Gtid_Encoding\<close>: the binary form; reading back what was written gives the same transactions,
    in exactly the announced length. The counters of the decoder and of the length are 32 bits
    wide as in the code; \<open>encodable\<close> says when they suffice and \<open>encoded_length_overflow\<close> what
    happens when they do not.
  \<^item> \<open>Gtid_Text\<close>, \<open>Gtid_Text_Proofs\<close>: the text form; the validator agrees with the reader, printing and
    reading back is the identity on transactions, and the cached length of the text is exact
    after every operation that changes the set, as long as the counts fit an \<open>int\<close>
    (\<open>text_countable\<close>).

  \<^bold>\<open>Table locks.\<close>
  \<^item> \<open>Thr_Lock\<close>, \<open>Thr_Lock_Safety\<close> (\<open>mysys/thr_lock.cc\<close>, \<open>include/thr_lock.h\<close>): a lock with its two
    queues of active and two of waiting requests. The step relation \<open>thr_step\<close> has one rule per
    operation; mutual exclusion and the absence of lost wake-ups are invariants of
    every reachable state, through the interface \<open>transition_system\<close>. Requests for
    several tables are sorted in one global order.

  \<^bold>\<open>Metadata locks\<close> (\<open>sql/mdl.cc\<close>, \<open>sql/mdl.h\<close>).
  \<^item> \<open>Mdl_Types\<close>, \<open>Mdl_Lock\<close>, \<open>Mdl_Lock_Proofs\<close>, \<open>Mdl_Upgrade\<close>: the types of locks with their
    compatibility and priority matrices, the state of one \<open>MDL_lock\<close> with its packed word of fast-path
    counters, granting, waiting, rescheduling, and the operations of one lock an upgrade or a
    downgrade consists of; the granted set stays compatible.
  \<^item> \<open>Mdl_Store\<close>, \<open>Mdl_Store_Proofs\<close>, \<open>Mdl_Context\<close>: the lists of tickets of a connection by
    duration, with the hash that is used from a number of tickets on, and the operations of
    \<open>MDL_context\<close> over all locks.

  \<^bold>\<open>Integers.\<close>
  \<^item> \<open>Byteorder\<close> (\<open>include/my_byteorder.h\<close>, \<open>big_endian.h\<close>, \<open>myisampack.h\<close>, \<open>mysys/pack.cc\<close>): stores and loads of every
    width through the interface \<open>codec\<close>, the order of big-endian keys under \<open>memcmp\<close>, and
    length-encoded integers.
  \<^item> \<open>Integer_Text\<close> (\<open>include/integer_digits.h\<close>, \<open>strings/int2str.cc\<close>, \<open>strings/my_strtoll10.cc\<close>): writing and
    parsing decimal numbers; the chunked parser equals a direct definition of the value of a text
    on every input, overflow included.

  \<^bold>\<open>Temporal values\<close> (\<open>mysys/my_time.cc\<close>, \<open>include/my_time.h\<close>, \<open>include/mysql_time.h\<close>).
  \<^item> \<open>Calendar\<close>: day numbers, weekdays, week numbers, periods; day numbers and dates correspond, and
    week numbers are those of the first day of the week and the rule for the first week.
  \<^item> \<open>Temporal\<close>, \<open>Temporal_Packed\<close>, \<open>Temporal_Stored\<close>: the structure \<open>MYSQL_TIME\<close> with its range checks, the
    packed numbers that values are compared by, their stored bytes; order and round trips.
  \<^item> \<open>Temporal_Arith\<close>, \<open>Temporal_Arith_Proofs\<close>, \<open>Temporal_Rounding\<close>, \<open>Temporal_Numbers\<close>: adding intervals,
    differences, rounding to a number of fractional digits, decimal numbers. Each
    operation is compared with its effect on a count of microseconds, and the reader of
    numbers with the digits of the number.
  \<^item> \<open>Temporal_Text\<close>, \<open>Temporal_Text_Proofs\<close>: \<open>str_to_datetime\<close>, \<open>str_to_time\<close> with their warnings and
    deprecations, and the printers; what is printed is read back without a warning.

  \<^bold>\<open>Termination and bounds.\<close> Every function is total: loops are structural recursions, or have a
  measure (the length of the rest of a text, a number that is divided). There is no fuel.
  The memory of a machine bounds lists where a theorem says so (the bytes of the
  intervals of one SID below \<open>2 ^ 31\<close>, positions below \<open>2 ^ 63\<close>).

  \<^bold>\<open>Not modelled.\<close> The lists of free intervals and the locks of \<open>Gtid_set\<close>; debug output and
  assertions; engine callbacks and the loops over several locks of \<open>thr_lock.cc\<close>; radix
  conversion other than decimal in \<open>int2str.cc\<close>; conversion to and from the system's time zone
  and to floating point in \<open>my_time.cc\<close>. The rest of the server is not
  modelled: parser, optimizer and executor, InnoDB and the other storage engines, binary log
  files, network, plugins and client programs. Most of it is I/O, threads or generated
  code, or is only meaningful with the parts it drives.
\<close>

end
